(* ===== verification/Os_Base.thy ===== *)
theory Os_Base
  imports Main "HOL-Library.Word"
begin

text \<open>
  Shared vocabulary of the development. The kernel is compiled with \<^verbatim>\<open>DEBUG\<close>
  (\<^verbatim>\<open>Makefile.kernel\<close>), so an \<^verbatim>\<open>ASSERT\<close> that fails prints a message and stops
  the machine. A kernel routine is a function into \<open>stop + 'a\<close>: \<open>Inr\<close> is a normal return,
  \<open>Inl\<close> says why the machine does not return from the routine. \<open>rbind\<close> sequences routines.
  The theory also holds byte memories (with little-endian access) and the lemmas about
  lists and words that several components use.
\<close>

section \<open>Results of kernel routines\<close>

datatype stop =
    Halt              \<comment> \<open>failed \<^verbatim>\<open>ASSERT\<close> or an explicit \<^verbatim>\<open>halt()\<close>\<close>
  | Out_of_bounds     \<comment> \<open>an access outside of an array or object, or through \<^verbatim>\<open>NULL\<close>\<close>
  | Wild_jump         \<comment> \<open>a call through a pointer that is no kernel function\<close>
  | Out_of_fuel       \<comment> \<open>the bound on the number of loop iterations was reached\<close>

type_synonym 'a res = "stop + 'a"

definition rbind :: "'a res \<Rightarrow> ('a \<Rightarrow> 'b res) \<Rightarrow> 'b res" where
  "rbind m f = (case m of Inl e \<Rightarrow> Inl e | Inr x \<Rightarrow> f x)"

named_theorems res_simps \<open>equations for sequencing results\<close>

lemma rbind_Inr [simp, res_simps]: "rbind (Inr x) f = f x"
  by (simp add: rbind_def)

lemma rbind_Inl [simp, res_simps]: "rbind (Inl e) f = Inl e"
  by (simp add: rbind_def)

lemma rbind_eq_Inr: "rbind m f = Inr y \<longleftrightarrow> (\<exists>x. m = Inr x \<and> f x = Inr y)"
  by (cases m) auto

lemma rbind_eq_InrE:
  assumes "rbind m f = Inr y"
  obtains x where "m = Inr x" and "f x = Inr y"
  using assms by (auto simp: rbind_eq_Inr)

lemma rbind_assoc [res_simps]: "rbind (rbind m f) g = rbind m (\<lambda>x. rbind (f x) g)"
  by (cases m) auto

lemma rbind_if [res_simps]:
  "rbind (if b then m else k) f = (if b then rbind m f else rbind k f)"
  by simp

lemma rbind_cong [fundef_cong]:
  "m = m' \<Longrightarrow> (\<And>x. m' = Inr x \<Longrightarrow> f x = f' x) \<Longrightarrow> rbind m f = rbind m' f'"
  by (cases m') auto

text \<open>\<^verbatim>\<open>ASSERT(expr)\<close> (\<^verbatim>\<open>kernel/errno.h\<close>).\<close>

definition ASSERT :: "bool \<Rightarrow> unit res" where
  "ASSERT b = (if b then Inr () else Inl Halt)"

lemma ASSERT_simps [simp, res_simps]:
  "ASSERT True = Inr ()" "ASSERT False = Inl Halt"
  by (simp_all add: ASSERT_def)

lemma ASSERT_eq_Inr: "ASSERT b = Inr u \<longleftrightarrow> b"
  by (simp add: ASSERT_def)

lemma rbind_ASSERT_eq_Inr: "rbind (ASSERT b) f = Inr y \<longleftrightarrow> b \<and> f () = Inr y"
  by (cases b) auto

section \<open>C values on i386\<close>

type_synonym u8 = "8 word"
type_synonym u32 = "32 word"

text \<open>An \<^verbatim>\<open>int\<close> after arithmetic, and an \<^verbatim>\<open>unsigned int\<close>. Overflow of a signed operation is undefined in C; the model takes what the
  machine instruction gives, the value modulo \<open>2 ^ 32\<close> in two's complement. \<open>in_int\<close> are the values of an \<^verbatim>\<open>int\<close>.\<close>

definition int32 :: "int \<Rightarrow> int" where
  "int32 v = sint (word_of_int v :: u32)"

definition uint32 :: "int \<Rightarrow> nat" where
  "uint32 v = unat (word_of_int v :: u32)"

definition in_int :: "int \<Rightarrow> bool" where
  "in_int v \<longleftrightarrow> - (2 ^ 31) \<le> v \<and> v < 2 ^ 31"

lemma int32_id: "- (2 ^ 31) \<le> v \<Longrightarrow> v < 2 ^ 31 \<Longrightarrow> int32 v = v"
  by (simp add: int32_def int_word_sint)

lemma int32_in_int: "in_int v \<Longrightarrow> int32 v = v"
  by (simp add: in_int_def int32_id)

lemma in_int_int32 [simp]: "in_int (int32 v)"
  using sint_greater_eq [of "word_of_int v :: u32"] sint_less [of "word_of_int v :: u32"] by (simp add: in_int_def int32_def)

lemma int32_mod: "int32 v mod 2 ^ 32 = v mod 2 ^ 32"
  unfolding int32_def using uint_sint [of "word_of_int v :: u32"] by (simp add: take_bit_eq_mod uint_word_of_int)

lemma int32_wrap: "\<exists>k. int32 v = v + k * 2 ^ 32"
proof -
  have "2 ^ 32 dvd int32 v - v" using int32_mod [of v] by (simp add: mod_eq_dvd_iff)
  then obtain k where "int32 v - v = 2 ^ 32 * k" by (elim dvdE)
  then show ?thesis by (intro exI [of _ k]) simp
qed

text \<open>The bound for loops that follow pointers: there are fewer distinct addresses.\<close>

abbreviation adr_space :: nat where
  "adr_space \<equiv> 2 ^ 32"

definition nat_of_bool :: "bool \<Rightarrow> nat" where
  "nat_of_bool b = (if b then 1 else 0)"

section \<open>Byte memories\<close>

type_synonym bmem = "nat \<Rightarrow> u8"

definition ld32 :: "bmem \<Rightarrow> nat \<Rightarrow> u32" where
  "ld32 m a = ucast (m a) + ucast (m (a + 1)) * 256
     + ucast (m (a + 2)) * 65536 + ucast (m (a + 3)) * 16777216"

definition st32 :: "bmem \<Rightarrow> nat \<Rightarrow> u32 \<Rightarrow> bmem" where
  "st32 m a w = m(a := ucast w, a + 1 := ucast (drop_bit 8 w),
     a + 2 := ucast (drop_bit 16 w), a + 3 := ucast (drop_bit 24 w))"

lemma base256_digits:
  assumes "(n::nat) < 4294967296"
  shows "n mod 256 + n div 256 mod 256 * 256 + n div 65536 mod 256 * 65536
    + n div 16777216 mod 256 * 16777216 = n"
proof -
  have d1: "n = n mod 256 + 256 * (n div 256)" by simp
  have d2: "n div 256 = n div 256 mod 256 + 256 * (n div 65536)"
    using mod_mult_div_eq [of "n div 256" 256] by (simp flip: div_mult2_eq)
  have d3: "n div 65536 = n div 65536 mod 256 + 256 * (n div 16777216)"
    using mod_mult_div_eq [of "n div 65536" 256] by (simp flip: div_mult2_eq)
  have d4: "n div 16777216 mod 256 = n div 16777216"
    using assms by (intro mod_less) (simp add: less_mult_imp_div_less)
  show ?thesis using d1 d2 d3 d4 by linarith
qed

lemma word32_bytes:
  "(ucast (ucast w :: u8) :: u32) + ucast (ucast (drop_bit 8 w) :: u8) * 256
     + ucast (ucast (drop_bit 16 w) :: u8) * 65536
     + ucast (ucast (drop_bit 24 w) :: u8) * 16777216 = w"
proof -
  let ?n = "unat w"
  have b: "?n < 2 ^ 32" using unsigned_less [of w, where ?'a = nat] by simp
  have u: "unat (ucast (ucast (drop_bit k w) :: u8) :: u32) = (?n div 2 ^ k) mod 256" for k
    by (simp add: unsigned_ucast_eq, simp add: unsigned_take_bit_eq unsigned_drop_bit_eq,
        simp add: take_bit_eq_mod drop_bit_eq_div b [simplified])
  have v: "(ucast (ucast (drop_bit k w) :: u8) :: u32) = of_nat ((?n div 2 ^ k) mod 256)" for k
    by (simp only: u [symmetric] of_nat_unat ucast_id)
  have "w = of_nat (?n mod 256 + ?n div 256 mod 256 * 256 + ?n div 65536 mod 256 * 65536
    + ?n div 16777216 mod 256 * 16777216)"
    using base256_digits [of ?n] b by simp
  also have "\<dots> = of_nat (?n mod 256) + of_nat (?n div 256 mod 256) * 256
    + of_nat (?n div 65536 mod 256) * 65536 + of_nat (?n div 16777216 mod 256) * 16777216"
    by (simp only: of_nat_add of_nat_mult of_nat_numeral)
  finally show ?thesis
    using v [of 0] v [of 8] v [of 16] v [of 24] by simp
qed

lemma ld32_st32_same: "ld32 (st32 m a w) a = w"
  using word32_bytes [of w] by (simp add: ld32_def st32_def)

lemma st32_other: "x \<notin> {a, a + 1, a + 2, a + 3} \<Longrightarrow> st32 m a w x = m x"
  by (auto simp: st32_def)

lemma ld32_cong: "(\<And>i. i < 4 \<Longrightarrow> m (a + i) = m' (a + i)) \<Longrightarrow> ld32 m a = ld32 m' a"
proof -
  assume *: "\<And>i. i < 4 \<Longrightarrow> m (a + i) = m' (a + i)"
  show ?thesis
    using * [of 0] * [of 1] * [of 2] * [of 3] by (simp add: ld32_def)
qed

lemma ld32_st32_other: "a + 4 \<le> b \<or> b + 4 \<le> a \<Longrightarrow> ld32 (st32 m a w) b = ld32 m b"
  by (auto simp: ld32_def st32_def)

section \<open>Lists\<close>

lemma distinct_split: "x \<in> set xs \<Longrightarrow> distinct xs \<Longrightarrow>
  \<exists>us vs. xs = us @ x # vs \<and> x \<notin> set us \<and> x \<notin> set vs"
  by (metis distinct.simps(2) distinct_append not_distinct_conv_prefix split_list_first)

lemma remove1_split: "x \<notin> set us \<Longrightarrow> remove1 x (us @ x # vs) = us @ vs"
  by (simp add: remove1_append)

lemma distinct_length_bound:
  assumes "distinct xs" and "\<forall>x\<in>set xs. x < (b::nat)"
  shows "length xs \<le> b"
proof -
  have "set xs \<subseteq> {..<b}" using assms(2) by auto
  then have "card (set xs) \<le> card {..<b}" by (rule card_mono [rotated]) simp
  then show ?thesis using assms(1) by (simp add: distinct_card)
qed

end
