(* ===== verification/Os_List.thy ===== *)
theory Os_List
  imports Os_Base
begin

text \<open>
  Intrusive doubly linked lists, \<^verbatim>\<open>lib/list.h\<close> and \<^verbatim>\<open>lib/list.c\<close>. A list element
  \<^verbatim>\<open>list_h\<close> lives inside the listed object; here a heap maps the address of an element
  to its three fields, and address 0 is \<^verbatim>\<open>NULL\<close>. The list header \<^verbatim>\<open>list_t\<close> is a value that
  the operations return updated, beside the heap. Every pointer assignment of the C
  code is one heap update, in the order of the code.
  \<open>dl_list h l xs\<close> says that header \<open>l\<close> represents the sequence \<open>xs\<close> of element addresses;
  the theorems show that each operation implements the operation on sequences, and that
  many lists can share one heap as long as no element is in two of them.
\<close>

section \<open>Data and operations\<close>

record list_h =
  prev :: nat
  "next" :: nat
  object :: nat

record list_t =
  first :: nat
  last :: nat

type_synonym lheap = "nat \<Rightarrow> list_h"

abbreviation (input) LIST_FIRST :: nat where "LIST_FIRST \<equiv> 0"
abbreviation (input) LIST_LAST :: nat where "LIST_LAST \<equiv> 1"

abbreviation set_prev :: "nat \<Rightarrow> nat \<Rightarrow> lheap \<Rightarrow> lheap" where
  "set_prev x v h \<equiv> h(x := (h x)\<lparr>prev := v\<rparr>)"

abbreviation set_next :: "nat \<Rightarrow> nat \<Rightarrow> lheap \<Rightarrow> lheap" where
  "set_next x v h \<equiv> h(x := (h x)\<lparr>next := v\<rparr>)"

abbreviation set_object :: "nat \<Rightarrow> nat \<Rightarrow> lheap \<Rightarrow> lheap" where
  "set_object x v h \<equiv> h(x := (h x)\<lparr>object := v\<rparr>)"

definition list_init :: "list_t" where
  "list_init = \<lparr>first = 0, last = 0\<rparr>"

definition list_append :: "list_t \<Rightarrow> nat \<Rightarrow> nat \<Rightarrow> lheap \<Rightarrow> (list_t \<times> lheap) res" where
  "list_append l obj hdr h =
     (if obj = 0 \<or> hdr = 0 then Inl Halt
      else
        let h = set_object hdr obj h;
            h = set_next hdr 0 h
        in if first l \<noteq> 0 then
             let h = set_next (last l) hdr h;
                 h = set_prev hdr (last l) h
             in Inr (l\<lparr>last := hdr\<rparr>, h)
           else Inr (\<lparr>first = hdr, last = hdr\<rparr>, set_prev hdr 0 h))"

definition list_prepend :: "list_t \<Rightarrow> nat \<Rightarrow> nat \<Rightarrow> lheap \<Rightarrow> (list_t \<times> lheap) res" where
  "list_prepend l obj hdr h =
     (if obj = 0 \<or> hdr = 0 then Inl Halt
      else
        let h = set_object hdr obj h;
            h = set_prev hdr 0 h;
            h = set_next hdr (first l) h
        in if first l \<noteq> 0
           then Inr (l\<lparr>first := hdr\<rparr>, set_prev (first l) hdr h)
           else Inr (\<lparr>first = hdr, last = hdr\<rparr>, h))"

text \<open>The search loop of \<^verbatim>\<open>list_sort_add\<close>; \<open>cmp\<close> compares objects.\<close>

fun sort_search :: "(nat \<Rightarrow> nat \<Rightarrow> int) \<Rightarrow> nat \<Rightarrow> nat \<Rightarrow> nat \<Rightarrow> lheap \<Rightarrow> nat res" where
  "sort_search cmp 0 obj iter h = Inl Out_of_fuel"
| "sort_search cmp (Suc n) obj iter h =
     (if iter \<noteq> 0 \<and> cmp obj (object (h iter)) \<ge> 0
      then sort_search cmp n obj (next (h iter)) h
      else Inr iter)"

definition list_sort_add ::
  "(nat \<Rightarrow> nat \<Rightarrow> int) \<Rightarrow> list_t \<Rightarrow> nat \<Rightarrow> nat \<Rightarrow> lheap \<Rightarrow> (list_t \<times> lheap) res" where
  "list_sort_add cmp l obj hdr h =
     (if obj = 0 \<or> hdr = 0 then Inl Halt
      else
        let h = set_object hdr obj h;
            start = (if last l \<noteq> 0 \<and> cmp obj (object (h (last l))) \<ge> 0 then 0 else first l)
        in rbind (sort_search cmp adr_space obj start h) (\<lambda>iter.
           let h = set_next hdr iter h
           in if iter \<noteq> 0 then
                let h = set_prev hdr (prev (h iter)) h
                in if prev (h iter) \<noteq> 0
                   then let h = set_next (prev (h iter)) hdr h
                        in Inr (l, set_prev iter hdr h)
                   else Inr (l\<lparr>first := hdr\<rparr>, set_prev iter hdr h)
              else if last l \<noteq> 0 then
                let h = set_prev hdr (last l) h;
                    h = set_next (last l) hdr h
                in Inr (l\<lparr>last := hdr\<rparr>, h)
              else Inr (\<lparr>first = hdr, last = hdr\<rparr>, set_prev hdr 0 h)))"

definition list_get :: "list_t \<Rightarrow> nat \<Rightarrow> lheap \<Rightarrow> nat" where
  "list_get l flags h =
     (let hdr = (if odd flags then last l else first l)
      in if hdr \<noteq> 0 then object (h hdr) else 0)"

definition list_get_next :: "nat \<Rightarrow> lheap \<Rightarrow> nat" where
  "list_get_next hdr h =
     (if hdr = 0 \<or> next (h hdr) = 0 then 0 else object (h (next (h hdr))))"

definition list_remove :: "list_t \<Rightarrow> nat \<Rightarrow> nat \<Rightarrow> lheap \<Rightarrow> nat \<times> list_t \<times> lheap" where
  "list_remove l flags ref h =
     (let hdr = (if ref \<noteq> 0 then ref else if odd flags then last l else first l)
      in if hdr \<noteq> 0 then
           let h = (if prev (h hdr) \<noteq> 0 then set_next (prev (h hdr)) (next (h hdr)) h else h);
               h = (if next (h hdr) \<noteq> 0 then set_prev (next (h hdr)) (prev (h hdr)) h else h);
               l = (if first l = hdr then l\<lparr>first := next (h hdr)\<rparr> else l);
               l = (if last l = hdr then l\<lparr>last := prev (h hdr)\<rparr> else l)
           in (object (h hdr), l, h)
         else (0, l, h))"

section \<open>Segments\<close>

primrec dseg :: "lheap \<Rightarrow> nat \<Rightarrow> nat list \<Rightarrow> nat \<Rightarrow> bool" where
  "dseg h p [] n = True"
| "dseg h p (x # xs) n =
     (x \<noteq> 0 \<and> prev (h x) = p \<and> next (h x) = (if xs = [] then n else hd xs) \<and> dseg h x xs n)"

definition hd0 :: "nat list \<Rightarrow> nat" where
  "hd0 xs = (case xs of [] \<Rightarrow> 0 | x # _ \<Rightarrow> x)"

definition last0 :: "nat list \<Rightarrow> nat" where
  "last0 xs = (if xs = [] then 0 else List.last xs)"

definition dl_list :: "lheap \<Rightarrow> list_t \<Rightarrow> nat list \<Rightarrow> bool" where
  "dl_list h l xs \<longleftrightarrow>
     first l = hd0 xs \<and> last l = last0 xs \<and> dseg h 0 xs 0 \<and> distinct xs"

lemma hd0_simps [simp]: "hd0 [] = 0" "hd0 (x # xs) = x"
  by (simp_all add: hd0_def)

lemma last0_simps [simp]: "last0 [] = 0" "last0 [x] = x" "last0 (xs @ [x]) = x"
  by (simp_all add: last0_def)

lemma last0_Cons: "last0 (x # xs) = (if xs = [] then x else last0 xs)"
  by (simp add: last0_def)

lemma last0_append: "last0 (xs @ ys) = (if ys = [] then last0 xs else last0 ys)"
  by (simp add: last0_def)

lemma hd0_append: "hd0 (xs @ ys) = (if xs = [] then hd0 ys else hd0 xs)"
  by (cases xs) simp_all

lemma last0_in: "xs \<noteq> [] \<Longrightarrow> last0 xs \<in> set xs"
  by (simp add: last0_def)

lemma last0_eq_0: "0 \<notin> set xs \<Longrightarrow> last0 xs = 0 \<longleftrightarrow> xs = []"
  using last0_in by (metis last0_simps(1))

lemma hd0_eq_0: "0 \<notin> set xs \<Longrightarrow> hd0 xs = 0 \<longleftrightarrow> xs = []"
  by (cases xs) auto

lemma dseg_nonzero: "dseg h p xs n \<Longrightarrow> 0 \<notin> set xs"
  by (induction xs arbitrary: p) auto

lemma dseg_cong:
  "(\<And>x. x \<in> set xs \<Longrightarrow> prev (h x) = prev (h' x) \<and> next (h x) = next (h' x)) \<Longrightarrow>
   dseg h p xs n = dseg h' p xs n"
  by (induction xs arbitrary: p) auto

lemma dseg_append:
  "dseg h p (xs @ ys) n \<longleftrightarrow>
     dseg h p xs (if ys = [] then n else hd0 ys) \<and>
     dseg h (if xs = [] then p else last0 xs) ys n"
  by (induction xs arbitrary: p) (auto simp: hd0_def last0_def split: list.splits)

lemma dseg_frame:
  "z \<notin> set xs \<Longrightarrow> dseg (h(z := r)) p xs n = dseg h p xs n"
  by (rule dseg_cong) auto

lemma dseg_object: "dseg (set_object z v h) p xs n = dseg h p xs n"
  by (rule dseg_cong) auto

lemma dseg_set_next_last:
  "dseg h p xs n \<Longrightarrow> distinct xs \<Longrightarrow> xs \<noteq> [] \<Longrightarrow>
   dseg (set_next (last0 xs) m h) p xs m"
proof (induction xs arbitrary: p)
  case (Cons x xs)
  show ?case
  proof (cases "xs = []")
    case True
    with Cons.prems show ?thesis by (simp add: last0_Cons)
  next
    case False
    with Cons.prems have "last0 xs \<in> set xs" and "x \<notin> set xs" by (auto simp: last0_in)
    then have "last0 xs \<noteq> x" by auto
    with Cons False show ?thesis by (simp add: last0_Cons)
  qed
qed simp

lemma dseg_set_prev_hd:
  "dseg h p xs n \<Longrightarrow> distinct xs \<Longrightarrow> xs \<noteq> [] \<Longrightarrow>
   dseg (set_prev (hd0 xs) q h) q xs n"
  by (cases xs) (auto simp: dseg_frame)

lemma dseg_last_next: "dseg h p xs n \<Longrightarrow> xs \<noteq> [] \<Longrightarrow> next (h (last0 xs)) = n"
  by (induction xs arbitrary: p) (auto simp: last0_Cons)

lemma dseg_hd_prev: "dseg h p xs n \<Longrightarrow> xs \<noteq> [] \<Longrightarrow> prev (h (hd0 xs)) = p"
  by (cases xs) auto

lemma dseg_middle:
  "dseg h p (us @ x # vs) n \<longleftrightarrow>
     dseg h p us x \<and> x \<noteq> 0 \<and> prev (h x) = (if us = [] then p else last0 us) \<and>
     next (h x) = (if vs = [] then n else hd0 vs) \<and> dseg h x vs n"
  by (auto simp: dseg_append hd0_def split: list.splits)

section \<open>Each operation implements the operation on sequences\<close>

lemma dl_list_init: "dl_list h list_init []"
  by (simp add: dl_list_def list_init_def)

lemma dl_list_nonzero: "dl_list h l xs \<Longrightarrow> 0 \<notin> set xs"
  by (auto simp: dl_list_def dest: dseg_nonzero)

lemma dl_list_first_0: "dl_list h l xs \<Longrightarrow> first l = 0 \<longleftrightarrow> xs = []"
  by (cases xs) (auto simp: dl_list_def)

lemma dl_list_cong:
  "(\<And>x. x \<in> set xs \<Longrightarrow> prev (h x) = prev (h' x) \<and> next (h x) = next (h' x)) \<Longrightarrow>
   dl_list h l xs = dl_list h' l xs"
  using dseg_cong [of xs h h' 0 0] by (simp add: dl_list_def)

lemma list_append_correct:
  assumes "dl_list h l xs" and "hdr \<notin> set xs" and "hdr \<noteq> 0" and "obj \<noteq> 0"
  shows "\<exists>l' h'. list_append l obj hdr h = Inr (l', h') \<and> dl_list h' l' (xs @ [hdr]) \<and>
    object (h' hdr) = obj \<and>
    (\<forall>x. x \<notin> set xs \<and> x \<noteq> hdr \<longrightarrow> h' x = h x) \<and> (\<forall>x. x \<noteq> hdr \<longrightarrow> object (h' x) = object (h x))"
proof (cases "xs = []")
  case True
  with assms show ?thesis
    by (simp add: list_append_def dl_list_def Let_def)
next
  case False
  let ?h1 = "set_next hdr 0 (set_object hdr obj h)"
  let ?h2 = "set_next (last0 xs) hdr ?h1"
  have l: "last0 xs \<in> set xs" "last0 xs \<noteq> hdr" using False assms(2) last0_in by auto
  have "dseg ?h1 0 xs 0" using assms by (simp add: dl_list_def dseg_frame)
  then have "dseg ?h2 0 xs hdr"
    using assms(1) False by (intro dseg_set_next_last) (auto simp: dl_list_def)
  then have "dseg (set_prev hdr (last0 xs) ?h2) 0 xs hdr"
    by (simp only: dseg_frame [OF assms(2)])
  then have "dseg (set_prev hdr (last0 xs) ?h2) 0 (xs @ [hdr]) 0"
    using False l assms(3) by (simp add: dseg_append)
  moreover have "first l \<noteq> 0" "last l = last0 xs"
    using assms(1) False dl_list_first_0 by (auto simp: dl_list_def)
  ultimately show ?thesis
    using assms False l by (cases l) (auto simp: list_append_def dl_list_def hd0_append Let_def)
qed

lemma list_prepend_correct:
  assumes "dl_list h l xs" and "hdr \<notin> set xs" and "hdr \<noteq> 0" and "obj \<noteq> 0"
  shows "\<exists>l' h'. list_prepend l obj hdr h = Inr (l', h') \<and> dl_list h' l' (hdr # xs) \<and>
    object (h' hdr) = obj \<and>
    (\<forall>x. x \<notin> set xs \<and> x \<noteq> hdr \<longrightarrow> h' x = h x) \<and> (\<forall>x. x \<noteq> hdr \<longrightarrow> object (h' x) = object (h x))"
proof (cases xs)
  case Nil
  with assms show ?thesis
    by (simp add: list_prepend_def dl_list_def)
next
  case (Cons y ys)
  let ?h1 = "h(hdr := (h hdr)\<lparr>object := obj, prev := 0, next := y\<rparr>)"
  have "dseg ?h1 0 xs 0" using assms by (simp add: dl_list_def dseg_frame)
  then have "dseg (set_prev (hd0 xs) hdr ?h1) hdr xs 0"
    using assms(1) Cons by (intro dseg_set_prev_hd) (auto simp: dl_list_def)
  moreover have "first l = y" "y \<noteq> hdr" "y \<noteq> 0"
    using assms(1,2) Cons by (auto simp: dl_list_def)
  ultimately show ?thesis
    using assms Cons
    by (cases l) (auto simp: list_prepend_def dl_list_def Let_def last0_Cons)
qed


lemma list_get_first: "dl_list h l xs \<Longrightarrow>
  list_get l LIST_FIRST h = (if xs = [] then 0 else object (h (hd xs)))"
  by (cases xs) (auto simp: list_get_def dl_list_def)

lemma list_get_last: "dl_list h l xs \<Longrightarrow>
  list_get l LIST_LAST h = (if xs = [] then 0 else object (h (List.last xs)))"
  using dl_list_nonzero [of h l xs]
  by (cases "xs = []") (auto simp: list_get_def dl_list_def last0_def Let_def dest: last_in_set)

lemma list_get_next_correct:
  assumes "dl_list h l (us @ x # vs)"
  shows "list_get_next x h = (if vs = [] then 0 else object (h (hd vs)))"
proof -
  have "x \<noteq> 0" "next (h x) = (if vs = [] then 0 else hd0 vs)"
    using assms by (auto simp: dl_list_def dseg_middle)
  moreover have "vs \<noteq> [] \<Longrightarrow> hd0 vs \<noteq> 0"
    using dl_list_nonzero [OF assms] by (cases vs) auto
  ultimately show ?thesis by (cases vs) (auto simp: list_get_next_def)
qed

lemma dl_list_unlink:
  assumes d: "dl_list h l (us @ r # vs)"
    and h1: "h1 = (if us = [] then h else set_next (last0 us) (hd0 vs) h)"
    and h2: "h2 = (if vs = [] then h1 else set_prev (hd0 vs) (last0 us) h1)"
  shows "dseg h2 0 (us @ vs) 0"
    and "h2 r = h r"
    and "x \<notin> set us \<Longrightarrow> x \<notin> set vs \<Longrightarrow> h2 x = h x"
    and "object (h2 y) = object (h y)"
proof -
  from d have m: "dseg h 0 us r" "dseg h r vs 0"
    and dist: "distinct us" "distinct vs" "set us \<inter> set vs = {}" "r \<notin> set us" "r \<notin> set vs"
    by (auto simp: dl_list_def dseg_middle)
  have lu: "us \<noteq> [] \<Longrightarrow> last0 us \<in> set us" by (rule last0_in)
  have hv: "vs \<noteq> [] \<Longrightarrow> hd0 vs \<in> set vs" by (cases vs) auto
  have u1: "dseg h1 0 us (hd0 vs)"
    using m(1) dist(1) by (auto simp: h1 intro: dseg_set_next_last)
  have v1: "dseg h1 r vs 0"
  proof (cases "us = []")
    case False
    then have "last0 us \<notin> set vs" using lu dist(3) by auto
    with m(2) False show ?thesis by (simp add: h1 dseg_frame)
  qed (simp add: h1 m(2))
  have u2: "dseg h2 0 us (hd0 vs)"
  proof (cases "vs = []")
    case False
    then have "hd0 vs \<notin> set us" using hv dist(3) by auto
    with u1 False show ?thesis by (simp add: h2 dseg_frame)
  qed (use u1 h2 in simp)
  have v2: "dseg h2 (last0 us) vs 0"
    using v1 dist(2) by (cases "vs = []") (auto simp: h2 intro: dseg_set_prev_hd)
  show "dseg h2 0 (us @ vs) 0"
    using u2 v2 by (auto simp: dseg_append hd0_def last0_def split: list.splits)
  show "h2 r = h r" "x \<notin> set us \<Longrightarrow> x \<notin> set vs \<Longrightarrow> h2 x = h x"
    using lu hv dist by (auto simp: h1 h2)
  show "object (h2 y) = object (h y)" by (simp add: h1 h2)
qed

lemma list_remove_ref:
  assumes d: "dl_list h l (us @ r # vs)"
  shows "\<exists>l' h'. list_remove l fl r h = (object (h r), l', h') \<and> dl_list h' l' (us @ vs) \<and>
    (\<forall>x. x \<notin> set us \<and> x \<notin> set vs \<longrightarrow> h' x = h x) \<and> (\<forall>x. object (h' x) = object (h x))"
proof -
  define h1 where "h1 = (if us = [] then h else set_next (last0 us) (hd0 vs) h)"
  define h2 where "h2 = (if vs = [] then h1 else set_prev (hd0 vs) (last0 us) h1)"
  note un = dl_list_unlink [OF d h1_def h2_def]
  have nz: "0 \<notin> set (us @ r # vs)" by (rule dl_list_nonzero [OF d])
  have pr: "prev (h r) = last0 us" "next (h r) = hd0 vs" and dist: "r \<notin> set us" "r \<notin> set vs"
    and fl: "first l = hd0 (us @ [r])" "last l = last0 (r # vs)" "distinct (us @ vs)"
    using d by (auto simp: dl_list_def dseg_middle hd0_append last0_append last0_Cons)
  have pz: "last0 us = 0 \<longleftrightarrow> us = []" "hd0 vs = 0 \<longleftrightarrow> vs = []"
    using nz by (simp_all add: last0_eq_0 hd0_eq_0)
  have r0: "r \<noteq> 0" using nz by auto
  have lur: "us \<noteq> [] \<Longrightarrow> last0 us \<noteq> r" "vs \<noteq> [] \<Longrightarrow> last0 vs \<noteq> r" "us \<noteq> [] \<Longrightarrow> hd0 us \<noteq> r"
    using last0_in dist by (metis, metis, cases us, auto)
  have h1r: "h1 r = h r" using lur by (auto simp: h1_def)
  have "list_remove l fl r h = (object (h2 r),
     \<lparr>first = hd0 (us @ vs), last = last0 (us @ vs)\<rparr>, h2)"
    using r0 pr pz h1r un(2) fl(1,2) lur
    by (cases l) (auto simp: list_remove_def Let_def h1_def h2_def hd0_append last0_append last0_Cons
        split: if_splits)
  with un fl(3) show ?thesis by (auto simp: dl_list_def)
qed

lemma list_remove_first:
  assumes "dl_list h l (x # xs)"
  shows "\<exists>l' h'. list_remove l LIST_FIRST 0 h = (object (h x), l', h') \<and> dl_list h' l' xs \<and>
    (\<forall>y. y \<notin> set xs \<longrightarrow> h' y = h y) \<and> (\<forall>y. object (h' y) = object (h y))"
proof -
  have "first l = x" "x \<noteq> 0" using assms by (auto simp: dl_list_def)
  then have "list_remove l LIST_FIRST 0 h = list_remove l LIST_FIRST x h"
    by (simp add: list_remove_def)
  then show ?thesis using list_remove_ref [of h l "[]" x xs] assms by auto
qed

lemma list_remove_empty: "dl_list h l [] \<Longrightarrow> list_remove l LIST_FIRST 0 h = (0, l, h)"
  by (simp add: list_remove_def dl_list_def)

subsection \<open>Sorted insertion\<close>

definition sort_pos :: "(nat \<Rightarrow> nat \<Rightarrow> int) \<Rightarrow> nat \<Rightarrow> nat list \<Rightarrow> lheap \<Rightarrow> nat" where
  "sort_pos cmp obj xs h =
     (if xs \<noteq> [] \<and> cmp obj (object (h (List.last xs))) \<ge> 0 then length xs
      else length (takeWhile (\<lambda>x. cmp obj (object (h x)) \<ge> 0) xs))"

lemma sort_search_seg:
  assumes "dseg h p xs 0" and "length xs < n"
  shows "sort_search cmp n obj (hd0 xs) h =
    Inr (hd0 (dropWhile (\<lambda>x. cmp obj (object (h x)) \<ge> 0) xs))"
  using assms
proof (induction xs arbitrary: p n)
  case Nil
  then show ?case by (cases n) auto
next
  case (Cons x xs)
  from Cons.prems obtain m where n: "n = Suc m" by (cases n) auto
  from Cons.prems have "dseg h x xs 0" "x \<noteq> 0" "next (h x) = hd0 xs"
    by (auto simp: hd0_def split: list.splits)
  with Cons n show ?case by simp
qed

text \<open>The element lands in front of the first element that compares greater.\<close>

lemma dl_list_insert:
  assumes d: "dl_list h l (us @ vs)" and new: "hdr \<notin> set (us @ vs)" "hdr \<noteq> 0"
    and h1: "h1 = h(hdr := \<lparr>prev = last0 us, next = hd0 vs, object = obj\<rparr>)"
    and h2: "h2 = (if us = [] then h1 else set_next (last0 us) hdr h1)"
    and h3: "h3 = (if vs = [] then h2 else set_prev (hd0 vs) hdr h2)"
  shows "dseg h3 0 (us @ hdr # vs) 0"
    and "x \<notin> set (us @ vs) \<Longrightarrow> x \<noteq> hdr \<Longrightarrow> h3 x = h x"
    and "y \<noteq> hdr \<Longrightarrow> object (h3 y) = object (h y)" and "object (h3 hdr) = obj"
proof -
  from d have m: "dseg h 0 us (hd0 vs)" "dseg h (last0 us) vs 0"
    and dist: "distinct us" "distinct vs" "set us \<inter> set vs = {}"
    by (auto simp: dl_list_def dseg_append hd0_def last0_def split: list.splits if_splits)
  have lu: "us \<noteq> [] \<Longrightarrow> last0 us \<in> set us" by (rule last0_in)
  have hv: "vs \<noteq> [] \<Longrightarrow> hd0 vs \<in> set vs" by (cases vs) auto
  have lhd: "us \<noteq> [] \<Longrightarrow> last0 us \<noteq> hdr" "vs \<noteq> [] \<Longrightarrow> hd0 vs \<noteq> hdr"
    using lu hv new by auto
  have sep: "us \<noteq> [] \<Longrightarrow> last0 us \<notin> set vs" "vs \<noteq> [] \<Longrightarrow> hd0 vs \<notin> set us"
    using lu hv dist(3) by auto
  have u1: "dseg h1 0 us (hd0 vs)" and v1: "dseg h1 (last0 us) vs 0"
    using m new by (simp_all add: h1 dseg_frame)
  have u2: "dseg h2 0 us hdr"
    using u1 dist(1) by (auto simp: h2 intro: dseg_set_next_last)
  have v2: "dseg h2 (last0 us) vs 0"
    using v1 sep(1) by (cases "us = []") (auto simp: h2 dseg_frame)
  have u3: "dseg h3 0 us hdr"
    using u2 sep(2) by (cases "vs = []") (auto simp: h3 dseg_frame)
  have v3: "dseg h3 hdr vs 0"
    using v2 dist(2) by (cases "vs = []") (auto simp: h3 intro: dseg_set_prev_hd)
  have hh: "prev (h3 hdr) = last0 us" "next (h3 hdr) = hd0 vs" "object (h3 hdr) = obj"
    using lhd by (auto simp: h1 h2 h3)
  show "dseg h3 0 (us @ hdr # vs) 0" "object (h3 hdr) = obj"
    using u3 v3 hh new(2) by (auto simp: dseg_middle last0_def hd0_def split: list.splits)
  show "x \<notin> set (us @ vs) \<Longrightarrow> x \<noteq> hdr \<Longrightarrow> h3 x = h x"
    using lu hv by (auto simp: h1 h2 h3)
  show "y \<noteq> hdr \<Longrightarrow> object (h3 y) = object (h y)"
    using lhd by (auto simp: h1 h2 h3)
qed

lemma list_sort_add_iter:
  assumes d: "dl_list h l xs" and new: "hdr \<notin> set xs" "hdr \<noteq> 0" and len: "length xs < adr_space"
    and h0: "h0 = set_object hdr obj h"
    and st: "start = (if last l \<noteq> 0 \<and> cmp obj (object (h0 (last l))) \<ge> 0 then 0 else first l)"
  shows "sort_search cmp adr_space obj start h0 = Inr (hd0 (drop (sort_pos cmp obj xs h) xs))"
proof -
  have obj: "x \<in> set xs \<Longrightarrow> object (h0 x) = object (h x)" for x using new by (auto simp: h0)
  have l: "last l = last0 xs" "first l = hd0 xs" "dseg h0 0 xs 0"
    using d by (auto simp: dl_list_def h0 dseg_object)
  have lz: "last0 xs = 0 \<longleftrightarrow> xs = []"
    using dl_list_nonzero [OF d] by (rule last0_eq_0)
  have dw: "dropWhile (\<lambda>x. cmp obj (object (h0 x)) \<ge> 0) xs
      = drop (length (takeWhile (\<lambda>x. cmp obj (object (h x)) \<ge> 0) xs)) xs"
    using obj by (simp add: dropWhile_eq_drop cong: takeWhile_cong)
  show ?thesis
  proof (cases "xs \<noteq> [] \<and> cmp obj (object (h (List.last xs))) \<ge> 0")
    case True
    then have "start = 0" using l lz obj by (simp add: st last0_def)
    moreover have "sort_search cmp adr_space obj 0 h0 = Inr 0"
      using sort_search_seg [of h0 0 "[]" adr_space cmp obj] by simp
    ultimately show ?thesis using True by (simp add: sort_pos_def)
  next
    case False
    then have "start = hd0 xs" using l lz obj by (auto simp: st last0_def)
    then show ?thesis
      using sort_search_seg [OF l(3) len, of cmp obj] False dw by (auto simp: sort_pos_def)
  qed
qed

lemma list_sort_add_correct:
  assumes d: "dl_list h l xs" and new: "hdr \<notin> set xs" "hdr \<noteq> 0" "obj \<noteq> 0"
    and len: "length xs < adr_space"
    and us: "us = take (sort_pos cmp obj xs h) xs" and vs: "vs = drop (sort_pos cmp obj xs h) xs"
  shows "\<exists>l' h'. list_sort_add cmp l obj hdr h = Inr (l', h') \<and> dl_list h' l' (us @ hdr # vs) \<and>
    object (h' hdr) = obj \<and>
    (\<forall>x. x \<notin> set xs \<and> x \<noteq> hdr \<longrightarrow> h' x = h x) \<and> (\<forall>x. x \<noteq> hdr \<longrightarrow> object (h' x) = object (h x))"
proof -
  have xs: "xs = us @ vs" by (simp add: us vs)
  define h0 where "h0 = set_object hdr obj h"
  define h1 where "h1 = h(hdr := \<lparr>prev = last0 us, next = hd0 vs, object = obj\<rparr>)"
  define h2 where "h2 = (if us = [] then h1 else set_next (last0 us) hdr h1)"
  define h3 where "h3 = (if vs = [] then h2 else set_prev (hd0 vs) hdr h2)"
  note ins = dl_list_insert [OF d [unfolded xs] new(1)[unfolded xs] new(2) h1_def h2_def h3_def]
  note it = list_sort_add_iter [OF d new(1,2) len h0_def refl, of cmp, folded vs]
  have nz: "0 \<notin> set (us @ vs)" using dl_list_nonzero [OF d] xs by simp
  have pz: "last0 us = 0 \<longleftrightarrow> us = []" "hd0 vs = 0 \<longleftrightarrow> vs = []" "last0 xs = 0 \<longleftrightarrow> xs = []"
    using nz xs by (simp_all add: last0_eq_0 hd0_eq_0)
  have l: "last l = last0 xs" "first l = hd0 xs" "distinct (us @ vs)"
    and ph: "vs \<noteq> [] \<Longrightarrow> prev (h (hd0 vs)) = last0 us"
    using d xs by (auto simp: dl_list_def dseg_append last0_def hd0_def split: list.splits if_splits)
  have nh: "vs \<noteq> [] \<Longrightarrow> hd0 vs \<noteq> hdr" "us \<noteq> [] \<Longrightarrow> last0 us \<noteq> hdr" "vs \<noteq> [] \<Longrightarrow> us \<noteq> [] \<Longrightarrow> hd0 vs \<noteq> last0 us"
    using new xs last0_in [of us] l(3) by (auto simp: hd0_def split: list.splits)
  have "list_sort_add cmp l obj hdr h =
      Inr (\<lparr>first = hd0 (us @ [hdr]), last = last0 (hdr # vs)\<rparr>, h3)"
  proof (cases "vs = []")
    case True
    then show ?thesis
      using it new pz l xs nh
      by (cases l; cases "h hdr") (simp add: list_sort_add_def Let_def flip: h0_def,
        auto simp: h0_def h1_def h2_def h3_def hd0_append)
  next
    case False
    then show ?thesis
      using it new pz l xs ph nh
      by (cases l; cases "h hdr") (simp add: list_sort_add_def Let_def flip: h0_def,
        auto simp: h0_def h1_def h2_def h3_def hd0_append last0_append last0_Cons)
  qed
  then show ?thesis
    using ins l(3) new xs by (auto simp: dl_list_def hd0_append last0_append)
qed

text \<open>With a comparison that comes from a key, sorted lists stay sorted, equal keys in
  order of arrival.\<close>

lemma sorted_le_last: "sorted ys \<Longrightarrow> y \<in> set ys \<Longrightarrow> y \<le> List.last ys"
  by (induction ys) auto

lemma sort_pos_sorted:
  fixes key :: "nat \<Rightarrow> 'k::linorder"
  assumes cmp: "\<And>a b. cmp a b \<ge> 0 \<longleftrightarrow> key b \<le> key a"
    and srt: "sorted (map (\<lambda>x. key (object (h x))) xs)"
  shows "sort_pos cmp obj xs h = length (takeWhile (\<lambda>x. key (object (h x)) \<le> key obj) xs)"
proof (cases "xs \<noteq> [] \<and> cmp obj (object (h (List.last xs))) \<ge> 0")
  case True
  then have l: "key (object (h (List.last xs))) \<le> key obj" by (simp add: cmp)
  have "key (object (h x)) \<le> key obj" if "x \<in> set xs" for x
  proof -
    have "key (object (h x)) \<le> List.last (map (\<lambda>x. key (object (h x))) xs)"
      using srt that by (intro sorted_le_last) auto
    with True l show ?thesis by (simp add: last_map)
  qed
  then have "takeWhile (\<lambda>x. key (object (h x)) \<le> key obj) xs = xs" by (simp add: takeWhile_eq_all_conv)
  with True show ?thesis unfolding sort_pos_def by metis
next
  case False
  then show ?thesis by (auto simp: sort_pos_def cmp)
qed

lemma sorted_insert_at:
  fixes f :: "'a \<Rightarrow> 'k::linorder"
  assumes "sorted (map f xs)" and "k = length (takeWhile (\<lambda>x. f x \<le> f y) xs)"
  shows "sorted (map f (take k xs @ y # drop k xs))"
proof -
  let ?P = "\<lambda>x. f x \<le> f y"
  have t: "take k xs = takeWhile ?P xs" "drop k xs = dropWhile ?P xs"
    by (simp_all add: assms(2) takeWhile_eq_take [symmetric] dropWhile_eq_drop)
  have lo: "f x \<le> f y" if "x \<in> set (takeWhile ?P xs)" for x using that by (auto dest: set_takeWhileD)
  have s: "sorted (map f (takeWhile ?P xs @ dropWhile ?P xs))" using assms(1) by simp
  have hi: "f y \<le> f x" if "x \<in> set (dropWhile ?P xs)" for x
  proof -
    from that obtain z zs where z: "dropWhile ?P xs = z # zs" by (cases "dropWhile ?P xs") auto
    then have "\<not> f z \<le> f y" by (metis dropWhile_eq_Cons_conv)
    moreover have "f z \<le> f x" using s that z by (auto simp: sorted_append)
    ultimately show ?thesis by simp
  qed
  have "sorted (map f (takeWhile ?P xs))" "sorted (map f (dropWhile ?P xs))"
    using s unfolding map_append sorted_append by blast+
  then show ?thesis using lo hi by (auto simp: t sorted_append dest: order_trans)
qed

section \<open>Many lists in one heap\<close>

definition lists_ok :: "lheap \<Rightarrow> ('q \<Rightarrow> list_t) \<Rightarrow> ('q \<Rightarrow> nat list) \<Rightarrow> bool" where
  "lists_ok h L A \<longleftrightarrow>
     (\<forall>q. dl_list h (L q) (A q)) \<and>
     (\<forall>q r. q \<noteq> r \<longrightarrow> set (A q) \<inter> set (A r) = {}) \<and>
     (\<forall>q. \<forall>x\<in>set (A q). object (h x) = x)"

lemma dseg_unique:
  "dseg h p xs 0 \<Longrightarrow> dseg h p' ys 0 \<Longrightarrow> hd0 xs = hd0 ys \<Longrightarrow> xs = ys"
proof (induction xs arbitrary: p p' ys)
  case Nil
  then show ?case using dseg_nonzero by (cases ys) auto
next
  case (Cons x xs)
  then obtain zs where ys: "ys = x # zs" by (cases ys) auto
  with Cons.prems have "hd0 xs = hd0 zs" using dseg_nonzero
    by (auto simp: hd0_def split: list.splits if_splits)
  with Cons ys show ?case by auto
qed

lemma dl_list_unique: "dl_list h l xs \<Longrightarrow> dl_list h l ys \<Longrightarrow> xs = ys"
  by (auto simp: dl_list_def intro: dseg_unique)

lemma lists_ok_unique: "lists_ok h L A \<Longrightarrow> lists_ok h L B \<Longrightarrow> A = B"
  by (auto simp: lists_ok_def intro!: ext dl_list_unique)

lemma lists_okD:
  assumes "lists_ok h L A"
  shows "dl_list h (L q) (A q)" and "q \<noteq> r \<Longrightarrow> set (A q) \<inter> set (A r) = {}"
    and "x \<in> set (A q) \<Longrightarrow> object (h x) = x" and "distinct (A q)" and "0 \<notin> set (A q)"
  using assms dl_list_nonzero by (auto simp: lists_ok_def dl_list_def)

lemma lists_ok_update:
  assumes "lists_ok h L A" and "dl_list h' l' ys" and "set ys \<subseteq> insert x (set (A q))"
    and "\<And>r. r \<noteq> q \<Longrightarrow> x \<notin> set (A r)" and "\<And>y. y \<notin> set (A q) \<Longrightarrow> y \<noteq> x \<Longrightarrow> h' y = h y"
    and "\<And>y. y \<in> set ys \<Longrightarrow> object (h' y) = y"
  shows "lists_ok h' (L(q := l')) (A(q := ys))"
proof -
  have fr: "dl_list h' (L r) (A r)" and ob: "y \<in> set (A r) \<Longrightarrow> object (h' y) = y" if "r \<noteq> q" for r y
  proof -
    have same: "h' z = h z" if "z \<in> set (A r)" for z
      using assms(1,4,5) \<open>r \<noteq> q\<close> that unfolding lists_ok_def by (metis disjoint_iff)
    show "dl_list h' (L r) (A r)"
      using assms(1) same dl_list_cong [of "A r" h h'] by (auto simp: lists_ok_def)
    show "y \<in> set (A r) \<Longrightarrow> object (h' y) = y"
      using assms(1) same by (auto simp: lists_ok_def)
  qed
  show ?thesis
    unfolding lists_ok_def
  proof (intro conjI allI impI ballI)
    show "dl_list h' ((L(q := l')) r) ((A(q := ys)) r)" for r using fr assms(2) by simp
    show "object (h' y) = y" if "y \<in> set ((A(q := ys)) r)" for r y
      using that ob assms(6) by (cases "r = q") auto
    show "set ((A(q := ys)) r) \<inter> set ((A(q := ys)) r') = {}" if "r \<noteq> r'" for r r'
    proof -
      have "set (A r) \<inter> set (A r') = {}" "set (A q) \<inter> set (A r') = {} \<or> r' = q"
        "set (A q) \<inter> set (A r) = {} \<or> r = q"
        using assms(1) that unfolding lists_ok_def by metis+
      with assms(3,4) that show ?thesis by (cases "r = q"; cases "r' = q") auto
    qed
  qed
qed

lemma lists_ok_init:
  assumes "lists_ok h L A"
  shows "lists_ok h (L(q := list_init)) (A(q := []))"
  using assms dl_list_init [of h] by (intro lists_ok_update [where x = 0]) (auto simp: lists_ok_def dest: dl_list_nonzero)

lemma lists_ok_append:
  assumes ok: "lists_ok h L A" and x: "x \<noteq> 0" "\<And>r. x \<notin> set (A r)"
  shows "\<exists>l' h'. list_append (L q) x x h = Inr (l', h') \<and>
    lists_ok h' (L(q := l')) (A(q := A q @ [x]))"
proof -
  obtain l' h' where *: "list_append (L q) x x h = Inr (l', h')" "dl_list h' l' (A q @ [x])"
    "object (h' x) = x" "\<forall>y. y \<notin> set (A q) \<and> y \<noteq> x \<longrightarrow> h' y = h y"
    "\<forall>y. y \<noteq> x \<longrightarrow> object (h' y) = object (h y)"
    using list_append_correct [OF lists_okD(1) [OF ok] x(2) x(1) x(1)] by blast
  have ob: "object (h' y) = y" if "y = x \<or> y \<in> set (A q)" for y
    using that * lists_okD(3) [OF ok, of y q] by (cases "y = x") auto
  have "lists_ok h' (L(q := l')) (A(q := A q @ [x]))"
    using x * ob by (intro lists_ok_update [OF ok, where x = x]) auto
  with * show ?thesis by blast
qed

lemma lists_ok_prepend:
  assumes ok: "lists_ok h L A" and x: "x \<noteq> 0" "\<And>r. x \<notin> set (A r)"
  shows "\<exists>l' h'. list_prepend (L q) x x h = Inr (l', h') \<and>
    lists_ok h' (L(q := l')) (A(q := x # A q))"
proof -
  obtain l' h' where *: "list_prepend (L q) x x h = Inr (l', h')" "dl_list h' l' (x # A q)"
    "object (h' x) = x" "\<forall>y. y \<notin> set (A q) \<and> y \<noteq> x \<longrightarrow> h' y = h y"
    "\<forall>y. y \<noteq> x \<longrightarrow> object (h' y) = object (h y)"
    using list_prepend_correct [OF lists_okD(1) [OF ok] x(2) x(1) x(1)] by blast
  have ob: "object (h' y) = y" if "y = x \<or> y \<in> set (A q)" for y
    using that * lists_okD(3) [OF ok, of y q] by (cases "y = x") auto
  have "lists_ok h' (L(q := l')) (A(q := x # A q))"
    using x * ob by (intro lists_ok_update [OF ok, where x = x]) auto
  with * show ?thesis by blast
qed

lemma lists_ok_remove:
  assumes ok: "lists_ok h L A" and x: "x \<in> set (A q)"
  shows "\<exists>l' h'. list_remove (L q) fl x h = (x, l', h') \<and>
    lists_ok h' (L(q := l')) (A(q := remove1 x (A q)))"
proof -
  obtain us vs where s: "A q = us @ x # vs" "x \<notin> set us" "x \<notin> set vs"
    using distinct_split [OF x lists_okD(4) [OF ok]] by blast
  obtain l' h' where *: "list_remove (L q) fl x h = (object (h x), l', h')" "dl_list h' l' (us @ vs)"
    "\<forall>y. y \<notin> set us \<and> y \<notin> set vs \<longrightarrow> h' y = h y" "\<forall>y. object (h' y) = object (h y)"
    using list_remove_ref [of h "L q" us x vs] lists_okD(1) [OF ok, of q] s by metis
  have nx: "x \<notin> set (A r)" if "r \<noteq> q" for r using lists_okD(2) [OF ok that] x by auto
  have "lists_ok h' (L(q := l')) (A(q := us @ vs))"
    using * s nx lists_okD(3) [OF ok, of _ q] by (intro lists_ok_update [OF ok, where x = x]) auto
  with * s lists_okD(3) [OF ok x] show ?thesis by (simp add: remove1_split)
qed

lemma lists_ok_remove_first:
  assumes ok: "lists_ok h L A" and x: "A q = x # xs"
  shows "\<exists>l' h'. list_remove (L q) LIST_FIRST 0 h = (x, l', h') \<and>
    lists_ok h' (L(q := l')) (A(q := xs))"
proof -
  have d: "dl_list h (L q) (x # xs)" using lists_okD(1) [OF ok, of q] x by simp
  then have "first (L q) = x" "x \<noteq> 0" by (auto simp: dl_list_def)
  then have "list_remove (L q) LIST_FIRST 0 h = list_remove (L q) LIST_FIRST x h"
    by (simp add: list_remove_def)
  then show ?thesis using lists_ok_remove [OF ok, of x q LIST_FIRST] x by simp
qed

lemma lists_ok_remove_empty:
  "lists_ok h L A \<Longrightarrow> A q = [] \<Longrightarrow> list_remove (L q) LIST_FIRST 0 h = (0, L q, h)"
  by (metis list_remove_empty lists_okD(1))

lemma lists_ok_get:
  assumes "lists_ok h L A"
  shows "list_get (L q) LIST_FIRST h = hd0 (A q)"
  using list_get_first [OF lists_okD(1) [OF assms], of q] lists_okD(3) [OF assms, of _ q]
  by (cases "A q") auto

text \<open>
  What the intrusive lists do not protect against: an element that is put at the head of a
  list whose head it already is becomes its own successor, and the list is cyclic.
\<close>

lemma list_prepend_twice_cyclic:
  assumes "first l = x" and "x \<noteq> 0"
  shows "\<exists>l' h'. list_prepend l x x h = Inr (l', h') \<and> first l' = x \<and> next (h' x) = x"
  using assms by (cases l) (simp add: list_prepend_def Let_def)

lemma cyclic_no_list:
  assumes "first l = x" and "x \<noteq> 0" and "next (h x) = x"
  shows "\<not> dl_list h l xs"
proof
  assume d: "dl_list h l xs"
  with assms obtain ys where xs: "xs = x # ys" by (cases xs) (auto simp: dl_list_def)
  with d assms have "ys \<noteq> []" "hd ys = x" by (auto simp: dl_list_def split: if_splits)
  with d xs show False by (cases ys) (auto simp: dl_list_def)
qed

section \<open>Properties\<close>

text \<open>C28. The list routines implement sequences: in a heap that holds a family of lists, putting a
  new element at either end, removing a given element, removing the first element and reading the
  first element have on the sequence \<open>A q\<close> the effect their names say, and leave every other list
  of the family as it is.\<close>

theorem list_ops_refine:
  assumes "lists_ok h L A" and "x \<noteq> 0" and "\<forall>r. x \<notin> set (A r)"
  shows "(\<exists>l' h'. list_append (L q) x x h = Inr (l', h') \<and> lists_ok h' (L(q := l')) (A(q := A q @ [x]))) \<and>
    (\<exists>l' h'. list_prepend (L q) x x h = Inr (l', h') \<and> lists_ok h' (L(q := l')) (A(q := x # A q))) \<and>
    (\<forall>y\<in>set (A q). \<exists>l' h'. list_remove (L q) fl y h = (y, l', h') \<and> lists_ok h' (L(q := l')) (A(q := remove1 y (A q)))) \<and>
    (case A q of [] \<Rightarrow> list_remove (L q) LIST_FIRST 0 h = (0, L q, h) \<and> list_get (L q) LIST_FIRST h = 0
     | y # ys \<Rightarrow> list_get (L q) LIST_FIRST h = y \<and>
         (\<exists>l' h'. list_remove (L q) LIST_FIRST 0 h = (y, l', h') \<and> lists_ok h' (L(q := l')) (A(q := ys))))"
proof (intro conjI ballI)
  show "\<exists>l' h'. list_append (L q) x x h = Inr (l', h') \<and> lists_ok h' (L(q := l')) (A(q := A q @ [x]))"
    "\<exists>l' h'. list_prepend (L q) x x h = Inr (l', h') \<and> lists_ok h' (L(q := l')) (A(q := x # A q))"
    using lists_ok_append [OF assms(1,2)] lists_ok_prepend [OF assms(1,2)] assms(3) by blast+
  show "\<exists>l' h'. list_remove (L q) fl y h = (y, l', h') \<and> lists_ok h' (L(q := l')) (A(q := remove1 y (A q)))"
    if "y \<in> set (A q)" for y using lists_ok_remove [OF assms(1) that] .
  show "case A q of [] \<Rightarrow> list_remove (L q) LIST_FIRST 0 h = (0, L q, h) \<and> list_get (L q) LIST_FIRST h = 0
     | y # ys \<Rightarrow> list_get (L q) LIST_FIRST h = y \<and>
         (\<exists>l' h'. list_remove (L q) LIST_FIRST 0 h = (y, l', h') \<and> lists_ok h' (L(q := l')) (A(q := ys)))"
    using lists_ok_remove_first [OF assms(1), of q] lists_ok_remove_empty [OF assms(1), of q]
      lists_ok_get [OF assms(1), of q] by (cases "A q") auto
qed

theorem list_ops_refine_witness:
  "\<exists>h L A. lists_ok h L A \<and> A (0::nat) = [5] \<and> (7::nat) \<noteq> 0 \<and> (\<forall>r. 7 \<notin> set (A r)) \<and>
    (\<exists>l' h'. list_append (L 0) 7 7 h = Inr (l', h') \<and> lists_ok h' (L(0 := l')) (A(0 := [5, 7])))"
proof -
  let ?h = "\<lambda>x. \<lparr>prev = 0, next = 0, object = x\<rparr>"
  let ?L = "(\<lambda>_. list_init)(0 := \<lparr>first = 5, last = 5\<rparr>)" and ?A = "(\<lambda>_. [])(0::nat := [5::nat])"
  have ok: "lists_ok ?h ?L ?A"
    by (auto simp: lists_ok_def dl_list_def list_init_def)
  have "\<exists>l' h'. list_append (?L 0) 7 7 ?h = Inr (l', h') \<and> lists_ok h' (?L(0 := l')) (?A(0 := ?A 0 @ [7]))"
    using list_ops_refine [of ?h ?L ?A 7 0] ok by simp
  with ok show ?thesis by (intro exI [of _ ?h] exI [of _ ?L] exI [of _ ?A]) simp
qed

text \<open>\<^verbatim>\<open>list_sort_add\<close> with a comparison by a key inserts the element so that a list sorted by the key
  stays sorted, after every element that has an equal key; it ends for every list that fits
  into the address space.\<close>

theorem list_sort_add_sorted:
  fixes key :: "nat \<Rightarrow> int"
  assumes "dl_list h l xs" and "hdr \<notin> set xs" "hdr \<noteq> 0" "obj \<noteq> 0" and "length xs < adr_space"
    and "sorted (map (\<lambda>x. key (object (h x))) xs)"
  shows "\<exists>us vs l' h'. list_sort_add (\<lambda>a b. key a - key b) l obj hdr h = Inr (l', h') \<and>
    dl_list h' l' (us @ hdr # vs) \<and> xs = us @ vs \<and> object (h' hdr) = obj \<and>
    sorted (map (\<lambda>x. key (object (h' x))) (us @ hdr # vs)) \<and> (\<forall>x\<in>set vs. key obj < key (object (h' x)))"
proof -
  define cmp where "cmp = (\<lambda>a b. key a - key b)"
  define us where "us = take (sort_pos cmp obj xs h) xs"
  define vs where "vs = drop (sort_pos cmp obj xs h) xs"
  obtain l' h' where r: "list_sort_add cmp l obj hdr h = Inr (l', h')" "dl_list h' l' (us @ hdr # vs)"
    "object (h' hdr) = obj" "\<forall>x. x \<noteq> hdr \<longrightarrow> object (h' x) = object (h x)"
    using list_sort_add_correct [OF assms(1-5) us_def vs_def] by blast
  let ?f = "\<lambda>x. key (object (h' x))" and ?P = "\<lambda>x. key (object (h x)) \<le> key obj"
  have p: "sort_pos cmp obj xs h = length (takeWhile ?P xs)"
    using sort_pos_sorted [of cmp key h xs obj] assms(6) by (simp add: cmp_def)
  have f: "?f x = key (object (h x))" if "x \<in> set xs" for x using that assms(2) r(4) by auto
  have m: "map ?f xs = map (\<lambda>x. key (object (h x))) xs" using f by simp
  have tw: "takeWhile ?P xs = takeWhile (\<lambda>x. ?f x \<le> ?f hdr) xs"
    using f r(3) by (intro takeWhile_cong) auto
  have vs: "vs = dropWhile ?P xs" by (simp add: vs_def p dropWhile_eq_drop)
  have s': "sorted (map ?f xs)" unfolding m by (rule assms(6))
  have "sorted (map ?f (us @ hdr # vs))"
    unfolding us_def vs_def by (rule sorted_insert_at [OF s']) (use p tw in simp)
  moreover have "key obj < ?f x" if x: "x \<in> set vs" for x
  proof -
    obtain z zs where z: "vs = z # zs" using x by (cases vs) auto
    have "\<not> ?P z" using z vs by (metis dropWhile_eq_Cons_conv)
    moreover have "z \<in> set xs" using z vs by (metis list.set_intros(1) set_dropWhileD)
    moreover have "?f z \<le> ?f x" using calculation(2) \<open>sorted (map ?f (us @ hdr # vs))\<close> x z by (auto simp: sorted_append)
    ultimately show ?thesis using f by fastforce
  qed
  ultimately show ?thesis using r by (intro exI [of _ us] exI [of _ vs] exI [of _ l'] exI [of _ h']) (simp add: us_def vs_def cmp_def)
qed

theorem list_sort_add_sorted_witness:
  "\<exists>us vs l' h'. list_sort_add (\<lambda>a b. int a - int b) \<lparr>first = 5, last = 5\<rparr> 3 3 (\<lambda>x. \<lparr>prev = 0, next = 0, object = x\<rparr>) = Inr (l', h') \<and>
    dl_list h' l' (us @ 3 # vs) \<and> [5] = us @ vs \<and> object (h' 3) = 3 \<and>
    sorted (map (\<lambda>x. int (object (h' x))) (us @ 3 # vs)) \<and> (\<forall>x\<in>set vs. int 3 < int (object (h' x)))"
  by (rule list_sort_add_sorted [where xs = "[5]"]) (simp_all add: dl_list_def)

end
