(* ===== verification/Os_Alloc.thy ===== *)
theory Os_Alloc
  imports Os_Base
begin

text \<open>
  The interface of a dynamic memory manager as its clients use it (\<^verbatim>\<open>MEM_INIT_DYNMEM\<close>,
  \<^verbatim>\<open>MEM_ALLOC\<close>, \<^verbatim>\<open>MEM_FREE\<close> select an implementation: first fit in the kernel, the grid allocator in programs). \<open>blocks m\<close> are the
  live blocks, address and usable size, \<open>cell m\<close> the contents of memory. The laws say that live
  blocks never overlap, that an allocation adds one block of at least the requested size or
  fails without an effect (\<open>fits\<close> are the sizes a client may ask for), that a release removes exactly its block, and that neither touches
  the contents of the other blocks; and that clients may store what they like inside live blocks. From the laws follow the facts about whole histories
  of requests.
\<close>

datatype request = Alloc nat | Release nat | Store nat nat

text \<open>The contents of a word after a history, when no block is released.\<close>

fun stored :: "nat \<Rightarrow> request list \<Rightarrow> nat \<Rightarrow> nat" where
  "stored w [] v = v"
| "stored w (r # rs) v = stored w rs (case r of Store x y \<Rightarrow> if x = w then y else v | _ \<Rightarrow> v)"

locale allocator =
  fixes ok :: "'m \<Rightarrow> bool"
    and blocks :: "'m \<Rightarrow> (nat \<times> nat) set"
    and cell :: "'m \<Rightarrow> nat \<Rightarrow> nat"
    and fits :: "nat \<Rightarrow> bool"
    and alloc :: "nat \<Rightarrow> 'm \<Rightarrow> (nat \<times> 'm) res"
    and release :: "nat \<Rightarrow> 'm \<Rightarrow> 'm res"
    and store :: "nat \<Rightarrow> nat \<Rightarrow> 'm \<Rightarrow> 'm"
  assumes disjoint: "ok m \<Longrightarrow> (p, k) \<in> blocks m \<Longrightarrow> (q, l) \<in> blocks m \<Longrightarrow> (p, k) \<noteq> (q, l) \<Longrightarrow>
      p + k \<le> q \<or> q + l \<le> p"
    and positive: "ok m \<Longrightarrow> (p, k) \<in> blocks m \<Longrightarrow> 0 < p \<and> 0 < k"
    and alloc_law: "ok m \<Longrightarrow> fits req \<Longrightarrow> \<exists>p m'. alloc req m = Inr (p, m') \<and> ok m' \<and>
      (p = 0 \<longrightarrow> m' = m) \<and>
      (p \<noteq> 0 \<longrightarrow> (\<exists>k\<ge>req. (p, k) \<notin> blocks m \<and> blocks m' = insert (p, k) (blocks m))) \<and>
      (\<forall>(q, l)\<in>blocks m. \<forall>w. q \<le> w \<and> w < q + l \<longrightarrow> cell m' w = cell m w)"
    and release_law: "ok m \<Longrightarrow> (p, k) \<in> blocks m \<Longrightarrow> \<exists>m'. release p m = Inr m' \<and> ok m' \<and>
      blocks m' = blocks m - {(p, k)} \<and>
      (\<forall>(q, l)\<in>blocks m'. \<forall>w. q \<le> w \<and> w < q + l \<longrightarrow> cell m' w = cell m w)"
    and store_law: "ok m \<Longrightarrow> (p, k) \<in> blocks m \<Longrightarrow> p \<le> w \<Longrightarrow> w < p + k \<Longrightarrow>
      ok (store w v m) \<and> blocks (store w v m) = blocks m \<and> cell (store w v m) = (cell m)(w := v)"
begin

lemma block_unique: "ok m \<Longrightarrow> (p, k) \<in> blocks m \<Longrightarrow> (p, l) \<in> blocks m \<Longrightarrow> k = l"
  using disjoint [of m p k p l] positive [of m p k] positive [of m p l] by auto

lemma alloc_fresh:
  assumes "ok m" and "fits req" and "alloc req m = Inr (p, m')" and "p \<noteq> 0" and "(q, l) \<in> blocks m"
  shows "\<exists>k\<ge>req. (p, k) \<in> blocks m' \<and> (p + k \<le> q \<or> q + l \<le> p)"
proof -
  obtain k where k: "req \<le> k" "(p, k) \<notin> blocks m" "blocks m' = insert (p, k) (blocks m)" "ok m'"
    using alloc_law [OF assms(1,2)] assms(3,4) by auto
  then show ?thesis using disjoint [OF k(4), of p k q l] assms(5) by fastforce
qed

text \<open>A release is legal when its address is the one of a live block, a store when it is inside of one.\<close>

definition legal :: "request \<Rightarrow> 'm \<Rightarrow> bool" where
  "legal r m = (case r of Alloc n \<Rightarrow> fits n | Release p \<Rightarrow> (\<exists>k. (p, k) \<in> blocks m) | Store w v \<Rightarrow> (\<exists>p k. (p, k) \<in> blocks m \<and> p \<le> w \<and> w < p + k))"

definition serve :: "request \<Rightarrow> 'm \<Rightarrow> 'm res" where
  "serve r m = (case r of Alloc n \<Rightarrow> rbind (alloc n m) (\<lambda>(p, m). Inr m) | Release p \<Rightarrow> release p m | Store w v \<Rightarrow> Inr (store w v m))"

lemma serve_ok: "ok m \<Longrightarrow> legal r m \<Longrightarrow> \<exists>m'. serve r m = Inr m' \<and> ok m'"
proof (cases r)
  case (Alloc n)
  assume "ok m" "legal r m"
  with Alloc alloc_law [of m n] show ?thesis by (auto simp: legal_def serve_def)
next
  case (Release p)
  assume "ok m" "legal r m"
  with Release obtain k where "(p, k) \<in> blocks m" by (auto simp: legal_def)
  with release_law [OF \<open>ok m\<close> this] Release show ?thesis by (auto simp: serve_def)
next
  case (Store w v)
  assume "ok m" "legal r m"
  with Store store_law [of m _ _ w v] show ?thesis by (auto simp: legal_def serve_def)
qed

text \<open>A block that is not released keeps its contents but for what is stored there.\<close>

lemma serve_keeps:
  assumes ok: "ok m" and "legal r m" and sv: "serve r m = Inr m'" and b: "(q, l) \<in> blocks m" and r: "r \<noteq> Release q"
  shows "(q, l) \<in> blocks m' \<and> (\<forall>w. q \<le> w \<and> w < q + l \<longrightarrow> cell m' w = stored w [r] (cell m w))"
proof (cases r)
  case (Alloc n)
  with assms alloc_law [OF ok, of n] show ?thesis by (fastforce simp: legal_def serve_def)
next
  case (Release p)
  then obtain k where k: "(p, k) \<in> blocks m" using assms by (auto simp: legal_def)
  moreover have "p \<noteq> q" using r Release by auto
  ultimately show ?thesis using release_law [OF ok k] Release sv b by (fastforce simp: serve_def)
next
  case (Store x y)
  then obtain p k where "(p, k) \<in> blocks m" "p \<le> x" "x < p + k" using assms by (auto simp: legal_def)
  from store_law [OF ok this, of y] show ?thesis using Store sv b by (auto simp: serve_def)
qed

fun run :: "request list \<Rightarrow> 'm \<Rightarrow> 'm res" where
  "run [] m = Inr m"
| "run (r # rs) m = rbind (serve r m) (run rs)"

text \<open>Every request is legal in the state that the requests before it have led to. Nothing is asked of the outcome of a request.\<close>

fun all_legal :: "request list \<Rightarrow> 'm \<Rightarrow> bool" where
  "all_legal [] m = True"
| "all_legal (r # rs) m = (legal r m \<and> (case serve r m of Inl e \<Rightarrow> True | Inr m' \<Rightarrow> all_legal rs m'))"

lemma run_ok: "ok m \<Longrightarrow> all_legal rs m \<Longrightarrow> \<exists>m'. run rs m = Inr m' \<and> ok m'"
proof (induction rs arbitrary: m)
  case (Cons r rs)
  then obtain m' where "serve r m = Inr m'" "ok m'" using serve_ok by fastforce
  with Cons show ?case by simp
qed simp

lemma run_keeps:
  "ok m \<Longrightarrow> all_legal rs m \<Longrightarrow> run rs m = Inr m' \<Longrightarrow> (q, l) \<in> blocks m \<Longrightarrow> Release q \<notin> set rs \<Longrightarrow>
   (q, l) \<in> blocks m' \<and> (\<forall>w. q \<le> w \<and> w < q + l \<longrightarrow> cell m' w = stored w rs (cell m w))"
proof (induction rs arbitrary: m)
  case (Cons r rs)
  then obtain m1 where m1: "serve r m = Inr m1" "ok m1" using serve_ok by fastforce
  then have k: "(q, l) \<in> blocks m1 \<and> (\<forall>w. q \<le> w \<and> w < q + l \<longrightarrow> cell m1 w = stored w [r] (cell m w))"
    using serve_keeps [of m r m1 q l] Cons.prems by auto
  with Cons.IH [of m1] Cons.prems m1 show ?case by auto
qed simp

end

end
