(* ===== verification/Os_Chunks.thy ===== *)
theory Os_Chunks
  imports Os_Base
begin

text \<open>
  Sequences of chunks, the shape of the memory that both dynamic memory managers of the repository keep
  (\<^verbatim>\<open>lib/mm/ff_simple.c\<close> and \<^verbatim>\<open>lib/mm/gma.c\<close>): chunks that follow each other without gaps, no two
  free ones next to each other. The managers differ in what they store in a chunk.
\<close>

section \<open>Sizes and kinds\<close>

text \<open>A memory of words of 32 bits: from addresses divisible by four to naturals.\<close>

type_synonym wmem = "nat \<Rightarrow> nat"

text \<open>A chunk sequence lists size and kind of every chunk, from low to high addresses. A hole
  is a chunk about which the memory says nothing: the operations pass through states with holes.\<close>

datatype mark = Used | Free | Hole

type_synonym chunks = "(nat \<times> mark) list"

definition extent :: "chunks \<Rightarrow> nat" where
  "extent cs = sum_list (map fst cs)"

definition sizes_ok :: "chunks \<Rightarrow> bool" where
  "sizes_ok cs \<longleftrightarrow> (\<forall>(s, u)\<in>set cs. 4 dvd s \<and> 16 \<le> s)"

fun starts :: "nat \<Rightarrow> chunks \<Rightarrow> nat list" where
  "starts a [] = []"
| "starts a ((s, k) # cs) = a # starts (a + s) cs"

fun frees :: "nat \<Rightarrow> chunks \<Rightarrow> nat list" where
  "frees a [] = []"
| "frees a ((s, k) # cs) = (if k = Free then a # frees (a + s) cs else frees (a + s) cs)"

fun coalesced :: "chunks \<Rightarrow> bool" where
  "coalesced [] = True"
| "coalesced ((s, k) # cs) = ((k = Used \<or> cs = [] \<or> snd (hd cs) = Used) \<and> coalesced cs)"

lemma extent_simps [simp]:
  "extent [] = 0" "extent ((s, u) # cs) = s + extent cs" "extent (xs @ ys) = extent xs + extent ys"
  by (simp_all add: extent_def)

lemma sizes_ok_simps [simp]:
  "sizes_ok []" "sizes_ok ((s, u) # cs) \<longleftrightarrow> 4 dvd s \<and> 16 \<le> s \<and> sizes_ok cs"
  "sizes_ok (xs @ ys) \<longleftrightarrow> sizes_ok xs \<and> sizes_ok ys"
  by (auto simp: sizes_ok_def)

lemma starts_append [simp]: "starts a (xs @ ys) = starts a xs @ starts (a + extent xs) ys"
  by (induction a xs rule: starts.induct) (auto simp: add.assoc)

lemma frees_append [simp]: "frees a (xs @ ys) = frees a xs @ frees (a + extent xs) ys"
  by (induction a xs rule: frees.induct) (auto simp: add.assoc)

lemma coalesced_append:
  "coalesced (xs @ ys) \<longleftrightarrow> coalesced xs \<and> coalesced ys \<and>
     (xs = [] \<or> ys = [] \<or> snd (List.last xs) = Used \<or> snd (hd ys) = Used)"
  by (induction xs rule: coalesced.induct) (auto simp: hd_append)

lemma frees_starts: "set (frees a cs) \<subseteq> set (starts a cs)"
  by (induction a cs rule: frees.induct) auto

lemma starts_range: "sizes_ok cs \<Longrightarrow> x \<in> set (starts a cs) \<Longrightarrow> a \<le> x \<and> x + 16 \<le> a + extent cs"
  by (induction a cs rule: starts.induct) fastforce+

lemma frees_range: "sizes_ok cs \<Longrightarrow> x \<in> set (frees a cs) \<Longrightarrow> a \<le> x \<and> x + 16 \<le> a + extent cs"
  using starts_range frees_starts by blast

lemma starts_apart:
  "sizes_ok cs \<Longrightarrow> x \<in> set (starts a cs) \<Longrightarrow> y \<in> set (starts a cs) \<Longrightarrow> x \<noteq> y \<Longrightarrow>
   x + 16 \<le> y \<or> y + 16 \<le> x"
proof (induction a cs rule: starts.induct)
  case (2 a s u cs)
  then show ?case using starts_range [of cs _ "a + s"] by fastforce
qed simp

lemma frees_split:
  "x \<in> set (frees a cs) \<Longrightarrow> \<exists>xs s ys. cs = xs @ (s, Free) # ys \<and> x = a + extent xs"
proof (induction a cs rule: frees.induct)
  case (2 a s u cs)
  show ?case
  proof (cases "x = a \<and> u = Free")
    case True
    then show ?thesis by (intro exI [of _ "[]"]) simp
  next
    case False
    with 2 obtain xs t ys where "cs = xs @ (t, Free) # ys" "x = a + s + extent xs"
      by (auto split: if_splits)
    then show ?thesis by (intro exI [of _ "(s, u) # xs"]) simp
  qed
qed simp

end
