(* ===== verification/Os_FirstFit.thy ===== *)
theory Os_FirstFit
  imports Os_List Os_Alloc Os_Chunks
begin

text \<open>
  The first fit allocator, \<^verbatim>\<open>lib/mm/ff_simple.h\<close> and \<^verbatim>\<open>lib/mm/ff_simple.c\<close>, which serves the
  kernel heap (\<^verbatim>\<open>kmalloc\<close>, \<^verbatim>\<open>kfree\<close>) and the pool of thread stacks of every process.
  The memory is a map from word addresses (byte addresses divisible by four) to 32-bit values,
  as naturals. A chunk starts with its size, whose lowest bit marks chunks in use, and ends with
  a copy of it; a free chunk also holds the links of the free list. Address arithmetic is on
  naturals, which is exact for a pool inside the 32-bit address space; the size of a request
  is computed modulo \<open>2^32\<close>, as the code does, because it is the caller's value.

  The invariant says that the pool is a gapless sequence of chunks between two border words,
  that the free list holds exactly the free chunks and that no two free chunks are neighbours.
\<close>

unbundle bit_operations_syntax

section \<open>Operations\<close>

text \<open>\<^verbatim>\<open>sizeof (ffs_hdr_t) + sizeof (ffs_tail_t)\<close>, \<^verbatim>\<open>MARK_USED\<close>, \<^verbatim>\<open>MARK_FREE\<close>, \<^verbatim>\<open>CHECK_FREE\<close>,
  \<^verbatim>\<open>GET_SIZE\<close>, \<^verbatim>\<open>ALIGN\<close>, \<^verbatim>\<open>ALIGN_FW\<close>, \<^verbatim>\<open>CLONE_SIZE_TO_TAIL\<close>.\<close>

abbreviation (input) HEADER_SIZE :: nat where "HEADER_SIZE \<equiv> 16"

definition MARK_USED :: "nat \<Rightarrow> nat" where "MARK_USED v = v OR 1"
definition MARK_FREE :: "nat \<Rightarrow> nat" where "MARK_FREE v = v - v mod 2"
definition CHECK_FREE :: "nat \<Rightarrow> bool" where "CHECK_FREE v \<longleftrightarrow> v AND 1 = 0"
definition GET_SIZE :: "nat \<Rightarrow> nat" where "GET_SIZE v = v - v mod 2"
definition ALIGN :: "nat \<Rightarrow> nat" where "ALIGN p = p - p mod 4"
definition ALIGN_FW :: "nat \<Rightarrow> nat" where "ALIGN_FW p = ALIGN ((p + 3) mod 2 ^ 32)"

definition clone_size_to_tail :: "nat \<Rightarrow> wmem \<Rightarrow> wmem" where
  "clone_size_to_tail hdr m = m(hdr + GET_SIZE (m hdr) - 4 := m hdr)"

definition ffs_remove_chunk :: "nat \<Rightarrow> nat \<Rightarrow> wmem \<Rightarrow> wmem" where
  "ffs_remove_chunk mpool chunk m =
     (let m = (if chunk = m mpool then m(mpool := m (chunk + 8))
               else m(m (chunk + 4) + 8 := m (chunk + 8)))
      in if m (chunk + 8) \<noteq> 0 then m(m (chunk + 8) + 4 := m (chunk + 4)) else m)"

definition ffs_insert_chunk :: "nat \<Rightarrow> nat \<Rightarrow> wmem \<Rightarrow> wmem" where
  "ffs_insert_chunk mpool chunk m =
     (let m = m(chunk + 8 := m mpool);
          m = m(chunk + 4 := 0);
          m = (if m mpool \<noteq> 0 then m(m mpool + 4 := chunk) else m)
      in m(mpool := chunk))"

definition ffs_init :: "nat \<Rightarrow> nat \<Rightarrow> wmem \<Rightarrow> (nat \<times> wmem) res" where
  "ffs_init mem_segm sz m =
     rbind (ASSERT (mem_segm \<noteq> 0 \<and> sz > 12 * 2)) (\<lambda>_.
       let start = ALIGN_FW mem_segm;
           mpool = start;
           start = start + 4;
           end' = ALIGN ((mem_segm + sz) mod 2 ^ 32);
           m = m(mpool := 0)
       in if (end' + 2 ^ 32 - start) mod 2 ^ 32 < 2 * HEADER_SIZE then Inr (0, m)
          else
            let border = start;
                m = m(border := 4);
                m = m(border := MARK_USED (m border));
                chunk = border + GET_SIZE (m border);
                m = m(chunk := end' - start - 2 * 4);
                m = m(chunk := MARK_FREE (m chunk));
                m = clone_size_to_tail chunk m;
                border = chunk + GET_SIZE (m chunk);
                m = m(border := 4);
                m = m(border := MARK_USED (m border))
            in Inr (mpool, ffs_insert_chunk mpool chunk m))"

text \<open>The search loop over the free list; the bound is never reached on a well-formed pool.\<close>

fun ffs_search :: "nat \<Rightarrow> nat \<Rightarrow> nat \<Rightarrow> wmem \<Rightarrow> nat res" where
  "ffs_search 0 sz iter m = Inl Out_of_fuel"
| "ffs_search (Suc n) sz iter m =
     (if iter \<noteq> 0 \<and> m iter < sz then ffs_search n sz (m (iter + 8)) m else Inr iter)"

text \<open>The size of the chunk for a request.\<close>

definition ffs_chunk_size :: "nat \<Rightarrow> nat" where
  "ffs_chunk_size sz =
     (let sz = (sz + 4 * 2) mod 2 ^ 32;
          sz = (if sz < HEADER_SIZE then HEADER_SIZE else sz)
      in ALIGN_FW sz)"

definition ffs_alloc :: "nat \<Rightarrow> nat \<Rightarrow> wmem \<Rightarrow> (nat \<times> wmem) res" where
  "ffs_alloc mpool req m =
     rbind (ASSERT (mpool \<noteq> 0)) (\<lambda>_.
       let sz = ffs_chunk_size req
       in rbind (ffs_search adr_space sz (m mpool) m) (\<lambda>iter.
          if iter = 0 then Inr (0, m)
          else
            let (chunk, m) =
                  (if m iter \<ge> (sz + HEADER_SIZE) mod 2 ^ 32 then
                     let m = m(iter := m iter - sz);
                         m = clone_size_to_tail iter m;
                         chunk = iter + GET_SIZE (m iter);
                         m = m(chunk := sz)
                     in (chunk, m)
                   else (iter, ffs_remove_chunk mpool iter m));
                m = m(chunk := MARK_USED (m chunk));
                m = clone_size_to_tail chunk m
            in Inr (chunk + 4, m)))"

definition ffs_free :: "nat \<Rightarrow> nat \<Rightarrow> wmem \<Rightarrow> wmem res" where
  "ffs_free mpool chunk_to_be_freed m =
     rbind (ASSERT (mpool \<noteq> 0 \<and> chunk_to_be_freed \<noteq> 0)) (\<lambda>_.
       let chunk = chunk_to_be_freed - 4;
           m = m(chunk := MARK_FREE (m chunk));
           before = chunk - 4;
           (chunk, m) =
             (if CHECK_FREE (m before) then
                let before = before - GET_SIZE (m before) + 4;
                    m = ffs_remove_chunk mpool before m;
                    m = m(before := m before + m chunk)
                in (before, m)
              else (chunk, m));
           after = chunk + GET_SIZE (m chunk);
           m = (if CHECK_FREE (m after) then
                  let m = ffs_remove_chunk mpool after m
                  in m(chunk := m chunk + m after)
                else m);
           m = ffs_insert_chunk mpool chunk m
       in Inr (clone_size_to_tail chunk m))"

section \<open>Bit marks\<close>

lemma MARK_USED_eq: "MARK_USED v = v + of_bool (even v)"
  unfolding MARK_USED_def by (rule or_one_eq)

lemma CHECK_FREE_eq: "CHECK_FREE v \<longleftrightarrow> even v"
  by (simp add: CHECK_FREE_def and_one_eq mod_2_eq_odd)

lemma MARK_FREE_eq: "MARK_FREE v = v - of_bool (odd v)"
  by (simp add: MARK_FREE_def mod_2_eq_odd)

lemma GET_SIZE_eq: "GET_SIZE v = v - of_bool (odd v)"
  by (simp add: GET_SIZE_def mod_2_eq_odd)

lemmas mark_simps = MARK_USED_eq MARK_FREE_eq CHECK_FREE_eq GET_SIZE_eq

section \<open>Chunks in memory\<close>

text \<open>The blocks given to clients: address and number of usable bytes.\<close>

fun used_blocks :: "nat \<Rightarrow> chunks \<Rightarrow> (nat \<times> nat) list" where
  "used_blocks a [] = []"
| "used_blocks a ((s, k) # cs) =
     (if k = Used then (a + 4, s - 8) # used_blocks (a + s) cs else used_blocks (a + s) cs)"

definition size_word :: "nat \<Rightarrow> mark \<Rightarrow> nat" where
  "size_word s k = s + of_bool (k = Used)"

fun layout :: "wmem \<Rightarrow> nat \<Rightarrow> chunks \<Rightarrow> bool" where
  "layout m a [] = True"
| "layout m a ((s, k) # cs) =
     ((k \<noteq> Hole \<longrightarrow> m a = size_word s k \<and> m (a + s - 4) = size_word s k) \<and> layout m (a + s) cs)"

text \<open>Addresses of the words that hold sizes.\<close>

fun size_words :: "nat \<Rightarrow> chunks \<Rightarrow> nat set" where
  "size_words a [] = {}"
| "size_words a ((s, k) # cs) = (if k = Hole then {} else {a, a + s - 4}) \<union> size_words (a + s) cs"

lemma layout_append [simp]:
  "layout m a (xs @ ys) \<longleftrightarrow> layout m a xs \<and> layout m (a + extent xs) ys"
  by (induction m a xs rule: layout.induct) (auto simp: add.assoc)

lemma used_blocks_append [simp]:
  "used_blocks a (xs @ ys) = used_blocks a xs @ used_blocks (a + extent xs) ys"
  by (induction a xs rule: used_blocks.induct) (auto simp: add.assoc)

lemma layout_cong:
  "(\<And>w. w \<in> size_words a cs \<Longrightarrow> m w = m' w) \<Longrightarrow> layout m a cs = layout m' a cs"
  by (induction a cs rule: size_words.induct) auto

lemma size_words_range: "sizes_ok cs \<Longrightarrow> w \<in> size_words a cs \<Longrightarrow> a \<le> w \<and> w + 4 \<le> a + extent cs"
  by (induction a cs rule: size_words.induct) (fastforce split: if_splits)+

lemma layout_frame:
  "sizes_ok cs \<Longrightarrow> (\<And>w. a \<le> w \<Longrightarrow> w + 4 \<le> a + extent cs \<Longrightarrow> w \<in> size_words a cs \<Longrightarrow> m' w = m w) \<Longrightarrow>
   layout m a cs \<Longrightarrow> layout m' a cs"
  using layout_cong [of a cs m m'] size_words_range by metis

lemma frees_links_apart:
  "sizes_ok cs \<Longrightarrow> x \<in> set (frees a cs) \<Longrightarrow> x + 4 \<notin> size_words a cs \<and> x + 8 \<notin> size_words a cs"
proof (induction a cs rule: frees.induct)
  case (2 a s u cs)
  then show ?case
    using frees_range [of cs x "a + s"] size_words_range [of cs _ "a + s"] by (fastforce split: if_splits)
qed simp

lemma used_blocks_split:
  "(p, n) \<in> set (used_blocks a cs) \<Longrightarrow>
   \<exists>xs s ys. cs = xs @ (s, Used) # ys \<and> p = a + extent xs + 4 \<and> n = s - 8"
proof (induction a cs rule: used_blocks.induct)
  case (2 a s u cs)
  show ?case
  proof (cases "(p, n) = (a + 4, s - 8) \<and> u = Used")
    case True
    then show ?thesis by (intro exI [of _ "[]"]) simp
  next
    case False
    with 2 obtain xs t ys where "cs = xs @ (t, Used) # ys" "p = a + s + extent xs + 4" "n = t - 8"
      by (auto split: if_splits)
    then show ?thesis by (intro exI [of _ "(s, u) # xs"]) simp
  qed
qed simp

section \<open>The free list\<close>

text \<open>The links of a free chunk, seen as a list element, and the free list of a pool.\<close>

definition lk :: "wmem \<Rightarrow> lheap" where
  "lk m f = \<lparr>prev = m (f + 4), next = m (f + 8), object = 0\<rparr>"

definition flist :: "wmem \<Rightarrow> nat \<Rightarrow> nat list \<Rightarrow> bool" where
  "flist m mp fs \<longleftrightarrow> m mp = hd0 fs \<and> dseg (lk m) 0 fs 0 \<and> distinct fs"

definition apart :: "nat \<Rightarrow> nat set \<Rightarrow> bool" where
  "apart mp F \<longleftrightarrow> (\<forall>x\<in>F. mp + 8 \<le> x) \<and>
     (\<forall>x\<in>F. \<forall>y\<in>F. x \<noteq> y \<longrightarrow> x + HEADER_SIZE \<le> y \<or> y + HEADER_SIZE \<le> x)"

lemma apart_mono: "apart mp F \<Longrightarrow> G \<subseteq> F \<Longrightarrow> apart mp G"
  unfolding apart_def by (meson subsetD)

lemma apartD:
  assumes "apart mp F" and "x \<in> F" and "y \<in> F"
  shows "x + 4 \<noteq> y + 8" "y + 8 \<noteq> x + 4" "mp \<noteq> x + 4" "mp \<noteq> x + 8"
proof -
  have "mp + 8 \<le> x" "x = y \<or> x + HEADER_SIZE \<le> y \<or> y + HEADER_SIZE \<le> x"
    using assms unfolding apart_def by metis+
  then show "x + 4 \<noteq> y + 8" "y + 8 \<noteq> x + 4" "mp \<noteq> x + 4" "mp \<noteq> x + 8" by auto
qed

lemma flist_dl: "flist m mp fs \<Longrightarrow> dl_list (lk m) \<lparr>first = hd0 fs, last = last0 fs\<rparr> fs"
  by (simp add: flist_def dl_list_def)

lemma lk_set_next:
  "apart mp F \<Longrightarrow> x \<in> F \<Longrightarrow> y \<in> F \<Longrightarrow> lk (m(x + 8 := v)) y = set_next x v (lk m) y"
  using apartD(1) [of mp F y x] by (simp add: lk_def)

lemma lk_set_prev:
  "apart mp F \<Longrightarrow> x \<in> F \<Longrightarrow> y \<in> F \<Longrightarrow> lk (m(x + 4 := v)) y = set_prev x v (lk m) y"
  using apartD(2) [of mp F x y] by (simp add: lk_def)

lemma lk_mpool: "apart mp F \<Longrightarrow> y \<in> F \<Longrightarrow> lk (m(mp := v)) y = lk m y"
  using apartD(3,4) [of mp F y y] by (simp add: lk_def)

lemma flist_frame:
  "flist m mp fs \<Longrightarrow> m' mp = m mp \<Longrightarrow> (\<And>x. x \<in> set fs \<Longrightarrow> m' (x + 4) = m (x + 4) \<and> m' (x + 8) = m (x + 8))
   \<Longrightarrow> flist m' mp fs"
  using dseg_cong [of fs "lk m" "lk m'" 0 0] by (simp add: flist_def lk_def)

lemma ffs_remove_chunk_flist:
  assumes fl: "flist m mp (us @ c # vs)" and ap: "apart mp (set (us @ c # vs))"
    and m': "m' = ffs_remove_chunk mp c m"
  shows "flist m' mp (us @ vs)"
    and "w \<noteq> mp \<Longrightarrow> (\<And>x. x \<in> set (us @ vs) \<Longrightarrow> x + 4 \<noteq> w \<and> x + 8 \<noteq> w) \<Longrightarrow> m' w = m w"
proof -
  let ?F = "set (us @ c # vs)"
  have d: "dl_list (lk m) \<lparr>first = hd0 (us @ c # vs), last = last0 (us @ c # vs)\<rparr> (us @ c # vs)"
    by (rule flist_dl [OF fl])
  have nz: "0 \<notin> ?F" using dl_list_nonzero [OF d] .
  have dist: "distinct (us @ c # vs)" using fl by (simp add: flist_def)
  have links: "m (c + 4) = last0 us" "m (c + 8) = hd0 vs" "m mp = hd0 (us @ c # vs)"
    using fl by (auto simp: flist_def dseg_middle lk_def last0_def hd0_def)
  have lu: "us \<noteq> [] \<Longrightarrow> last0 us \<in> set us" by (rule last0_in)
  have hv: "vs \<noteq> [] \<Longrightarrow> hd0 vs \<in> set vs" by (cases vs) auto
  have hz: "hd0 vs = 0 \<longleftrightarrow> vs = []" using nz by (intro hd0_eq_0) auto
  have first: "c = m mp \<longleftrightarrow> us = []" using dist links(3) by (cases us) auto
  define m1 where "m1 = (if us = [] then m(mp := hd0 vs) else m(last0 us + 8 := hd0 vs))"
  define h1 where "h1 = (if us = [] then lk m else set_next (last0 us) (hd0 vs) (lk m))"
  define h2 where "h2 = (if vs = [] then h1 else set_prev (hd0 vs) (last0 us) h1)"
  have neq: "last0 us + 8 \<noteq> c + 8" "last0 us + 8 \<noteq> c + 4" "mp \<noteq> c + 8" "mp \<noteq> c + 4" if "us \<noteq> []"
    using apartD [OF ap, of c "last0 us"] apartD [OF ap, of c c] lu [OF that] dist by auto
  have m1c: "m1 (c + 8) = hd0 vs" "m1 (c + 4) = last0 us"
    using links neq apartD [OF ap, of c c] by (auto simp: m1_def)
  have "(if c = m mp then m(mp := m (c + 8)) else m(m (c + 4) + 8 := m (c + 8))) = m1"
    by (simp only: first links(1,2) m1_def)
  then have "m' = (if hd0 vs \<noteq> 0 then m1(hd0 vs + 4 := last0 us) else m1)"
    by (simp only: m' ffs_remove_chunk_def Let_def m1c)
  then have m'2: "m' = (if vs = [] then m1 else m1(hd0 vs + 4 := last0 us))" by (simp add: hz)
  have l1: "lk m1 y = h1 y" if "y \<in> ?F" for y
    using lk_mpool [OF ap that] lk_set_next [OF ap _ that, of "last0 us"] lu by (simp add: m1_def h1_def)
  have l2: "lk m' y = h2 y" if "y \<in> ?F" for y
    using lk_set_prev [OF ap _ that, of "hd0 vs"] hv l1 [OF that] l1 [of "hd0 vs"] by (simp add: m'2 h2_def)
  have "dseg h2 0 (us @ vs) 0" by (rule dl_list_unlink(1) [OF d h1_def h2_def])
  then have "dseg (lk m') 0 (us @ vs) 0" using l2 by (subst dseg_cong [of _ _ h2]) auto
  moreover have "m' mp = hd0 (us @ vs)"
  proof -
    have "us \<noteq> [] \<Longrightarrow> mp \<noteq> last0 us + 8" "vs \<noteq> [] \<Longrightarrow> mp \<noteq> hd0 vs + 4"
      using apartD(4) [OF ap, of "last0 us" c] apartD(3) [OF ap, of "hd0 vs" c] lu hv by simp_all
    then show ?thesis using links(3) by (simp add: m'2 m1_def hd0_append)
  qed
  ultimately show "flist m' mp (us @ vs)" using dist by (simp add: flist_def)
  show "m' w = m w" if "w \<noteq> mp" "\<And>x. x \<in> set (us @ vs) \<Longrightarrow> x + 4 \<noteq> w \<and> x + 8 \<noteq> w"
    using that(1) that(2) [of "hd0 vs"] that(2) [of "last0 us"] lu hv by (auto simp: m'2 m1_def)
qed

lemma ffs_insert_chunk_flist:
  assumes fl: "flist m mp fs" and ap: "apart mp (set (c # fs))" and c: "c \<notin> set fs" "c \<noteq> 0"
    and m': "m' = ffs_insert_chunk mp c m"
  shows "flist m' mp (c # fs)"
    and "w \<noteq> mp \<Longrightarrow> w \<notin> {c + 4, c + 8} \<Longrightarrow> (\<And>x. x \<in> set fs \<Longrightarrow> x + 4 \<noteq> w) \<Longrightarrow> m' w = m w"
proof -
  have nz: "0 \<notin> set fs" and mp: "m mp = hd0 fs" using fl dseg_nonzero by (auto simp: flist_def)
  have hv: "fs \<noteq> [] \<Longrightarrow> hd0 fs \<in> set fs" by (cases fs) auto
  have hz: "hd0 fs = 0 \<longleftrightarrow> fs = []" using nz by (rule hd0_eq_0)
  note cc = apartD [OF ap, of c c]
  define m1 where "m1 = m(c + 8 := hd0 fs, c + 4 := 0)"
  have "m' = (if hd0 fs \<noteq> 0 then m1(hd0 fs + 4 := c) else m1)(mp := c)"
    using cc by (simp add: m' ffs_insert_chunk_def Let_def m1_def mp)
  then have m'2: "m' = (if fs = [] then m1 else m1(hd0 fs + 4 := c))(mp := c)" by (simp add: hz)
  define h1 where "h1 = set_prev c 0 (set_next c (hd0 fs) (lk m))"
  define h2 where "h2 = (if fs = [] then h1 else set_prev (hd0 fs) c h1)"
  have l1: "lk m1 y = h1 y" if "y \<in> set (c # fs)" for y
    using lk_set_prev [OF ap _ that, of c] lk_set_next [OF ap _ that, of c] lk_set_next [OF ap, of c c]
    by (simp add: m1_def h1_def)
  have l2: "lk m' y = h2 y" if "y \<in> set (c # fs)" for y
    using lk_set_prev [OF ap _ that, of "hd0 fs"] lk_mpool [OF ap that] hv l1 [OF that] l1 [of "hd0 fs"]
    by (simp add: m'2 h2_def)
  have "dseg h1 0 fs 0" using fl c by (simp add: h1_def flist_def dseg_frame)
  then have d2: "fs \<noteq> [] \<Longrightarrow> dseg h2 c fs 0"
    using dseg_set_prev_hd [of h1 0 fs 0 c] fl by (simp add: h2_def flist_def)
  have c2: "h2 c = h1 c" using hv c by (auto simp: h2_def)
  have "dseg h2 0 (c # fs) 0" using d2 c c2 by (cases fs) (simp_all add: h1_def)
  then have "dseg (lk m') 0 (c # fs) 0" using l2 by (subst dseg_cong [of _ _ h2]) auto
  then show "flist m' mp (c # fs)" using fl c by (simp add: flist_def m'2)
  show "m' w = m w" if "w \<noteq> mp" "w \<notin> {c + 4, c + 8}" "\<And>x. x \<in> set fs \<Longrightarrow> x + 4 \<noteq> w"
    using that(1,2) that(3) [of "hd0 fs"] hv by (auto simp: m'2 m1_def)
qed

section \<open>Pools\<close>

definition tiled :: "wmem \<Rightarrow> nat \<Rightarrow> chunks \<Rightarrow> nat list \<Rightarrow> bool" where
  "tiled m mp cs fs \<longleftrightarrow>
     mp \<noteq> 0 \<and> 4 dvd mp \<and> mp + 12 + extent cs < 2 ^ 32 \<and> m (mp + 4) = 5 \<and>
     m (mp + 8 + extent cs) = 5 \<and> sizes_ok cs \<and> layout m (mp + 8) cs \<and>
     flist m mp fs \<and> set fs = set (frees (mp + 8) cs)"

definition pool :: "wmem \<Rightarrow> nat \<Rightarrow> chunks \<Rightarrow> nat list \<Rightarrow> bool" where
  "pool m mp cs fs \<longleftrightarrow> tiled m mp cs fs \<and> coalesced cs \<and> (\<forall>c\<in>set cs. snd c \<noteq> Hole)"

lemma apart_starts: "sizes_ok cs \<Longrightarrow> apart mp (set (starts (mp + 8) cs))"
  using starts_range [of cs _ "mp + 8"] starts_apart [of cs _ "mp + 8"]
  by (simp add: apart_def)

lemma tiled_apart: "tiled m mp cs fs \<Longrightarrow> apart mp (set fs)"
  using apart_mono [OF apart_starts frees_starts] by (simp add: tiled_def)

text \<open>Memories that agree on every word the pool uses.\<close>

lemma tiled_frame:
  assumes "tiled m mp cs fs" and "m' mp = m mp" "m' (mp + 4) = m (mp + 4)"
    and "m' (mp + 8 + extent cs) = m (mp + 8 + extent cs)"
    and "\<And>w. w \<in> size_words (mp + 8) cs \<Longrightarrow> m' w = m w"
    and "\<And>x. x \<in> set (frees (mp + 8) cs) \<Longrightarrow> m' (x + 4) = m (x + 4) \<and> m' (x + 8) = m (x + 8)"
  shows "tiled m' mp cs fs"
proof -
  have t: "flist m mp fs" "set fs = set (frees (mp + 8) cs)" "layout m (mp + 8) cs"
    using assms(1) by (simp_all add: tiled_def)
  have "layout m' (mp + 8) cs" using t(3) assms(5) layout_cong [of "mp + 8" cs m m'] by simp
  moreover have "flist m' mp fs" using t assms(2,6) by (intro flist_frame [OF t(1)]) simp_all
  ultimately show ?thesis using assms(1-4) by (simp add: tiled_def)
qed

lemma size_words_append [simp]:
  "size_words a (xs @ ys) = size_words a xs \<union> size_words (a + extent xs) ys"
  by (induction a xs rule: size_words.induct) (auto simp: add.assoc)

text \<open>The words of the other chunks are outside of a chunk.\<close>

lemma outside_chunk:
  assumes ok: "sizes_ok (xs @ (s, k) # ys)" and c: "c = a + extent xs" and w: "c \<le> w" "w < c + s"
  shows "w \<notin> size_words a xs" "w \<notin> size_words (c + s) ys"
    and "x \<in> set (frees a xs) \<Longrightarrow> x + 4 \<noteq> w \<and> x + 8 \<noteq> w"
    and "x \<in> set (frees (c + s) ys) \<Longrightarrow> x + 4 \<noteq> w \<and> x + 8 \<noteq> w"
  using ok w c size_words_range [of xs w a] size_words_range [of ys w "c + s"]
    frees_range [of xs x a] frees_range [of ys x "c + s"]
  by auto

lemma tiled_write:
  assumes t: "tiled m mp (xs @ (s, k) # ys) fs" and c: "c = mp + 8 + extent xs"
    and k: "k = Hole \<and> c \<le> w \<and> w < c + s \<or> k = Used \<and> c < w \<and> w < c + s - 4"
  shows "tiled (m(w := v)) mp (xs @ (s, k) # ys) fs"
proof -
  have ok: "sizes_ok (xs @ (s, k) # ys)" using t unfolding tiled_def by blast
  then have "HEADER_SIZE \<le> s" by simp
  then have w: "c \<le> w" "w < c + s" using k by auto
  note out = outside_chunk [OF ok c w]
  have r: "w \<noteq> mp" "w \<noteq> mp + 4" "w \<noteq> mp + 8 + extent (xs @ (s, k) # ys)" using w c by auto
  have fr: "x + 4 \<noteq> w \<and> x + 8 \<noteq> w" if "x \<in> set (frees (mp + 8) (xs @ (s, k) # ys))" for x
  proof -
    have "x \<in> set (frees (mp + 8) xs) \<or> x \<in> set (frees (c + s) ys)"
      using that k by (auto simp: c)
    then show ?thesis using out(3,4) [of x] by blast
  qed
  have sz: "w \<notin> size_words (mp + 8) (xs @ (s, k) # ys)"
    using out(1,2) k w by (auto simp only: size_words_append size_words.simps c Un_iff insert_iff empty_iff simp_thms split: if_splits)
  show ?thesis
    using r fr sz by (intro tiled_frame [OF t]) (simp_all add: fun_upd_def, metis+)
qed

lemma tiled_take:
  assumes t: "tiled m mp (xs @ (s, Free) # ys) fs" and c: "c = mp + 8 + extent xs"
    and m': "m' = ffs_remove_chunk mp c m"
  shows "tiled m' mp (xs @ (s, Hole) # ys) (remove1 c fs)"
    and "z \<in> set (starts (mp + 8) (xs @ (s, Free) # ys)) \<Longrightarrow> m' z = m z"
    and "c \<in> set fs" and "m' c = s"
    and "w \<noteq> mp \<Longrightarrow> (\<And>x. x \<in> set (frees (mp + 8) (xs @ (s, Free) # ys)) \<Longrightarrow> x + 4 \<noteq> w \<and> x + 8 \<noteq> w) \<Longrightarrow>
      m' w = m w"
proof -
  let ?cs = "xs @ (s, Free) # ys" and ?ds = "xs @ (s, Hole) # ys" and ?a = "mp + 8"
  from t have ok: "sizes_ok ?cs" and fl: "flist m mp fs" and fs: "set fs = set (frees ?a ?cs)"
    and lay: "layout m ?a ?cs" and dist: "distinct fs"
    by (auto simp: tiled_def flist_def)
  show cin: "c \<in> set fs" by (simp add: fs c)
  then obtain us vs where sp: "fs = us @ c # vs" "c \<notin> set us" "c \<notin> set vs"
    using distinct_split [OF _ dist] by blast
  then have r1: "remove1 c fs = us @ vs" by (simp add: remove1_split)
  have ap: "apart mp (set (us @ c # vs))" using tiled_apart [OF t] sp by simp
  note rm = ffs_remove_chunk_flist [OF fl [unfolded sp] ap m']
  have sub: "set (us @ vs) \<subseteq> set (frees ?a ?cs)" using fs sp(1) by auto
  show same: "m' w = m w" if "w \<noteq> mp" "\<And>x. x \<in> set (frees ?a ?cs) \<Longrightarrow> x + 4 \<noteq> w \<and> x + 8 \<noteq> w" for w
    by (rule rm(2) [OF that(1) that(2)]) (use sub in blast)
  have szs: "m' w = m w" if "w \<in> size_words ?a ?cs" for w
  proof (rule same)
    show "w \<noteq> mp" using size_words_range [OF ok that] by simp
    show "x + 4 \<noteq> w \<and> x + 8 \<noteq> w" if "x \<in> set (frees ?a ?cs)" for x
      using frees_links_apart [OF ok that] \<open>w \<in> size_words ?a ?cs\<close> by metis
  qed
  show st: "m' z = m z" if "z \<in> set (starts ?a ?cs)" for z
  proof (rule same)
    show "z \<noteq> mp" using starts_range [OF ok that] by simp
    show "x + 4 \<noteq> z \<and> x + 8 \<noteq> z" if "x \<in> set (frees ?a ?cs)" for x
      using starts_apart [OF ok _ \<open>z \<in> set (starts ?a ?cs)\<close>, of x] frees_starts that by fastforce
  qed
  show "m' c = s" using st [of c] lay by (simp add: c size_word_def)
  have bd: "m' w = m w" if w: "w = mp + 4 \<or> w = mp + 8 + extent ?cs" for w
  proof (rule same)
    show "w \<noteq> mp" using w by auto
    show "x + 4 \<noteq> w \<and> x + 8 \<noteq> w" if "x \<in> set (frees ?a ?cs)" for x
      using frees_range [OF ok that] w by auto
  qed
  then have "m' (mp + 8 + extent ?ds) = m (mp + 8 + extent ?cs)" "m' (mp + 4) = m (mp + 4)" by simp_all
  moreover have "layout m' ?a ?ds"
    using lay szs layout_cong [of ?a ?cs m m'] by simp
  moreover have "set (us @ vs) = set (frees ?a ?ds)"
  proof -
    have "set (frees ?a ?cs) = insert c (set (frees ?a ?ds))" by (auto simp: c)
    moreover have "c \<notin> set (frees ?a ?ds)"
      using ok frees_range [of xs c ?a] frees_range [of ys c "?a + extent xs + s"] by (auto simp: c)
    ultimately show ?thesis using fs sp by auto
  qed
  ultimately show "tiled m' mp ?ds (remove1 c fs)"
    using t rm(1) by (simp add: tiled_def r1 sizes_ok_def)
qed

lemma tiled_put:
  assumes t: "tiled m mp (xs @ (s, Hole) # ys) fs" and c: "c = mp + 8 + extent xs"
    and w: "m c = s" "m (c + s - 4) = s" and m': "m' = ffs_insert_chunk mp c m"
  shows "tiled m' mp (xs @ (s, Free) # ys) (c # fs)"
    and "w \<noteq> mp \<Longrightarrow> (\<And>x. x \<in> set (frees (mp + 8) (xs @ (s, Free) # ys)) \<Longrightarrow> x + 4 \<noteq> w \<and> x + 8 \<noteq> w) \<Longrightarrow>
      m' w = m w"
proof -
  let ?cs = "xs @ (s, Free) # ys" and ?ds = "xs @ (s, Hole) # ys" and ?a = "mp + 8"
  from t have ok: "sizes_ok ?cs" and fl: "flist m mp fs" and fs: "set fs = set (frees ?a ?ds)"
    and lay: "layout m ?a ?ds"
    by (auto simp: tiled_def)
  have fsc: "set (c # fs) = set (frees ?a ?cs)" by (auto simp: c fs)
  have new: "c \<notin> set fs"
    using ok frees_range [of xs c ?a] frees_range [of ys c "?a + extent xs + s"] by (auto simp: c fs)
  have ap: "apart mp (set (c # fs))"
    unfolding fsc by (rule apart_mono [OF apart_starts [OF ok] frees_starts])
  note ins = ffs_insert_chunk_flist [OF fl ap new _ m']
  show same: "m' w = m w" if "w \<noteq> mp" "\<And>x. x \<in> set (frees ?a ?cs) \<Longrightarrow> x + 4 \<noteq> w \<and> x + 8 \<noteq> w" for w
  proof (rule ins(2))
    show "c \<noteq> 0" using c by simp
    show "w \<notin> {c + 4, c + 8}" using that(2) [of c] fsc by auto
    show "x + 4 \<noteq> w" if "x \<in> set fs" for x using \<open>\<And>x. x \<in> set (frees ?a ?cs) \<Longrightarrow> _\<close> [of x] fsc that by auto
  qed (rule that(1))
  have szs: "m' w = m w" if "w \<in> size_words ?a ?cs" for w
  proof (rule same)
    show "w \<noteq> mp" using size_words_range [OF ok that] by simp
    show "x + 4 \<noteq> w \<and> x + 8 \<noteq> w" if "x \<in> set (frees ?a ?cs)" for x
      using frees_links_apart [OF ok that] \<open>w \<in> size_words ?a ?cs\<close> by metis
  qed
  have bd: "m' w = m w" if w: "w = mp + 4 \<or> w = mp + 8 + extent ?cs" for w
  proof (rule same)
    show "w \<noteq> mp" using w by auto
    show "x + 4 \<noteq> w \<and> x + 8 \<noteq> w" if "x \<in> set (frees ?a ?cs)" for x
      using frees_range [OF ok that] w by auto
  qed
  have "layout m ?a ?cs" using lay w by (simp add: c size_word_def)
  then have "layout m' ?a ?cs" using szs layout_cong [of ?a ?cs m m'] by simp
  moreover have "m' (mp + 8 + extent ?cs) = 5" "m' (mp + 4) = 5"
    using t bd by (simp_all add: tiled_def)
  ultimately show "tiled m' mp ?cs (c # fs)"
    using t ok ins(1) fsc c by (simp add: tiled_def)
qed

lemma ffs_insert_chunk_write:
  assumes "w \<notin> {mp, c + 4, c + 8}" and "m mp \<noteq> 0 \<Longrightarrow> w \<noteq> m mp + 4" and "mp \<noteq> c + 8" "mp \<noteq> c + 4"
  shows "ffs_insert_chunk mp c (m(w := v)) = (ffs_insert_chunk mp c m)(w := v)"
  using assms by (auto simp: ffs_insert_chunk_def Let_def fun_upd_twist)

lemma tiled_merge:
  assumes "HEADER_SIZE \<le> s" "HEADER_SIZE \<le> t" "4 dvd s" "4 dvd t"
  shows "tiled m mp (xs @ (s, Hole) # (t, Hole) # ys) fs \<longleftrightarrow> tiled m mp (xs @ (s + t, Hole) # ys) fs"
  using assms by (auto simp: tiled_def add.assoc)

lemma tiled_forget: "tiled m mp (xs @ (s, Used) # ys) fs \<Longrightarrow> tiled m mp (xs @ (s, Hole) # ys) fs"
  by (simp add: tiled_def)

lemma tiled_use:
  "tiled m mp (xs @ (s, Hole) # ys) fs \<Longrightarrow> c = mp + 8 + extent xs \<Longrightarrow> m c = s + 1 \<Longrightarrow>
   m (c + s - 4) = s + 1 \<Longrightarrow> tiled m mp (xs @ (s, Used) # ys) fs"
  by (simp add: tiled_def size_word_def)

lemma tiled_header:
  "tiled m mp (xs @ (s, k) # ys) fs \<Longrightarrow> k \<noteq> Hole \<Longrightarrow> c = mp + 8 + extent xs \<Longrightarrow>
   m c = size_word s k \<and> m (c + s - 4) = size_word s k"
  by (simp add: tiled_def)

lemma tiled_size:
  assumes "tiled m mp (xs @ (s, k) # ys) fs"
  shows "HEADER_SIZE \<le> s" "4 dvd s" "mp + 12 + extent xs + s + extent ys < 2 ^ 32"
  using assms by (auto simp: tiled_def)

text \<open>Splitting a free chunk: the lower part stays in the free list.\<close>

lemma tiled_split:
  assumes t: "tiled m mp (xs @ (s, Free) # ys) fs" and c: "c = mp + 8 + extent xs"
    and n: "n + HEADER_SIZE \<le> s" "HEADER_SIZE \<le> n" "4 dvd n"
    and m': "m' = m(c := s - n, c + (s - n) - 4 := s - n, c + (s - n) := n + 1, c + s - 4 := n + 1)"
  shows "tiled m' mp (xs @ (s - n, Free) # (n, Used) # ys) fs"
proof -
  let ?cs = "xs @ (s, Free) # ys" and ?ds = "xs @ (s - n, Free) # (n, Used) # ys" and ?a = "mp + 8"
  from t have ok: "sizes_ok ?cs" and fl: "flist m mp fs" and fs: "set fs = set (frees ?a ?cs)"
    and lay: "layout m ?a ?cs"
    by (auto simp: tiled_def)
  have s: "HEADER_SIZE \<le> s" "4 dvd s" using tiled_size [OF t] by auto
  have oks: "sizes_ok xs" "sizes_ok ys" using ok by auto
  have out: "m' w = m w" if "w < c \<or> c + s \<le> w" for w using that n s by (auto simp: m')
  have "m' (x + 4) = m (x + 4) \<and> m' (x + 8) = m (x + 8)" if x: "x \<in> set fs" for x
  proof -
    have "x + HEADER_SIZE \<le> c \<or> x = c \<or> c + s \<le> x"
      using x oks frees_range [of xs x ?a] frees_range [of ys x "c + s"] by (auto simp: fs c)
    moreover have "m' (c + 4) = m (c + 4) \<and> m' (c + 8) = m (c + 8)"
    proof -
      have "c + k \<notin> {c, c + (s - n) - 4, c + (s - n), c + s - 4}" if "k = 4 \<or> k = 8" for k
        using n that by auto
      from this [of 4] this [of 8] show ?thesis by (simp add: m')
    qed
    ultimately show ?thesis using out [of "x + 4"] out [of "x + 8"] by fastforce
  qed
  moreover have "mp < c" using c by simp
  ultimately have f': "flist m' mp fs" using out [of mp] by (intro flist_frame [OF fl]) auto
  have "layout m' ?a xs"
    by (rule layout_frame [OF oks(1), of ?a m' m]) (use out c lay in simp_all)
  moreover have "layout m' (c + s) ys"
    by (rule layout_frame [OF oks(2), of "c + s" m' m]) (use out c lay in simp_all)
  moreover have "m' c = s - n" "m' (c + (s - n) - 4) = s - n" "m' (c + (s - n)) = n + 1"
    "m' (c + s - 4) = n + 1"
    using n s by (auto simp: m')
  ultimately have "layout m' ?a ?ds" using n by (auto simp: size_word_def c add.assoc)
  moreover have "4 dvd s - n" using s n by (simp add: dvd_diff_nat)
  moreover have "set (frees ?a ?ds) = set (frees ?a ?cs)" using n by (simp add: add.assoc)
  moreover have "m' (mp + 4) = 5" "m' (mp + 8 + extent ?ds) = 5"
    using t out n by (auto simp: tiled_def c)
  ultimately show ?thesis
    using t f' n s fs oks by (auto simp: tiled_def)
qed

section \<open>Allocation\<close>

lemma ffs_chunk_size_bounds:
  assumes "req + 12 \<le> 2 ^ 32"
  shows "req + 8 \<le> ffs_chunk_size req" "ffs_chunk_size req \<le> max HEADER_SIZE (req + 11)"
    "HEADER_SIZE \<le> ffs_chunk_size req" "4 dvd ffs_chunk_size req"
proof -
  let ?n = "max HEADER_SIZE (req + 8)"
  have al: "ALIGN p = 4 * (p div 4)" for p unfolding ALIGN_def by presburger
  have "?n + 3 < 2 ^ 32" using assms by simp
  then have n: "ffs_chunk_size req = 4 * ((?n + 3) div 4)"
    using assms by (simp add: ffs_chunk_size_def Let_def ALIGN_FW_def al max_def)
  have "?n \<le> 4 * ((?n + 3) div 4)" "4 * ((?n + 3) div 4) \<le> ?n + 3" by presburger+
  then show "req + 8 \<le> ffs_chunk_size req" "ffs_chunk_size req \<le> max HEADER_SIZE (req + 11)"
    "HEADER_SIZE \<le> ffs_chunk_size req" "4 dvd ffs_chunk_size req"
    using n by (auto simp: max_def split: if_splits)
qed

lemma ffs_search_seg:
  "dseg (lk m) p fs 0 \<Longrightarrow> length fs < n \<Longrightarrow>
   ffs_search n sz (hd0 fs) m = Inr (hd0 (dropWhile (\<lambda>x. m x < sz) fs))"
proof (induction fs arbitrary: p n)
  case Nil
  then show ?case by (cases n) simp_all
next
  case (Cons x fs)
  then obtain k where "n = Suc k" by (cases n) auto
  with Cons show ?case by (cases fs) (auto simp: lk_def)
qed

lemma tiled_free_length: "tiled m mp cs fs \<Longrightarrow> length fs < adr_space"
proof -
  assume t: "tiled m mp cs fs"
  then have ok: "sizes_ok cs" and fs: "set fs = set (frees (mp + 8) cs)" and d: "distinct fs"
    and b: "mp + 12 + extent cs < 2 ^ 32"
    by (simp_all add: tiled_def flist_def)
  have r: "mp + 8 \<le> x \<and> x < 2 ^ 32" if "x \<in> set fs" for x
    using frees_range [OF ok, of x "mp + 8"] that b unfolding fs by linarith
  have "0 \<notin> set fs" using r by fastforce
  then have "length (0 # fs) \<le> 2 ^ 32" using d r by (intro distinct_length_bound) auto
  then show ?thesis by simp
qed

lemma ffs_search_correct:
  assumes t: "tiled m mp cs fs"
  shows "ffs_search adr_space sz (m mp) m = Inr (hd0 (dropWhile (\<lambda>x. m x < sz) fs))"
  using t tiled_free_length [OF t] by (auto simp: tiled_def flist_def intro: ffs_search_seg)

lemma payload_apart:
  assumes ok: "sizes_ok cs" and b: "(q, l) \<in> set (used_blocks a cs)" and w: "q \<le> w" "w < q + l"
  shows "w \<notin> size_words a cs" "x \<in> set (frees a cs) \<Longrightarrow> x + 4 \<noteq> w \<and> x + 8 \<noteq> w"
    "a < w" "w < a + extent cs"
proof -
  obtain xs s ys where cs: "cs = xs @ (s, Used) # ys" and q: "q = a + extent xs + 4" "l = s - 8"
    using used_blocks_split [OF b] by blast
  have s: "HEADER_SIZE \<le> s" using ok by (simp add: cs)
  have w': "a + extent xs \<le> w" "w < a + extent xs + s" "w \<noteq> a + extent xs" "w \<noteq> a + extent xs + s - 4"
    using w q s by auto
  note out = outside_chunk [OF ok [unfolded cs] refl w'(1,2)]
  show "w \<notin> size_words a cs" using out(1,2) w' by (simp add: cs)
  show "x + 4 \<noteq> w \<and> x + 8 \<noteq> w" if "x \<in> set (frees a cs)" 
    using that out(3,4) [of x] by (auto simp only: cs frees_append frees.simps set_append Un_iff mark.distinct if_False)
  show "a < w" "w < a + extent cs" using w' w q s by (auto simp: cs)
qed

lemma blocks_outside:
  assumes "sizes_ok (xs @ (s, k) # ys)" and "k \<noteq> Used" and "(q, l) \<in> set (used_blocks a (xs @ (s, k) # ys))"
  shows "q + l \<le> a + extent xs \<or> a + extent xs + s \<le> q"
proof -
  have ran: "b \<le> q \<and> q + l \<le> b + extent cs" if "(q, l) \<in> set (used_blocks b cs)" "sizes_ok cs" for b cs
    using used_blocks_split [OF that(1)] that(2) by fastforce
  show ?thesis using assms ran [of a xs] ran [of "a + extent xs + s" ys] by auto
qed

text \<open>Two memories agree on the contents of all blocks in use.\<close>

definition same_blocks :: "nat \<Rightarrow> chunks \<Rightarrow> wmem \<Rightarrow> wmem \<Rightarrow> bool" where
  "same_blocks mp cs m m' \<longleftrightarrow>
     (\<forall>(q, l)\<in>set (used_blocks (mp + 8) cs). \<forall>w. q \<le> w \<and> w < q + l \<longrightarrow> m' w = m w)"

lemma coalesced_used: "coalesced (xs @ (s, k) # ys) \<Longrightarrow> coalesced (xs @ (t, Used) # ys)"
  by (auto simp: coalesced_append)

lemma ffs_alloc_whole:
  assumes p: "pool m mp (xs @ (s, Free) # ys) fs" and c: "c = mp + 8 + extent xs"
    and m1: "m1 = ffs_remove_chunk mp c m"
    and m': "m' = (let m = m1(c := MARK_USED (m1 c)) in clone_size_to_tail c m)"
  shows "pool m' mp (xs @ (s, Used) # ys) (remove1 c fs)" "same_blocks mp (xs @ (s, Free) # ys) m m'"
proof -
  have t: "tiled m mp (xs @ (s, Free) # ys) fs" using p by (simp add: pool_def)
  note tk = tiled_take [OF t c m1]
  note s = tiled_size [OF t]
  have ok: "sizes_ok (xs @ (s, Free) # ys)" using t by (simp add: tiled_def)
  have ev: "even s" using s(2) by (meson dvd_trans even_numeral)
  have m'2: "m' = m1(c := s + 1, c + s - 4 := s + 1)"
    using tk(4) ev by (simp add: m' clone_size_to_tail_def mark_simps Let_def)
  have "tiled m' mp (xs @ (s, Hole) # ys) (remove1 c fs)"
    unfolding m'2 using s by (intro tiled_write [OF _ c] tk(1)) auto
  then have "tiled m' mp (xs @ (s, Used) # ys) (remove1 c fs)"
    using s by (elim tiled_use [OF _ c]) (auto simp: m'2)
  then show "pool m' mp (xs @ (s, Used) # ys) (remove1 c fs)"
    using p coalesced_used by (auto simp: pool_def)
  have "m' w = m w" if b: "(q, l) \<in> set (used_blocks (mp + 8) (xs @ (s, Free) # ys))" and w: "q \<le> w" "w < q + l" for q l w
  proof -
    have "m1 w = m w" using payload_apart [OF ok b w] by (intro tk(5)) auto
    moreover have "w \<noteq> c" "w \<noteq> c + s - 4"
      using blocks_outside [OF ok _ b] w s(1) by (auto simp: c)
    ultimately show ?thesis by (simp add: m'2)
  qed
  then show "same_blocks mp (xs @ (s, Free) # ys) m m'" by (auto simp: same_blocks_def)
qed

lemma ffs_alloc_split:
  assumes p: "pool m mp (xs @ (s, Free) # ys) fs" and c: "c = mp + 8 + extent xs"
    and n: "n + HEADER_SIZE \<le> s" "HEADER_SIZE \<le> n" "4 dvd n"
    and m': "m' = m(c := s - n, c + (s - n) - 4 := s - n, c + (s - n) := n + 1, c + s - 4 := n + 1)"
  shows "pool m' mp (xs @ (s - n, Free) # (n, Used) # ys) fs" "same_blocks mp (xs @ (s, Free) # ys) m m'"
proof -
  have t: "tiled m mp (xs @ (s, Free) # ys) fs" using p by (simp add: pool_def)
  have ok: "sizes_ok (xs @ (s, Free) # ys)" using t by (simp add: tiled_def)
  show "pool m' mp (xs @ (s - n, Free) # (n, Used) # ys) fs"
    using p tiled_split [OF t c n m'] by (auto simp: pool_def coalesced_append)
  have "m' w = m w" if b: "(q, l) \<in> set (used_blocks (mp + 8) (xs @ (s, Free) # ys))" and w: "q \<le> w" "w < q + l" for q l w
  proof -
    have "w < c \<or> c + s \<le> w" using blocks_outside [OF ok _ b] w by (auto simp: c)
    then have "w \<notin> {c, c + (s - n) - 4, c + (s - n), c + s - 4}" using n by auto
    then show ?thesis by (simp add: m')
  qed
  then show "same_blocks mp (xs @ (s, Free) # ys) m m'" by (auto simp: same_blocks_def)
qed

lemma ffs_alloc_none:
  assumes "pool m mp cs fs" and "\<forall>x\<in>set fs. m x < ffs_chunk_size req"
  shows "ffs_alloc mp req m = Inr (0, m)"
proof -
  have t: "tiled m mp cs fs" using assms by (simp add: pool_def)
  have "dropWhile (\<lambda>x. m x < ffs_chunk_size req) fs = []" using assms(2) by simp
  then have "ffs_search adr_space (ffs_chunk_size req) (m mp) m = Inr 0" "mp \<noteq> 0"
    using ffs_search_correct [OF t, of "ffs_chunk_size req"] t by (simp_all only: hd0_simps tiled_def simp_thms)
  then show ?thesis by (simp add: ffs_alloc_def Let_def)
qed

lemma ffs_alloc_some:
  assumes p: "pool m mp cs fs" and req: "req + 12 \<le> 2 ^ 32" and n: "n = ffs_chunk_size req"
    and ex: "\<exists>x\<in>set fs. n \<le> m x"
  obtains xs s ys m' fs' where "cs = xs @ (s, Free) # ys" and "n \<le> s"
    and "ffs_alloc mp req m =
      Inr (mp + 8 + extent xs + (if n + HEADER_SIZE \<le> s then s - n else 0) + 4, m')"
    and "pool m' mp (xs @ (if n + HEADER_SIZE \<le> s then [(s - n, Free), (n, Used)] else [(s, Used)]) @ ys) fs'"
    and "same_blocks mp cs m m'"
proof -
  have t: "tiled m mp cs fs" using p by (simp add: pool_def)
  let ?rest = "dropWhile (\<lambda>x. m x < n) fs"
  from ex have "?rest \<noteq> []" by (auto simp: not_less)
  then obtain c rs where rest: "?rest = c # rs" by (cases ?rest) auto
  then have cin: "c \<in> set fs" and nc: "n \<le> m c"
    by (metis list.set_intros(1) set_dropWhileD) (metis dropWhile_eq_Cons_conv not_less rest)
  then have "c \<in> set (frees (mp + 8) cs)" using t by (simp add: tiled_def)
  then obtain xs s ys where cs: "cs = xs @ (s, Free) # ys" and c: "c = mp + 8 + extent xs"
    using frees_split by blast
  have mc: "m c = s" using tiled_header [OF t [unfolded cs] _ c] by (simp add: size_word_def)
  note sz = tiled_size [OF t [unfolded cs]]
  note nb = ffs_chunk_size_bounds [OF req, folded n]
  have ev: "even s" "even n" using sz(2) nb(4) by (meson dvd_trans even_numeral)+
  have "n + HEADER_SIZE < 2 ^ 32"
  proof -
    have "mp \<noteq> 0" "4 dvd mp" using t by (simp_all add: tiled_def)
    then have "4 \<le> mp" by (auto dest: dvd_imp_le)
    then show ?thesis using nc mc sz(3) by linarith
  qed
  then have md: "(n + HEADER_SIZE) mod 2 ^ 32 = n + HEADER_SIZE" by simp
  have srch: "ffs_search adr_space n (m mp) m = Inr c" "c \<noteq> 0" "mp \<noteq> 0"
    using ffs_search_correct [OF t, of n] rest c t by (simp_all add: tiled_def)
  show thesis
  proof (cases "n + HEADER_SIZE \<le> s")
    case True
    let ?m = "m(c := s - n, c + (s - n) - 4 := s - n, c + (s - n) := n + 1, c + s - 4 := n + 1)"
    have "s - n \<ge> HEADER_SIZE" using True by simp
    then have "ffs_alloc mp req m = Inr (c + (s - n) + 4, ?m)"
      using srch True md mc ev nb(3)
      by (simp add: ffs_alloc_def Let_def flip: n, simp add: clone_size_to_tail_def mark_simps)
    then show thesis
      using that [of xs s ys ?m fs] ffs_alloc_split [OF p [unfolded cs] c True nb(3,4) refl] True cs nc mc
      by (simp add: c)
  next
    case False
    let ?m1 = "ffs_remove_chunk mp c m"
    let ?m = "let m = ?m1(c := MARK_USED (?m1 c)) in clone_size_to_tail c m"
    have "ffs_alloc mp req m = Inr (c + 4, ?m)"
      using srch False md mc by (simp add: ffs_alloc_def Let_def flip: n)
    then show thesis
      using that [of xs s ys ?m "remove1 c fs"] ffs_alloc_whole [OF p [unfolded cs] c refl refl] False cs nc mc
      by (simp add: c)
  qed
qed

section \<open>Release\<close>

text \<open>The two joins of \<^verbatim>\<open>ffs_free\<close>, and what follows them.\<close>

definition join_left :: "nat \<Rightarrow> nat \<Rightarrow> wmem \<Rightarrow> nat \<times> wmem" where
  "join_left mpool chunk m =
     (let before = chunk - 4
      in if CHECK_FREE (m before) then
           let before = before - GET_SIZE (m before) + 4;
               m = ffs_remove_chunk mpool before m;
               m = m(before := m before + m chunk)
           in (before, m)
         else (chunk, m))"

definition join_right :: "nat \<Rightarrow> nat \<Rightarrow> wmem \<Rightarrow> wmem" where
  "join_right mpool chunk m =
     (let after = chunk + GET_SIZE (m chunk)
      in if CHECK_FREE (m after) then
           let m = ffs_remove_chunk mpool after m
           in m(chunk := m chunk + m after)
         else m)"

lemma ffs_free_steps:
  assumes "mpool \<noteq> 0" "p \<noteq> 0"
  shows "ffs_free mpool p m =
    (let (chunk, m) = join_left mpool (p - 4) (m(p - 4 := MARK_FREE (m (p - 4))));
         m = join_right mpool chunk m
     in Inr (clone_size_to_tail chunk (ffs_insert_chunk mpool chunk m)))"
  using assms unfolding ffs_free_def join_left_def join_right_def Let_def by simp

text \<open>A hole with a size in its first word, between chunks of which no two free ones are
  neighbours.\<close>

definition opened :: "wmem \<Rightarrow> nat \<Rightarrow> chunks \<Rightarrow> nat \<Rightarrow> chunks \<Rightarrow> nat list \<Rightarrow> bool" where
  "opened m mp xs s ys fs \<longleftrightarrow> tiled m mp (xs @ (s, Hole) # ys) fs \<and> m (mp + 8 + extent xs) = s \<and>
     coalesced xs \<and> coalesced ys \<and> (\<forall>c\<in>set xs \<union> set ys. snd c \<noteq> Hole)"

lemma opened_left_mark:
  assumes o: "opened m mp xs s ys fs" and c: "c = mp + 8 + extent xs"
  shows "CHECK_FREE (m (c - 4)) \<longleftrightarrow> xs \<noteq> [] \<and> snd (List.last xs) = Free"
    and "xs = zs @ [(t, Free)] \<Longrightarrow> c - 4 - GET_SIZE (m (c - 4)) + 4 = mp + 8 + extent zs"
proof -
  have t: "tiled m mp (xs @ (s, Hole) # ys) fs" using o by (simp add: opened_def)
  have tl: "m (c - 4) = size_word r k \<and> 4 dvd r \<and> HEADER_SIZE \<le> r" if "xs = zs @ [(r, k)]" for zs r k
  proof -
    have "k \<noteq> Hole" using o that by (auto simp: opened_def)
    then have "m (mp + 8 + extent zs + r - 4) = size_word r k" using t that by (simp add: tiled_def)
    moreover have "4 dvd r" "HEADER_SIZE \<le> r" using t that by (auto simp: tiled_def)
    ultimately show ?thesis by (simp add: c that add.assoc)
  qed
  have ev: "4 dvd r \<Longrightarrow> even r" for r :: nat by (meson dvd_trans even_numeral)
  show "CHECK_FREE (m (c - 4)) \<longleftrightarrow> xs \<noteq> [] \<and> snd (List.last xs) = Free"
  proof (cases xs rule: rev_cases)
    case Nil
    then have "m (c - 4) = 5" using t by (simp add: tiled_def c add.commute)
    then show ?thesis using Nil by (simp add: mark_simps)
  next
    case (snoc zs rk)
    moreover obtain r k where "rk = (r, k)" by (cases rk)
    ultimately show ?thesis
      using tl ev [of r] o by (cases k) (auto simp: mark_simps size_word_def opened_def)
  qed
  show "c - 4 - GET_SIZE (m (c - 4)) + 4 = mp + 8 + extent zs" if "xs = zs @ [(t, Free)]"
    using tl [OF that] ev [of t] that by (simp add: mark_simps size_word_def c)
qed

lemma join_left_opened:
  assumes o: "opened m mp xs s ys fs" and c: "c = mp + 8 + extent xs"
    and j: "join_left mp c m = (c', m')"
  shows "\<exists>zs r fs'. c' = mp + 8 + extent zs \<and> opened m' mp zs r ys fs' \<and>
      (zs = [] \<or> snd (List.last zs) = Used) \<and> zs @ (r, Hole) # ys = (if xs \<noteq> [] \<and> snd (List.last xs) = Free
        then butlast xs @ (fst (List.last xs) + s, Hole) # ys else xs @ (s, Hole) # ys) \<and>
      same_blocks mp (xs @ (s, Hole) # ys) m m'"
proof (cases "xs \<noteq> [] \<and> snd (List.last xs) = Free")
  case False
  then have "c' = c" "m' = m" using j opened_left_mark(1) [OF o c] by (auto simp: join_left_def Let_def)
  moreover have "xs = [] \<or> snd (List.last xs) = Used"
    using False o by (cases "snd (List.last xs)") (auto simp: opened_def dest: last_in_set)
  ultimately show ?thesis using o False c
    by (intro exI [of _ xs] exI [of _ s] exI [of _ fs]) (auto simp: same_blocks_def)
next
  case True
  then obtain zs t where xs: "xs = zs @ [(t, Free)]" by (cases xs rule: rev_cases) (auto simp: prod_eq_iff)
  let ?b = "mp + 8 + extent zs" and ?ys = "(s, Hole) # ys"
  have t0: "tiled m mp (zs @ (t, Free) # ?ys) fs" using o xs by (simp add: opened_def)
  let ?m1 = "ffs_remove_chunk mp ?b m"
  note tk = tiled_take [OF t0 refl refl]
  note st = tiled_size [OF t0]
  have ok: "sizes_ok (zs @ (t, Free) # ?ys)" using t0 by (simp add: tiled_def)
  have cb: "c = ?b + t" by (simp add: c xs)
  have mc: "m c = s" using o by (simp add: opened_def c)
  have m1c: "?m1 c = s" using tk(2) [of c] mc by (simp add: cb)
  have "CHECK_FREE (m (c - 4))" using True opened_left_mark(1) [OF o c] by blast
  then have "join_left mp c m = (?b, ?m1(?b := t + s))"
    unfolding join_left_def Let_def using opened_left_mark(2) [OF o c xs]
    by (simp only: if_True tk(4) m1c)
  then have m': "m' = ?m1(?b := t + s)" "c' = ?b" using j by simp_all
  have hs: "HEADER_SIZE \<le> s" "4 dvd s" using ok by auto
  have "tiled ?m1 mp (zs @ (t + s, Hole) # ys) (remove1 ?b fs)"
    using tk(1) tiled_merge [OF st(1) hs(1) st(2) hs(2)] by simp
  then have "tiled m' mp (zs @ (t + s, Hole) # ys) (remove1 ?b fs)"
    unfolding m'(1) using st by (intro tiled_write [OF _ refl]) auto
  then have "opened m' mp zs (t + s) ys (remove1 ?b fs)"
    using o xs by (auto simp: opened_def m'(1) coalesced_append)
  moreover have "zs = [] \<or> snd (List.last zs) = Used"
    using o xs by (auto simp: opened_def coalesced_append)
  moreover have "m' w = m w" if b: "(q, l) \<in> set (used_blocks (mp + 8) (xs @ ?ys))" and w: "q \<le> w" "w < q + l" for q l w
  proof -
    have b': "(q, l) \<in> set (used_blocks (mp + 8) (zs @ (t, Free) # ?ys))" using b xs by simp
    have "?m1 w = m w" using payload_apart [OF ok b' w] by (intro tk(5)) auto
    moreover have "w \<noteq> ?b" using blocks_outside [OF ok _ b'] w st(1) by auto
    ultimately show ?thesis by (simp add: m')
  qed
  ultimately show ?thesis
    using xs m'(2) True by (intro exI [of _ zs] exI [of _ "t + s"] exI [of _ "remove1 ?b fs"]) (auto simp: same_blocks_def)
qed

lemma opened_right_mark:
  assumes o: "opened m mp xs s ys fs" and c: "c = mp + 8 + extent xs"
  shows "CHECK_FREE (m (c + s)) \<longleftrightarrow> ys \<noteq> [] \<and> snd (hd ys) = Free"
    and "ys = (t, Free) # zs \<Longrightarrow> m (c + s) = t" and "GET_SIZE (m c) = s"
proof -
  have t: "tiled m mp (xs @ (s, Hole) # ys) fs" using o by (simp add: opened_def)
  have ev: "4 dvd r \<Longrightarrow> even r" for r :: nat by (meson dvd_trans even_numeral)
  have hd: "m (c + s) = size_word r k \<and> 4 dvd r" if "ys = (r, k) # zs" for zs r k
    using o t that by (auto simp: opened_def tiled_def c)
  show "CHECK_FREE (m (c + s)) \<longleftrightarrow> ys \<noteq> [] \<and> snd (hd ys) = Free"
  proof (cases ys)
    case Nil
    then have "m (c + s) = 5" using t by (simp add: tiled_def c add.assoc)
    then show ?thesis using Nil by (simp add: mark_simps)
  next
    case (Cons rk zs)
    moreover obtain r k where "rk = (r, k)" by (cases rk)
    ultimately show ?thesis
      using hd ev [of r] o by (cases k) (auto simp: mark_simps size_word_def opened_def)
  qed
  show "m (c + s) = t" if "ys = (t, Free) # zs" using hd [OF that] by (simp add: size_word_def)
  show "GET_SIZE (m c) = s" using o tiled_size(2) [OF t] ev [of s] by (simp add: opened_def c mark_simps)
qed

lemma join_right_opened:
  assumes o: "opened m mp xs s ys fs" and c: "c = mp + 8 + extent xs" and m': "m' = join_right mp c m"
  shows "\<exists>zs r fs'. opened m' mp xs r zs fs' \<and> (zs = [] \<or> snd (hd zs) = Used) \<and>
      (r, Hole) # zs = (if ys \<noteq> [] \<and> snd (hd ys) = Free then (s + fst (hd ys), Hole) # tl ys else (s, Hole) # ys) \<and>
      same_blocks mp (xs @ (s, Hole) # ys) m m'"
proof (cases "ys \<noteq> [] \<and> snd (hd ys) = Free")
  case False
  then have "m' = m" using opened_right_mark [OF o c] by (auto simp: m' join_right_def Let_def)
  moreover have "ys = [] \<or> snd (hd ys) = Used"
    using False o by (cases "snd (hd ys)") (auto simp: opened_def)
  ultimately show ?thesis using o False
    by (intro exI [of _ ys] exI [of _ s] exI [of _ fs]) (auto simp: same_blocks_def)
next
  case True
  then obtain t zs where ys: "ys = (t, Free) # zs" by (cases ys) (auto simp: prod_eq_iff)
  let ?xs = "xs @ [(s, Hole)]"
  have t0: "tiled m mp (?xs @ (t, Free) # zs) fs" using o ys by (simp add: opened_def)
  have b: "c + s = mp + 8 + extent ?xs" by (simp add: c)
  let ?m1 = "ffs_remove_chunk mp (c + s) m"
  note tk = tiled_take [OF t0 b refl]
  note st = tiled_size [OF t0]
  have ok: "sizes_ok (?xs @ (t, Free) # zs)" using t0 by (simp add: tiled_def)
  have "?m1 c = s" using tk(2) [of c] o by (simp add: c opened_def)
  then have m'2: "m' = ?m1(c := s + t)"
    using True opened_right_mark(1,3) [OF o c] tk(4) by (simp add: m' join_right_def Let_def)
  have hs: "HEADER_SIZE \<le> s" "4 dvd s" using ok by auto
  have "tiled ?m1 mp (xs @ (s + t, Hole) # zs) (remove1 (c + s) fs)"
    using tk(1) tiled_merge [OF hs(1) st(1) hs(2) st(2)] by simp
  then have "tiled m' mp (xs @ (s + t, Hole) # zs) (remove1 (c + s) fs)"
    unfolding m'2 using st by (intro tiled_write [OF _ c]) auto
  then have "opened m' mp xs (s + t) zs (remove1 (c + s) fs)"
    using o ys by (auto simp: opened_def m'2 c)
  moreover have "zs = [] \<or> snd (hd zs) = Used" using o ys by (auto simp: opened_def)
  moreover have "m' w = m w" if b: "(q, l) \<in> set (used_blocks (mp + 8) (xs @ (s, Hole) # ys))"
    and w: "q \<le> w" "w < q + l" for q l w
  proof -
    have b': "(q, l) \<in> set (used_blocks (mp + 8) (?xs @ (t, Free) # zs))" using b ys by simp
    have "?m1 w = m w" using payload_apart [OF ok b' w] by (intro tk(5)) auto
    moreover have "w \<noteq> c" using blocks_outside [of xs s Hole ys q l "mp + 8"] ok ys b w hs(1) by (auto simp: c)
    ultimately show ?thesis by (simp add: m'2)
  qed
  ultimately show ?thesis
    using ys True by (intro exI [of _ zs] exI [of _ "s + t"] exI [of _ "remove1 (c + s) fs"]) (auto simp: same_blocks_def)
qed

lemma opened_close:
  assumes o: "opened m mp xs s ys fs" and c: "c = mp + 8 + extent xs"
    and ends: "xs = [] \<or> snd (List.last xs) = Used" "ys = [] \<or> snd (hd ys) = Used"
    and m': "m' = clone_size_to_tail c (ffs_insert_chunk mp c m)"
  shows "pool m' mp (xs @ (s, Free) # ys) (c # fs)" "same_blocks mp (xs @ (s, Hole) # ys) m m'"
proof -
  have t: "tiled m mp (xs @ (s, Hole) # ys) fs" and mc: "m c = s" using o by (simp_all add: opened_def c)
  have ok: "sizes_ok (xs @ (s, Hole) # ys)" using t by (simp add: tiled_def)
  note st = tiled_size [OF t]
  let ?t = "c + s - 4"
  let ?m1 = "m(?t := s)"
  have ev: "even s" using st(2) by (meson dvd_trans even_numeral)
  have fl: "m mp = hd0 fs" "set fs = set (frees (mp + 8) (xs @ (s, Hole) # ys))"
    using t by (simp_all add: tiled_def flist_def)
  have tn: "x + 4 \<noteq> ?t" if "x \<in> set fs" for x
  proof -
    have "x \<in> set (frees (mp + 8) xs) \<or> x \<in> set (frees (c + s) ys)" using that by (auto simp: fl(2) c)
    moreover have "c \<le> ?t" "?t < c + s" using st(1) by simp_all
    ultimately show ?thesis using outside_chunk(3,4) [OF ok c, of ?t x] by blast
  qed
  have hin: "m mp \<noteq> 0 \<Longrightarrow> m mp \<in> set fs" using fl(1) by (cases fs) simp_all
  then have ap: "m mp \<noteq> 0 \<Longrightarrow> ?t \<noteq> m mp + 4" using tn by metis
  have com: "ffs_insert_chunk mp c ?m1 = (ffs_insert_chunk mp c m)(?t := s)"
    using st(1) c ap by (intro ffs_insert_chunk_write) auto
  have "c \<noteq> x + 4" if "x \<in> set fs" for x
  proof -
    have "x \<in> set (frees (mp + 8) xs) \<or> x \<in> set (frees (c + s) ys)" using that by (auto simp: fl(2) c)
    then show ?thesis using outside_chunk(3,4) [OF ok c, of c x] st(1) by auto
  qed
  then have "m mp \<noteq> 0 \<Longrightarrow> c \<noteq> m mp + 4" using hin by metis
  then have "ffs_insert_chunk mp c m c = s" using mc c by (simp add: ffs_insert_chunk_def Let_def)
  then have m'2: "m' = ffs_insert_chunk mp c ?m1"
    using ev by (simp add: m' com clone_size_to_tail_def mark_simps)
  have t1: "tiled ?m1 mp (xs @ (s, Hole) # ys) fs"
    using st(1) by (intro tiled_write [OF t c]) auto
  have w1: "?m1 c = s" "?m1 ?t = s" using mc by auto
  note pt = tiled_put [OF t1 c w1 m'2]
  show "pool m' mp (xs @ (s, Free) # ys) (c # fs)"
    using pt(1) o ends by (auto simp: pool_def opened_def coalesced_append)
  have "m' w = m w" if b: "(q, l) \<in> set (used_blocks (mp + 8) (xs @ (s, Hole) # ys))"
    and w: "q \<le> w" "w < q + l" for q l w
  proof -
    have b': "(q, l) \<in> set (used_blocks (mp + 8) (xs @ (s, Free) # ys))" and ok': "sizes_ok (xs @ (s, Free) # ys)"
      using b ok by auto
    have "m' w = ?m1 w" using payload_apart [OF ok' b' w] by (intro pt(2)) auto
    moreover have "w \<noteq> ?t" using blocks_outside [OF ok _ b] w st(1) by (auto simp: c)
    ultimately show ?thesis by simp
  qed
  then show "same_blocks mp (xs @ (s, Hole) # ys) m m'" by (auto simp: same_blocks_def)
qed

lemma same_blocks_trans:
  assumes "same_blocks mp cs m m1" and "same_blocks mp ds m1 m2"
    and "set (used_blocks (mp + 8) cs) \<subseteq> set (used_blocks (mp + 8) ds)"
  shows "same_blocks mp cs m m2"
  using assms unfolding same_blocks_def by fastforce

lemma ffs_free_pool:
  assumes p: "pool m mp (xs @ (s, Used) # ys) fs" and a: "a = mp + 8 + extent xs + 4"
  obtains zs r vs m' fs' where "ffs_free mp a m = Inr m'" and "pool m' mp (zs @ (r, Free) # vs) fs'"
    and "used_blocks (mp + 8) (zs @ (r, Free) # vs) = used_blocks (mp + 8) (xs @ (s, Hole) # ys)"
    and "same_blocks mp (xs @ (s, Hole) # ys) m m'"
proof -
  define c where c: "c = mp + 8 + extent xs"
  have t: "tiled m mp (xs @ (s, Used) # ys) fs" using p by (simp add: pool_def)
  note st = tiled_size [OF t]
  have ok: "sizes_ok (xs @ (s, Hole) # ys)" using t by (simp add: tiled_def)
  have ev: "even s" using st(2) by (meson dvd_trans even_numeral)
  let ?m0 = "m(c := MARK_FREE (m c))"
  have mk: "MARK_FREE (m c) = s"
    using tiled_header [OF t _ c] ev by (simp add: mark_simps size_word_def)
  then have m0: "?m0 = m(c := s)" by simp
  have "tiled ?m0 mp (xs @ (s, Hole) # ys) fs"
    unfolding m0 using st(1) by (intro tiled_write [OF tiled_forget [OF t] c]) auto
  then have o0: "opened ?m0 mp xs s ys fs"
    using p mk by (auto simp: opened_def c pool_def coalesced_append)
  have s0: "same_blocks mp (xs @ (s, Hole) # ys) m ?m0"
    using blocks_outside [OF ok] st(1) unfolding m0 same_blocks_def c by fastforce
  obtain c1 m1 where j1: "join_left mp c ?m0 = (c1, m1)" by fastforce
  from join_left_opened [OF o0 c j1] obtain zs r fs1
    where c1: "c1 = mp + 8 + extent zs" and o1: "opened m1 mp zs r ys fs1"
      and e1: "zs = [] \<or> snd (List.last zs) = Used"
      and l1: "zs @ (r, Hole) # ys = (if xs \<noteq> [] \<and> snd (List.last xs) = Free
        then butlast xs @ (fst (List.last xs) + s, Hole) # ys else xs @ (s, Hole) # ys)"
      and s1: "same_blocks mp (xs @ (s, Hole) # ys) ?m0 m1"
    by blast
  let ?m2 = "join_right mp c1 m1"
  from join_right_opened [OF o1 c1 refl] obtain vs q fs2
    where o2: "opened ?m2 mp zs q vs fs2" and e2: "vs = [] \<or> snd (hd vs) = Used"
      and l2: "(q, Hole) # vs = (if ys \<noteq> [] \<and> snd (hd ys) = Free then (r + fst (hd ys), Hole) # tl ys else (r, Hole) # ys)"
      and s2: "same_blocks mp (zs @ (r, Hole) # ys) m1 ?m2"
    by blast
  note cl = opened_close [OF o2 c1 e1 e2 refl]
  let ?m3 = "clone_size_to_tail c1 (ffs_insert_chunk mp c1 ?m2)"
  have u1: "used_blocks (mp + 8) (zs @ (r, Hole) # ys) = used_blocks (mp + 8) (xs @ (s, Hole) # ys)"
    unfolding l1 by (cases xs rule: rev_cases) (auto simp: add.assoc)
  have u2: "used_blocks b ((q, Hole) # vs) = used_blocks b ((r, Hole) # ys)" for b
    unfolding l2 by (cases ys) (auto simp: add.assoc)
  have "same_blocks mp (xs @ (s, Hole) # ys) m ?m3"
  proof (rule same_blocks_trans [OF same_blocks_trans [OF same_blocks_trans [OF s0 s1] s2] cl(2)])
    have "used_blocks (mp + 8) (zs @ (q, Hole) # vs) = used_blocks (mp + 8) (zs @ (r, Hole) # ys)"
      using u2 by (simp only: used_blocks_append)
    then show "set (used_blocks (mp + 8) (xs @ (s, Hole) # ys)) \<subseteq> set (used_blocks (mp + 8) (zs @ (q, Hole) # vs))"
      by (simp only: u1)
  qed (simp_all only: u1 subset_refl)
  moreover have "ffs_free mp a m = Inr ?m3"
  proof -
    have "mp \<noteq> 0" "a \<noteq> 0" "a - 4 = c" using t by (simp_all add: a c tiled_def)
    then show ?thesis using j1 by (simp add: ffs_free_steps Let_def)
  qed
  ultimately show thesis
    using that [OF _ cl(1)] u1 u2 by simp
qed

section \<open>Initialisation\<close>

lemma ALIGN_eq: "ALIGN p = 4 * (p div 4)"
  unfolding ALIGN_def by presburger

lemma ffs_init_pool:
  assumes seg: "seg \<noteq> 0" "24 < sz" "seg + sz < 2 ^ 32"
    and mp: "mp = ALIGN_FW seg" and e: "e = ALIGN (seg + sz)"
  shows "e < mp + 4 + 2 * HEADER_SIZE \<Longrightarrow> ffs_init seg sz m = Inr (0, m(mp := 0))"
    and "mp + 4 + 2 * HEADER_SIZE \<le> e \<Longrightarrow> \<exists>m'. ffs_init seg sz m = Inr (mp, m') \<and>
      pool m' mp [(e - mp - 12, Free)] [mp + 8]"
proof -
  have mp4: "mp = 4 * ((seg + 3) div 4)" using seg by (simp add: mp ALIGN_FW_def ALIGN_eq)
  have e4: "e = 4 * ((seg + sz) div 4)" by (simp add: e ALIGN_eq)
  have le: "mp + 4 \<le> e" "e \<le> seg + sz" "mp \<noteq> 0" using seg unfolding mp4 e4 by presburger+
  have d: "4 dvd mp" "4 dvd e" by (simp_all add: mp4 e4)
  have red: "(e + 2 ^ 32 - (mp + 4)) mod 2 ^ 32 = e - (mp + 4)"
  proof -
    have *: "e + 2 ^ 32 - (mp + 4) = (e - (mp + 4)) + 2 ^ 32" using le by simp
    have "e - (mp + 4) < 2 ^ 32" using le seg by linarith
    then show ?thesis unfolding * by (simp only: mod_add_self2 mod_less)
  qed
  have init: "ffs_init seg sz m =
    (if e - (mp + 4) < 2 * HEADER_SIZE then Inr (0, m(mp := 0))
     else let m = m(mp := 0, mp + 4 := 4);
              m = m(mp + 4 := MARK_USED (m (mp + 4)));
              chunk = mp + 4 + GET_SIZE (m (mp + 4));
              m = m(chunk := e - (mp + 4) - 2 * 4);
              m = m(chunk := MARK_FREE (m chunk));
              m = clone_size_to_tail chunk m;
              border = chunk + GET_SIZE (m chunk);
              m = m(border := 4);
              m = m(border := MARK_USED (m border))
          in Inr (mp, ffs_insert_chunk mp chunk m))"
    using seg mp e red unfolding ffs_init_def Let_def by simp
  show "ffs_init seg sz m = Inr (0, m(mp := 0))" if "e < mp + 4 + 2 * HEADER_SIZE"
    using that le by (simp add: init less_diff_conv2)
  show "\<exists>m'. ffs_init seg sz m = Inr (mp, m') \<and> pool m' mp [(e - mp - 12, Free)] [mp + 8]"
    if big: "mp + 4 + 2 * HEADER_SIZE \<le> e"
  proof -
    define n where "n = e - mp - 12"
    have n: "4 dvd n" "HEADER_SIZE \<le> n" "mp + 12 + n = e" "e - (mp + 4) - 2 * 4 = n"
      using big d by (auto simp: n_def intro: dvd_diff_nat)
    have ev: "even n" using n(1) by (meson dvd_trans even_numeral)
    define m1 where "m1 = m(mp := 0, mp + 4 := 5, mp + 8 := n, mp + 8 + n - 4 := n, mp + 8 + n := 5)"
    have "\<not> e - (mp + 4) < 2 * HEADER_SIZE" using big by simp
    then have i: "ffs_init seg sz m = Inr (mp, ffs_insert_chunk mp (mp + 8) m1)"
      using ev unfolding init Let_def n(4)
      by (simp add: mark_simps clone_size_to_tail_def m1_def add.commute)
    have t: "tiled m1 mp ([] @ (n, Hole) # []) []"
      using n(1,2) n(3) [symmetric] le d seg by (auto simp: tiled_def flist_def m1_def)
    have "m1 (mp + 8) = n" "m1 (mp + 8 + n - 4) = n" using n(2) by (auto simp: m1_def)
    then have "tiled (ffs_insert_chunk mp (mp + 8) m1) mp [(n, Free)] [mp + 8]"
      using tiled_put(1) [OF t, of "mp + 8" "ffs_insert_chunk mp (mp + 8) m1"] by simp
    then show ?thesis using i by (auto simp: pool_def n_def)
  qed
qed

section \<open>Reading the chunks back, and the interface\<close>

fun walk :: "nat \<Rightarrow> wmem \<Rightarrow> nat \<Rightarrow> chunks" where
  "walk 0 m a = []"
| "walk (Suc k) m a =
     (if GET_SIZE (m a) < HEADER_SIZE then []
      else (GET_SIZE (m a), if CHECK_FREE (m a) then Free else Used) # walk k m (a + GET_SIZE (m a)))"

lemma walk_layout:
  "layout m a cs \<Longrightarrow> sizes_ok cs \<Longrightarrow> \<forall>c\<in>set cs. snd c \<noteq> Hole \<Longrightarrow> m (a + extent cs) = 5 \<Longrightarrow>
   length cs < k \<Longrightarrow> walk k m a = cs"
proof (induction m a cs arbitrary: k rule: layout.induct)
  case (1 m a)
  then show ?case by (cases k) (simp_all add: mark_simps)
next
  case (2 m a s u cs)
  then obtain j where k: "k = Suc j" by (cases k) auto
  have "even s" using 2(3) by (auto intro: dvd_trans)
  moreover have "u \<noteq> Hole" using 2(4) by simp
  ultimately have "GET_SIZE (m a) = s" "CHECK_FREE (m a) \<longleftrightarrow> u = Free"
    using 2(2) by (auto simp: mark_simps size_word_def) (cases u, auto)+
  with 2 k show ?case by (cases u) (auto simp: add.assoc)
qed

lemma sizes_ok_length: "sizes_ok cs \<Longrightarrow> HEADER_SIZE * length cs \<le> extent cs"
  by (induction cs) auto

definition ffs_chunks :: "nat \<Rightarrow> wmem \<Rightarrow> chunks" where
  "ffs_chunks mp m = walk adr_space m (mp + 8)"

definition ffs_ok :: "nat \<Rightarrow> wmem \<Rightarrow> bool" where
  "ffs_ok mp m \<longleftrightarrow> (\<exists>fs. pool m mp (ffs_chunks mp m) fs)"

definition ffs_blocks :: "nat \<Rightarrow> wmem \<Rightarrow> (nat \<times> nat) set" where
  "ffs_blocks mp m = set (used_blocks (mp + 8) (ffs_chunks mp m))"

lemma pool_chunks: "pool m mp cs fs \<Longrightarrow> ffs_chunks mp m = cs"
proof -
  assume p: "pool m mp cs fs"
  then have "HEADER_SIZE * length cs \<le> extent cs" "extent cs < 2 ^ 32"
    using sizes_ok_length [of cs] by (auto simp: pool_def tiled_def)
  then have "length cs < adr_space" by simp
  with p show ?thesis unfolding ffs_chunks_def by (intro walk_layout) (auto simp: pool_def tiled_def)
qed

lemma pool_ok: "pool m mp cs fs \<Longrightarrow> ffs_ok mp m"
  using pool_chunks by (auto simp: ffs_ok_def)

lemma pool_blocks: "pool m mp cs fs \<Longrightarrow> ffs_blocks mp m = set (used_blocks (mp + 8) cs)"
  by (simp add: ffs_blocks_def pool_chunks)

lemma ffs_okE:
  assumes "ffs_ok mp m"
  obtains cs fs where "pool m mp cs fs" "ffs_blocks mp m = set (used_blocks (mp + 8) cs)"
  using assms pool_blocks by (auto simp: ffs_ok_def)

lemma used_blocks_range: "sizes_ok cs \<Longrightarrow> (q, l) \<in> set (used_blocks a cs) \<Longrightarrow> a + 4 \<le> q \<and> q + l + 4 \<le> a + extent cs \<and> 8 \<le> l"
  using used_blocks_split [of q l a cs] by fastforce

lemma used_blocks_disjoint:
  "sizes_ok cs \<Longrightarrow> (p, k) \<in> set (used_blocks a cs) \<Longrightarrow> (q, l) \<in> set (used_blocks a cs) \<Longrightarrow>
   (p, k) \<noteq> (q, l) \<Longrightarrow> p + k \<le> q \<or> q + l \<le> p"
proof (induction a cs rule: used_blocks.induct)
  case (2 a s u cs)
  have ok: "sizes_ok cs" and s: "HEADER_SIZE \<le> s" using 2(3) by auto
  note r1 = used_blocks_range [OF ok, of p k "a + s"] and r2 = used_blocks_range [OF ok, of q l "a + s"]
  show ?case
  proof (cases "(p, k) \<in> set (used_blocks (a + s) cs) \<and> (q, l) \<in> set (used_blocks (a + s) cs)")
    case True
    then show ?thesis using 2 ok by (cases "u = Used") auto
  next
    case False
    then show ?thesis using 2(4-6) r1 r2 s by (auto split: if_splits)
  qed
qed simp

lemma ffs_alloc_law:
  assumes ok: "ffs_ok mp m" and req: "req < 2 ^ 32 - 11"
  shows "\<exists>p m'. ffs_alloc mp req m = Inr (p, m') \<and> ffs_ok mp m' \<and> (p = 0 \<longrightarrow> m' = m) \<and>
    (p \<noteq> 0 \<longrightarrow> (\<exists>k\<ge>req. (p, k) \<notin> ffs_blocks mp m \<and> ffs_blocks mp m' = insert (p, k) (ffs_blocks mp m))) \<and>
    (\<forall>(q, l)\<in>ffs_blocks mp m. \<forall>w. q \<le> w \<and> w < q + l \<longrightarrow> m' w = m w)"
proof -
  obtain cs fs where p: "pool m mp cs fs" and b: "ffs_blocks mp m = set (used_blocks (mp + 8) cs)"
    using ok by (rule ffs_okE)
  let ?n = "ffs_chunk_size req"
  have r12: "req + 12 \<le> 2 ^ 32" using req by simp
  show ?thesis
  proof (cases "\<exists>x\<in>set fs. ?n \<le> m x")
    case False
    then have "ffs_alloc mp req m = Inr (0, m)" using ffs_alloc_none [OF p] by (simp add: not_le)
    then show ?thesis using ok by auto
  next
    case True
    note nb = ffs_chunk_size_bounds [OF r12]
    obtain xs s ys m' fs' where cs: "cs = xs @ (s, Free) # ys" and ns: "?n \<le> s"
      and al: "ffs_alloc mp req m = Inr (mp + 8 + extent xs + (if ?n + HEADER_SIZE \<le> s then s - ?n else 0) + 4, m')"
      and p': "pool m' mp (xs @ (if ?n + HEADER_SIZE \<le> s then [(s - ?n, Free), (?n, Used)] else [(s, Used)]) @ ys) fs'"
      and same: "same_blocks mp cs m m'"
      by (rule ffs_alloc_some [OF p r12 refl True])
    let ?a = "mp + 8 + extent xs + (if ?n + HEADER_SIZE \<le> s then s - ?n else 0) + 4"
    let ?k = "(if ?n + HEADER_SIZE \<le> s then ?n else s) - 8"
    have ins: "ffs_blocks mp m' = insert (?a, ?k) (ffs_blocks mp m)"
      using ns by (simp add: pool_blocks [OF p'] b cs add.assoc)
    have k: "req \<le> ?k" using nb(1) ns by auto
    have ok': "sizes_ok (xs @ (s, Free) # ys)" using p cs by (auto simp: pool_def tiled_def)
    have "(?a, ?k) \<notin> ffs_blocks mp m"
    proof
      assume "(?a, ?k) \<in> ffs_blocks mp m"
      then have "?a + ?k \<le> mp + 8 + extent xs \<or> mp + 8 + extent xs + s \<le> ?a"
        by (intro blocks_outside [OF ok']) (simp_all only: b cs mark.distinct not_False_eq_True)
      then show False using nb(3) ns by (auto split: if_splits)
    qed
    moreover have "ffs_ok mp m'" by (rule pool_ok [OF p'])
    moreover have "?a \<noteq> 0" by simp
    ultimately show ?thesis
      using al ins k same b unfolding same_blocks_def by (metis (no_types, lifting))
  qed
qed

lemma ffs_free_law:
  assumes ok: "ffs_ok mp m" and a: "(a, k) \<in> ffs_blocks mp m"
  shows "\<exists>m'. ffs_free mp a m = Inr m' \<and> ffs_ok mp m' \<and> ffs_blocks mp m' = ffs_blocks mp m - {(a, k)} \<and>
    (\<forall>(q, l)\<in>ffs_blocks mp m'. \<forall>w. q \<le> w \<and> w < q + l \<longrightarrow> m' w = m w)"
proof -
  obtain cs fs where p: "pool m mp cs fs" and b: "ffs_blocks mp m = set (used_blocks (mp + 8) cs)"
    using ok by (rule ffs_okE)
  from a b obtain xs s ys where cs: "cs = xs @ (s, Used) # ys" and ax: "a = mp + 8 + extent xs + 4" and k: "k = s - 8"
    using used_blocks_split by blast
  have szs: "sizes_ok (xs @ (s, Hole) # ys)" using p cs by (auto simp: pool_def tiled_def)
  obtain zs r vs m' fs' where fr: "ffs_free mp a m = Inr m'" and p': "pool m' mp (zs @ (r, Free) # vs) fs'"
    and u: "used_blocks (mp + 8) (zs @ (r, Free) # vs) = used_blocks (mp + 8) (xs @ (s, Hole) # ys)"
    and same: "same_blocks mp (xs @ (s, Hole) # ys) m m'"
    by (rule ffs_free_pool [OF p [unfolded cs] ax])
  have b': "ffs_blocks mp m' = set (used_blocks (mp + 8) (xs @ (s, Hole) # ys))"
    using pool_blocks [OF p'] by (simp only: u)
  have "(a, k) \<notin> set (used_blocks (mp + 8) (xs @ (s, Hole) # ys))"
  proof
    assume "(a, k) \<in> set (used_blocks (mp + 8) (xs @ (s, Hole) # ys))"
    then have "a + k \<le> mp + 8 + extent xs \<or> mp + 8 + extent xs + s \<le> a"
      by (intro blocks_outside [OF szs]) (simp_all only: mark.distinct not_False_eq_True)
    then show False using szs by (auto simp: ax k)
  qed
  moreover have "ffs_blocks mp m = insert (a, k) (set (used_blocks (mp + 8) (xs @ (s, Hole) # ys)))"
    by (auto simp: b cs ax k)
  ultimately have "ffs_blocks mp m' = ffs_blocks mp m - {(a, k)}" using b' by simp
  then show ?thesis using fr pool_ok [OF p'] same b' by (auto simp: same_blocks_def)
qed

text \<open>What a client writes into its block does not disturb the pool.\<close>

lemma ffs_store_law:
  assumes ok: "ffs_ok mp m" and b: "(p, k) \<in> ffs_blocks mp m" and w: "p \<le> w" "w < p + k"
  shows "ffs_ok mp (m(w := v)) \<and> ffs_blocks mp (m(w := v)) = ffs_blocks mp m"
proof -
  obtain cs fs where p: "pool m mp cs fs" and bs: "ffs_blocks mp m = set (used_blocks (mp + 8) cs)" using ok by (rule ffs_okE)
  obtain xs s ys where cs: "cs = xs @ (s, Used) # ys" "p = mp + 8 + extent xs + 4" "k = s - 8" using used_blocks_split b bs by blast
  have "tiled (m(w := v)) mp cs fs"
    using p unfolding cs(1) by (intro tiled_write [OF _ refl]) (use w cs(2,3) in \<open>auto simp: pool_def\<close>)
  then have "pool (m(w := v)) mp cs fs" using p by (simp add: pool_def)
  then show ?thesis using pool_ok pool_blocks bs by blast
qed

interpretation ffs: allocator "ffs_ok mp" "ffs_blocks mp" "\<lambda>m. m" "\<lambda>req. req < 2 ^ 32 - 11" "ffs_alloc mp" "ffs_free mp" "\<lambda>w v m. m(w := v)"
  for mp :: nat
proof
  fix m :: wmem and p k q l :: nat
  assume ok: "ffs_ok mp m"
  obtain cs fs where "pool m mp cs fs" and b: "ffs_blocks mp m = set (used_blocks (mp + 8) cs)"
    using ok by (rule ffs_okE)
  then have szs: "sizes_ok cs" by (simp add: pool_def tiled_def)
  show "(p, k) \<in> ffs_blocks mp m \<Longrightarrow> (q, l) \<in> ffs_blocks mp m \<Longrightarrow> (p, k) \<noteq> (q, l) \<Longrightarrow> p + k \<le> q \<or> q + l \<le> p"
    using used_blocks_disjoint [OF szs] b by metis
  show "(p, k) \<in> ffs_blocks mp m \<Longrightarrow> 0 < p \<and> 0 < k"
    using used_blocks_range [OF szs, of p k "mp + 8"] b by auto
next
  fix m :: wmem and req :: nat
  assume "ffs_ok mp m" and "req < 2 ^ 32 - 11"
  then show "\<exists>p m'. ffs_alloc mp req m = Inr (p, m') \<and> ffs_ok mp m' \<and> (p = 0 \<longrightarrow> m' = m) \<and>
      (p \<noteq> 0 \<longrightarrow> (\<exists>k\<ge>req. (p, k) \<notin> ffs_blocks mp m \<and> ffs_blocks mp m' = insert (p, k) (ffs_blocks mp m))) \<and>
      (\<forall>(q, l)\<in>ffs_blocks mp m. \<forall>w. q \<le> w \<and> w < q + l \<longrightarrow> m' w = m w)"
    by (rule ffs_alloc_law)
next
  fix m :: wmem and p k :: nat
  assume "ffs_ok mp m" and "(p, k) \<in> ffs_blocks mp m"
  then show "\<exists>m'. ffs_free mp p m = Inr m' \<and> ffs_ok mp m' \<and> ffs_blocks mp m' = ffs_blocks mp m - {(p, k)} \<and>
      (\<forall>(q, l)\<in>ffs_blocks mp m'. \<forall>w. q \<le> w \<and> w < q + l \<longrightarrow> m' w = m w)"
    by (rule ffs_free_law)
next
  fix m :: wmem and p k w v :: nat
  assume "ffs_ok mp m" "(p, k) \<in> ffs_blocks mp m" "p \<le> w" "w < p + k"
  then show "ffs_ok mp (m(w := v)) \<and> ffs_blocks mp (m(w := v)) = ffs_blocks mp m \<and> m(w := v) = m(w := v)"
    using ffs_store_law by blast
qed

section \<open>Properties\<close>

lemma no_used_single:
  assumes "coalesced cs" and "\<forall>c\<in>set cs. snd c \<noteq> Hole" and "used_blocks a cs = []"
  shows "cs = [] \<or> (\<exists>s. cs = [(s, Free)])"
proof (cases cs)
  case (Cons c ds)
  obtain s k where c: "c = (s, k)" by (cases c)
  have k: "k = Free" using assms(2,3) Cons c by (cases k) auto
  have "ds = []"
  proof (cases ds)
    case (Cons d es)
    obtain s' k' where d: "d = (s', k')" by (cases d)
    then have "k' = Used" using assms(1) \<open>cs = c # ds\<close> c k Cons by auto
    then show ?thesis using assms(3) \<open>cs = c # ds\<close> c k Cons d by simp
  qed
  then show ?thesis using Cons c k by simp
qed simp

text \<open>A pool made by \<^verbatim>\<open>ffs_init\<close> that is big enough for one chunk.\<close>

lemma ffs_init_ok:
  assumes "seg \<noteq> 0" "24 < sz" "seg + sz < 2 ^ 32" and "ALIGN_FW seg + 4 + 2 * HEADER_SIZE \<le> ALIGN (seg + sz)"
  shows "\<exists>m'. ffs_init seg sz m = Inr (ALIGN_FW seg, m') \<and> ffs_ok (ALIGN_FW seg) m' \<and>
    ffs_blocks (ALIGN_FW seg) m' = {}"
  using ffs_init_pool(2) [OF assms(1-3) refl refl assms(4), of m] pool_ok pool_blocks by fastforce

text \<open>C21. The first fit allocator serves every sequence of legal requests (sizes that do not wrap, releases
  of live blocks), with arbitrary stores of its clients into their blocks in between: no \<^verbatim>\<open>ASSERT\<close> fails, the pool stays well-formed, and a block
  that no request releases stays allocated and contains what was stored there last.\<close>

theorem ffs_serves:
  assumes "ffs_ok mp m" and "ffs.all_legal mp rs m"
  shows "\<exists>m'. ffs.run mp rs m = Inr m' \<and> ffs_ok mp m' \<and>
    (\<forall>(q, l)\<in>ffs_blocks mp m. Release q \<notin> set rs \<longrightarrow>
      (q, l) \<in> ffs_blocks mp m' \<and> (\<forall>w. q \<le> w \<and> w < q + l \<longrightarrow> m' w = stored w rs (m w)))"
  using ffs.run_ok [OF assms] ffs.run_keeps [OF assms] by blast

theorem ffs_serves_witness:
  "\<exists>m. ffs_init 4096 8192 (\<lambda>a. 0) = Inr (4096, m) \<and> ffs_ok 4096 m \<and>
     (\<exists>m'. ffs.run 4096 [Alloc 100, Alloc 5000, Alloc 3000] m = Inr m' \<and> ffs_ok 4096 m')"
proof -
  obtain m where m: "ffs_init 4096 8192 (\<lambda>a. 0) = Inr (4096, m)" "ffs_ok 4096 m"
    using ffs_init_ok [of 4096 8192 "\<lambda>a. 0"] by (auto simp: ALIGN_FW_def ALIGN_eq)
  have s: "\<exists>m'. ffs.serve 4096 (Alloc n) m = Inr m' \<and> ffs_ok 4096 m'" if "ffs_ok 4096 m" "n < 2 ^ 32 - 11" for m n
  proof -
    have "ffs.legal 4096 (Alloc n) m" unfolding ffs.legal_def using that(2) by simp
    then show ?thesis by (rule ffs.serve_ok [OF that(1)])
  qed
  obtain m1 where 1: "ffs.serve 4096 (Alloc 100) m = Inr m1" "ffs_ok 4096 m1" using s [OF m(2), of 100] by auto
  obtain m2 where 2: "ffs.serve 4096 (Alloc 5000) m1 = Inr m2" "ffs_ok 4096 m2" using s [OF 1(2), of 5000] by auto
  obtain m3 where 3: "ffs.serve 4096 (Alloc 3000) m2 = Inr m3" "ffs_ok 4096 m3" using s [OF 2(2), of 3000] by auto
  have l: "ffs.legal 4096 (Alloc n) m'" if "n < 2 ^ 32 - 11" for n m' unfolding ffs.legal_def using that by simp
  have "ffs.all_legal 4096 [Alloc 100, Alloc 5000, Alloc 3000] m"
    unfolding ffs.all_legal.simps 1(1) 2(1) 3(1) sum.case using l [of 100] l [of 5000] l [of 3000] by simp
  with ffs_serves [OF m(2) this] m show ?thesis by blast
qed

text \<open>C22. A request below \<open>2 ^ 32 - 11\<close> bytes always returns: with 0 and nothing changed, or with a
  block of at least that size, inside of which no byte belongs to another live block.\<close>

theorem ffs_alloc_disjoint:
  assumes "ffs_ok mp m" and "req < 2 ^ 32 - 11"
  shows "\<exists>p m'. ffs_alloc mp req m = Inr (p, m') \<and> ffs_ok mp m' \<and>
    (if p = 0 then m' = m
     else \<exists>k\<ge>req. ffs_blocks mp m' = insert (p, k) (ffs_blocks mp m) \<and>
       (\<forall>(q, l)\<in>ffs_blocks mp m. p + k \<le> q \<or> q + l \<le> p))"
proof -
  obtain p m' where r: "ffs_alloc mp req m = Inr (p, m')" "ffs_ok mp m'" "p = 0 \<longrightarrow> m' = m"
    "p \<noteq> 0 \<longrightarrow> (\<exists>k\<ge>req. (p, k) \<notin> ffs_blocks mp m \<and> ffs_blocks mp m' = insert (p, k) (ffs_blocks mp m))"
    using ffs_alloc_law [OF assms] by blast
  have "p + k \<le> q \<or> q + l \<le> p"
    if "(p, k) \<notin> ffs_blocks mp m" "ffs_blocks mp m' = insert (p, k) (ffs_blocks mp m)" "(q, l) \<in> ffs_blocks mp m" for k q l
    using ffs.disjoint [OF r(2), of p k q l] that by auto
  with r show ?thesis by (intro exI [of _ p] exI [of _ m']) auto
qed

theorem ffs_alloc_disjoint_witness:
  "\<exists>m. ffs_init 4096 8192 (\<lambda>a. 0) = Inr (4096, m) \<and> ffs_ok 4096 m \<and>
     (\<exists>p m'. ffs_alloc 4096 100 m = Inr (p, m') \<and> ffs_ok 4096 m')"
proof -
  obtain m where m: "ffs_init 4096 8192 (\<lambda>a. 0) = Inr (4096, m)" "ffs_ok 4096 m"
    using ffs_init_ok [of 4096 8192 "\<lambda>a. 0"] by (auto simp: ALIGN_FW_def ALIGN_eq)
  with ffs_alloc_disjoint [OF m(2), of 100] show ?thesis by auto
qed

text \<open>Freed chunks are joined with free neighbours: after the only live block is freed the pool is one
  free chunk again, whatever was allocated and freed before.\<close>

theorem ffs_free_joins:
  assumes "ffs_ok mp m" and "ffs_blocks mp m = {(p, k)}"
  shows "\<exists>m' s. ffs_free mp p m = Inr m' \<and> ffs_ok mp m' \<and> ffs_blocks mp m' = {} \<and>
    (ffs_chunks mp m' = [] \<or> ffs_chunks mp m' = [(s, Free)])"
proof -
  obtain m' where m': "ffs_free mp p m = Inr m'" "ffs_ok mp m'" "ffs_blocks mp m' = {}"
    using ffs_free_law [OF assms(1), of p k] assms(2) by auto
  obtain fs where "pool m' mp (ffs_chunks mp m') fs" using m'(2) by (auto simp: ffs_ok_def)
  then have "ffs_chunks mp m' = [] \<or> (\<exists>s. ffs_chunks mp m' = [(s, Free)])"
    using no_used_single [of "ffs_chunks mp m'" "mp + 8"] m'(3) by (auto simp: pool_def ffs_blocks_def)
  with m' show ?thesis by auto
qed

theorem ffs_free_joins_witness:
  "\<exists>m p k m'. ffs_ok 4096 m \<and> ffs_blocks 4096 m = {(p, k)} \<and> ffs_free 4096 p m = Inr m' \<and> ffs_blocks 4096 m' = {}"
proof -
  obtain m0 where m0: "pool m0 4096 [(8180, Free)] [4104]"
    using ffs_init_pool(2) [OF _ _ _ refl refl, of 4096 8192 "\<lambda>a. 0"] by (auto simp: ALIGN_FW_def ALIGN_eq)
  have big: "\<exists>x\<in>set [4104::nat]. ffs_chunk_size 100 \<le> m0 x"
    using m0 by (simp add: pool_def tiled_def size_word_def ffs_chunk_size_def ALIGN_FW_def ALIGN_eq Let_def)
  obtain xs s ys m fs where "[(8180, Free)] = xs @ (s, Free) # ys"
    and "pool m 4096 (xs @ (if ffs_chunk_size 100 + HEADER_SIZE \<le> s then [(s - ffs_chunk_size 100, Free), (ffs_chunk_size 100, Used)] else [(s, Used)]) @ ys) fs"
    by (rule ffs_alloc_some [OF m0 _ refl big]) auto
  then have "pool m 4096 (if ffs_chunk_size 100 + HEADER_SIZE \<le> 8180 then [(8180 - ffs_chunk_size 100, Free), (ffs_chunk_size 100, Used)] else [(8180, Used)]) fs"
    by (cases xs) auto
  then have "ffs_ok 4096 m \<and> (\<exists>p k. ffs_blocks 4096 m = {(p, k)})"
    using pool_ok pool_blocks by (fastforce split: if_splits)
  then show ?thesis using ffs_free_joins by blast
qed

end
