(* ===== verification/Os_Time.thy ===== *)
theory Os_Time
  imports Os_Base
begin

text \<open>
  Time values of \<^verbatim>\<open>lib/types.h\<close>: the structure \<^verbatim>\<open>time_t\<close> and the inline functions
  \<^verbatim>\<open>time_add\<close>, \<^verbatim>\<open>time_sub\<close>, \<^verbatim>\<open>time_cmp\<close>. Both fields are C \<^verbatim>\<open>int\<close>: every sum and difference
  wraps at 32 bits (\<open>int32\<close>), and the properties say what that does to the seconds.
  \<open>time_t\<close> is an instance of \<open>linorder\<close>, with the order that \<^verbatim>\<open>time_cmp\<close> computes.
\<close>

datatype time_t = Time (sec: int) (nsec: int)

abbreviation NSEC :: int where "NSEC \<equiv> 1000000000"

definition time_add :: "time_t \<Rightarrow> time_t \<Rightarrow> time_t" where
  "time_add a b =
     (let a = Time (int32 (sec a + sec b)) (int32 (nsec a + nsec b))
      in if nsec a > NSEC then Time (int32 (sec a + 1)) (int32 (nsec a - NSEC)) else a)"

definition time_sub :: "time_t \<Rightarrow> time_t \<Rightarrow> time_t" where
  "time_sub a b =
     (if nsec a \<ge> nsec b then Time (int32 (sec a - sec b)) (int32 (nsec a - nsec b))
      else Time (int32 (sec a - int32 (sec b + 1))) (int32 (nsec a + int32 (NSEC - nsec b))))"

definition time_cmp :: "time_t \<Rightarrow> time_t \<Rightarrow> int" where
  "time_cmp a b =
     (if sec a < sec b then -1
      else if sec a > sec b then 1
      else if nsec a < nsec b then -1
      else if nsec a > nsec b then 1
      else 0)"

section \<open>The order of time values\<close>

instantiation time_t :: linorder
begin

definition less_eq_time_t :: "time_t \<Rightarrow> time_t \<Rightarrow> bool" where
  "a \<le> b \<longleftrightarrow> sec a < sec b \<or> (sec a = sec b \<and> nsec a \<le> nsec b)"

definition less_time_t :: "time_t \<Rightarrow> time_t \<Rightarrow> bool" where
  "a < b \<longleftrightarrow> sec a < sec b \<or> (sec a = sec b \<and> nsec a < nsec b)"

instance
  by standard (auto simp: less_eq_time_t_def less_time_t_def intro: time_t.expand)

end

lemma time_cmp_order:
  "time_cmp a b < 0 \<longleftrightarrow> a < b" "time_cmp a b = 0 \<longleftrightarrow> a = b" "time_cmp a b > 0 \<longleftrightarrow> b < a"
  "time_cmp a b \<le> 0 \<longleftrightarrow> a \<le> b" "time_cmp a b \<ge> 0 \<longleftrightarrow> b \<le> a"
  by (auto simp: time_cmp_def less_time_t_def less_eq_time_t_def intro: time_t.expand)

section \<open>Meaning in nanoseconds\<close>

definition ns :: "time_t \<Rightarrow> int" where
  "ns t = sec t * NSEC + nsec t"

text \<open>Normal times have less than a second in the nanosecond field, and their seconds are an \<^verbatim>\<open>int\<close>. \<^verbatim>\<open>time_add\<close> leaves a nanosecond field of
  exactly \<open>10 ^ 9\<close> alone, so that some times are only weakly normal.\<close>

definition normal :: "time_t \<Rightarrow> bool" where
  "normal t \<longleftrightarrow> 0 \<le> nsec t \<and> nsec t < NSEC \<and> in_int (sec t)"

definition weak_normal :: "time_t \<Rightarrow> bool" where
  "weak_normal t \<longleftrightarrow> 0 \<le> nsec t \<and> nsec t \<le> NSEC \<and> in_int (sec t)"

lemma normal_weak: "normal t \<Longrightarrow> weak_normal t"
  by (auto simp: normal_def weak_normal_def)

text \<open>On weakly normal times the nanosecond fields do not overflow.\<close>

lemma time_add_wrap:
  assumes "weak_normal a" and "weak_normal b"
  shows "time_add a b = (if nsec a + nsec b > NSEC then Time (int32 (int32 (sec a + sec b) + 1)) (nsec a + nsec b - NSEC)
    else Time (int32 (sec a + sec b)) (nsec a + nsec b))"
  using assms by (simp add: time_add_def Let_def weak_normal_def int32_id)

lemma time_sub_wrap:
  assumes "weak_normal a" and "weak_normal b"
  shows "time_sub a b = (if nsec a \<ge> nsec b then Time (int32 (sec a - sec b)) (nsec a - nsec b)
    else Time (int32 (sec a - int32 (sec b + 1))) (nsec a + NSEC - nsec b))"
  using assms by (simp add: time_sub_def weak_normal_def int32_id algebra_simps)

text \<open>The result is the sum or difference, modulo the \<open>2 ^ 32\<close> seconds that fit in the field; it is exact when no intermediate result overflows.\<close>

abbreviation ns_range :: int where "ns_range \<equiv> 2 ^ 32 * NSEC"

lemma int32_cong: "a mod 2 ^ 32 = b mod 2 ^ 32 \<Longrightarrow> a * NSEC mod ns_range = b * NSEC mod ns_range"
  using mult_mod_right [of NSEC a "2 ^ 32"] mult_mod_right [of NSEC b "2 ^ 32"] by (simp add: mult.commute)

lemma ns_mod: "sec t mod 2 ^ 32 = v mod 2 ^ 32 \<Longrightarrow> ns t mod ns_range = (v * NSEC + nsec t) mod ns_range"
  unfolding ns_def using int32_cong [of "sec t" v] mod_add_cong [of "sec t * NSEC" ns_range "v * NSEC" "nsec t" "nsec t"] by simp

lemma ns_time_add_mod:
  assumes "weak_normal a" and "weak_normal b"
  shows "ns (time_add a b) mod ns_range = (ns a + ns b) mod ns_range"
proof (cases "nsec a + nsec b > NSEC")
  case True
  have "int32 (int32 (sec a + sec b) + 1) mod 2 ^ 32 = (sec a + sec b + 1) mod 2 ^ 32"
    using int32_mod [of "int32 (sec a + sec b) + 1"] int32_mod [of "sec a + sec b"] by (metis mod_add_left_eq)
  then show ?thesis using True ns_mod [of "time_add a b" "sec a + sec b + 1"] time_add_wrap [OF assms] by (simp add: ns_def algebra_simps)
next
  case False
  then show ?thesis using ns_mod [of "time_add a b" "sec a + sec b"] int32_mod [of "sec a + sec b"] time_add_wrap [OF assms]
    by (simp add: ns_def algebra_simps)
qed

lemma ns_time_sub_mod:
  assumes "weak_normal a" and "weak_normal b"
  shows "ns (time_sub a b) mod ns_range = (ns a - ns b) mod ns_range"
proof (cases "nsec a \<ge> nsec b")
  case True
  then show ?thesis using ns_mod [of "time_sub a b" "sec a - sec b"] int32_mod [of "sec a - sec b"] time_sub_wrap [OF assms]
    by (simp add: ns_def algebra_simps)
next
  case False
  have "int32 (sec a - int32 (sec b + 1)) mod 2 ^ 32 = (sec a - (sec b + 1)) mod 2 ^ 32"
    using int32_mod [of "sec a - int32 (sec b + 1)"] int32_mod [of "sec b + 1"] by (metis mod_diff_right_eq)
  then show ?thesis using False ns_mod [of "time_sub a b" "sec a - (sec b + 1)"] time_sub_wrap [OF assms] by (simp add: ns_def algebra_simps)
qed

definition add_fits :: "time_t \<Rightarrow> time_t \<Rightarrow> bool" where
  "add_fits a b \<longleftrightarrow> in_int (sec a + sec b) \<and> in_int (sec a + sec b + 1)"

definition sub_fits :: "time_t \<Rightarrow> time_t \<Rightarrow> bool" where
  "sub_fits a b \<longleftrightarrow> in_int (sec b + 1) \<and> in_int (sec a - sec b) \<and> in_int (sec a - sec b - 1)"

lemma time_add_exact:
  assumes "weak_normal a" and "weak_normal b" and "add_fits a b"
  shows "time_add a b = (if nsec a + nsec b > NSEC then Time (sec a + sec b + 1) (nsec a + nsec b - NSEC) else Time (sec a + sec b) (nsec a + nsec b))"
  using assms(3) time_add_wrap [OF assms(1,2)] by (simp add: add_fits_def int32_in_int)

lemma time_sub_exact:
  assumes "weak_normal a" and "weak_normal b" and "sub_fits a b"
  shows "time_sub a b = (if nsec a \<ge> nsec b then Time (sec a - sec b) (nsec a - nsec b) else Time (sec a - sec b - 1) (nsec a + NSEC - nsec b))"
  using assms(3) time_sub_wrap [OF assms(1,2)] by (simp add: sub_fits_def int32_in_int diff_diff_eq)

lemma ns_time_add: "weak_normal a \<Longrightarrow> weak_normal b \<Longrightarrow> add_fits a b \<Longrightarrow> ns (time_add a b) = ns a + ns b"
  using time_add_exact [of a b] by (simp add: ns_def algebra_simps)

lemma ns_time_sub: "weak_normal a \<Longrightarrow> weak_normal b \<Longrightarrow> sub_fits a b \<Longrightarrow> ns (time_sub a b) = ns a - ns b"
  using time_sub_exact [of a b] by (simp add: ns_def algebra_simps)

lemma normal_time_sub: "normal a \<Longrightarrow> normal b \<Longrightarrow> normal (time_sub a b)"
  using time_sub_wrap [of a b] by (auto simp: normal_weak normal_def)

lemma normal_time_add: "normal a \<Longrightarrow> normal b \<Longrightarrow> normal (time_add a b) \<longleftrightarrow> nsec a + nsec b \<noteq> NSEC"
  using time_add_wrap [of a b] by (auto simp: normal_weak normal_def)

lemma weak_time_add: "weak_normal a \<Longrightarrow> weak_normal b \<Longrightarrow> weak_normal (time_add a b)"
  using time_add_wrap [of a b] by (auto simp: weak_normal_def)

lemma weak_time_sub: "weak_normal a \<Longrightarrow> weak_normal b \<Longrightarrow> weak_normal (time_sub a b)"
  using time_sub_wrap [of a b] by (auto simp: weak_normal_def)

lemma ns_less: "normal a \<Longrightarrow> normal b \<Longrightarrow> ns a < ns b \<longleftrightarrow> a < b"
  by (auto simp: normal_def ns_def less_time_t_def)

lemma ns_inj: "normal a \<Longrightarrow> normal b \<Longrightarrow> ns a = ns b \<Longrightarrow> a = b"
  using ns_less [of a b] ns_less [of b a] by (metis less_irrefl neqE)

lemma ns_less_eq: "normal a \<Longrightarrow> normal b \<Longrightarrow> ns a \<le> ns b \<longleftrightarrow> a \<le> b"
  using ns_less [of b a] by (simp add: linorder_not_less [symmetric])

lemma time_cmp_ns:
  assumes "normal a" and "normal b"
  shows "time_cmp a b = sgn (ns a - ns b)"
  using assms ns_less [of a b] ns_less [of b a] ns_inj [of a b] time_cmp_order [of a b]
  by (auto simp: sgn_if time_cmp_def)

section \<open>Properties\<close>

text \<open>C38. Adding and subtracting normal times gives, in nanoseconds, the sum and the difference modulo the \<open>2 ^ 32\<close> seconds of the field, and
  exactly those when no intermediate result of seconds leaves the range of \<^verbatim>\<open>int\<close>. Subtraction always gives a normal time; addition does so except that a sum of
  nanoseconds of exactly one second is left as \<open>10 ^ 9\<close> nanoseconds. Comparison agrees with the number of nanoseconds.\<close>

theorem time_arith:
  assumes "normal a" and "normal b"
  shows "ns (time_add a b) mod (2 ^ 32 * NSEC) = (ns a + ns b) mod (2 ^ 32 * NSEC) \<and>
    ns (time_sub a b) mod (2 ^ 32 * NSEC) = (ns a - ns b) mod (2 ^ 32 * NSEC) \<and>
    (in_int (sec a + sec b) \<and> in_int (sec a + sec b + 1) \<longrightarrow> ns (time_add a b) = ns a + ns b) \<and>
    (in_int (sec b + 1) \<and> in_int (sec a - sec b) \<and> in_int (sec a - sec b - 1) \<longrightarrow> ns (time_sub a b) = ns a - ns b) \<and>
    normal (time_sub a b) \<and> (normal (time_add a b) \<longleftrightarrow> nsec a + nsec b \<noteq> NSEC) \<and>
    (time_cmp a b < 0 \<longleftrightarrow> ns a < ns b) \<and> (time_cmp a b = 0 \<longleftrightarrow> ns a = ns b)"
proof -
  note w = assms [THEN normal_weak]
  have "(time_cmp a b < 0 \<longleftrightarrow> ns a < ns b) \<and> (time_cmp a b = 0 \<longleftrightarrow> ns a = ns b)"
    using assms by (auto simp: time_cmp_def ns_def normal_def)
  then show ?thesis
    using ns_time_add_mod [OF w] ns_time_sub_mod [OF w] ns_time_add [OF w] ns_time_sub [OF w] normal_time_sub [OF assms] normal_time_add [OF assms]
    unfolding add_fits_def sub_fits_def by blast
qed

text \<open>Of the second pair the seconds overflow: the sum is \<open>2 ^ 32\<close> seconds too small.\<close>

theorem time_arith_witness:
  "normal (Time 1 600000000) \<and> normal (Time 2 500000000) \<and>
   ns (time_add (Time 1 600000000) (Time 2 500000000)) = ns (Time 1 600000000) + ns (Time 2 500000000) \<and>
   time_add (Time 1 600000000) (Time 2 500000000) = Time 4 100000000 \<and>
   ns (time_add (Time 2147483647 1) (Time 1 1)) mod (2 ^ 32 * NSEC) = (ns (Time 2147483647 1) + ns (Time 1 1)) mod (2 ^ 32 * NSEC) \<and>
   time_add (Time 2147483647 1) (Time 1 1) = Time (-2147483648) 2"
proof -
  have n: "normal (Time 1 600000000)" "normal (Time 2 500000000)" "normal (Time 2147483647 1)" "normal (Time 1 1)" by (simp_all add: normal_def in_int_def)
  have "in_int (sec (Time 1 600000000) + sec (Time 2 500000000))" "in_int (sec (Time 1 600000000) + sec (Time 2 500000000) + 1)" by (simp_all add: in_int_def)
  then have "ns (time_add (Time 1 600000000) (Time 2 500000000)) = ns (Time 1 600000000) + ns (Time 2 500000000)" using time_arith [OF n(1,2)] by blast
  moreover have "ns (time_add (Time 2147483647 1) (Time 1 1)) mod (2 ^ 32 * NSEC) = (ns (Time 2147483647 1) + ns (Time 1 1)) mod (2 ^ 32 * NSEC)"
    using time_arith [OF n(3,4)] by blast
  moreover have "time_add (Time 1 600000000) (Time 2 500000000) = Time 4 100000000" "time_add (Time 2147483647 1) (Time 1 1) = Time (-2147483648) 2"
    by (simp_all add: time_add_def int32_def)
  ultimately show ?thesis using n by blast
qed

end
