(* ===== verification/Os_Bits.thy ===== *)
theory Os_Bits
  imports Os_Base
begin

text \<open>
  Bit searching and small arithmetic helpers: \<^verbatim>\<open>lib/bits_generic.h\<close>, \<^verbatim>\<open>lib/bits.h\<close> and the
  i386 versions in \<^verbatim>\<open>arch/i386/arch/bits.h\<close>, which are single machine instructions
  (\<^verbatim>\<open>bsrl\<close>, \<^verbatim>\<open>bsfl\<close>, \<^verbatim>\<open>mull\<close> and \<^verbatim>\<open>divl\<close>). Unsigned integers are naturals below \<open>2^32\<close>
  (\<open>2^64\<close>), shifts are division and multiplication by powers of two. The theorems show that
  the portable routines compute the index that the instruction finds.
\<close>

section \<open>Index of the most significant bit\<close>

text \<open>\<^verbatim>\<open>bsrl\<close>: the index of the highest set bit of a non-zero operand.\<close>

fun arch_msb_index :: "nat \<Rightarrow> nat" where
  "arch_msb_index num = (if num \<le> 1 then 0 else Suc (arch_msb_index (num div 2)))"

text \<open>\<^verbatim>\<open>bsfl\<close>: the index of the lowest set bit of a non-zero operand.\<close>

fun arch_lsb_index :: "nat \<Rightarrow> nat" where
  "arch_lsb_index num = (if num = 0 \<or> odd num then 0 else Suc (arch_lsb_index (num div 2)))"

declare arch_msb_index.simps [simp del] arch_lsb_index.simps [simp del]

text \<open>One line \<^verbatim>\<open>if ( num >= (1<<k) ) { msb += k; num >>= k; }\<close>.\<close>

definition msb_step :: "nat \<Rightarrow> nat \<times> nat \<Rightarrow> nat \<times> nat" where
  "msb_step k = (\<lambda>(msb, num). if num \<ge> 2 ^ k then (msb + k, num div 2 ^ k) else (msb, num))"

definition msb_index_32 :: "nat \<Rightarrow> nat" where
  "msb_index_32 num =
     fst (msb_step 1 (msb_step 2 (msb_step 4 (msb_step 8 (msb_step 16 (0, num))))))"

definition msb_index_64 :: "nat \<Rightarrow> nat" where
  "msb_index_64 num =
     fst (msb_step 1 (msb_step 2 (msb_step 4 (msb_step 8 (msb_step 16 (msb_step 32 (0, num)))))))"

text \<open>The loop \<^verbatim>\<open>for ( i = bits / 2; i > 0; i >>= 1 )\<close> of the generic versions.\<close>

fun msb_loop :: "nat \<Rightarrow> nat \<times> nat \<Rightarrow> nat" where
  "msb_loop i (msb, num) =
     (if i > 0 then msb_loop (i div 2) (msb_step i (msb, num)) else msb)"

declare msb_loop.simps [simp del]

definition msb_index_generic :: "nat \<Rightarrow> nat" where
  "msb_index_generic num = msb_loop (4 * 8 div 2) (0, num)"

definition msb_index_int_n :: "nat \<Rightarrow> nat" where
  "msb_index_int_n num = msb_loop (8 * 8 div 2) (0, num)"

lemma arch_msb_index_bounds:
  "num > 0 \<Longrightarrow> 2 ^ arch_msb_index num \<le> num \<and> num < 2 ^ Suc (arch_msb_index num)"
proof (induction num rule: arch_msb_index.induct)
  case (1 num)
  show ?case
  proof (cases "num \<le> 1")
    case True
    with 1 show ?thesis by (simp add: arch_msb_index.simps [of num])
  next
    case False
    with 1 have "2 ^ arch_msb_index (num div 2) \<le> num div 2
        \<and> num div 2 < 2 ^ Suc (arch_msb_index (num div 2))" by simp
    with False show ?thesis by (simp add: arch_msb_index.simps [of num]) linarith
  qed
qed

lemma arch_msb_index_unique:
  assumes "2 ^ m \<le> num" and "num < 2 ^ Suc m"
  shows "arch_msb_index num = m"
proof -
  have "num > 0" using assms(1) by (metis gr0I le_zero_eq power_not_zero zero_neq_numeral)
  then have b: "2 ^ arch_msb_index num \<le> num" "num < 2 ^ Suc (arch_msb_index num)"
    using arch_msb_index_bounds by blast+
  have "(2::nat) ^ m < 2 ^ Suc (arch_msb_index num)" "(2::nat) ^ arch_msb_index num < 2 ^ Suc m"
    using assms b by (meson le_less_trans)+
  then have "m < Suc (arch_msb_index num)" "arch_msb_index num < Suc m"
    by (simp_all only: power_strict_increasing_iff [of 2] one_less_numeral_iff semiring_norm)
  then show ?thesis by simp
qed

lemma arch_msb_index_shift:
  assumes "num \<ge> 2 ^ k"
  shows "arch_msb_index num = k + arch_msb_index (num div 2 ^ k)"
proof -
  let ?d = "num div 2 ^ k"
  have "?d > 0" using assms by (simp add: div_greater_zero_iff)
  then have b: "2 ^ arch_msb_index ?d \<le> ?d" "?d < 2 ^ Suc (arch_msb_index ?d)"
    using arch_msb_index_bounds by blast+
  have "2 ^ (k + arch_msb_index ?d) \<le> num"
    using b(1) by (simp add: power_add less_eq_div_iff_mult_less_eq mult.commute)
  moreover have "num < 2 ^ Suc (k + arch_msb_index ?d)"
    using b(2) by (simp add: power_add div_less_iff_less_mult mult.commute mult.left_commute)
  ultimately show ?thesis by (rule arch_msb_index_unique)
qed

lemma msb_step_inv:
  assumes "msb_step k (msb, num) = (msb', num')" and "0 < num" and "num < 2 ^ (2 * k)"
  shows "msb' + arch_msb_index num' = msb + arch_msb_index num \<and> 0 < num' \<and> num' < 2 ^ k"
proof (cases "num \<ge> 2 ^ k")
  case True
  have "num div 2 ^ k < 2 ^ k"
    using assms(3) by (simp add: less_mult_imp_div_less mult_2 power_add)
  with True assms arch_msb_index_shift [OF True] show ?thesis
    by (auto simp: msb_step_def div_greater_zero_iff)
next
  case False
  with assms show ?thesis by (auto simp: msb_step_def)
qed

lemma msb_loop_pow2:
  "0 < num \<Longrightarrow> num < 2 ^ (2 ^ Suc j) \<Longrightarrow> msb_loop (2 ^ j) (msb, num) = msb + arch_msb_index num"
proof (induction j arbitrary: msb num)
  case 0
  obtain m n where s: "msb_step 1 (msb, num) = (m, n)" by fastforce
  with 0 have "m + arch_msb_index n = msb + arch_msb_index num \<and> 0 < n \<and> n < 2 ^ 1"
    by (intro msb_step_inv) auto
  moreover from this have "n = 1" by simp
  ultimately show ?case
    using s by (simp add: msb_loop.simps [of "Suc 0"] msb_loop.simps [of 0] arch_msb_index.simps [of "Suc 0"])
next
  case (Suc j)
  obtain m n where s: "msb_step (2 ^ Suc j) (msb, num) = (m, n)" by fastforce
  have "num < 2 ^ (2 * 2 ^ Suc j)" using Suc.prems(2) by simp
  with s Suc.prems(1) have "m + arch_msb_index n = msb + arch_msb_index num \<and> 0 < n \<and> n < 2 ^ (2 ^ Suc j)"
    by (intro msb_step_inv)
  with s Suc.IH [of n m] show ?case by (simp add: msb_loop.simps [of "2 * 2 ^ j"])
qed

lemma msb_loop_unfold: "0 < i \<Longrightarrow> msb_loop i p = msb_loop (i div 2) (msb_step i p)"
  by (cases p) (simp add: msb_loop.simps [of i])

lemma msb_loop_0: "msb_loop 0 p = fst p"
  by (cases p) (simp add: msb_loop.simps)

lemma msb_loop_16: "msb_loop 16 (0, num) = msb_index_32 num"
  by (simp add: msb_loop_unfold msb_loop_0 msb_index_32_def)

lemma msb_loop_32: "msb_loop 32 (0, num) = msb_index_64 num"
  by (simp add: msb_loop_unfold msb_loop_0 msb_index_64_def)

section \<open>Multiply and divide, pseudo-random numbers\<close>

text \<open>\<^verbatim>\<open>divl\<close> raises a divide error when the quotient needs more than 32 bits; no handler is
  registered for it, so the kernel stops.\<close>

definition arch_mul_div_32 :: "nat \<Rightarrow> nat \<Rightarrow> nat \<Rightarrow> nat res" where
  "arch_mul_div_32 a b c =
     (if c = 0 \<or> (a * b) div c \<ge> 2 ^ 32 then Inl Halt else Inr ((a * b) div c))"

definition rand :: "nat \<Rightarrow> nat \<times> nat" where
  "rand seed =
     (let seed = (seed * 1103515245 + 12345) mod 2 ^ 32
      in ((seed div 2 ^ 8) mod 2 ^ 16, seed))"

lemma rand_range: "fst (rand seed) < 2 ^ 16 \<and> snd (rand seed) < 2 ^ 32"
  by (simp add: rand_def Let_def)

section \<open>Properties\<close>

text \<open>C37. The portable searches for the highest set bit agree with the processor's \<^verbatim>\<open>bsr\<close> on every
  32-bit number but zero: the unrolled one, the one for 64 bits and the loop over halves.\<close>

theorem msb_index_equiv:
  assumes "0 < num" and "num < 2 ^ 32"
  shows "msb_index_32 num = arch_msb_index num \<and> msb_index_64 num = arch_msb_index num \<and>
    msb_index_generic num = arch_msb_index num \<and> msb_index_int_n num = arch_msb_index num \<and>
    2 ^ arch_msb_index num \<le> num \<and> num < 2 ^ Suc (arch_msb_index num)"
proof -
  have "num < 2 ^ 2 ^ Suc 5" using assms(2) by simp
  then have 6: "msb_loop (2 ^ 5) (0, num) = 0 + arch_msb_index num"
    using msb_loop_pow2 [OF assms(1), of 5 0] by simp
  have "num < 2 ^ 2 ^ Suc 4" using assms(2) by simp
  then have 5: "msb_loop (2 ^ 4) (0, num) = 0 + arch_msb_index num"
    using msb_loop_pow2 [OF assms(1), of 4 0] by simp
  show ?thesis
    using 5 6 arch_msb_index_bounds [OF assms(1)]
    by (simp add: msb_loop_16 [symmetric] msb_loop_32 [symmetric] msb_index_generic_def msb_index_int_n_def)
qed

theorem msb_index_equiv_witness: "msb_index_32 40 = arch_msb_index 40 \<and> arch_msb_index 40 = 5"
  using msb_index_equiv [of 40] by (simp add: arch_msb_index.simps)

end
