(* ===== verification/Os_Timer.thy ===== *)
theory Os_Timer
  imports Os_Time Os_Bits
begin

text \<open>
  The timer of the architecture layer, \<^verbatim>\<open>arch/i386/arch/time.c\<close>, over a timer device given by a
  table of operations (\<^verbatim>\<open>arch_timer_t\<close>), and the device that the build selects, the i8253
  counter (\<^verbatim>\<open>arch/i386/arch/devices/i8253.c\<close>). The hardware state of the i8253 is the present
  value of its counter: loading it takes a command and two bytes, and reading it latches the
  value. The counter counts down on its own; the model lets the environment change it between
  kernel entries (\<open>counts_down\<close>).

  The locale \<open>timer_device\<close> states what the layer expects of a device. In it: reprogramming the
  timer keeps the system time up to the rounding of one counter tick, and the timer interrupt
  handler hands a delay over to the kernel after finitely many hardware intervals.
\<close>

section \<open>Device table and layer state\<close>

record 'h arch_timer_t =
  min_interval :: time_t
  max_interval :: time_t
  set_interval :: "time_t \<Rightarrow> 'h \<Rightarrow> 'h res"
  get_interval_remainder :: "'h \<Rightarrow> time_t res"

record ('h, 'f) arch_time =
  clock :: time_t
  delay :: time_t
  last_load :: time_t
  threshold :: time_t
  alarm_handler :: "'f option"
  hw :: 'h

definition half_interval :: "time_t \<Rightarrow> time_t" where
  "half_interval t = Time (sec t div 2) (nsec t div 2 + (if sec t mod 2 \<noteq> 0 then NSEC div 2 else 0))"

text \<open>\<open>dev\<close> and \<open>h\<close> are what the device's own \<^verbatim>\<open>init\<close> returns.\<close>

definition arch_timer_init :: "'h arch_timer_t \<Rightarrow> 'h \<Rightarrow> ('h, 'f) arch_time res" where
  "arch_timer_init dev h =
     rbind (set_interval dev (max_interval dev) h) (\<lambda>h.
     Inr \<lparr>clock = Time 0 0, delay = max_interval dev, last_load = max_interval dev,
          threshold = half_interval (min_interval dev), alarm_handler = None, hw = h\<rparr>)"

definition arch_timer_set ::
  "'h arch_timer_t \<Rightarrow> time_t \<Rightarrow> 'f option \<Rightarrow> ('h, 'f) arch_time \<Rightarrow> ('h, 'f) arch_time res" where
  "arch_timer_set dev time alarm_func a =
     rbind (get_interval_remainder dev (hw a)) (\<lambda>remainder.
     let a = a\<lparr>last_load := time_sub (last_load a) remainder\<rparr>;
         a = a\<lparr>clock := time_add (clock a) (last_load a)\<rparr>;
         a = a\<lparr>delay := time\<rparr>;
         a = (if time_cmp (delay a) (min_interval dev) < 0 then a\<lparr>delay := min_interval dev\<rparr> else a);
         a = a\<lparr>alarm_handler := alarm_func\<rparr>;
         a = (if time_cmp (delay a) (max_interval dev) > 0 then a\<lparr>last_load := max_interval dev\<rparr>
              else a\<lparr>last_load := delay a\<rparr>)
     in rbind (set_interval dev (last_load a) (hw a)) (\<lambda>h. Inr (a\<lparr>hw := h\<rparr>)))"

definition arch_get_time :: "'h arch_timer_t \<Rightarrow> ('h, 'f) arch_time \<Rightarrow> time_t res" where
  "arch_get_time dev a =
     rbind (get_interval_remainder dev (hw a)) (\<lambda>remainder.
     Inr (time_add (time_sub (last_load a) remainder) (clock a)))"

text \<open>The first component of the result is the kernel function to call, if any.\<close>

definition arch_timer_handler ::
  "'h arch_timer_t \<Rightarrow> ('h, 'f) arch_time \<Rightarrow> ('f option \<times> ('h, 'f) arch_time) res" where
  "arch_timer_handler dev a =
     (let a = a\<lparr>clock := time_add (clock a) (last_load a)\<rparr>;
          a = a\<lparr>delay := time_sub (delay a) (last_load a)\<rparr>;
          a = a\<lparr>last_load := max_interval dev\<rparr>
      in if time_cmp (delay a) (threshold a) \<le> 0 then
           let a = a\<lparr>delay := max_interval dev\<rparr>
           in rbind (set_interval dev (last_load a) (hw a)) (\<lambda>h.
              Inr (alarm_handler a, a\<lparr>hw := h, alarm_handler := None\<rparr>))
         else
           let a = (if time_cmp (delay a) (last_load a) < 0 then a\<lparr>last_load := delay a\<rparr> else a)
           in rbind (set_interval dev (last_load a) (hw a)) (\<lambda>h. Inr (None, a\<lparr>hw := h\<rparr>)))"

text \<open>Successive timer interrupts, up to the first that calls the kernel.\<close>

fun timer_interrupts :: "'h arch_timer_t \<Rightarrow> nat \<Rightarrow> ('h, 'f) arch_time \<Rightarrow> ('f \<times> ('h, 'f) arch_time) res" where
  "timer_interrupts dev 0 a = Inl Out_of_fuel"
| "timer_interrupts dev (Suc n) a = rbind (arch_timer_handler dev a) (\<lambda>(g, a).
     case g of None \<Rightarrow> timer_interrupts dev n a | Some f \<Rightarrow> Inr (f, a))"

section \<open>The i8253 counter\<close>

definition I8253_FREQ :: nat where "I8253_FREQ = 1193180"
definition COUNT_MAX :: nat where "COUNT_MAX = 65535"
definition COUNT_MIN :: nat where "COUNT_MIN = COUNT_MAX div 2 ^ 10"

definition COUNT_TO_TIME :: "nat \<Rightarrow> time_t res" where
  "COUNT_TO_TIME c = rbind (arch_mul_div_32 c 1000000000 I8253_FREQ) (\<lambda>n. Inr (Time 0 (int n)))"

definition TIME_TO_COUNT :: "time_t \<Rightarrow> nat res" where
  "TIME_TO_COUNT t = arch_mul_div_32 (nat (nsec t)) I8253_FREQ 1000000000"

text \<open>Bytes written to port \<^verbatim>\<open>I8253_CH0\<close> after the load command: low, then high.\<close>

definition i8253_set :: "nat \<Rightarrow> nat \<Rightarrow> nat" where
  "i8253_set cnt h =
     (let low = cnt mod 256; high = (cnt div 2 ^ 8) mod 256 in low + 256 * high)"

definition i8253_get :: "nat \<Rightarrow> nat" where
  "i8253_get h = (let lower_byte = h mod 256; higher_byte = h div 256 mod 256
                  in lower_byte + higher_byte * 2 ^ 8)"

definition i8253_set_time_to_counter :: "time_t \<Rightarrow> time_t \<Rightarrow> time_t \<Rightarrow> nat \<Rightarrow> nat res" where
  "i8253_set_time_to_counter mn mx time h =
     rbind (ASSERT (sec time = 0 \<and> nsec time \<le> nsec mx \<and> nsec time \<ge> nsec mn)) (\<lambda>_.
     rbind (TIME_TO_COUNT time) (\<lambda>cnt. Inr (i8253_set cnt h)))"

definition i8253_get_time_from_counter :: "nat \<Rightarrow> time_t res" where
  "i8253_get_time_from_counter h = COUNT_TO_TIME (i8253_get h)"

definition i8253_init :: "nat \<Rightarrow> (nat arch_timer_t \<times> nat) res" where
  "i8253_init h =
     rbind (COUNT_TO_TIME COUNT_MIN) (\<lambda>mn.
     rbind (COUNT_TO_TIME COUNT_MAX) (\<lambda>mx.
     Inr (\<lparr>min_interval = mn, max_interval = mx,
           set_interval = i8253_set_time_to_counter mn mx,
           get_interval_remainder = i8253_get_time_from_counter\<rparr>, i8253_set COUNT_MAX h)))"

definition i8253 :: "nat arch_timer_t" where
  "i8253 = \<lparr>min_interval = Time 0 52800, max_interval = Time 0 54924655,
     set_interval = i8253_set_time_to_counter (Time 0 52800) (Time 0 54924655),
     get_interval_remainder = i8253_get_time_from_counter\<rparr>"

lemma i8253_init_eq: "i8253_init h = Inr (i8253, 65535)"
  by (simp add: i8253_init_def COUNT_TO_TIME_def COUNT_MIN_def COUNT_MAX_def arch_mul_div_32_def
      I8253_FREQ_def i8253_def i8253_set_def)

section \<open>What the layer expects of a device\<close>

text \<open>Less than a second is added to a clock that has room for it.\<close>

lemma clock_add:
  assumes "weak_normal c" and "0 \<le> sec c" and "sec c < 2 ^ 31 - 1" and "sec e = 0" and "0 \<le> nsec e" and "nsec e < NSEC"
  shows "weak_normal (time_add c e)" "0 \<le> sec (time_add c e)" "ns (time_add c e) = ns c + ns e"
proof -
  have e: "weak_normal e" "add_fits c e" using assms by (auto simp: weak_normal_def in_int_def add_fits_def)
  show "weak_normal (time_add c e)" "ns (time_add c e) = ns c + ns e" using weak_time_add [OF assms(1) e(1)] ns_time_add [OF assms(1) e] by blast+
  show "0 \<le> sec (time_add c e)" using time_add_exact [OF assms(1) e] assms(2,4) by simp
qed

lemma time_add_commute: "time_add a b = time_add b a"
  by (simp add: time_add_def add.commute)

text \<open>A weakly normal time below one second has no seconds.\<close>

lemma short_sec:
  assumes "weak_normal t" and "0 < ns t" and "ns t < NSEC"
  shows "sec t = 0"
proof (rule ccontr)
  assume "sec t \<noteq> 0"
  then have "sec t \<ge> 1 \<or> sec t \<le> -1" by linarith
  then show False using assms by (auto simp: weak_normal_def ns_def)
qed

lemma time_cmp_short:
  assumes "weak_normal a" and "sec b = 0" and "0 < nsec b" and "nsec b < NSEC"
  shows "time_cmp a b < 0 \<longleftrightarrow> ns a < ns b" "time_cmp a b > 0 \<longleftrightarrow> ns b < ns a"
    "time_cmp a b \<le> 0 \<longleftrightarrow> ns a \<le> ns b"
  using assms by (auto simp: weak_normal_def time_cmp_def ns_def)

locale timer_device =
  fixes dev :: "'h arch_timer_t" and valid :: "'h \<Rightarrow> bool" and tick :: int
  assumes bounds: "sec (min_interval dev) = 0" "sec (max_interval dev) = 0"
      "1 < nsec (min_interval dev)" "nsec (min_interval dev) < nsec (max_interval dev)"
      "nsec (max_interval dev) < NSEC"
    and load: "sec t = 0 \<Longrightarrow> nsec (min_interval dev) \<le> nsec t \<Longrightarrow> nsec t \<le> nsec (max_interval dev) \<Longrightarrow>
      \<exists>h' r. set_interval dev t h = Inr h' \<and> valid h' \<and> get_interval_remainder dev h' = Inr r \<and>
        sec r = 0 \<and> 0 \<le> nsec r \<and> nsec r \<le> nsec t \<and> nsec t < nsec r + tick"
    and refuse: "sec t = 0 \<Longrightarrow> nsec t < nsec (min_interval dev) \<Longrightarrow> set_interval dev t h = Inl Halt"
    and read: "valid h \<Longrightarrow> \<exists>r. get_interval_remainder dev h = Inr r \<and> sec r = 0 \<and> 0 \<le> nsec r \<and> nsec r < NSEC"
begin

text \<open>\<open>now\<close> is the system time in nanoseconds: time of the last load plus what the counter has
  counted since.\<close>

definition rem_ns :: "'h \<Rightarrow> int" where
  "rem_ns h = (case get_interval_remainder dev h of Inl e \<Rightarrow> 0 | Inr r \<Rightarrow> ns r)"

definition now :: "('h, 'f) arch_time \<Rightarrow> int" where
  "now a = ns (clock a) + ns (last_load a) - rem_ns (hw a)"

definition arch_ok :: "('h, 'f) arch_time \<Rightarrow> bool" where
  "arch_ok a \<longleftrightarrow> weak_normal (clock a) \<and> weak_normal (delay a) \<and> 0 \<le> sec (clock a) \<and> 0 \<le> sec (delay a) \<and> sec (last_load a) = 0 \<and>
     nsec (min_interval dev) \<le> nsec (last_load a) \<and> nsec (last_load a) \<le> nsec (max_interval dev) \<and>
     valid (hw a) \<and> rem_ns (hw a) \<le> ns (last_load a) \<and> threshold a = half_interval (min_interval dev)"

lemma half: "sec (half_interval (min_interval dev)) = 0" "0 < nsec (half_interval (min_interval dev))"
  "nsec (half_interval (min_interval dev)) < nsec (min_interval dev)"
  "ns (half_interval (min_interval dev)) = nsec (min_interval dev) div 2"
  using bounds by (auto simp: half_interval_def ns_def)

lemma ns_intervals: "ns (min_interval dev) = nsec (min_interval dev)" "ns (max_interval dev) = nsec (max_interval dev)"
  using bounds by (simp_all add: ns_def)

lemma cmp_min: "weak_normal t \<Longrightarrow> time_cmp t (min_interval dev) < 0 \<longleftrightarrow> ns t < nsec (min_interval dev)"
  using time_cmp_short(1) [of t "min_interval dev"] bounds ns_intervals by simp

lemma cmp_max: "weak_normal t \<Longrightarrow> time_cmp t (max_interval dev) > 0 \<longleftrightarrow> nsec (max_interval dev) < ns t"
  "weak_normal t \<Longrightarrow> time_cmp t (max_interval dev) < 0 \<longleftrightarrow> ns t < nsec (max_interval dev)"
  using time_cmp_short(1,2) [of t "max_interval dev"] bounds ns_intervals by simp_all

lemma cmp_half: "weak_normal t \<Longrightarrow> time_cmp t (half_interval (min_interval dev)) \<le> 0 \<longleftrightarrow> ns t \<le> nsec (min_interval dev) div 2"
  using time_cmp_short(3) [of t "half_interval (min_interval dev)"] bounds half by simp

lemma short_time:
  assumes "weak_normal t" and "nsec (min_interval dev) \<le> ns t" and "ns t \<le> nsec (max_interval dev)"
  shows "sec t = 0" "nsec (min_interval dev) \<le> nsec t" "nsec t \<le> nsec (max_interval dev)"
proof -
  show s: "sec t = 0" by (rule short_sec [OF assms(1)]) (use assms bounds in auto)
  show "nsec (min_interval dev) \<le> nsec t" "nsec t \<le> nsec (max_interval dev)"
    using assms s by (simp_all add: ns_def)
qed

lemma sec_nonneg: "weak_normal t \<Longrightarrow> nsec (min_interval dev) \<le> ns t \<Longrightarrow> 0 \<le> sec t"
  using bounds by (auto simp: weak_normal_def ns_def)

lemma load_interval:
  assumes "sec t = 0" and "nsec (min_interval dev) \<le> nsec t" and "nsec t \<le> nsec (max_interval dev)"
  obtains h' where "set_interval dev t h = Inr h'" and "valid h'" and "0 \<le> rem_ns h'"
    and "rem_ns h' \<le> ns t" and "ns t < rem_ns h' + tick"
proof -
  obtain h' r where "set_interval dev t h = Inr h'" "valid h'" "get_interval_remainder dev h' = Inr r"
    "sec r = 0" "0 \<le> nsec r" "nsec r \<le> nsec t" "nsec t < nsec r + tick"
    using load [OF assms] by blast
  with that assms(1) show thesis by (simp add: rem_ns_def ns_def)
qed

text \<open>What has been counted since the last load is less than a second.\<close>

lemma counted:
  assumes "arch_ok a"
  obtains r where "get_interval_remainder dev (hw a) = Inr r" and "rem_ns (hw a) = ns r" and "sec (time_sub (last_load a) r) = 0"
    and "0 \<le> nsec (time_sub (last_load a) r)" and "nsec (time_sub (last_load a) r) < NSEC"
    and "ns (time_sub (last_load a) r) = ns (last_load a) - rem_ns (hw a)"
proof -
  obtain r where r: "get_interval_remainder dev (hw a) = Inr r" "sec r = 0" "0 \<le> nsec r" "nsec r < NSEC"
    using assms read by (auto simp: arch_ok_def)
  have l: "sec (last_load a) = 0" "nsec r \<le> nsec (last_load a)" "0 \<le> nsec (last_load a)" "nsec (last_load a) < NSEC"
    using assms r bounds by (auto simp: arch_ok_def rem_ns_def ns_def)
  have "time_sub (last_load a) r = Time 0 (nsec (last_load a) - nsec r)"
    using time_sub_exact [of "last_load a" r] r l by (simp add: weak_normal_def in_int_def sub_fits_def)
  then show thesis using that r l by (simp add: rem_ns_def ns_def)
qed

lemma clock_before_end:
  assumes "arch_ok a" and "now a < (2 ^ 31 - 1) * NSEC"
  shows "sec (clock a) < 2 ^ 31 - 1"
proof -
  have "0 \<le> nsec (clock a)" "ns (clock a) \<le> now a" using assms(1) by (simp_all add: arch_ok_def now_def weak_normal_def)
  then show ?thesis using assms(2) by (simp add: ns_def)
qed

text \<open>The clock has room for another interval as long as its seconds are not the largest \<^verbatim>\<open>int\<close>.\<close>

lemma get_time_now:
  assumes ok: "arch_ok a" and room: "sec (clock a) < 2 ^ 31 - 1"
  shows "\<exists>t. arch_get_time dev a = Inr t \<and> ns t = now a \<and> weak_normal t \<and> 0 \<le> sec t"
proof -
  obtain r where r: "get_interval_remainder dev (hw a) = Inr r" "rem_ns (hw a) = ns r" and e: "sec (time_sub (last_load a) r) = 0"
    "0 \<le> nsec (time_sub (last_load a) r)" "nsec (time_sub (last_load a) r) < NSEC" "ns (time_sub (last_load a) r) = ns (last_load a) - rem_ns (hw a)"
    by (rule counted [OF ok])
  have c: "weak_normal (clock a)" "0 \<le> sec (clock a)" using ok by (simp_all add: arch_ok_def)
  show ?thesis using r e(4) clock_add [OF c room e(1,2,3)] by (simp add: arch_get_time_def now_def time_add_commute [of _ "clock a"])
qed

lemma timer_set_now:
  assumes ok: "arch_ok a" and t: "weak_normal time" and room: "sec (clock a) < 2 ^ 31 - 1"
  shows "\<exists>a'. arch_timer_set dev time f a = Inr a' \<and> arch_ok a' \<and> ns (clock a') = now a \<and> now a \<le> now a' \<and> now a' < now a + tick \<and>
    alarm_handler a' = f \<and> ns (delay a') = max (ns time) (nsec (min_interval dev)) \<and>
    ns (last_load a') = min (ns (delay a')) (nsec (max_interval dev))"
proof -
  obtain r where r: "get_interval_remainder dev (hw a) = Inr r" "rem_ns (hw a) = ns r" and e: "sec (time_sub (last_load a) r) = 0"
    "0 \<le> nsec (time_sub (last_load a) r)" "nsec (time_sub (last_load a) r) < NSEC" "ns (time_sub (last_load a) r) = ns (last_load a) - rem_ns (hw a)"
    by (rule counted [OF ok])
  define c where "c = time_add (clock a) (time_sub (last_load a) r)"
  define d where "d = (if time_cmp time (min_interval dev) < 0 then min_interval dev else time)"
  define l where "l = (if time_cmp d (max_interval dev) > 0 then max_interval dev else d)"
  have ck: "weak_normal (clock a)" "0 \<le> sec (clock a)" using ok by (simp_all add: arch_ok_def)
  have c: "ns c = now a" "weak_normal c" "0 \<le> sec c" using clock_add [OF ck room e(1,2,3)] e(4) by (simp_all add: c_def now_def)
  have mw: "weak_normal (min_interval dev)" using bounds by (auto simp: weak_normal_def in_int_def)
  have d: "weak_normal d" "ns d = max (ns time) (nsec (min_interval dev))"
    using t mw cmp_min [OF t] ns_intervals by (auto simp: d_def)
  have ds: "0 \<le> sec d" using sec_nonneg [OF d(1)] d(2) by simp
  have l: "ns l = min (ns d) (nsec (max_interval dev))"
    using cmp_max [OF d(1)] ns_intervals by (auto simp: l_def)
  have lw: "weak_normal l" using d(1) bounds by (auto simp: l_def weak_normal_def in_int_def)
  have lb: "nsec (min_interval dev) \<le> ns l" "ns l \<le> nsec (max_interval dev)" using l d(2) bounds(4) by auto
  note sl = short_time [OF lw lb]
  obtain h' where h': "set_interval dev l (hw a) = Inr h'" "valid h'" "rem_ns h' \<le> ns l" "ns l < rem_ns h' + tick"
    using load_interval [OF sl] by metis
  define a' where "a' = a\<lparr>clock := c, delay := d, last_load := l, alarm_handler := f, hw := h'\<rparr>"
  have ev: "arch_timer_set dev time f a = Inr a'"
    using r(1) h'(1) unfolding arch_timer_set_def Let_def a'_def c_def d_def l_def
    by (cases a) (simp split del: if_split add: if_distrib [of "\<lambda>x. x\<lparr>alarm_handler := f\<rparr>"] split: if_splits)
  have "arch_ok a'" using ok c d ds sl h' by (simp add: arch_ok_def a'_def)
  then show ?thesis using ev c d l h' by (simp add: a'_def now_def)
qed

lemma delay_left:
  assumes "arch_ok a"
  shows "ns (time_sub (delay a) (last_load a)) = ns (delay a) - ns (last_load a)" "weak_normal (time_sub (delay a) (last_load a))"
proof -
  have l: "weak_normal (last_load a)" using assms bounds by (auto simp: arch_ok_def weak_normal_def in_int_def)
  have d: "weak_normal (delay a)" "sub_fits (delay a) (last_load a)" using assms by (auto simp: arch_ok_def weak_normal_def sub_fits_def in_int_def)
  show "ns (time_sub (delay a) (last_load a)) = ns (delay a) - ns (last_load a)" "weak_normal (time_sub (delay a) (last_load a))"
    using ns_time_sub [OF d(1) l d(2)] weak_time_sub [OF d(1) l] by blast+
qed

lemma handler_step:
  assumes ok: "arch_ok a" and room: "sec (clock a) < 2 ^ 31 - 1" and gap: "\<not> (nsec (min_interval dev) div 2 < ns (delay a) - ns (last_load a) \<and>
      ns (delay a) - ns (last_load a) < nsec (min_interval dev))"
  shows "\<exists>g a'. arch_timer_handler dev a = Inr (g, a') \<and> arch_ok a' \<and>
    ns (clock a') = ns (clock a) + ns (last_load a) \<and>
    (if ns (delay a) - ns (last_load a) \<le> nsec (min_interval dev) div 2
     then g = alarm_handler a \<and> alarm_handler a' = None
     else g = None \<and> alarm_handler a' = alarm_handler a \<and> ns (delay a') = ns (delay a) - ns (last_load a) \<and>
       ns (last_load a') = min (ns (delay a')) (nsec (max_interval dev)))"
proof -
  define c where "c = time_add (clock a) (last_load a)"
  define d where "d = time_sub (delay a) (last_load a)"
  have c: "ns c = ns (clock a) + ns (last_load a)" "weak_normal c" "0 \<le> sec c"
    using clock_add [of "clock a" "last_load a"] ok room bounds by (auto simp: c_def arch_ok_def)
  have d: "ns d = ns (delay a) - ns (last_load a)" "weak_normal d" using delay_left [OF ok] by (simp_all add: d_def)
  have th: "threshold a = half_interval (min_interval dev)" using ok by (simp add: arch_ok_def)
  have mxw: "weak_normal (max_interval dev)" using bounds by (auto simp: weak_normal_def in_int_def)
  show ?thesis
  proof (cases "ns d \<le> nsec (min_interval dev) div 2")
    case True
    have "nsec (min_interval dev) \<le> nsec (max_interval dev)" using bounds by simp
    then obtain h' where h': "set_interval dev (max_interval dev) (hw a) = Inr h'" "valid h'"
        "rem_ns h' \<le> ns (max_interval dev)"
      using load_interval [OF bounds(2)] by (metis order_refl)
    define a' where "a' = a\<lparr>clock := c, delay := max_interval dev, last_load := max_interval dev, hw := h', alarm_handler := None\<rparr>"
    have "arch_timer_handler dev a = Inr (alarm_handler a, a')"
      using True h'(1) cmp_half [OF d(2)] th
      by (cases a) (simp add: arch_timer_handler_def Let_def a'_def flip: c_def d_def, simp add: c_def d_def)
    moreover have "arch_ok a'" using ok c mxw bounds h' by (simp add: arch_ok_def a'_def)
    ultimately show ?thesis using True c d(1) by (simp add: a'_def)
  next
    case False
    then have ge: "nsec (min_interval dev) \<le> ns d" using gap d(1) by linarith
    define l where "l = (if time_cmp d (max_interval dev) < 0 then d else max_interval dev)"
    have l: "ns l = min (ns d) (nsec (max_interval dev))"
      using cmp_max(2) [OF d(2)] ns_intervals by (auto simp: l_def)
    have lw: "weak_normal l" using d(2) mxw by (simp add: l_def)
    have lb: "nsec (min_interval dev) \<le> ns l" "ns l \<le> nsec (max_interval dev)" using l ge bounds(4) by auto
    note sl = short_time [OF lw lb]
    obtain h' where h': "set_interval dev l (hw a) = Inr h'" "valid h'" "rem_ns h' \<le> ns l"
      using load_interval [OF sl] by metis
    define a' where "a' = a\<lparr>clock := c, delay := d, last_load := l, hw := h'\<rparr>"
    have "arch_timer_handler dev a = Inr (None, a')"
      using False h'(1) cmp_half [OF d(2)] th
      by (cases a) (auto simp: arch_timer_handler_def Let_def a'_def l_def c_def d_def split: if_splits)
    moreover have "arch_ok a'" using ok c d sl h' sec_nonneg [OF d(2) ge] by (simp add: arch_ok_def a'_def)
    ultimately show ?thesis using False c d(1) l by (simp add: a'_def)
  qed
qed

text \<open>When what is left is between the threshold and the shortest interval, the handler asks the device for an interval that the device refuses.\<close>

lemma handler_gap:
  assumes ok: "arch_ok a" and gap: "nsec (min_interval dev) div 2 < ns (delay a) - ns (last_load a)" "ns (delay a) - ns (last_load a) < nsec (min_interval dev)"
  shows "arch_timer_handler dev a = Inl Halt"
proof -
  define d where "d = time_sub (delay a) (last_load a)"
  have d: "ns d = ns (delay a) - ns (last_load a)" "weak_normal d" using delay_left [OF ok] by (simp_all add: d_def)
  have th: "threshold a = half_interval (min_interval dev)" using ok by (simp add: arch_ok_def)
  have s: "sec d = 0" by (rule short_sec [OF d(2)]) (use d(1) gap bounds in auto)
  have "set_interval dev d h = Inl Halt" for h by (rule refuse [OF s]) (use d(1) s gap in \<open>simp add: ns_def\<close>)
  moreover have "\<not> time_cmp d (half_interval (min_interval dev)) \<le> 0" "time_cmp d (max_interval dev) < 0"
    using cmp_half [OF d(2)] cmp_max(2) [OF d(2)] d(1) gap bounds by simp_all
  ultimately show ?thesis by (simp add: arch_timer_handler_def Let_def th flip: d_def)
qed

lemma clock_room:
  assumes "arch_ok a" and "ns (clock a) + ns (delay a) < (2 ^ 31 - 1) * NSEC"
  shows "sec (clock a) < 2 ^ 31 - 1"
proof -
  have "0 \<le> ns (delay a)" "0 \<le> nsec (clock a)" using assms(1) by (auto simp: arch_ok_def weak_normal_def ns_def)
  then show ?thesis using assms(2) by (simp add: ns_def)
qed

text \<open>Once set, a delay is reported to the kernel after finitely many hardware intervals, early
  by at most half of the shortest interval, unless what is left of it after some whole intervals
  is shorter than the device can count and longer than the threshold.\<close>

lemma delay_reported:
  assumes "arch_ok a" and "alarm_handler a = Some f" and "nsec (min_interval dev) \<le> ns (delay a)"
    and "ns (last_load a) = min (ns (delay a)) (nsec (max_interval dev))"
    and "ns (clock a) + ns (delay a) < (2 ^ 31 - 1) * NSEC"
    and "\<And>k. \<not> (nsec (min_interval dev) div 2 < ns (delay a) - int k * nsec (max_interval dev) \<and>
      ns (delay a) - int k * nsec (max_interval dev) < nsec (min_interval dev))"
  shows "\<exists>n a'. timer_interrupts dev n a = Inr (f, a') \<and> arch_ok a' \<and>
    ns (clock a') - ns (clock a) \<le> ns (delay a) \<and>
    ns (delay a) - nsec (min_interval dev) div 2 \<le> ns (clock a') - ns (clock a)"
  using assms
proof (induction "nat (ns (delay a))" arbitrary: a rule: less_induct)
  case less
  let ?mx = "nsec (max_interval dev)" and ?mn = "nsec (min_interval dev)" and ?left = "ns (delay a) - ns (last_load a)"
  have mx: "0 < ?mx" "0 < ?mn" using bounds by auto
  have lft: "?left = 0 \<or> ?left = ns (delay a) - int 1 * ?mx" using less.prems(4) by auto
  have gap: "\<not> (?mn div 2 < ?left \<and> ?left < ?mn)" using lft less.prems(6) [of 1] mx by auto
  have room: "sec (clock a) < 2 ^ 31 - 1" by (rule clock_room [OF less.prems(1,5)])
  obtain g a' where st: "arch_timer_handler dev a = Inr (g, a')" "arch_ok a'"
    "ns (clock a') = ns (clock a) + ns (last_load a)"
    and br: "if ?left \<le> ?mn div 2 then g = alarm_handler a \<and> alarm_handler a' = None
     else g = None \<and> alarm_handler a' = alarm_handler a \<and> ns (delay a') = ?left \<and>
       ns (last_load a') = min (ns (delay a')) ?mx"
    using handler_step [OF less.prems(1) room gap] by blast
  show ?case
  proof (cases "?left \<le> ?mn div 2")
    case True
    then have "timer_interrupts dev (Suc 0) a = Inr (f, a')" using st br less.prems(2) by simp
    then show ?thesis using st True less.prems(4) by (intro exI [of _ "Suc 0"] exI [of _ a']) auto
  next
    case False
    with br have b: "g = None" "alarm_handler a' = Some f" "ns (delay a') = ?left"
      "ns (last_load a') = min (ns (delay a')) ?mx"
      using less.prems(2) by auto
    have l1: "?left = ns (delay a) - ?mx" using lft False mx by auto
    have ge: "?mn \<le> ns (delay a')" using gap False b(3) by linarith
    have "\<exists>n a''. timer_interrupts dev n a' = Inr (f, a'') \<and> arch_ok a'' \<and>
      ns (clock a'') - ns (clock a') \<le> ns (delay a') \<and> ns (delay a') - ?mn div 2 \<le> ns (clock a'') - ns (clock a')"
    proof (rule less.hyps [OF _ st(2) b(2) ge b(4)])
      show "nat (ns (delay a')) < nat (ns (delay a))" using b(3) l1 mx less.prems(3) by simp
      show "ns (clock a') + ns (delay a') < (2 ^ 31 - 1) * NSEC" using st(3) b(3) less.prems(5) by simp
      show "\<not> (?mn div 2 < ns (delay a') - int k * ?mx \<and> ns (delay a') - int k * ?mx < ?mn)" for k
      proof -
        have "ns (delay a') - int k * ?mx = ns (delay a) - int (Suc k) * ?mx"
          using b(3) l1 by (simp add: algebra_simps)
        then show ?thesis using less.prems(6) [of "Suc k"] by metis
      qed
    qed
    then obtain n a'' where "timer_interrupts dev n a' = Inr (f, a'')" "arch_ok a''"
      "ns (clock a'') - ns (clock a') \<le> ns (delay a')" "ns (delay a') - ?mn div 2 \<le> ns (clock a'') - ns (clock a')"
      by blast
    then show ?thesis
      using st b less.prems(4) by (intro exI [of _ "Suc n"] exI [of _ a'']) auto
  qed
qed

text \<open>And when it is, the machine stops.\<close>

lemma delay_halts:
  assumes "arch_ok a" and "ns (last_load a) = min (ns (delay a)) (nsec (max_interval dev))" and "ns (clock a) + ns (delay a) < (2 ^ 31 - 1) * NSEC"
    and "nsec (min_interval dev) div 2 < ns (delay a) - int (Suc k) * nsec (max_interval dev)"
    and "ns (delay a) - int (Suc k) * nsec (max_interval dev) < nsec (min_interval dev)"
  shows "\<exists>n. timer_interrupts dev n a = Inl Halt"
  using assms
proof (induction k arbitrary: a)
  case 0
  then have "arch_timer_handler dev a = Inl Halt" using bounds by (intro handler_gap) (auto simp: min_def)
  then show ?case by (intro exI [of _ "Suc 0"]) simp
next
  case (Suc k)
  let ?mx = "nsec (max_interval dev)" and ?mn = "nsec (min_interval dev)" and ?left = "ns (delay a) - ns (last_load a)"
  have k: "0 \<le> int k * ?mx" "int (Suc (Suc k)) * ?mx = int k * ?mx + 2 * ?mx" using bounds by (simp_all add: algebra_simps)
  have big: "?mx + ?mn div 2 < ns (delay a) - ?mx" using Suc.prems(4) k by linarith
  have "0 < ?mn div 2" using bounds by auto
  note big = big this
  then have l: "ns (last_load a) = ?mx" using Suc.prems(2) bounds by auto
  have room: "sec (clock a) < 2 ^ 31 - 1" by (rule clock_room [OF Suc.prems(1,3)])
  obtain g a' where st: "arch_timer_handler dev a = Inr (g, a')" "arch_ok a'" "ns (clock a') = ns (clock a) + ns (last_load a)"
    and br: "g = None" "ns (delay a') = ?left" "ns (last_load a') = min (ns (delay a')) ?mx"
    using handler_step [OF Suc.prems(1) room] big l bounds by auto
  have "\<exists>n. timer_interrupts dev n a' = Inl Halt"
    by (rule Suc.IH [OF st(2) br(3)]) (use st(3) br(2) l Suc.prems(3-5) in \<open>simp_all add: algebra_simps\<close>)
  then obtain n where "timer_interrupts dev n a' = Inl Halt" by blast
  then show ?case using st(1) br(1) by (intro exI [of _ "Suc n"]) simp
qed

end

section \<open>The i8253 is such a device\<close>

lemma i8253_sel [simp]:
  "min_interval i8253 = Time 0 52800" "max_interval i8253 = Time 0 54924655"
  "set_interval i8253 = i8253_set_time_to_counter (Time 0 52800) (Time 0 54924655)"
  "get_interval_remainder i8253 = i8253_get_time_from_counter"
  by (simp_all add: i8253_def)

lemma two_bytes: "n < 65536 \<Longrightarrow> n mod 256 + n div 256 mod 256 * 256 = (n::nat)"
  by (simp add: less_mult_imp_div_less)

lemma i8253_set_get: "cnt < 65536 \<Longrightarrow> i8253_get (i8253_set cnt h) = cnt"
  using two_bytes [of cnt] by (simp add: i8253_get_def i8253_set_def Let_def mult.commute)

lemma i8253_get_bound: "i8253_get h < 65536"
proof -
  have "h mod 256 < 256" "h div 256 mod 256 < 256" by simp_all
  then show ?thesis by (simp add: i8253_get_def Let_def)
qed

lemma COUNT_TO_TIME_eq: "c < 65536 \<Longrightarrow> COUNT_TO_TIME c = Inr (Time 0 (int (c * 1000000000 div 1193180)))"
proof -
  assume "c < 65536"
  then have "c * 1000000000 \<le> 65535 * 1000000000" by (intro mult_right_mono) auto
  then have "c * 1000000000 div 1193180 \<le> 65535 * 1000000000 div 1193180" by (rule div_le_mono)
  then show ?thesis by (simp add: COUNT_TO_TIME_def arch_mul_div_32_def I8253_FREQ_def)
qed

lemma TIME_TO_COUNT_eq:
  assumes "nsec t \<le> 54924655"
  shows "TIME_TO_COUNT t = Inr (nat (nsec t) * 1193180 div 1000000000)" "nat (nsec t) * 1193180 div 1000000000 < 65536"
proof -
  have "nat (nsec t) * 1193180 \<le> 54924655 * 1193180" using assms by (intro mult_right_mono) auto
  then have "nat (nsec t) * 1193180 div 1000000000 \<le> 54924655 * 1193180 div 1000000000" by (rule div_le_mono)
  then show "TIME_TO_COUNT t = Inr (nat (nsec t) * 1193180 div 1000000000)"
    "nat (nsec t) * 1193180 div 1000000000 < 65536"
    by (simp_all add: TIME_TO_COUNT_def arch_mul_div_32_def I8253_FREQ_def)
qed

text \<open>Conversion to counter ticks and back loses less than one tick (840 ns).\<close>

lemma count_roundtrip:
  fixes n :: nat
  defines "c \<equiv> n * 1193180 div 1000000000"
  shows "c * 1000000000 div 1193180 \<le> n \<and> n < c * 1000000000 div 1193180 + 840"
proof -
  have a: "c * 1000000000 \<le> n * 1193180" by (simp add: c_def)
  have b: "n * 1193180 < c * 1000000000 + 1000000000"
    using mod_less_divisor [of 1000000000 "n * 1193180"] div_mult_mod_eq [of "n * 1193180" 1000000000]
    unfolding c_def by linarith
  have d: "c * 1000000000 div 1193180 * 1193180 \<le> c * 1000000000" by simp
  have e: "c * 1000000000 < c * 1000000000 div 1193180 * 1193180 + 1193180"
    using mod_less_divisor [of 1193180 "c * 1000000000"] div_mult_mod_eq [of "c * 1000000000" 1193180]
    by linarith
  show ?thesis using a b d e by linarith
qed

interpretation pit: timer_device i8253 "\<lambda>h. True" 840
proof
  fix t h
  assume t: "sec t = 0" "nsec (min_interval i8253) \<le> nsec t" "nsec t \<le> nsec (max_interval i8253)"
  let ?c = "nat (nsec t) * 1193180 div 1000000000"
  have tc: "TIME_TO_COUNT t = Inr ?c" "?c < 65536" using t(3) TIME_TO_COUNT_eq by simp_all
  have "set_interval i8253 t h = Inr (i8253_set ?c h)"
    using t tc by (simp add: i8253_set_time_to_counter_def)
  moreover have "get_interval_remainder i8253 (i8253_set ?c h) = Inr (Time 0 (int (?c * 1000000000 div 1193180)))"
    using tc(2) by (simp add: i8253_get_time_from_counter_def i8253_set_get COUNT_TO_TIME_eq)
  moreover have "int (?c * 1000000000 div 1193180) \<le> nsec t" "nsec t < int (?c * 1000000000 div 1193180) + 840"
    using count_roundtrip [of "nat (nsec t)"] t(2) by simp_all
  ultimately show "\<exists>h' r. set_interval i8253 t h = Inr h' \<and> True \<and> get_interval_remainder i8253 h' = Inr r \<and>
      sec r = 0 \<and> 0 \<le> nsec r \<and> nsec r \<le> nsec t \<and> nsec t < nsec r + 840"
    by auto
next
  fix t h
  assume "sec t = 0" "nsec t < nsec (min_interval i8253)"
  then show "set_interval i8253 t h = Inl Halt" by (simp add: i8253_set_time_to_counter_def)
next
  fix h
  have "i8253_get h * 1000000000 \<le> 65535 * 1000000000"
    using i8253_get_bound [of h] by (intro mult_right_mono) auto
  then have "i8253_get h * 1000000000 div 1193180 \<le> 65535 * 1000000000 div 1193180" by (rule div_le_mono)
  then show "\<exists>r. get_interval_remainder i8253 h = Inr r \<and> sec r = 0 \<and> 0 \<le> nsec r \<and> nsec r < NSEC"
    using COUNT_TO_TIME_eq [OF i8253_get_bound] by (simp add: i8253_get_time_from_counter_def)
qed simp_all

section \<open>Properties\<close>

text \<open>C29. A delay that is given to the timer layer is reported to the kernel. The delay that counts is the one asked for, or the smallest interval of the i8253
  when that is longer. After finitely many interrupts the handler calls the function that was set, when between that delay less half of the smallest interval and
  the delay itself has passed since the clock was set to the present time. The exception is a delay of which, after whole longest intervals, more than half of the
  smallest interval and less than all of it is left: then the handler loads an interval the i8253 refuses and the machine stops at a failed \<^verbatim>\<open>ASSERT\<close>. The clock
  has to have room for the delay: its seconds are a C \<^verbatim>\<open>int\<close>.\<close>

theorem timer_reports_delay:
  assumes "pit.arch_ok a" and "weak_normal t" and "d = max (ns t) 52800" and "pit.now a + d < (2 ^ 31 - 1) * NSEC"
  shows "\<exists>a1. arch_timer_set i8253 t (Some f) a = Inr a1 \<and> ns (clock a1) = pit.now a \<and>
    (if \<exists>k. 26400 < d - int k * 54924655 \<and> d - int k * 54924655 < 52800
     then \<exists>n. timer_interrupts i8253 n a1 = Inl Halt
     else \<exists>n a2. timer_interrupts i8253 n a1 = Inr (f, a2) \<and> pit.arch_ok a2 \<and>
       ns (clock a2) - ns (clock a1) \<le> d \<and> d - 26400 \<le> ns (clock a2) - ns (clock a1))"
proof -
  have "pit.now a < (2 ^ 31 - 1) * NSEC" using assms(3,4) by simp
  note room = pit.clock_before_end [OF assms(1) this]
  obtain a1 where a1: "arch_timer_set i8253 t (Some f) a = Inr a1" "pit.arch_ok a1" "alarm_handler a1 = Some f" "ns (clock a1) = pit.now a"
    "ns (delay a1) = d" "ns (last_load a1) = min (ns (delay a1)) 54924655"
    using pit.timer_set_now [OF assms(1,2) room, of "Some f"] assms(3) by auto
  have cl: "ns (clock a1) + ns (delay a1) < (2 ^ 31 - 1) * NSEC" using a1(4,5) assms(4) by simp
  show ?thesis
  proof (cases "\<exists>k. 26400 < d - int k * 54924655 \<and> d - int k * 54924655 < 52800")
    case True
    then obtain k where k: "26400 < d - int k * 54924655" "d - int k * 54924655 < 52800" by blast
    then obtain j where "k = Suc j" using assms(3) by (cases k) auto
    then have "\<exists>n. timer_interrupts i8253 n a1 = Inl Halt" using k a1 cl by (intro pit.delay_halts [of _ j]) simp_all
    then show ?thesis using a1 True by auto
  next
    case False
    then have "\<exists>n a2. timer_interrupts i8253 n a1 = Inr (f, a2) \<and> pit.arch_ok a2 \<and> ns (clock a2) - ns (clock a1) \<le> ns (delay a1) \<and>
        ns (delay a1) - nsec (min_interval i8253) div 2 \<le> ns (clock a2) - ns (clock a1)"
      using a1 cl assms(3) by (intro pit.delay_reported) auto
    then show ?thesis using a1 False by auto
  qed
qed

text \<open>A tenth of a millisecond is reported; after 54964655 ns, one longest interval and 40000 ns, the machine stops.\<close>

theorem timer_reports_delay_witness:
  "(\<exists>a1 n a2. arch_timer_set i8253 (Time 0 100000) (Some ()) \<lparr>clock = Time 0 0, delay = Time 0 54924655,
     last_load = Time 0 54924655, threshold = half_interval (Time 0 52800), alarm_handler = None, hw = 65535\<rparr> = Inr a1 \<and>
     timer_interrupts i8253 n a1 = Inr ((), a2) \<and> ns (clock a2) - ns (clock a1) \<le> 100000 \<and> 73600 \<le> ns (clock a2) - ns (clock a1)) \<and>
   (\<exists>a1 n. arch_timer_set i8253 (Time 0 54964655) (Some ()) \<lparr>clock = Time 0 0, delay = Time 0 54924655,
     last_load = Time 0 54924655, threshold = half_interval (Time 0 52800), alarm_handler = None, hw = 65535\<rparr> = Inr a1 \<and>
     timer_interrupts i8253 n a1 = Inl Halt)"
proof -
  let ?a = "\<lparr>clock = Time 0 0, delay = Time 0 54924655, last_load = Time 0 54924655,
    threshold = half_interval (Time 0 52800), alarm_handler = None :: unit option, hw = 65535\<rparr>"
  have r: "i8253_get_time_from_counter 65535 = Inr (Time 0 54924655)"
    by (simp add: i8253_get_time_from_counter_def i8253_get_def COUNT_TO_TIME_eq)
  then have ok: "pit.arch_ok ?a" and now: "pit.now ?a = 0"
    by (simp_all add: pit.arch_ok_def pit.now_def pit.rem_ns_def weak_normal_def in_int_def ns_def)
  have w: "weak_normal (Time 0 100000)" "weak_normal (Time 0 54964655)" by (simp_all add: weak_normal_def in_int_def)
  have d: "(100000 :: int) = max (ns (Time 0 100000)) 52800" "(54964655 :: int) = max (ns (Time 0 54964655)) 52800" by (simp_all add: ns_def)
  have g1: "\<not> (\<exists>k. 26400 < 100000 - int k * 54924655 \<and> 100000 - int k * 54924655 < 52800)"
  proof
    assume "\<exists>k. 26400 < 100000 - int k * 54924655 \<and> 100000 - int k * 54924655 < 52800"
    then obtain k where "26400 < 100000 - int k * 54924655" "100000 - int k * 54924655 < 52800" by blast
    then show False by (cases k) simp_all
  qed
  have g2: "\<exists>k. 26400 < 54964655 - int k * 54924655 \<and> 54964655 - int k * 54924655 < 52800" by (rule exI [of _ 1]) simp
  have l: "pit.now ?a + 100000 < (2 ^ 31 - 1) * NSEC" "pit.now ?a + 54964655 < (2 ^ 31 - 1) * NSEC" unfolding now by simp_all
  from timer_reports_delay [OF ok w(1) d(1) l(1), of "()"] timer_reports_delay [OF ok w(2) d(2) l(2), of "()"]
  show ?thesis unfolding if_not_P [OF g1] if_P [OF g2] by auto
qed

text \<open>Loading a time into the i8253 counter and reading it back loses less than one tick (840 ns).\<close>

theorem i8253_roundtrip:
  assumes "52800 \<le> nsec t" and "nsec t \<le> 54924655" and "sec t = 0"
  shows "\<exists>h' r. i8253_set_time_to_counter (Time 0 52800) (Time 0 54924655) t h = Inr h' \<and>
    i8253_get_time_from_counter h' = Inr r \<and> sec r = 0 \<and> nsec r \<le> nsec t \<and> nsec t < nsec r + 840"
  using pit.load [of t h] assms by auto

theorem i8253_roundtrip_witness:
  "\<exists>h' r. i8253_set_time_to_counter (Time 0 52800) (Time 0 54924655) (Time 0 1000000) 0 = Inr h' \<and>
    i8253_get_time_from_counter h' = Inr r \<and> nsec r \<le> 1000000 \<and> 1000000 < nsec r + 840"
  using i8253_roundtrip [of "Time 0 1000000" 0] by auto

end
