(* ===== verification/Os_Segments.thy ===== *)
theory Os_Segments
  imports Os_Base
begin

text \<open>
  Segment descriptors, \<^verbatim>\<open>arch/i386/arch/descriptors.h\<close> and \<^verbatim>\<open>arch/i386/arch/descriptors.c\<close>: the
  routine that writes start address, size and privilege level of a segment into a row of the
  GDT, and the selectors. \<open>seg_base\<close> and \<open>seg_bytes\<close> read a row back the way the processor
  does; the theorems compare that with what the kernel asked for.
\<close>

unbundle bit_operations_syntax

record GDT_t =
  segm_limit0 :: nat
  base_addr0 :: nat
  base_addr1 :: nat
  seg_type :: nat
  gdt_S :: nat
  gdt_DPL :: nat
  gdt_P :: nat
  segm_limit1 :: nat
  gdt_AVL :: nat
  gdt_L :: nat
  gdt_DB :: nat
  gdt_G :: nat
  base_addr2 :: nat

abbreviation (input) SEGM_K_CODE :: nat where "SEGM_K_CODE \<equiv> 1"
abbreviation (input) SEGM_K_DATA :: nat where "SEGM_K_DATA \<equiv> 2"
abbreviation (input) SEGM_T_CODE :: nat where "SEGM_T_CODE \<equiv> 3"
abbreviation (input) SEGM_T_DATA :: nat where "SEGM_T_DATA \<equiv> 4"
abbreviation (input) PRIV_KERNEL :: nat where "PRIV_KERNEL \<equiv> 0"
abbreviation (input) PRIV_USER :: nat where "PRIV_USER \<equiv> 3"

definition GDT_DESCRIPTOR :: "nat \<Rightarrow> nat \<Rightarrow> nat \<Rightarrow> nat" where
  "GDT_DESCRIPTOR i table priv_level = push_bit 3 i OR push_bit 2 table OR priv_level"

definition arch_upd_segm_descr ::
  "nat \<Rightarrow> nat \<Rightarrow> nat \<Rightarrow> nat \<Rightarrow> (nat \<Rightarrow> GDT_t) \<Rightarrow> (nat \<Rightarrow> GDT_t) res" where
  "arch_upd_segm_descr i addr sz priv_level gdt =
     rbind (ASSERT (i > 0 \<and> i \<le> 5)) (\<lambda>_.
       let r = gdt i;
           r = r\<lparr>base_addr0 := addr mod 2 ^ 16\<rparr>;
           r = r\<lparr>base_addr1 := addr div 2 ^ 16 mod 2 ^ 8\<rparr>;
           r = r\<lparr>base_addr2 := addr div 2 ^ 24 mod 2 ^ 8\<rparr>;
           (gsize, r) =
             (if sz < 2 ^ 20 then ((sz + 2 ^ 32 - 1) mod 2 ^ 32, r\<lparr>gdt_G := 0\<rparr>)
              else let gsize = sz div 2 ^ 12;
                       gsize = (if sz mod 2 ^ 12 \<noteq> 0 then gsize + 1 else gsize)
                   in (gsize - 1, r\<lparr>gdt_G := 1\<rparr>));
           r = r\<lparr>segm_limit0 := gsize mod 2 ^ 16\<rparr>;
           r = r\<lparr>segm_limit1 := gsize div 2 ^ 16 mod 2 ^ 4\<rparr>;
           r = r\<lparr>gdt_DPL := priv_level\<rparr>
       in Inr (gdt(i := r)))"

definition arch_update_kernel_segments :: "nat \<Rightarrow> nat \<Rightarrow> (nat \<Rightarrow> GDT_t) \<Rightarrow> (nat \<Rightarrow> GDT_t) res" where
  "arch_update_kernel_segments kstart kernel_size gdt =
     rbind (arch_upd_segm_descr SEGM_K_CODE kstart kernel_size PRIV_KERNEL gdt)
       (arch_upd_segm_descr SEGM_K_DATA kstart kernel_size PRIV_KERNEL)"

definition arch_update_user_segments :: "nat \<Rightarrow> nat \<Rightarrow> (nat \<Rightarrow> GDT_t) \<Rightarrow> (nat \<Rightarrow> GDT_t) res" where
  "arch_update_user_segments user user_size gdt =
     rbind (arch_upd_segm_descr SEGM_T_CODE user user_size PRIV_USER gdt)
       (arch_upd_segm_descr SEGM_T_DATA user user_size PRIV_USER)"

text \<open>What the processor makes of a row: base address and number of addressable bytes.\<close>

definition seg_base :: "GDT_t \<Rightarrow> nat" where
  "seg_base r = base_addr0 r + base_addr1 r * 2 ^ 16 + base_addr2 r * 2 ^ 24"

definition seg_bytes :: "GDT_t \<Rightarrow> nat" where
  "seg_bytes r =
     (let limit = segm_limit0 r + segm_limit1 r * 2 ^ 16
      in if gdt_G r = 0 then limit + 1 else (limit + 1) * 2 ^ 12)"

lemma base_digits: "a < 2 ^ 32 \<Longrightarrow> a mod 65536 + a div 65536 mod 256 * 65536 + a div 16777216 mod 256 * 16777216 = (a::nat)"
proof -
  assume a: "a < 2 ^ 32"
  have d1: "a = a mod 65536 + 65536 * (a div 65536)" by simp
  have d2: "a div 65536 = a div 65536 mod 256 + 256 * (a div 16777216)"
    using mod_mult_div_eq [of "a div 65536" 256] by (simp flip: div_mult2_eq)
  have d3: "a div 16777216 mod 256 = a div 16777216" using a by (intro mod_less) (simp add: less_mult_imp_div_less)
  show ?thesis using d1 d2 d3 by linarith
qed

lemma limit_digits: "g < 2 ^ 20 \<Longrightarrow> g mod 65536 + g div 65536 mod 16 * 65536 = (g::nat)"
proof -
  assume "g < 2 ^ 20"
  then have "g div 65536 mod 16 = g div 65536" by (intro mod_less) (simp add: less_mult_imp_div_less)
  then show ?thesis by simp
qed

lemma page_up:
  fixes sz :: nat
  assumes "2 ^ 20 \<le> sz" and "sz < 2 ^ 32"
  defines "g \<equiv> sz div 4096 + (if sz mod 4096 \<noteq> 0 then 1 else 0)"
  shows "sz \<le> g * 4096" "g * 4096 < sz + 4096" "0 < g" "g \<le> 2 ^ 20"
proof -
  have d: "sz = 4096 * (sz div 4096) + sz mod 4096" by simp
  have m: "sz mod 4096 < 4096" by simp
  have q: "sz div 4096 < 2 ^ 20" using assms(2) by (simp add: less_mult_imp_div_less)
  show "sz \<le> g * 4096" "g * 4096 < sz + 4096"
    using d m unfolding g_def by (cases "sz mod 4096 = 0"; simp; linarith)+
  show "g \<le> 2 ^ 20" using q unfolding g_def by auto
  show "0 < g" using assms(1) \<open>sz \<le> g * 4096\<close> by (cases g) auto
qed

text \<open>The row that results from limit \<open>g\<close> and granularity \<open>gr\<close>.\<close>

definition segm_row :: "nat \<Rightarrow> nat \<Rightarrow> nat \<Rightarrow> nat \<Rightarrow> GDT_t \<Rightarrow> GDT_t" where
  "segm_row addr g gr pl r = r\<lparr>base_addr0 := addr mod 2 ^ 16, base_addr1 := addr div 2 ^ 16 mod 2 ^ 8,
     base_addr2 := addr div 2 ^ 24 mod 2 ^ 8, gdt_G := gr, segm_limit0 := g mod 2 ^ 16,
     segm_limit1 := g div 2 ^ 16 mod 2 ^ 4, gdt_DPL := pl\<rparr>"

lemma segm_row_read:
  assumes "addr < 2 ^ 32" and "g < 2 ^ 20"
  shows "seg_base (segm_row addr g gr pl r) = addr" "gdt_DPL (segm_row addr g gr pl r) = pl"
    "seg_bytes (segm_row addr g gr pl r) = (if gr = 0 then g + 1 else (g + 1) * 4096)"
proof -
  have "addr div 16777216 mod 256 = addr div 16777216"
    using assms(1) by (intro mod_less) (simp add: less_mult_imp_div_less)
  moreover have "g div 65536 mod 16 = g div 65536"
    using assms(2) by (intro mod_less) (simp add: less_mult_imp_div_less)
  ultimately show "seg_base (segm_row addr g gr pl r) = addr" "gdt_DPL (segm_row addr g gr pl r) = pl"
    "seg_bytes (segm_row addr g gr pl r) = (if gr = 0 then g + 1 else (g + 1) * 4096)"
    using base_digits [OF assms(1)] limit_digits [OF assms(2)]
    by (simp_all add: segm_row_def seg_base_def seg_bytes_def Let_def)
qed

lemma arch_upd_segm_descr_row:
  assumes "0 < i" "i \<le> 5"
  shows "arch_upd_segm_descr i addr sz pl gdt = Inr (gdt(i := segm_row addr
    (if sz < 2 ^ 20 then (sz + 2 ^ 32 - 1) mod 2 ^ 32 else sz div 4096 + (if sz mod 4096 \<noteq> 0 then 1 else 0) - 1)
    (if sz < 2 ^ 20 then 0 else 1) pl (gdt i)))"
  using assms by (simp add: arch_upd_segm_descr_def Let_def segm_row_def)

lemma arch_upd_segm_descr_ok:
  assumes i: "0 < i" "i \<le> 5" and a: "addr < 2 ^ 32" and sz: "0 < sz" "sz < 2 ^ 32"
  shows "\<exists>r. arch_upd_segm_descr i addr sz pl gdt = Inr (gdt(i := r)) \<and> seg_base r = addr \<and> gdt_DPL r = pl \<and>
    sz \<le> seg_bytes r \<and> seg_bytes r < sz + 4096 \<and> (sz < 2 ^ 20 \<longrightarrow> seg_bytes r = sz)"
proof (cases "sz < 2 ^ 20")
  case True
  have "sz + 2 ^ 32 - 1 = (sz - 1) + 2 ^ 32" using sz by simp
  then have "(sz + 2 ^ 32 - 1) mod 2 ^ 32 = sz - 1" using sz by (simp only: mod_add_self2) simp
  then have r: "arch_upd_segm_descr i addr sz pl gdt = Inr (gdt(i := segm_row addr (sz - 1) 0 pl (gdt i)))"
    using arch_upd_segm_descr_row [OF i, of addr sz pl gdt] True by simp
  have "sz - 1 < 2 ^ 20" using True by simp
  with r segm_row_read [OF a this, of 0 pl "gdt i"] sz True show ?thesis
    by (intro exI [of _ "segm_row addr (sz - 1) 0 pl (gdt i)"]) simp
next
  case False
  define g where "g = sz div 4096 + (if sz mod 4096 \<noteq> 0 then 1 else 0)"
  have p: "sz \<le> g * 4096" "g * 4096 < sz + 4096" "0 < g" "g \<le> 2 ^ 20"
    using page_up [of sz] False sz by (simp_all add: g_def)
  have r: "arch_upd_segm_descr i addr sz pl gdt = Inr (gdt(i := segm_row addr (g - 1) 1 pl (gdt i)))"
    using arch_upd_segm_descr_row [OF i, of addr sz pl gdt] False by (simp add: g_def)
  have "g - 1 < 2 ^ 20" "g - 1 + 1 = g" using p by simp_all
  with r segm_row_read [OF a this(1), of 1 pl "gdt i"] False p show ?thesis
    by (intro exI [of _ "segm_row addr (g - 1) 1 pl (gdt i)"]) simp
qed

lemma arch_update_user_segments_ok:
  assumes "start < 2 ^ 32" and "0 < sz" "sz < 2 ^ 32"
  shows "\<exists>g. arch_update_user_segments start sz gdt = Inr g \<and>
    (\<forall>i\<in>{SEGM_T_CODE, SEGM_T_DATA}. seg_base (g i) = start \<and> gdt_DPL (g i) = PRIV_USER \<and>
       sz \<le> seg_bytes (g i) \<and> seg_bytes (g i) < sz + 4096 \<and> (sz < 2 ^ 20 \<longrightarrow> seg_bytes (g i) = sz)) \<and>
    (\<forall>i. i \<notin> {SEGM_T_CODE, SEGM_T_DATA} \<longrightarrow> g i = gdt i)"
proof -
  obtain r where r: "arch_upd_segm_descr SEGM_T_CODE start sz PRIV_USER gdt = Inr (gdt(SEGM_T_CODE := r))"
    "seg_base r = start" "gdt_DPL r = PRIV_USER" "sz \<le> seg_bytes r" "seg_bytes r < sz + 4096" "sz < 2 ^ 20 \<longrightarrow> seg_bytes r = sz"
    using arch_upd_segm_descr_ok [of SEGM_T_CODE start sz PRIV_USER gdt] assms by auto
  obtain q where q: "arch_upd_segm_descr SEGM_T_DATA start sz PRIV_USER (gdt(SEGM_T_CODE := r)) =
      Inr (gdt(SEGM_T_CODE := r, SEGM_T_DATA := q))"
    "seg_base q = start" "gdt_DPL q = PRIV_USER" "sz \<le> seg_bytes q" "seg_bytes q < sz + 4096" "sz < 2 ^ 20 \<longrightarrow> seg_bytes q = sz"
    using arch_upd_segm_descr_ok [of SEGM_T_DATA start sz PRIV_USER "gdt(SEGM_T_CODE := r)"] assms by auto
  show ?thesis using r q by (simp add: arch_update_user_segments_def)
qed

section \<open>Properties\<close>

text \<open>C31. After \<^verbatim>\<open>arch_update_user_segments\<close> the two user descriptors of the GDT are at privilege level 3,
  start at the process, cover all of it, and reach past its end by less than one page, not at
  all when the process is smaller than a megabyte; no other descriptor changes.\<close>

theorem user_segments_confine:
  assumes "start < 2 ^ 32" and "0 < sz" and "sz < 2 ^ 32"
  shows "\<exists>g. arch_update_user_segments start sz gdt = Inr g \<and>
    (\<forall>i\<in>{SEGM_T_CODE, SEGM_T_DATA}. seg_base (g i) = start \<and> gdt_DPL (g i) = PRIV_USER \<and>
       sz \<le> seg_bytes (g i) \<and> seg_bytes (g i) < sz + 4096 \<and> (sz < 2 ^ 20 \<longrightarrow> seg_bytes (g i) = sz)) \<and>
    (\<forall>i. i \<notin> {SEGM_T_CODE, SEGM_T_DATA} \<longrightarrow> g i = gdt i)"
  using arch_update_user_segments_ok [OF assms] .

theorem user_segments_confine_witness:
  "\<forall>d. \<exists>g. arch_update_user_segments 1048576 5000 d = Inr g \<and> seg_base (g SEGM_T_DATA) = 1048576 \<and>
    seg_bytes (g SEGM_T_DATA) = 5000"
proof
  fix d
  show "\<exists>g. arch_update_user_segments 1048576 5000 d = Inr g \<and> seg_base (g SEGM_T_DATA) = 1048576 \<and>
      seg_bytes (g SEGM_T_DATA) = 5000"
    using user_segments_confine [of 1048576 5000 d] by auto
qed

end
