(* ===== verification/Os_Ids.thy ===== *)
theory Os_Ids
  imports Os_Base
begin

text \<open>
  System wide unique identifiers, \<^verbatim>\<open>kernel/memory.c\<close>: \<^verbatim>\<open>idmask\<close> has one bit per identifier and
  \<^verbatim>\<open>last_id\<close> is where the next search starts. With \<^verbatim>\<open>MAX_RESOURCES\<close> = 1000 the array has
  \<open>1000 div 32 = 31\<close> words, so the identifiers from 992 on have no bit: reaching them is an
  access outside of the array.
\<close>

unbundle bit_operations_syntax

abbreviation (input) MAX_RESOURCES :: nat where "MAX_RESOURCES \<equiv> 1000"
abbreviation (input) WBITS :: nat where "WBITS \<equiv> 32"

record ids =
  idmask :: "u32 list"
  last_id :: nat

definition ids_init :: ids where
  "ids_init = \<lparr>idmask = replicate (MAX_RESOURCES div WBITS) 0, last_id = 0\<rparr>"

definition id_taken :: "ids \<Rightarrow> nat \<Rightarrow> bool" where
  "id_taken st i \<longleftrightarrow> idmask st ! (i div WBITS) AND push_bit (i mod WBITS) 1 \<noteq> 0"

text \<open>The \<^verbatim>\<open>do ... while\<close> loop. The \<^verbatim>\<open>continue\<close> for identifier 0 jumps to the loop condition, which
  tests the bit of identifier 0 as it does for every other one.\<close>

fun new_id_loop :: "nat \<Rightarrow> nat \<Rightarrow> ids \<Rightarrow> ids res" where
  "new_id_loop 0 starting st = Inl Out_of_fuel"
| "new_id_loop (Suc n) starting st =
     (let st = st\<lparr>last_id := (last_id st + 1) mod MAX_RESOURCES\<rparr>
      in if last_id st = starting then Inl Halt
         else if last_id st div WBITS \<ge> length (idmask st) then Inl Out_of_bounds
         else if id_taken st (last_id st) then new_id_loop n starting st
         else Inr st)"

definition k_new_unique_id :: "ids \<Rightarrow> (nat \<times> ids) res" where
  "k_new_unique_id st =
     rbind (new_id_loop MAX_RESOURCES (last_id st) st) (\<lambda>st.
       let i = last_id st
       in Inr (i, st\<lparr>idmask := (idmask st)[i div WBITS := idmask st ! (i div WBITS) OR push_bit (i mod WBITS) 1]\<rparr>))"

definition k_free_unique_id :: "nat \<Rightarrow> ids \<Rightarrow> ids res" where
  "k_free_unique_id i st =
     (if i > 0 \<and> i < MAX_RESOURCES \<and> i div WBITS \<ge> length (idmask st) then Inl Out_of_bounds
      else rbind (ASSERT (i > 0 \<and> i < MAX_RESOURCES \<and> id_taken st i)) (\<lambda>_.
        Inr (st\<lparr>idmask := (idmask st)[i div WBITS := idmask st ! (i div WBITS) AND NOT (push_bit (i mod WBITS) 1)]\<rparr>)))"

section \<open>The set of identifiers in use\<close>

lemma id_taken_bit: "id_taken st i \<longleftrightarrow> bit (idmask st ! (i div WBITS)) (i mod WBITS)"
proof
  assume "id_taken st i"
  then obtain n where "bit (idmask st ! (i div 32) AND push_bit (i mod 32) 1) n"
    unfolding id_taken_def by (metis bit_eqI bit_0_eq bot_apply bot_bool_def)
  then show "bit (idmask st ! (i div 32)) (i mod 32)" by (auto simp: bit_simps)
next
  assume "bit (idmask st ! (i div 32)) (i mod 32)"
  then have "bit (idmask st ! (i div 32) AND push_bit (i mod 32) 1) (i mod 32)" by (simp add: bit_simps)
  then show "id_taken st i" unfolding id_taken_def by auto
qed

definition live_ids :: "ids \<Rightarrow> nat set" where
  "live_ids st = {i. i div WBITS < length (idmask st) \<and> bit (idmask st ! (i div WBITS)) (i mod WBITS)}"

lemma set_bit_live:
  assumes "i div WBITS < length (idmask st)"
  shows "live_ids (st\<lparr>idmask := (idmask st)[i div WBITS := idmask st ! (i div WBITS) OR push_bit (i mod WBITS) 1]\<rparr>)
    = insert i (live_ids st)"
proof -
  have "bit (idmask st ! (i div 32) OR push_bit (i mod 32) 1) (j mod 32) \<longleftrightarrow>
      bit (idmask st ! (i div 32)) (j mod 32) \<or> j mod 32 = i mod 32" for j
    by (auto simp: bit_simps)
  moreover have "j = i" if "j div 32 = i div 32" "j mod 32 = i mod 32" for j
    using that by (metis div_mult_mod_eq)
  ultimately show ?thesis
    using assms by (intro set_eqI, rename_tac j, case_tac "j div 32 = i div 32")
      (auto simp: live_ids_def nth_list_update)
qed

lemma clear_bit_live:
  assumes "i div WBITS < length (idmask st)"
  shows "live_ids (st\<lparr>idmask := (idmask st)[i div WBITS := idmask st ! (i div WBITS) AND NOT (push_bit (i mod WBITS) 1)]\<rparr>)
    = live_ids st - {i}"
proof -
  have "bit (idmask st ! (i div 32) AND NOT (push_bit (i mod 32) 1)) (j mod 32) \<longleftrightarrow>
      bit (idmask st ! (i div 32)) (j mod 32) \<and> j mod 32 \<noteq> i mod 32" for j
    by (auto simp: bit_simps)
  moreover have "j = i" if "j div 32 = i div 32" "j mod 32 = i mod 32" for j
    using that by (metis div_mult_mod_eq)
  ultimately show ?thesis
    using assms by (intro set_eqI, rename_tac j, case_tac "j div 32 = i div 32")
      (auto simp: live_ids_def nth_list_update)
qed

lemma new_id_loop_sound:
  "new_id_loop n starting st = Inr st' \<Longrightarrow> idmask st' = idmask st \<and> last_id st' \<notin> live_ids st \<and>
   last_id st' div WBITS < length (idmask st) \<and> last_id st' < MAX_RESOURCES"
proof (induction n starting st rule: new_id_loop.induct)
  case (2 n starting st)
  let ?st = "st\<lparr>last_id := (last_id st + 1) mod 1000\<rparr>"
  show ?case
  proof (cases "id_taken ?st (last_id ?st)")
    case True
    then have "new_id_loop n starting ?st = Inr st'" using 2(2) by (simp add: Let_def split: if_splits)
    moreover have "live_ids ?st = live_ids st" by (simp add: live_ids_def)
    ultimately show ?thesis using 2(1) [OF refl] True 2(2) by (auto simp: Let_def split: if_splits)
  next
    case False
    then have "st' = ?st" "last_id ?st div 32 < length (idmask ?st)" using 2(2) by (auto simp: Let_def split: if_splits)
    then show ?thesis using False by (simp add: live_ids_def id_taken_bit)
  qed
qed simp

text \<open>The search visits \<open>last_id + 1, last_id + 2, ...\<close> modulo 1000 and stops at the first that is not in use; when that one has no bit, the test
  is outside of the array.\<close>

definition ids_ok :: "ids \<Rightarrow> bool" where
  "ids_ok st \<longleftrightarrow> length (idmask st) = MAX_RESOURCES div WBITS \<and> last_id st < MAX_RESOURCES"

lemma live_below: "length (idmask st) = 31 \<Longrightarrow> i \<in> live_ids st \<Longrightarrow> i < 992"
  by (simp add: live_ids_def div_less_iff_less_mult)

lemma new_id_loop_finds:
  assumes "length (idmask st) = 31" and "starting < 1000"
    and "last_id st = (starting + j) mod 1000" and "j < k" and "k < 1000" and "k - j \<le> n"
    and "(starting + k) mod 1000 \<notin> live_ids st"
    and "\<And>i. j < i \<Longrightarrow> i < k \<Longrightarrow> (starting + i) mod 1000 \<in> live_ids st"
  shows "new_id_loop n starting st = (if (starting + k) mod 1000 < 992 then Inr (st\<lparr>last_id := (starting + k) mod 1000\<rparr>) else Inl Out_of_bounds)"
  using assms
proof (induction n arbitrary: j st)
  case (Suc n)
  let ?l = "(starting + Suc j) mod 1000"
  let ?st = "st\<lparr>last_id := ?l\<rparr>"
  have l: "(last_id st + 1) mod 1000 = ?l" using Suc.prems(3) by (simp add: mod_simps)
  have ne: "?l \<noteq> starting"
    using Suc.prems(2,4,5) by (auto simp: mod_if)
  have inb: "?l div 32 < 31 \<longleftrightarrow> ?l < 992" by (simp add: div_less_iff_less_mult)
  have tk: "id_taken ?st ?l \<longleftrightarrow> ?l \<in> live_ids st" if "?l < 992"
    using that inb Suc.prems(1) by (simp add: id_taken_bit live_ids_def)
  show ?case
  proof (cases "Suc j = k")
    case True
    then show ?thesis using ne inb tk Suc.prems(1,7) l by (auto simp: Let_def not_le not_less)
  next
    case False
    then have m: "?l \<in> live_ids st" using Suc.prems(8) [of "Suc j"] Suc.prems(4) by simp
    then have lt: "?l < 992" using live_below Suc.prems(1) by blast
    moreover have "new_id_loop n starting ?st =
        (if (starting + k) mod 1000 < 992 then Inr (?st\<lparr>last_id := (starting + k) mod 1000\<rparr>) else Inl Out_of_bounds)"
    proof (rule Suc.IH [where j = "Suc j"])
      show "Suc j < k" using False Suc.prems(4) by simp
      show "(starting + k) mod 1000 \<notin> live_ids ?st" using Suc.prems(7) by (simp add: live_ids_def)
      show "\<And>i. Suc j < i \<Longrightarrow> i < k \<Longrightarrow> (starting + i) mod 1000 \<in> live_ids ?st"
        using Suc.prems(8) by (simp add: live_ids_def)
    qed (use Suc.prems in simp_all)
    ultimately show ?thesis using ne inb tk [OF lt] m Suc.prems(1) l by (simp add: Let_def not_le)
  qed
qed simp

text \<open>There always is an identifier that is not in use among the other 999, since those from 992 on never are.\<close>

lemma some_free:
  assumes "ids_ok st"
  shows "\<exists>j. 0 < j \<and> j < 1000 \<and> (last_id st + j) mod 1000 \<notin> live_ids st"
proof -
  have l: "length (idmask st) = 31" "last_id st < 1000" using assms by (auto simp: ids_ok_def)
  define t :: nat where "t = (if last_id st = 999 then 998 else 999)"
  define j where "j = (if last_id st < t then t - last_id st else 1000 + t - last_id st)"
  have "(last_id st + j) mod 1000 = t" "0 < j" "j < 1000" using l(2) by (auto simp: j_def t_def)
  moreover have "t \<notin> live_ids st" using live_below [OF l(1), of t] by (auto simp: t_def)
  ultimately show ?thesis by metis
qed

lemma k_new_unique_id_sound:
  assumes "k_new_unique_id st = Inr (i, st')"
  shows "i \<notin> live_ids st \<and> i < MAX_RESOURCES \<and> live_ids st' = insert i (live_ids st)"
proof -
  obtain st1 where l: "new_id_loop 1000 (last_id st) st = Inr st1" and i: "i = last_id st1"
    and st': "st' = st1\<lparr>idmask := (idmask st1)[i div 32 := idmask st1 ! (i div 32) OR push_bit (i mod 32) 1]\<rparr>"
    using assms by (auto simp: k_new_unique_id_def rbind_eq_Inr Let_def)
  note s = new_id_loop_sound [OF l]
  then have "live_ids st1 = live_ids st" by (simp add: live_ids_def)
  with s i st' set_bit_live [of i st1] show ?thesis by simp
qed

lemma k_free_unique_id_live:
  assumes "i \<in> live_ids st" and "0 < i" and "i < MAX_RESOURCES"
  shows "\<exists>st'. k_free_unique_id i st = Inr st' \<and> live_ids st' = live_ids st - {i} \<and> last_id st' = last_id st"
  using assms clear_bit_live [of i st]
  by (simp add: k_free_unique_id_def live_ids_def id_taken_bit)

section \<open>Properties\<close>

text \<open>C32. \<^verbatim>\<open>k_new_unique_id\<close> takes the first identifier after the last one, modulo 1000, that is not in use. When it is below 992 it is returned and in use afterwards, with
  all others unchanged; otherwise the search has left the array of bits. Freeing the identifier makes exactly that one free again, unless it is 0, which
  can be assigned, and which \<^verbatim>\<open>k_free_unique_id\<close> refuses with a failed \<^verbatim>\<open>ASSERT\<close>.\<close>

theorem unique_ids:
  assumes ok: "ids_ok st" and j: "j = (LEAST j. 0 < j \<and> (last_id st + j) mod MAX_RESOURCES \<notin> live_ids st)"
    and i: "i = (last_id st + j) mod MAX_RESOURCES"
  shows "if i < 992 then \<exists>st'. k_new_unique_id st = Inr (i, st') \<and> ids_ok st' \<and> i \<notin> live_ids st \<and> live_ids st' = insert i (live_ids st) \<and>
      (if i = 0 then k_free_unique_id i st' = Inl Halt
       else \<exists>st''. k_free_unique_id i st' = Inr st'' \<and> live_ids st'' = live_ids st)
    else k_new_unique_id st = Inl Out_of_bounds"
proof -
  let ?P = "\<lambda>j. 0 < j \<and> (last_id st + j) mod 1000 \<notin> live_ids st"
  obtain j0 where j0: "?P j0" "j0 < 1000" using some_free [OF ok] by blast
  have p: "?P j" unfolding j by (rule LeastI [of ?P, OF j0(1)])
  have "j \<le> j0" unfolding j by (rule Least_le [of ?P, OF j0(1)])
  then have lt: "j < 1000" using j0(2) by simp
  have before: "(last_id st + h) mod 1000 \<in> live_ids st" if "0 < h" "h < j" for h
    using not_less_Least [of h ?P] that unfolding j by blast
  have o: "length (idmask st) = 31" "last_id st < 1000" using ok by (auto simp: ids_ok_def)
  have loop: "new_id_loop 1000 (last_id st) st = (if i < 992 then Inr (st\<lparr>last_id := i\<rparr>) else Inl Out_of_bounds)"
    unfolding i by (rule new_id_loop_finds [where j = 0]) (use o p lt before in auto)
  show ?thesis
  proof (cases "i < 992")
    case True
    define st' where "st' = st\<lparr>last_id := i, idmask := (idmask st)[i div 32 := idmask st ! (i div 32) OR push_bit (i mod 32) 1]\<rparr>"
    have n: "k_new_unique_id st = Inr (i, st')" using loop True by (simp add: k_new_unique_id_def st'_def)
    note s = k_new_unique_id_sound [OF n]
    have "ids_ok st'" using o True by (simp add: ids_ok_def st'_def)
    moreover have "k_free_unique_id 0 st' = Inl Halt" by (simp add: k_free_unique_id_def)
    moreover have "\<exists>st''. k_free_unique_id i st' = Inr st'' \<and> live_ids st'' = live_ids st" if "0 < i"
      using k_free_unique_id_live [of i st'] s that by auto
    ultimately show ?thesis using True n s by auto
  next
    case False
    then show ?thesis using loop by (simp add: k_new_unique_id_def)
  qed
qed

theorem unique_ids_witness:
  "\<exists>st' st''. k_new_unique_id ids_init = Inr (1, st') \<and> live_ids st' = insert 1 (live_ids ids_init) \<and>
    k_free_unique_id 1 st' = Inr st'' \<and> live_ids st'' = live_ids ids_init"
proof -
  have ok: "ids_ok ids_init" by (simp add: ids_ok_def ids_init_def)
  have "1 \<notin> live_ids ids_init" by (simp add: live_ids_def ids_init_def)
  then have l: "1 = (LEAST j. 0 < j \<and> (last_id ids_init + j) mod 1000 \<notin> live_ids ids_init)"
    by (intro Least_equality [symmetric]) (auto simp: ids_init_def)
  show ?thesis using unique_ids [OF ok l, of 1] by (auto simp: ids_init_def)
qed

end
