(* ===== verification/Os_State.thy ===== *)
theory Os_State
  imports Os_List Os_FirstFit Os_Timer Os_Segments Os_Ids
begin

text \<open>
  The state of the kernel, one record: the objects of \<^verbatim>\<open>kernel/\<close> as typed heaps (total maps from
  addresses), the static variables of its files, the heap of the first fit allocator, the memory
  of the processes as bytes, and the state of the timer layer.

  Thread queues keep the pointers of the source: every \<^verbatim>\<open>kthread_q\<close> is a \<^verbatim>\<open>list_t\<close> found under a
  queue name, and the list element of a thread, inside its descriptor, is identified with
  the address of the descriptor. So a thread that is put into two queues at once corrupts both,
  as it does in the machine. The lists that only register objects (all threads, processes,
  programs, alarms, messages of a queue) are sequences; \<open>Os_List\<close> shows that the list routines
  implement the operations used on them.
\<close>

section \<open>Objects\<close>

text \<open>Queues of messages belong to a thread or are global; queues of threads are named by the
  object that holds the \<^verbatim>\<open>kthread_q\<close>.\<close>

datatype mqid = MThread nat | MGlobal nat

datatype qid =
    QReady nat | QSem nat | QMon nat | QMonq nat | QJoin nat | QMsg mqid | QAlarm nat | QDev nat

text \<open>Function pointers that the kernel stores and calls: none, an address in a program, and the
  one kernel routine that is used as an alarm action.\<close>

datatype code_ptr = Null_fn | User_fn nat | Rr_timer

datatype k_handler = K_timer_interrupt

record context_t =
  c_eip :: nat
  c_esp :: nat
  c_cs :: nat
  c_ss :: nat
  c_eflags :: nat
  c_eax :: int
  c_proc :: nat

record kthread_t =
  t_context :: context_t
  t_id :: nat
  t_state :: int
  t_prio :: int
  t_policy :: int
  t_activated :: int
  t_slice_start :: time_t
  t_slice_end :: time_t
  t_remainder :: time_t
  t_queue :: "qid option"
  t_qdata :: nat
  t_stack :: nat
  t_stack_size :: nat
  t_proc :: nat
  t_storage :: nat
  t_min_prio :: nat
  t_sig_prio :: nat
  t_handler :: nat
  t_exit_status :: int
  t_errno :: int
  t_ref_cnt :: int

abbreviation (input) THR_STATE_ACTIVE :: int where "THR_STATE_ACTIVE \<equiv> 1"
abbreviation (input) THR_STATE_READY :: int where "THR_STATE_READY \<equiv> 2"
abbreviation (input) THR_STATE_WAIT :: int where "THR_STATE_WAIT \<equiv> 3"
abbreviation (input) THR_STATE_PASSIVE :: int where "THR_STATE_PASSIVE \<equiv> 4"

record prog_info_t =
  pi_init :: nat
  pi_entry :: nat
  pi_exit :: nat
  pi_prio :: int
  pi_heap_size :: nat
  pi_stack_size :: nat
  pi_thread_stack :: nat
  pi_start_adr :: nat
  pi_heap :: nat
  pi_stack :: nat
  pi_end_adr :: nat
  pi_stdin :: nat
  pi_stdout :: nat

record kprog_t =
  prog_name :: nat
  g_pi :: nat
  g_start :: nat
  g_size :: nat

record kprocess_t =
  p_prog :: nat
  p_stack_pool :: nat
  p_pi :: nat
  p_start :: nat
  p_size :: nat
  p_thr_count :: int

record alarm_t =
  exp_time :: time_t
  action :: code_ptr
  param :: nat
  flags :: nat
  period :: time_t

record kalarm_t =
  alarm :: alarm_t
  a_active :: int
  a_thread :: nat
  a_magic :: nat

abbreviation (input) ALARM_MAGIC :: nat where "ALARM_MAGIC \<equiv> 225714936"

record kmonitor_t =
  lock :: int
  owner :: nat

record kmsg_t =
  m_type :: int
  m_size :: nat
  m_data :: "u8 list"

record kgmsg_q =
  q_min_prio :: nat
  q_id :: nat

record ksched_rr_t =
  rr_time_slice :: time_t
  rr_threshold :: time_t
  rr_alarm :: nat
  rr_params :: alarm_t

text \<open>Interrupt handlers that are registered by address: those of the kernel, and those of drivers.\<close>

datatype irq_fn = K_syscall | K_memory_fault | Arch_timer_handler | Driver_irq nat

text \<open>The functions of a driver are addresses, 0 for none.\<close>

record device_t =
  dev_name :: "u8 list"
  irq_num :: int
  irq_handler :: "irq_fn option"
  d_callback :: nat
  d_init :: nat
  d_destroy :: nat
  d_send :: nat
  d_recv :: nat
  d_flags :: int
  d_params :: nat

record kdevice_t =
  dev :: device_t
  opened :: bool
  locked :: bool

record ihndlr =
  ih_device :: nat
  ihandler :: irq_fn

section \<open>The kernel\<close>

record kst =
  kt :: "nat \<Rightarrow> kthread_t"
  kp :: "nat \<Rightarrow> kprocess_t"
  kpi :: "nat \<Rightarrow> prog_info_t"
  kg :: "nat \<Rightarrow> kprog_t"
  ka :: "nat \<Rightarrow> kalarm_t"
  ksem :: "nat \<Rightarrow> int"
  kmon :: "nat \<Rightarrow> kmonitor_t"
  kmq :: "nat \<Rightarrow> kgmsg_q"
  kmsg :: "nat \<Rightarrow> kmsg_t"
  ql :: lheap
  tq :: "qid \<Rightarrow> list_t"
  mq :: "mqid \<Rightarrow> nat list"
  all_threads :: "nat list"
  procs :: "nat list"
  progs :: "nat list"
  kalarms :: "nat list"
  kmsg_qs :: "nat list"
  active_thread :: nat
  rdy_mask :: "u32 list"
  idst :: ids
  ffm :: wmem
  k_mpool :: nat
  umem :: bmem
  tim :: "(nat, k_handler) arch_time"
  k_threshold :: time_t
  rr :: ksched_rr_t
  gdt :: "nat \<Rightarrow> GDT_t"
  tss_esp0 :: nat
  selected :: nat
  kdev :: "nat \<Rightarrow> kdevice_t"
  devices :: "nat list"
  k_stdout :: nat
  u_stdin :: nat
  u_stdout :: nat
  kih :: "nat \<Rightarrow> ihndlr"
  ihandlers :: "nat \<Rightarrow> nat list"
  new_mode :: int
  prev_mode :: int

text \<open>Access to one thread descriptor, process, alarm.\<close>

abbreviation upd_t :: "nat \<Rightarrow> (kthread_t \<Rightarrow> kthread_t) \<Rightarrow> kst \<Rightarrow> kst" where
  "upd_t t f s \<equiv> s\<lparr>kt := (kt s)(t := f (kt s t))\<rparr>"

abbreviation upd_p :: "nat \<Rightarrow> (kprocess_t \<Rightarrow> kprocess_t) \<Rightarrow> kst \<Rightarrow> kst" where
  "upd_p p f s \<equiv> s\<lparr>kp := (kp s)(p := f (kp s p))\<rparr>"

abbreviation upd_a :: "nat \<Rightarrow> (kalarm_t \<Rightarrow> kalarm_t) \<Rightarrow> kst \<Rightarrow> kst" where
  "upd_a a f s \<equiv> s\<lparr>ka := (ka s)(a := f (ka s a))\<rparr>"

section \<open>Kernel heap, user addresses, error numbers\<close>

definition kmalloc :: "nat \<Rightarrow> kst \<Rightarrow> (nat \<times> kst) res" where
  "kmalloc sz s = rbind (ffs_alloc (k_mpool s) sz (ffm s)) (\<lambda>(p, m). Inr (p, s\<lparr>ffm := m\<rparr>))"

definition kfree :: "nat \<Rightarrow> kst \<Rightarrow> kst res" where
  "kfree p s = rbind (ffs_free (k_mpool s) p (ffm s)) (\<lambda>m. Inr (s\<lparr>ffm := m\<rparr>))"

definition k_u2k_adr :: "nat \<Rightarrow> nat \<Rightarrow> kst \<Rightarrow> nat res" where
  "k_u2k_adr uadr proc s =
     rbind (ASSERT (uadr < p_size (kp s proc))) (\<lambda>_. Inr ((uadr + p_start (kp s proc)) mod 2 ^ 32))"

definition k_k2u_adr :: "nat \<Rightarrow> nat \<Rightarrow> kst \<Rightarrow> nat res" where
  "k_k2u_adr kadr proc s =
     rbind (ASSERT (kadr \<ge> p_start (kp s proc) \<and> kadr < (p_start (kp s proc) + p_size (kp s proc)) mod 2 ^ 32)) (\<lambda>_.
     Inr (kadr - p_start (kp s proc)))"

text \<open>A 32-bit word of process memory read as a pointer or unsigned value and as an \<^verbatim>\<open>int\<close>, and
  written.\<close>

definition ptr_at :: "nat \<Rightarrow> kst \<Rightarrow> nat" where
  "ptr_at a s = unat (ld32 (umem s) a)"

definition int_at :: "nat \<Rightarrow> kst \<Rightarrow> int" where
  "int_at a s = sint (ld32 (umem s) a)"

definition put_at :: "nat \<Rightarrow> u32 \<Rightarrow> kst \<Rightarrow> kst" where
  "put_at a w s = s\<lparr>umem := st32 (umem s) a w\<rparr>"

abbreviation (input) SUCCESS :: int where "SUCCESS \<equiv> 0"
abbreviation (input) E_NOT_FINISHED :: int where "E_NOT_FINISHED \<equiv> 5"
abbreviation (input) E_NOT_EXPIRED :: int where "E_NOT_EXPIRED \<equiv> 6"
abbreviation (input) E_NOT_OWNER :: int where "E_NOT_OWNER \<equiv> 7"
abbreviation (input) E_PARAM_NULL :: int where "E_PARAM_NULL \<equiv> 8"
abbreviation (input) E_DONT_EXIST :: int where "E_DONT_EXIST \<equiv> 9"
abbreviation (input) E_IGNORED :: int where "E_IGNORED \<equiv> 10"
abbreviation (input) E_INVALID_TYPE :: int where "E_INVALID_TYPE \<equiv> 11"
abbreviation (input) E_INVALID_HANDLE :: int where "E_INVALID_HANDLE \<equiv> 12"
abbreviation (input) E_NO_MEMORY :: int where "E_NO_MEMORY \<equiv> 14"
abbreviation (input) E_RETRY :: int where "E_RETRY \<equiv> 15"
abbreviation (input) E_EMPTY :: int where "E_EMPTY \<equiv> 16"
abbreviation (input) E_TOO_BIG :: int where "E_TOO_BIG \<equiv> 17"

definition kthread_set_errno :: "nat \<Rightarrow> int \<Rightarrow> kst \<Rightarrow> kst" where
  "kthread_set_errno t e s =
     (if t \<noteq> 0 then upd_t t (\<lambda>x. x\<lparr>t_errno := e\<rparr>) s
      else upd_t (active_thread s) (\<lambda>x. x\<lparr>t_errno := e\<rparr>) s)"

text \<open>\<^verbatim>\<open>SET_ERRNO\<close>, \<^verbatim>\<open>EXIT\<close> and \<^verbatim>\<open>ASSERT_ERRNO_AND_EXIT\<close> of \<^verbatim>\<open>kernel/errno.h\<close>.\<close>

definition SET_ERRNO :: "int \<Rightarrow> kst \<Rightarrow> kst" where
  "SET_ERRNO e s = kthread_set_errno 0 (- e) s"

definition EXIT :: "int \<Rightarrow> kst \<Rightarrow> (int \<times> kst) res" where
  "EXIT e s = Inr (- e, SET_ERRNO e s)"

definition assert_errno_exit :: "bool \<Rightarrow> int \<Rightarrow> kst \<Rightarrow> (int \<times> kst) res \<Rightarrow> (int \<times> kst) res" where
  "assert_errno_exit b e s k = (if b then k else EXIT e s)"

section \<open>Get-ers\<close>

definition or_active :: "nat \<Rightarrow> kst \<Rightarrow> nat" where
  "or_active t s = (if t \<noteq> 0 then t else active_thread s)"

definition kthread_get_active :: "kst \<Rightarrow> nat" where
  "kthread_get_active s = active_thread s"

definition kthread_get_prio :: "nat \<Rightarrow> kst \<Rightarrow> int" where
  "kthread_get_prio t s = t_prio (kt s (or_active t s))"

definition kthread_get_process :: "nat \<Rightarrow> kst \<Rightarrow> nat" where
  "kthread_get_process t s = t_proc (kt s (or_active t s))"

definition kthread_get_id :: "nat \<Rightarrow> kst \<Rightarrow> nat" where
  "kthread_get_id t s = t_id (kt s (or_active t s))"

definition kthread_get_errno :: "nat \<Rightarrow> kst \<Rightarrow> int" where
  "kthread_get_errno t s = t_errno (kt s (or_active t s))"

definition kthread_is_ready :: "nat \<Rightarrow> kst \<Rightarrow> bool" where
  "kthread_is_ready t s =
     (t_state (kt s (or_active t s)) = THR_STATE_ACTIVE \<or> t_state (kt s (or_active t s)) = THR_STATE_READY)"

definition kthread_set_qdata :: "nat \<Rightarrow> nat \<Rightarrow> kst \<Rightarrow> kst" where
  "kthread_set_qdata t d s = upd_t (or_active t s) (\<lambda>x. x\<lparr>t_qdata := d\<rparr>) s"

definition kthread_get_qdata :: "nat \<Rightarrow> kst \<Rightarrow> nat" where
  "kthread_get_qdata t s = t_qdata (kt s (or_active t s))"

text \<open>\<^verbatim>\<open>U2K_GET_ADR ( *( (void **) p ), kthread_get_process (NULL) )\<close>: the address a parameter of a system call points to.\<close>

definition user_ptr :: "nat \<Rightarrow> kst \<Rightarrow> nat res" where
  "user_ptr p s = k_u2k_adr (ptr_at p s) (kthread_get_process 0 s) s"

text \<open>The user level descriptor is two words, \<^verbatim>\<open>thread\<close> and \<^verbatim>\<open>thr_id\<close>.\<close>

definition kthread_get_descriptor :: "nat \<Rightarrow> kst \<Rightarrow> nat" where
  "kthread_get_descriptor thr s =
     (if thr \<noteq> 0 \<and> ptr_at thr s \<noteq> 0 \<and> ptr_at (thr + 4) s = t_id (kt s (ptr_at thr s)) \<and>
         t_state (kt s (ptr_at thr s)) \<noteq> THR_STATE_PASSIVE
      then ptr_at thr s else 0)"

definition kthread_create_private_storage :: "nat \<Rightarrow> nat \<Rightarrow> kst \<Rightarrow> (nat \<times> kst) res" where
  "kthread_create_private_storage t sz s =
     rbind (ffs_alloc (p_stack_pool (kp s (t_proc (kt s t)))) sz (ffm s)) (\<lambda>(p, m). Inr (p, s\<lparr>ffm := m\<rparr>))"

definition kthread_delete_private_storage :: "nat \<Rightarrow> nat \<Rightarrow> kst \<Rightarrow> kst res" where
  "kthread_delete_private_storage t ps s =
     (if ps \<noteq> 0
      then rbind (ffs_free (p_stack_pool (kp s (t_proc (kt s t)))) ps (ffm s)) (\<lambda>m. Inr (s\<lparr>ffm := m\<rparr>))
      else Inr s)"

definition kthread_set_private_storage :: "nat \<Rightarrow> nat \<Rightarrow> kst \<Rightarrow> kst" where
  "kthread_set_private_storage t ps s = upd_t t (\<lambda>x. x\<lparr>t_storage := ps\<rparr>) s"

section \<open>Thread queues\<close>

definition kthreadq_init :: "qid \<Rightarrow> kst \<Rightarrow> kst" where
  "kthreadq_init q s = s\<lparr>tq := (tq s)(q := list_init)\<rparr>"

definition kthreadq_append :: "qid \<Rightarrow> nat \<Rightarrow> kst \<Rightarrow> kst res" where
  "kthreadq_append q t s =
     rbind (list_append (tq s q) t t (ql s)) (\<lambda>(l, h). Inr (s\<lparr>ql := h, tq := (tq s)(q := l)\<rparr>))"

definition kthreadq_prepend :: "qid \<Rightarrow> nat \<Rightarrow> kst \<Rightarrow> kst res" where
  "kthreadq_prepend q t s =
     rbind (list_prepend (tq s q) t t (ql s)) (\<lambda>(l, h). Inr (s\<lparr>ql := h, tq := (tq s)(q := l)\<rparr>))"

definition kthreadq_remove :: "qid \<Rightarrow> nat \<Rightarrow> kst \<Rightarrow> nat \<times> kst" where
  "kthreadq_remove q t s =
     (let (x, l, h) = list_remove (tq s q) LIST_FIRST t (ql s) in (x, s\<lparr>ql := h, tq := (tq s)(q := l)\<rparr>))"

definition kthreadq_get :: "qid \<Rightarrow> kst \<Rightarrow> nat" where
  "kthreadq_get q s = list_get (tq s q) LIST_FIRST (ql s)"

definition kthreadq_get_next :: "nat \<Rightarrow> kst \<Rightarrow> nat" where
  "kthreadq_get_next t s = list_get_next t (ql s)"

section \<open>The ready list\<close>

abbreviation (input) PRIO_LEVELS :: nat where "PRIO_LEVELS \<equiv> 64"
abbreviation (input) RDY_MASKS :: nat where "RDY_MASKS \<equiv> 16"

definition kthread_ready_list_init :: "kst \<Rightarrow> kst" where
  "kthread_ready_list_init s =
     (let s = foldl (\<lambda>s i. kthreadq_init (QReady i) s) s [0..<PRIO_LEVELS]
      in s\<lparr>rdy_mask := replicate RDY_MASKS 0\<rparr>)"

text \<open>The loop over the mask words, from the last one down; \<open>n\<close> words are left.\<close>

fun ready_highest :: "nat \<Rightarrow> u32 list \<Rightarrow> int" where
  "ready_highest 0 masks = -1"
| "ready_highest (Suc i) masks =
     (if masks ! i \<noteq> 0 then int (i * 4 + arch_msb_index (unat (masks ! i))) else ready_highest i masks)"

definition kthread_ready_list_highest :: "kst \<Rightarrow> int" where
  "kthread_ready_list_highest s = ready_highest RDY_MASKS (rdy_mask s)"

definition kthread_ready_list_set_not_empty :: "nat \<Rightarrow> kst \<Rightarrow> kst" where
  "kthread_ready_list_set_not_empty index s =
     (let i = index div 4; j = index mod 4
      in s\<lparr>rdy_mask := (rdy_mask s)[i := rdy_mask s ! i OR push_bit j 1]\<rparr>)"

definition kthread_ready_list_set_empty :: "nat \<Rightarrow> kst \<Rightarrow> kst" where
  "kthread_ready_list_set_empty index s =
     (let i = index div 4; j = index mod 4
      in s\<lparr>rdy_mask := (rdy_mask s)[i := rdy_mask s ! i AND NOT (push_bit j 1)]\<rparr>)"

text \<open>\<open>ready_q[prio]\<close> for a priority outside of the array.\<close>

definition in_ready_q :: "int \<Rightarrow> unit res" where
  "in_ready_q prio = (if 0 \<le> prio \<and> prio < int PRIO_LEVELS then Inr () else Inl Out_of_bounds)"

definition kthread_move_to_ready :: "nat \<Rightarrow> nat \<Rightarrow> kst \<Rightarrow> kst res" where
  "kthread_move_to_ready t where' s =
     (let s = upd_t t (\<lambda>x. x\<lparr>t_state := THR_STATE_READY\<rparr>) s;
          prio = t_prio (kt s t)
      in rbind (in_ready_q prio) (\<lambda>_.
         let q = QReady (nat prio);
             s = upd_t t (\<lambda>x. x\<lparr>t_queue := Some q\<rparr>) s
         in rbind (if where' = LIST_LAST then kthreadq_append q t s else kthreadq_prepend q t s) (\<lambda>s.
            Inr (kthread_ready_list_set_not_empty (nat prio) s))))"

definition kthread_remove_from_ready :: "nat \<Rightarrow> kst \<Rightarrow> (nat \<times> kst) res" where
  "kthread_remove_from_ready t s =
     (if t = 0 then Inr (0, s)
      else rbind (in_ready_q (t_prio (kt s t))) (\<lambda>_.
        let q = QReady (nat (t_prio (kt s t)));
            s = upd_t t (\<lambda>x. x\<lparr>t_queue := Some q\<rparr>) s;
            (x, s) = kthreadq_remove q t s
        in if x \<noteq> t then Inr (0, s)
           else if kthreadq_get q s = 0 then Inr (t, kthread_ready_list_set_empty (nat (t_prio (kt s t))) s)
           else Inr (t, s)))"

section \<open>Blocking and releasing\<close>

definition kthread_enqueue :: "nat \<Rightarrow> qid \<Rightarrow> kst \<Rightarrow> kst res" where
  "kthread_enqueue t q s =
     rbind (ASSERT (t \<noteq> 0 \<or> active_thread s \<noteq> 0)) (\<lambda>_.
       let t = (if t = 0 then active_thread s else t);
           s = upd_t t (\<lambda>x. x\<lparr>t_state := THR_STATE_WAIT\<rparr>) s;
           s = upd_t t (\<lambda>x. x\<lparr>t_queue := Some q\<rparr>) s
       in kthreadq_append q t s)"

definition kthreadq_release :: "qid \<Rightarrow> kst \<Rightarrow> (int \<times> kst) res" where
  "kthreadq_release q s =
     (let (t, s) = kthreadq_remove q 0 s
      in if t \<noteq> 0 then rbind (kthread_move_to_ready t LIST_LAST s) (\<lambda>s. Inr (1, s))
         else Inr (0, s))"

fun release_loop :: "nat \<Rightarrow> qid \<Rightarrow> int \<Rightarrow> kst \<Rightarrow> (int \<times> kst) res" where
  "release_loop 0 q cnt s = Inl Out_of_fuel"
| "release_loop (Suc n) q cnt s =
     rbind (kthreadq_release q s) (\<lambda>(r, s).
       if r \<noteq> 0 then release_loop n q (cnt + 1) s else Inr (cnt, s))"

definition kthreadq_release_all :: "qid \<Rightarrow> kst \<Rightarrow> (int \<times> kst) res" where
  "kthreadq_release_all q s = release_loop adr_space q 0 s"

end
