(* ===== verification/Os_String.thy ===== *)
theory Os_String
  imports Os_Base
begin

text \<open>
  Memory and string routines, \<^verbatim>\<open>lib/string.c\<close>, on a byte memory. Counted loops are recursions on
  the number of bytes left; loops that stop at a terminating zero byte carry a bound on the number
  of iterations (\<open>adr_space\<close> in the routines), which a string inside of the address space never
  reaches. \<open>cstr m a xs\<close> says that the bytes \<open>xs\<close>, none of them zero, and then a zero byte are
  stored at \<open>a\<close>; the theorems relate every routine to the operation on such strings. \<^verbatim>\<open>char\<close> is
  signed on i386, so the comparison routines for strings compare signed bytes.
\<close>

section \<open>Blocks of memory\<close>

fun memset_loop :: "nat \<Rightarrow> nat \<Rightarrow> u8 \<Rightarrow> bmem \<Rightarrow> bmem" where
  "memset_loop 0 a c m = m"
| "memset_loop (Suc n) a c m = memset_loop n (a + 1) c (m(a := c))"

definition memset :: "nat \<Rightarrow> int \<Rightarrow> nat \<Rightarrow> bmem \<Rightarrow> bmem" where
  "memset s c n m = memset_loop n s (word_of_int c) m"

text \<open>16-bit values are stored low byte first.\<close>

fun memsetw_loop :: "nat \<Rightarrow> nat \<Rightarrow> 16 word \<Rightarrow> bmem \<Rightarrow> bmem" where
  "memsetw_loop 0 a c m = m"
| "memsetw_loop (Suc n) a c m = memsetw_loop n (a + 2) c (m(a := ucast c, a + 1 := ucast (drop_bit 8 c)))"

definition memsetw :: "nat \<Rightarrow> int \<Rightarrow> nat \<Rightarrow> bmem \<Rightarrow> bmem" where
  "memsetw s c n m = memsetw_loop n s (word_of_int c) m"

fun copy_up :: "nat \<Rightarrow> nat \<Rightarrow> nat \<Rightarrow> bmem \<Rightarrow> bmem" where
  "copy_up 0 d s m = m"
| "copy_up (Suc n) d s m = copy_up n (d + 1) (s + 1) (m(d := m s))"

fun copy_down :: "nat \<Rightarrow> nat \<Rightarrow> nat \<Rightarrow> bmem \<Rightarrow> bmem" where
  "copy_down 0 d s m = m"
| "copy_down (Suc n) d s m = copy_down n d s (m(d + n := m (s + n)))"

definition memcpy :: "nat \<Rightarrow> nat \<Rightarrow> nat \<Rightarrow> bmem \<Rightarrow> bmem" where
  "memcpy dest src n m = copy_up n dest src m"

definition memmove :: "nat \<Rightarrow> nat \<Rightarrow> nat \<Rightarrow> bmem \<Rightarrow> bmem" where
  "memmove dest src n m = (if dest < src then copy_up n dest src m else copy_down n dest src m)"

fun copyw_up :: "nat \<Rightarrow> nat \<Rightarrow> nat \<Rightarrow> bmem \<Rightarrow> bmem" where
  "copyw_up 0 d s m = m"
| "copyw_up (Suc n) d s m = copyw_up n (d + 2) (s + 2) (m(d := m s, d + 1 := m (s + 1)))"

fun copyw_down :: "nat \<Rightarrow> nat \<Rightarrow> nat \<Rightarrow> bmem \<Rightarrow> bmem" where
  "copyw_down 0 d s m = m"
| "copyw_down (Suc n) d s m =
     copyw_down n d s (m(d + 2 * n := m (s + 2 * n), d + 2 * n + 1 := m (s + 2 * n + 1)))"

definition memmovew :: "nat \<Rightarrow> nat \<Rightarrow> nat \<Rightarrow> bmem \<Rightarrow> bmem" where
  "memmovew dest src n m = (if dest < src then copyw_up n dest src m else copyw_down n dest src m)"

fun memcmp :: "nat \<Rightarrow> nat \<Rightarrow> nat \<Rightarrow> bmem \<Rightarrow> int" where
  "memcmp a b 0 m = 0"
| "memcmp a b (Suc n) m =
     (if m a < m b then -1 else if m a > m b then 1 else memcmp (a + 1) (b + 1) n m)"

section \<open>Strings\<close>

fun strlen_loop :: "nat \<Rightarrow> nat \<Rightarrow> nat \<Rightarrow> bmem \<Rightarrow> nat res" where
  "strlen_loop 0 s i m = Inl Out_of_fuel"
| "strlen_loop (Suc n) s i m = (if m (s + i) \<noteq> 0 then strlen_loop n s (i + 1) m else Inr i)"

definition strlen :: "nat \<Rightarrow> bmem \<Rightarrow> nat res" where
  "strlen s m = strlen_loop adr_space s 0 m"

fun strcmp_loop :: "nat \<Rightarrow> nat \<Rightarrow> nat \<Rightarrow> nat \<Rightarrow> bmem \<Rightarrow> int res" where
  "strcmp_loop 0 s1 s2 i m = Inl Out_of_fuel"
| "strcmp_loop (Suc n) s1 s2 i m =
     (if m (s1 + i) \<noteq> 0 \<or> m (s2 + i) \<noteq> 0 then
        if sint (m (s1 + i)) < sint (m (s2 + i)) then Inr (-1)
        else if sint (m (s1 + i)) > sint (m (s2 + i)) then Inr 1
        else strcmp_loop n s1 s2 (i + 1) m
      else Inr 0)"

definition strcmp :: "nat \<Rightarrow> nat \<Rightarrow> bmem \<Rightarrow> int res" where
  "strcmp s1 s2 m = strcmp_loop adr_space s1 s2 0 m"

fun strncmp :: "nat \<Rightarrow> nat \<Rightarrow> nat \<Rightarrow> bmem \<Rightarrow> int" where
  "strncmp s1 s2 0 m = 0"
| "strncmp s1 s2 (Suc n) m =
     (if m s1 \<noteq> 0 \<or> m s2 \<noteq> 0 then
        if sint (m s1) < sint (m s2) then -1
        else if sint (m s1) > sint (m s2) then 1
        else strncmp (s1 + 1) (s2 + 1) n m
      else 0)"

fun strcpy_loop :: "nat \<Rightarrow> nat \<Rightarrow> nat \<Rightarrow> nat \<Rightarrow> bmem \<Rightarrow> bmem res" where
  "strcpy_loop 0 dest src i m = Inl Out_of_fuel"
| "strcpy_loop (Suc n) dest src i m =
     (if m (src + i) \<noteq> 0 then strcpy_loop n dest src (i + 1) (m(dest + i := m (src + i)))
      else Inr (m(dest + i := 0)))"

definition strcpy :: "nat \<Rightarrow> nat \<Rightarrow> bmem \<Rightarrow> bmem res" where
  "strcpy dest src m = strcpy_loop adr_space dest src 0 m"

definition strcat :: "nat \<Rightarrow> nat \<Rightarrow> bmem \<Rightarrow> bmem res" where
  "strcat dest src m = rbind (strlen_loop adr_space dest 0 m) (\<lambda>i. strcpy (dest + i) src m)"

fun strchr_loop :: "nat \<Rightarrow> nat \<Rightarrow> u8 \<Rightarrow> nat \<Rightarrow> bmem \<Rightarrow> nat res" where
  "strchr_loop 0 s c i m = Inl Out_of_fuel"
| "strchr_loop (Suc n) s c i m =
     (if m (s + i) \<noteq> 0 then if m (s + i) = c then Inr (s + i) else strchr_loop n s c (i + 1) m
      else Inr 0)"

definition strchr :: "nat \<Rightarrow> int \<Rightarrow> bmem \<Rightarrow> nat res" where
  "strchr s c m = strchr_loop adr_space s (word_of_int c) 0 m"

text \<open>The inner loop of \<^verbatim>\<open>strstr\<close> finds the first position at which the strings differ or end.\<close>

fun match_loop :: "nat \<Rightarrow> nat \<Rightarrow> nat \<Rightarrow> nat \<Rightarrow> bmem \<Rightarrow> nat res" where
  "match_loop 0 s1 s2 j m = Inl Out_of_fuel"
| "match_loop (Suc n) s1 s2 j m =
     (if m (s1 + j) \<noteq> 0 \<and> m (s2 + j) \<noteq> 0 \<and> m (s1 + j) = m (s2 + j) then match_loop n s1 s2 (j + 1) m else Inr j)"

fun strstr_loop :: "nat \<Rightarrow> nat \<Rightarrow> nat \<Rightarrow> bmem \<Rightarrow> nat res" where
  "strstr_loop 0 s1 s2 m = Inl Out_of_fuel"
| "strstr_loop (Suc n) s1 s2 m =
     (if s1 \<noteq> 0 \<and> s2 \<noteq> 0 then
        rbind (match_loop adr_space s1 s2 0 m) (\<lambda>j.
          if m (s2 + j) = 0 then Inr s1
          else if m (s1 + j) = 0 then Inr 0
          else strstr_loop n (s1 + 1) s2 m)
      else Inr s1)"

definition strstr :: "nat \<Rightarrow> nat \<Rightarrow> bmem \<Rightarrow> nat res" where
  "strstr s1 s2 m = strstr_loop adr_space s1 s2 m"

section \<open>Numbers to text\<close>

definition digit_char :: "nat \<Rightarrow> int \<Rightarrow> u8" where
  "digit_char r base = (if r < 10 then of_nat r + 48 else of_nat r + (if base = 120 then 97 else 65) - 10)"

text \<open>The loop that writes digits, least significant first; returns the end of the text, the number
  of digits and the memory.\<close>

function itoa_digits :: "nat \<Rightarrow> nat \<Rightarrow> int \<Rightarrow> nat \<Rightarrow> nat \<Rightarrow> bmem \<Rightarrow> nat \<times> nat \<times> bmem" where
  "itoa_digits ud divisor base p digits m =
     (if divisor < 2 then (p, digits, m)
      else
        let m = m(p := digit_char (ud mod divisor) base);
            p = p + 1;
            digits = digits + 1;
            ud = ud div divisor
        in if ud \<noteq> 0 then itoa_digits ud divisor base p digits m else (p, digits, m))"
  by pat_completeness auto
termination
proof (relation "measure (\<lambda>(ud, _). ud)")
  fix ud divisor :: nat and base :: int and p digits :: nat and m x xa xb xc
  assume d: "\<not> divisor < 2" and x: "xc = ud div divisor" and nz: "xc \<noteq> 0"
  have "ud \<noteq> 0" using x nz by (metis div_0)
  then have "ud div divisor < ud" using d by (intro div_less_dividend) auto
  then show "((xc, divisor, base, xa, xb, x), ud, divisor, base, p, digits, m) \<in> measure (\<lambda>(ud, _). ud)"
    using x by simp
qed simp

declare itoa_digits.simps [simp del]

fun reverse_loop :: "nat \<Rightarrow> nat \<Rightarrow> nat \<Rightarrow> bmem \<Rightarrow> bmem" where
  "reverse_loop 0 p1 p2 m = m"
| "reverse_loop (Suc n) p1 p2 m =
     (if p1 < p2 then reverse_loop n (p1 + 1) (p2 - 1) (m(p1 := m p2, p2 := m p1)) else m)"

text \<open>\<^verbatim>\<open>ud = -d\<close> overflows for the smallest \<^verbatim>\<open>int\<close>, which is undefined in C; the model takes the wrap-around of the machine, as for all signed arithmetic.\<close>

definition itoa :: "nat \<Rightarrow> int \<Rightarrow> int \<Rightarrow> bmem \<Rightarrow> bmem" where
  "itoa buf base d m =
     (let p = buf;
          ud = nat (d mod 2 ^ 32);
          neg = (base = 100 \<and> d < 0);
          hex = (base = 120 \<or> base = 88);
          (p, buf, ud, m) = (if neg then (p + 1, buf + 1, nat ((- d) mod 2 ^ 32), m(p := 45)) else (p, buf, ud, m));
          divisor = (if \<not> neg \<and> hex then 16 else 10);
          (p, digits, m) = itoa_digits ud divisor base p 0 m;
          (p, m) = (if hex then
                      let k = 8 - digits;
                          m = memset_loop k p 48 m;
                          p = p + k;
                          m = m(p := 120, p + 1 := 48)
                      in (p + 2, m)
                    else (p, m));
          m = m(p := 0)
      in reverse_loop (p - buf) buf (p - 1) m)"

section \<open>Blocks: what the loops compute\<close>

lemma memset_loop_eq: "memset_loop n a c m = (\<lambda>x. if a \<le> x \<and> x < a + n then c else m x)"
proof (induction n arbitrary: a m)
  case (Suc n)
  define m' where "m' = m(a := c)"
  have "memset_loop (Suc n) a c m = memset_loop n (a + 1) c m'" by (simp add: m'_def)
  also have "\<dots> = (\<lambda>x. if a + 1 \<le> x \<and> x < a + 1 + n then c else m' x)" by (rule Suc.IH)
  also have "\<dots> = (\<lambda>x. if a \<le> x \<and> x < a + Suc n then c else m x)" by (auto simp: fun_eq_iff m'_def)
  finally show ?case .
qed (auto simp: fun_eq_iff)

lemma copy_up_eq:
  "d \<le> s \<or> s + n \<le> d \<Longrightarrow> copy_up n d s m = (\<lambda>x. if d \<le> x \<and> x < d + n then m (s + (x - d)) else m x)"
proof (induction n arbitrary: d s m)
  case (Suc n)
  define m' where "m' = m(d := m s)"
  have "copy_up (Suc n) d s m = copy_up n (d + 1) (s + 1) m'" by (simp add: m'_def)
  also have "\<dots> = (\<lambda>x. if d + 1 \<le> x \<and> x < d + 1 + n then m' (s + 1 + (x - (d + 1))) else m' x)"
    using Suc.prems by (intro Suc.IH) auto
  also have "\<dots> = (\<lambda>x. if d \<le> x \<and> x < d + Suc n then m (s + (x - d)) else m x)"
  proof
    fix x
    have "s + 1 + (x - (d + 1)) = s + (x - d)" if "d + 1 \<le> x" using that by simp
    then show "(if d + 1 \<le> x \<and> x < d + 1 + n then m' (s + 1 + (x - (d + 1))) else m' x) =
        (if d \<le> x \<and> x < d + Suc n then m (s + (x - d)) else m x)"
      using Suc.prems by (cases "x = d") (auto simp: m'_def)
  qed
  finally show ?case .
qed (auto simp: fun_eq_iff)

lemma copy_down_eq:
  "s \<le> d \<or> d + n \<le> s \<Longrightarrow> copy_down n d s m = (\<lambda>x. if d \<le> x \<and> x < d + n then m (s + (x - d)) else m x)"
proof (induction n arbitrary: m)
  case (Suc n)
  define m' where "m' = m(d + n := m (s + n))"
  have "copy_down (Suc n) d s m = copy_down n d s m'" by (simp add: m'_def)
  also have "\<dots> = (\<lambda>x. if d \<le> x \<and> x < d + n then m' (s + (x - d)) else m' x)"
    using Suc.prems by (intro Suc.IH) auto
  also have "\<dots> = (\<lambda>x. if d \<le> x \<and> x < d + Suc n then m (s + (x - d)) else m x)"
    using Suc.prems by (auto simp: fun_eq_iff m'_def less_Suc_eq)
  finally show ?case .
qed (auto simp: fun_eq_iff)

lemma memmove_eq: "memmove dest src n m = (\<lambda>x. if dest \<le> x \<and> x < dest + n then m (src + (x - dest)) else m x)"
  by (simp add: memmove_def copy_up_eq copy_down_eq)

text \<open>The 16-bit versions copy twice as many bytes.\<close>

lemma copyw_up_copy_up: "d \<noteq> s + 1 \<Longrightarrow> copyw_up n d s m = copy_up (2 * n) d s m"
proof (induction n arbitrary: d s m)
  case (Suc n)
  define m' where "m' = m(d := m s, d + 1 := m (s + 1))"
  have "m' = m(d := m s, d + 1 := (m(d := m s)) (s + 1))" using Suc.prems by (simp add: m'_def)
  then have "copy_up (2 * Suc n) d s m = copy_up (2 * n) (d + 2) (s + 2) m'" by (simp add: numeral_2_eq_2)
  moreover have "copyw_up (Suc n) d s m = copyw_up n (d + 2) (s + 2) m'" by (simp add: m'_def)
  ultimately show ?case using Suc.IH [of "d + 2" "s + 2" m'] Suc.prems by simp
qed simp

lemma copyw_down_copy_down: "s \<noteq> d + 1 \<Longrightarrow> copyw_down n d s m = copy_down (2 * n) d s m"
proof (induction n arbitrary: m)
  case (Suc n)
  define m' where "m' = m(d + 2 * n := m (s + 2 * n), d + 2 * n + 1 := m (s + 2 * n + 1))"
  define m1 where "m1 = m(d + 2 * n + 1 := m (s + 2 * n + 1))"
  have "m' = m1(d + 2 * n := m1 (s + 2 * n))" using Suc.prems by (auto simp: fun_eq_iff m'_def m1_def)
  then have "copy_down (2 * Suc n) d s m = copy_down (2 * n) d s m'" by (simp add: numeral_2_eq_2 m1_def)
  moreover have "copyw_down (Suc n) d s m = copyw_down n d s m'" by (simp add: m'_def)
  ultimately show ?case using Suc.IH [of m'] Suc.prems by simp
qed simp

lemma memmovew_eq:
  assumes "even dest" and "even src"
  shows "memmovew dest src n m = memmove dest src (2 * n) m"
proof -
  have "dest \<noteq> src + 1" "src \<noteq> dest + 1" using assms by auto
  then show ?thesis by (simp add: memmovew_def memmove_def copyw_up_copy_up copyw_down_copy_down)
qed

definition bytes :: "bmem \<Rightarrow> nat \<Rightarrow> nat \<Rightarrow> u8 list" where
  "bytes m a n = map (\<lambda>i. m (a + i)) [0..<n]"

lemma bytes_simps [simp]: "bytes m a 0 = []" "bytes m a (Suc n) = m a # bytes m (a + 1) n"
  by (simp_all add: bytes_def map_upt_Suc del: upt_Suc)

lemma bytes_nth: "i < n \<Longrightarrow> bytes m a n ! i = m (a + i)"
  by (simp add: bytes_def)

lemma length_bytes [simp]: "length (bytes m a n) = n"
  by (simp add: bytes_def)

lemma memcmp_eq:
  "memcmp a b n m = (if bytes m a n = bytes m b n then 0
     else if (bytes m a n, bytes m b n) \<in> lexord {(x, y). x < y} then -1 else 1)"
proof (induction a b n m rule: memcmp.induct)
  case (2 a b n m)
  show ?case
  proof (cases "m a = m b")
    case True
    then show ?thesis using 2 by auto
  next
    case False
    then show ?thesis by auto
  qed
qed simp

section \<open>Strings\<close>

definition cstr :: "bmem \<Rightarrow> nat \<Rightarrow> u8 list \<Rightarrow> bool" where
  "cstr m a xs \<longleftrightarrow> (\<forall>i<length xs. m (a + i) = xs ! i) \<and> m (a + length xs) = 0 \<and> 0 \<notin> set xs"

lemma cstr_Nil [simp]: "cstr m a [] \<longleftrightarrow> m a = 0"
  by (simp add: cstr_def)

lemma cstr_Cons [simp]: "cstr m a (x # xs) \<longleftrightarrow> m a = x \<and> x \<noteq> 0 \<and> cstr m (a + 1) xs"
proof -
  have "(\<forall>i<length (x # xs). m (a + i) = (x # xs) ! i) \<longleftrightarrow> m a = x \<and> (\<forall>i<length xs. m (a + 1 + i) = xs ! i)"
    by (auto simp: less_Suc_eq_0_disj nth_Cons')
  then show ?thesis by (auto simp: cstr_def)
qed

lemma cstr_unique: "cstr m a xs \<Longrightarrow> cstr m a ys \<Longrightarrow> xs = ys"
  by (induction xs arbitrary: a ys) (case_tac ys, auto)+

lemma cstr_append: "cstr m a (xs @ ys) \<longleftrightarrow> 0 \<notin> set xs \<and> (\<forall>i<length xs. m (a + i) = xs ! i) \<and> cstr m (a + length xs) ys"
proof (induction xs arbitrary: a)
  case (Cons x xs)
  have "(\<forall>i<length (x # xs). m (a + i) = (x # xs) ! i) \<longleftrightarrow> m a = x \<and> (\<forall>i<length xs. m (a + 1 + i) = xs ! i)"
    by (auto simp: less_Suc_eq_0_disj nth_Cons')
  then show ?case using Cons [of "a + 1"] by auto
qed simp

lemma cstr_frame:
  "(\<And>x. a \<le> x \<Longrightarrow> x \<le> a + length xs \<Longrightarrow> m' x = m x) \<Longrightarrow> cstr m' a xs = cstr m a xs"
  by (auto simp: cstr_def)

lemma strlen_loop_cstr: "cstr m (s + i) xs \<Longrightarrow> length xs < n \<Longrightarrow> strlen_loop n s i m = Inr (i + length xs)"
proof (induction n s i m arbitrary: xs rule: strlen_loop.induct)
  case (2 n s i m)
  then show ?case by (cases xs) (auto simp: add.assoc)
qed simp

lemma strlen_cstr: "cstr m s xs \<Longrightarrow> length xs < adr_space \<Longrightarrow> strlen s m = Inr (length xs)"
  using strlen_loop_cstr [of m s 0 xs adr_space] by (simp add: strlen_def)

lemma strcpy_loop_cstr:
  "cstr m (src + i) xs \<Longrightarrow> length xs < n \<Longrightarrow> dest \<le> src \<or> src + i + length xs < dest + i \<Longrightarrow>
   \<exists>m'. strcpy_loop n dest src i m = Inr m' \<and> cstr m' (dest + i) xs \<and>
     (\<forall>x. x < dest + i \<or> dest + i + length xs < x \<longrightarrow> m' x = m x)"
proof (induction n arbitrary: i m xs)
  case (Suc n)
  show ?case
  proof (cases xs)
    case Nil
    then show ?thesis using Suc.prems(1) by auto
  next
    case (Cons y ys)
    define M where "M = m(dest + i := m (src + i))"
    have nz: "m (src + i) \<noteq> 0" "m (src + i) = y" using Suc.prems(1) Cons by auto
    have c: "cstr M (src + (i + 1)) ys"
    proof -
      have "cstr m (src + i + 1) ys" using Suc.prems(1) Cons by simp
      moreover have "cstr M (src + i + 1) ys = cstr m (src + i + 1) ys"
        using Suc.prems(3) Cons by (intro cstr_frame) (auto simp: M_def)
      ultimately show ?thesis by (simp add: add.assoc)
    qed
    obtain m' where m': "strcpy_loop n dest src (i + 1) M = Inr m'" "cstr m' (dest + (i + 1)) ys"
      "\<forall>x. x < dest + (i + 1) \<or> dest + (i + 1) + length ys < x \<longrightarrow> m' x = M x"
      using Suc.IH [OF c] Suc.prems(2,3) Cons by auto
    have "m' (dest + i) = y" using m'(3) nz by (simp add: M_def)
    then have "cstr m' (dest + i) xs" using m'(2) nz Cons by (simp add: add.assoc)
    moreover have "\<forall>x. x < dest + i \<or> dest + i + length xs < x \<longrightarrow> m' x = m x"
      using m'(3) Cons by (auto simp: M_def)
    ultimately show ?thesis using m'(1) nz by (simp add: M_def)
  qed
qed simp

lemma strcpy_cstr:
  assumes "cstr m src xs" and "length xs < adr_space" and "dest \<le> src \<or> src + length xs < dest"
  shows "\<exists>m'. strcpy dest src m = Inr m' \<and> cstr m' dest xs \<and> (\<forall>x. x < dest \<or> dest + length xs < x \<longrightarrow> m' x = m x)"
  using strcpy_loop_cstr [of m src 0 xs adr_space dest] assms by (simp add: strcpy_def)

lemma strcat_cstr:
  assumes d: "cstr m dest xs" and s: "cstr m src ys" and len: "length xs < adr_space" "length ys < adr_space"
    and sep: "dest + length xs + length ys < src \<or> src + length ys < dest + length xs"
  shows "\<exists>m'. strcat dest src m = Inr m' \<and> cstr m' dest (xs @ ys)"
proof -
  have sl: "strlen_loop adr_space dest 0 m = Inr (length xs)" using strlen_cstr [OF d len(1)] by (simp only: strlen_def)
  obtain m' where m': "strcpy (dest + length xs) src m = Inr m'" "cstr m' (dest + length xs) ys"
    "\<forall>x. x < dest + length xs \<or> dest + length xs + length ys < x \<longrightarrow> m' x = m x"
    using strcpy_cstr [OF s len(2), of "dest + length xs"] sep by auto
  have "\<forall>i<length xs. m' (dest + i) = xs ! i" "0 \<notin> set xs" using m'(3) d by (auto simp: cstr_def)
  then have "cstr m' dest (xs @ ys)" using m'(2) by (simp add: cstr_append)
  then show ?thesis using sl m'(1) by (simp add: strcat_def)
qed

text \<open>Order of strings as \<^verbatim>\<open>strcmp\<close> decides it: bytes as signed characters, the end first.\<close>

fun str_order :: "u8 list \<Rightarrow> u8 list \<Rightarrow> int" where
  "str_order [] [] = 0"
| "str_order [] (y # ys) = (if 0 < sint y then -1 else 1)"
| "str_order (x # xs) [] = (if sint x < 0 then -1 else 1)"
| "str_order (x # xs) (y # ys) = (if sint x < sint y then -1 else if sint x > sint y then 1 else str_order xs ys)"

lemma sint_eq: "sint (x :: u8) = sint y \<longleftrightarrow> x = y"
  by (auto intro: signed_word_eqI)

lemma sint_nz: "sint (x :: u8) = 0 \<longleftrightarrow> x = 0"
  using sint_eq [of x 0] by simp

lemma str_order_0: "0 \<notin> set xs \<Longrightarrow> 0 \<notin> set ys \<Longrightarrow> str_order xs ys = 0 \<longleftrightarrow> xs = ys"
  by (induction xs ys rule: str_order.induct) (auto simp: sint_eq)

lemma strcmp_loop_cstr:
  "cstr m (s1 + i) xs \<Longrightarrow> cstr m (s2 + i) ys \<Longrightarrow> length xs < n \<Longrightarrow> strcmp_loop n s1 s2 i m = Inr (str_order xs ys)"
proof (induction n s1 s2 i m arbitrary: xs ys rule: strcmp_loop.induct)
  case (2 n s1 s2 i m)
  show ?case
  proof (cases xs; cases ys)
    fix x xs' y ys'
    assume e: "xs = x # xs'" "ys = y # ys'"
    show ?thesis using 2(2-4) 2(1) [of xs' ys'] e by (auto simp: add.assoc)
  qed (use 2(2-4) sint_nz [of "m (s1 + i)"] sint_nz [of "m (s2 + i)"] in auto)
qed simp

lemma strcmp_cstr:
  "cstr m s1 xs \<Longrightarrow> cstr m s2 ys \<Longrightarrow> length xs < adr_space \<Longrightarrow> strcmp s1 s2 m = Inr (str_order xs ys)"
  using strcmp_loop_cstr [of m s1 0 xs s2 ys adr_space] by (simp add: strcmp_def)

lemma strcmp_eq_0:
  "cstr m s1 xs \<Longrightarrow> cstr m s2 ys \<Longrightarrow> length xs < adr_space \<Longrightarrow> strcmp s1 s2 m = Inr 0 \<longleftrightarrow> xs = ys"
  using str_order_0 [of xs ys] by (simp add: strcmp_cstr) (auto simp: cstr_def)

lemma strchr_loop_cstr:
  "cstr m (s + i) xs \<Longrightarrow> length xs < n \<Longrightarrow> c \<noteq> 0 \<Longrightarrow>
   strchr_loop n s c i m = Inr (if c \<in> set xs then s + i + length (takeWhile (\<lambda>x. x \<noteq> c) xs) else 0)"
proof (induction n s c i m arbitrary: xs rule: strchr_loop.induct)
  case (2 n s c i m)
  then show ?case by (cases xs) (auto simp: add.assoc)
qed simp

section \<open>Properties\<close>

text \<open>C36. \<^verbatim>\<open>memmove\<close> copies the block as it was before the call, also when the areas overlap, and changes
  nothing else; \<^verbatim>\<open>memcpy\<close> is equal to it whenever the destination does not start inside of the source;
  \<^verbatim>\<open>memmovew\<close> is \<^verbatim>\<open>memmove\<close> of twice as many bytes.\<close>

theorem memmove_copies:
  "bytes (memmove dest src n m) dest n = bytes m src n \<and>
   (\<forall>x. x < dest \<or> dest + n \<le> x \<longrightarrow> memmove dest src n m x = m x) \<and>
   (dest \<le> src \<or> src + n \<le> dest \<longrightarrow> memcpy dest src n m = memmove dest src n m) \<and>
   (even dest \<and> even src \<longrightarrow> memmovew dest src n m = memmove dest src (2 * n) m)"
  using memmovew_eq [of dest src n m]
  by (auto simp: memmove_eq bytes_def memcpy_def copy_up_eq)

theorem memmove_copies_witness:
  "\<forall>m. bytes (memmove 101 100 3 m) 101 3 = bytes m 100 3 \<and> memcpy 100 101 3 m = memmove 100 101 3 m"
proof
  fix m
  show "bytes (memmove 101 100 3 m) 101 3 = bytes m 100 3 \<and> memcpy 100 101 3 m = memmove 100 101 3 m"
    using memmove_copies [of 101 100 3 m] memmove_copies [of 100 101 3 m] by linarith
qed

text \<open>On terminated strings \<^verbatim>\<open>strcmp\<close> returns 0 exactly for equal strings, \<^verbatim>\<open>strlen\<close> returns the length,
  and \<^verbatim>\<open>strcpy\<close> followed by \<^verbatim>\<open>strcmp\<close> finds the copy equal to the original.\<close>

theorem string_roundtrip:
  assumes "cstr m src xs" and "cstr m other ys" and "length xs < adr_space" "length ys < adr_space"
    and "dest + length xs < src \<or> src + length xs < dest"
  shows "strlen src m = Inr (length xs) \<and> (strcmp src other m = Inr 0 \<longleftrightarrow> xs = ys) \<and>
    (\<exists>m'. strcpy dest src m = Inr m' \<and> cstr m' dest xs \<and> strcmp dest src m' = Inr 0)"
proof -
  obtain m' where m': "strcpy dest src m = Inr m'" "cstr m' dest xs" "\<forall>x. x < dest \<or> dest + length xs < x \<longrightarrow> m' x = m x"
    using strcpy_cstr [OF assms(1,3), of dest] assms(5) by auto
  have "cstr m' src xs" using assms(1,5) m'(3) by (subst cstr_frame [of src xs m' m]) auto
  then show ?thesis
    using m' strcmp_eq_0 [OF m'(2) _ assms(3)] strcmp_eq_0 [OF assms(1,2,3)] strlen_cstr [OF assms(1,3)] by blast
qed

theorem string_roundtrip_witness:
  "\<exists>m'. strcpy 10 20 (\<lambda>a. if a = 20 then 104 else if a = 21 then 105 else 0) = Inr m' \<and> cstr m' 10 [104, 105] \<and>
     strcmp 10 20 m' = Inr 0"
  using string_roundtrip [of "\<lambda>a. if a = 20 then 104 else if a = 21 then 105 else 0" 20 "[104, 105]" 22 "[]" 10] by auto

end
