(* ===== verification/Os_Sched.thy ===== *)
theory Os_Sched
  imports Os_State Os_String
begin

text \<open>
  Creating threads and choosing the active one: \<^verbatim>\<open>kernel/thread.c\<close>, the secondary schedulers
  (\<^verbatim>\<open>kernel/sched.c\<close>, \<^verbatim>\<open>kernel/sched_rr.c\<close>), and the alarms they share with
  \<^verbatim>\<open>kernel/time.c\<close>. These routines call each other: making a round robin thread active sets an
  alarm, setting an alarm serves the alarms that are due, and an alarm can be the end of a time
  slice, which schedules again. The group is a mutual recursion with a bound on its depth;
  \<open>Out_of_fuel\<close> says that the bound was reached. When the next thread is a FIFO thread two levels
  are enough.
\<close>

section \<open>Thread creation\<close>

abbreviation (input) INIT_EFLAGS :: nat where "INIT_EFLAGS \<equiv> 12802"

definition arch_create_thread_context ::
  "nat \<Rightarrow> nat \<Rightarrow> nat \<Rightarrow> nat \<Rightarrow> nat \<Rightarrow> nat \<Rightarrow> nat \<Rightarrow> kst \<Rightarrow> kst res" where
  "arch_create_thread_context t func prm thread_exit stack stack_size proc s =
     (let esp = stack + stack_size;
          esp = esp - 4;
          s = put_at esp (of_nat prm) s;
          esp = esp - 4;
          s = put_at esp (of_nat thread_exit) s
      in rbind (k_k2u_adr esp proc s) (\<lambda>uesp.
         Inr (upd_t t (\<lambda>x. x\<lparr>t_context := \<lparr>c_eip = func, c_esp = uesp,
           c_cs = GDT_DESCRIPTOR SEGM_T_CODE 0 PRIV_USER, c_ss = GDT_DESCRIPTOR SEGM_T_DATA 0 PRIV_USER,
           c_eflags = INIT_EFLAGS, c_eax = 0, c_proc = proc\<rparr>\<rparr>) s)))"

text \<open>The address of a context is the address of the descriptor that starts with it; its
  size is 64 bytes.\<close>

definition arch_select_thread :: "nat \<Rightarrow> kst \<Rightarrow> kst res" where
  "arch_select_thread t s =
     (let s = s\<lparr>selected := t, tss_esp0 := t + 64\<rparr>;
          proc = c_proc (t_context (kt s t))
      in rbind (arch_update_user_segments (p_start (kp s proc)) (p_size (kp s proc)) (gdt s)) (\<lambda>g.
         Inr (s\<lparr>gdt := g\<rparr>)))"

definition k_thr_msg_init :: "nat \<Rightarrow> kst \<Rightarrow> kst" where
  "k_thr_msg_init t s =
     (let s = s\<lparr>mq := (mq s)(MThread t := [])\<rparr>;
          s = kthreadq_init (QMsg (MThread t)) s
      in upd_t t (\<lambda>x. x\<lparr>t_min_prio := 0, t_sig_prio := 0, t_handler := 0\<rparr>) s)"

abbreviation (input) SCHED_FIFO :: int where "SCHED_FIFO \<equiv> 0"
abbreviation (input) SCHED_RR :: int where "SCHED_RR \<equiv> 1"
abbreviation (input) SCHED_NUM :: int where "SCHED_NUM \<equiv> 2"

definition rr_thread_add :: "nat \<Rightarrow> kst \<Rightarrow> kst" where
  "rr_thread_add t s = upd_t t (\<lambda>x. x\<lparr>t_remainder := rr_time_slice (rr s)\<rparr>) s"

definition ksched_thread_add :: "nat \<Rightarrow> int \<Rightarrow> kst \<Rightarrow> kst res" where
  "ksched_thread_add t sched_policy s =
     rbind (ASSERT (sched_policy \<ge> 0 \<and> sched_policy < SCHED_NUM)) (\<lambda>_.
       let s = upd_t t (\<lambda>x. x\<lparr>t_policy := sched_policy, t_activated := 0\<rparr>) s
       in Inr (if sched_policy = SCHED_RR then rr_thread_add t s else s))"

text \<open>\<^verbatim>\<open>rr_thread_remove\<close> does nothing.\<close>

definition ksched_set_thread_policy :: "nat \<Rightarrow> int \<Rightarrow> kst \<Rightarrow> (int \<times> kst) res" where
  "ksched_set_thread_policy t new_policy s =
     (let t = or_active t s; old_policy = t_policy (kt s t)
      in rbind (ASSERT (old_policy \<ge> 0 \<and> old_policy < SCHED_NUM)) (\<lambda>_.
         rbind (ASSERT (new_policy \<ge> 0 \<and> new_policy < SCHED_NUM)) (\<lambda>_.
         let s = upd_t t (\<lambda>x. x\<lparr>t_policy := new_policy\<rparr>) s
         in Inr (old_policy, if new_policy = SCHED_RR then rr_thread_add t s else s))))"

definition kthread_create ::
  "nat \<Rightarrow> nat \<Rightarrow> nat \<Rightarrow> int \<Rightarrow> int \<Rightarrow> nat \<Rightarrow> nat \<Rightarrow> bool \<Rightarrow> nat \<Rightarrow> kst \<Rightarrow> (nat \<times> kst) res" where
  "kthread_create start_func prm exit_func sched_policy prio stack stack_size run proc s =
     rbind (if proc \<noteq> 0 \<and> p_stack_pool (kp s proc) \<noteq> 0 \<and> (stack = 0 \<or> stack_size = 0) then
              let stack_size = pi_thread_stack (kpi s (p_pi (kp s proc)))
              in rbind (ffs_alloc (p_stack_pool (kp s proc)) stack_size (ffm s)) (\<lambda>(stack, m).
                 Inr (stack, stack_size, s\<lparr>ffm := m\<rparr>))
            else if stack = 0 \<or> stack_size = 0 then
              let stack_size = (if stack_size = 0 then 4096 else stack_size)
              in rbind (kmalloc stack_size s) (\<lambda>(stack, s). Inr (stack, stack_size, s))
            else Inr (stack, stack_size, s)) (\<lambda>(stack, stack_size, s).
     rbind (ASSERT (stack \<noteq> 0 \<and> stack_size \<noteq> 0)) (\<lambda>_.
     rbind (kmalloc 216 s) (\<lambda>(t, s).
     rbind (ASSERT (t \<noteq> 0)) (\<lambda>_.
     rbind (k_new_unique_id (idst s)) (\<lambda>(i, ids).
     let s = s\<lparr>idst := ids\<rparr>;
         s = upd_t t (\<lambda>x. x\<lparr>t_id := i, t_state := THR_STATE_PASSIVE\<rparr>) s;
         prio = (if prio < 0 then 0 else prio);
         prio = (if prio \<ge> int PRIO_LEVELS then int PRIO_LEVELS - 1 else prio);
         s = upd_t t (\<lambda>x. x\<lparr>t_prio := prio\<rparr>) s
     in rbind (arch_create_thread_context t start_func prm exit_func stack stack_size proc s) (\<lambda>s.
     let s = upd_t t (\<lambda>x. x\<lparr>t_queue := None, t_exit_status := 0\<rparr>) s;
         s = kthreadq_init (QJoin t) s;
         s = upd_t t (\<lambda>x. x\<lparr>t_ref_cnt := 0\<rparr>) s
     in rbind (if run then rbind (kthread_move_to_ready t LIST_LAST s) (\<lambda>s. Inr (upd_t t (\<lambda>x. x\<lparr>t_ref_cnt := 1\<rparr>) s))
               else Inr s) (\<lambda>s.
     let s = upd_t t (\<lambda>x. x\<lparr>t_stack := stack, t_stack_size := stack_size, t_proc := proc\<rparr>) s;
         s = upd_p proc (\<lambda>x. x\<lparr>p_thr_count := p_thr_count x + 1\<rparr>) s;
         s = upd_t t (\<lambda>x. x\<lparr>t_storage := 0\<rparr>) s;
         s = k_thr_msg_init t s;
         s = s\<lparr>all_threads := all_threads s @ [t]\<rparr>
     in rbind (ksched_thread_add t sched_policy s) (\<lambda>s. Inr (t, s)))))))))"

section \<open>Secondary schedulers: deactivation\<close>

definition rr_thread_deactivate :: "nat \<Rightarrow> kst \<Rightarrow> kst res" where
  "rr_thread_deactivate t s =
     rbind (ASSERT (t_policy (kt s t) \<ge> 0 \<and> t_policy (kt s t) < SCHED_NUM)) (\<lambda>_.
     if int32 (sec (t_remainder (kt s t)) + nsec (t_remainder (kt s t))) \<noteq> 0 then
       rbind (arch_get_time i8253 (tim s)) (\<lambda>now.
       let s = upd_t t (\<lambda>x. x\<lparr>t_slice_end := time_sub (t_slice_end x) now\<rparr>) s;
           s = upd_t t (\<lambda>x. x\<lparr>t_remainder := t_slice_end x\<rparr>) s
       in if kthread_is_ready t s then
            if time_cmp (t_remainder (kt s t)) (rr_threshold (rr s)) \<le> 0
            then kthread_move_to_ready t LIST_LAST s
            else kthread_move_to_ready t LIST_FIRST s
          else Inr s)
     else Inr s)"

text \<open>\<^verbatim>\<open>ksched[]\<close> has two entries; the one of \<^verbatim>\<open>SCHED_FIFO\<close> is \<^verbatim>\<open>NULL\<close>.\<close>

definition in_ksched :: "int \<Rightarrow> unit res" where
  "in_ksched p = (if 0 \<le> p \<and> p < SCHED_NUM then Inr () else Inl Out_of_bounds)"

definition ksched_deactivate_thread :: "nat \<Rightarrow> kst \<Rightarrow> kst res" where
  "ksched_deactivate_thread t s =
     (if t_activated (kt s t) = 1 then
        rbind (in_ksched (t_policy (kt s t))) (\<lambda>_.
        rbind (if t_policy (kt s t) = SCHED_RR then rr_thread_deactivate t s else Inr s) (\<lambda>s.
        Inr (upd_t t (\<lambda>x. x\<lparr>t_activated := 0\<rparr>) s)))
      else Inr s)"

section \<open>The list of active alarms\<close>

definition alarm_cmp :: "(nat \<Rightarrow> kalarm_t) \<Rightarrow> nat \<Rightarrow> nat \<Rightarrow> int" where
  "alarm_cmp A a b = time_cmp (exp_time (alarm (A a))) (exp_time (alarm (A b)))"

text \<open>\<^verbatim>\<open>list_sort_add ( &kalarms, a, &a->list, alarm_cmp )\<close> on the sequence of alarms.\<close>

definition alarm_pos :: "(nat \<Rightarrow> kalarm_t) \<Rightarrow> nat \<Rightarrow> nat list \<Rightarrow> nat" where
  "alarm_pos A a xs =
     (if xs \<noteq> [] \<and> alarm_cmp A a (List.last xs) \<ge> 0 then length xs
      else length (takeWhile (\<lambda>x. alarm_cmp A a x \<ge> 0) xs))"

definition kalarms_sort_add :: "nat \<Rightarrow> kst \<Rightarrow> kst" where
  "kalarms_sort_add a s =
     (let k = alarm_pos (ka s) a (kalarms s)
      in s\<lparr>kalarms := take k (kalarms s) @ a # drop k (kalarms s)\<rparr>)"

abbreviation (input) ALARM_PERIODIC :: nat where "ALARM_PERIODIC \<equiv> 4"
abbreviation (input) IPC_WAIT :: nat where "IPC_WAIT \<equiv> 1"

section \<open>Scheduling\<close>

text \<open>The routines below take the recursive call of the scheduler as their first argument.\<close>

definition rr_timer :: "(kst \<Rightarrow> kst res) \<Rightarrow> nat \<Rightarrow> kst \<Rightarrow> kst res" where
  "rr_timer sched p s =
     (if active_thread s \<noteq> p then Inr s
      else
        let s = upd_t (or_active p s) (\<lambda>x. x\<lparr>t_remainder := Time 0 0\<rparr>) s
        in rbind (kthread_move_to_ready p LIST_LAST s) sched)"

text \<open>What an alarm that is due does: it starts a thread, or calls the kernel's own action.\<close>

definition alarm_action :: "(kst \<Rightarrow> kst res) \<Rightarrow> nat \<Rightarrow> int \<Rightarrow> kst \<Rightarrow> (int \<times> kst) res" where
  "alarm_action sched a resched s =
     (case action (alarm (ka s a)) of
        Null_fn \<Rightarrow> Inr (resched, s)
      | User_fn f \<Rightarrow>
          if a_thread (ka s a) \<noteq> 0 then
            let proc = kthread_get_process (a_thread (ka s a)) s
            in rbind (kthread_create f (param (alarm (ka s a))) (pi_exit (kpi s (p_pi (kp s proc)))) SCHED_FIFO
                        (kthread_get_prio (a_thread (ka s a)) s + 1) 0 0 True proc s) (\<lambda>(t, s).
               Inr (resched + 1, s))
          else Inl Wild_jump
      | Rr_timer \<Rightarrow>
          if a_thread (ka s a) \<noteq> 0 then Inl Wild_jump
          else rbind (rr_timer sched (param (alarm (ka s a))) s) (\<lambda>s. Inr (resched, s)))"

text \<open>One round of the loop for an alarm that is due: take it out of the list, put it back when it
  is periodic, act, release the threads that wait for it.\<close>

definition alarm_activate :: "(kst \<Rightarrow> kst res) \<Rightarrow> nat \<Rightarrow> nat list \<Rightarrow> int \<Rightarrow> kst \<Rightarrow> (int \<times> kst) res" where
  "alarm_activate sched a rest resched s =
     (let s = s\<lparr>kalarms := rest\<rparr>;
          s = (if flags (alarm (ka s a)) AND ALARM_PERIODIC \<noteq> 0
               then kalarms_sort_add a (upd_a a (\<lambda>x. x\<lparr>alarm := (alarm x)\<lparr>exp_time := time_add (exp_time (alarm x)) (period (alarm x))\<rparr>\<rparr>) s)
               else upd_a a (\<lambda>x. x\<lparr>a_active := 0\<rparr>) s)
      in rbind (alarm_action sched a resched s) (\<lambda>(resched, s).
         rbind (kthreadq_release_all (QAlarm a) s) (\<lambda>(c, s). Inr (resched + c, s))))"

fun alarms_loop :: "nat \<Rightarrow> (kst \<Rightarrow> kst res) \<Rightarrow> time_t \<Rightarrow> int \<Rightarrow> kst \<Rightarrow> (int \<times> kst) res" where
  "alarms_loop 0 sched ref_time resched s = Inl Out_of_fuel"
| "alarms_loop (Suc n) sched ref_time resched s =
     (case kalarms s of
        [] \<Rightarrow> Inr (resched, s)
      | a # rest \<Rightarrow>
          if time_cmp (exp_time (alarm (ka s a))) ref_time \<le> 0
          then rbind (alarm_activate sched a rest resched s) (\<lambda>(resched, s). alarms_loop n sched ref_time resched s)
          else Inr (resched, s))"

definition k_schedule_alarms :: "(kst \<Rightarrow> kst res) \<Rightarrow> kst \<Rightarrow> (int \<times> kst) res" where
  "k_schedule_alarms sched s =
     rbind (arch_get_time i8253 (tim s)) (\<lambda>time.
     let ref_time = time_add time (k_threshold s)
     in rbind (alarms_loop adr_space sched ref_time 0 s) (\<lambda>(resched, s).
        case kalarms s of
          [] \<Rightarrow> Inr (resched, s)
        | a # _ \<Rightarrow>
            let ref_time = time_sub (exp_time (alarm (ka s a))) time
            in rbind (arch_timer_set i8253 ref_time (Some K_timer_interrupt) (tim s)) (\<lambda>tm.
               Inr (resched, s\<lparr>tim := tm\<rparr>))))"

definition k_alarm_add :: "(kst \<Rightarrow> kst res) \<Rightarrow> nat \<Rightarrow> kst \<Rightarrow> kst res" where
  "k_alarm_add sched a s =
     (let s = (if int32 (sec (exp_time (alarm (ka s a))) + nsec (exp_time (alarm (ka s a)))) > 0
               then kalarms_sort_add a (upd_a a (\<lambda>x. x\<lparr>a_active := 1\<rparr>) s)
               else upd_a a (\<lambda>x. x\<lparr>a_active := 0\<rparr>) s)
      in rbind (k_schedule_alarms sched s) (\<lambda>(reschedule, s).
         let s = SET_ERRNO SUCCESS s
         in rbind (if a_thread (ka s a) \<noteq> 0 \<and> a_active (ka s a) \<noteq> 0 \<and> flags (alarm (ka s a)) AND IPC_WAIT \<noteq> 0
                   then rbind (kthread_enqueue (a_thread (ka s a)) (QAlarm a) s) (\<lambda>s. Inr (1, s))
                   else Inr (reschedule, s)) (\<lambda>(reschedule, s).
            if reschedule \<noteq> 0 then sched s else Inr s)))"

definition k_alarm_set :: "(kst \<Rightarrow> kst res) \<Rightarrow> nat \<Rightarrow> alarm_t \<Rightarrow> kst \<Rightarrow> (int \<times> kst) res" where
  "k_alarm_set sched a alm s =
     rbind (ASSERT (a \<noteq> 0 \<and> a_magic (ka s a) = ALARM_MAGIC)) (\<lambda>_.
     let s = upd_a a (\<lambda>x. x\<lparr>alarm := (alarm x)\<lparr>action := action alm, param := param alm, flags := flags alm, period := period alm\<rparr>\<rparr>) s;
         s = SET_ERRNO SUCCESS s
     in if time_cmp (exp_time (alarm (ka s a))) (exp_time alm) \<noteq> 0 then
          let s = (if a_active (ka s a) \<noteq> 0 then s\<lparr>kalarms := remove1 a (kalarms s)\<rparr> else s);
              s = upd_a a (\<lambda>x. x\<lparr>alarm := (alarm x)\<lparr>exp_time := exp_time alm\<rparr>\<rparr>) s
          in rbind (k_alarm_add sched a s) (\<lambda>s. Inr (- SUCCESS, s))
        else Inr (- SUCCESS, s))"

definition rr_thread_activate :: "(kst \<Rightarrow> kst res) \<Rightarrow> nat \<Rightarrow> kst \<Rightarrow> kst res" where
  "rr_thread_activate sched t s =
     rbind (ASSERT (t_policy (kt s t) \<ge> 0 \<and> t_policy (kt s t) < SCHED_NUM)) (\<lambda>_.
     let s = (if time_cmp (t_remainder (kt s t)) (rr_threshold (rr s)) \<le> 0
              then upd_t t (\<lambda>x. x\<lparr>t_remainder := time_add (t_remainder x) (rr_time_slice (rr s))\<rparr>) s else s)
     in rbind (arch_get_time i8253 (tim s)) (\<lambda>now.
        let s = upd_t t (\<lambda>x. x\<lparr>t_slice_start := now\<rparr>) s;
            s = upd_t t (\<lambda>x. x\<lparr>t_slice_end := t_slice_start x\<rparr>) s;
            s = upd_t t (\<lambda>x. x\<lparr>t_slice_end := time_add (t_slice_end x) (t_remainder x)\<rparr>) s;
            s = s\<lparr>rr := (rr s)\<lparr>rr_params := (rr_params (rr s))\<lparr>exp_time := t_slice_end (kt s t), param := t\<rparr>\<rparr>\<rparr>
        in rbind (k_alarm_set sched (rr_alarm (rr s)) (rr_params (rr s)) s) (\<lambda>(r, s). Inr s)))"

definition ksched_activate_thread :: "(kst \<Rightarrow> kst res) \<Rightarrow> nat \<Rightarrow> kst \<Rightarrow> kst res" where
  "ksched_activate_thread sched t s =
     (if t_activated (kt s t) = 0 then
        rbind (in_ksched (t_policy (kt s t))) (\<lambda>_.
        rbind (if t_policy (kt s t) = SCHED_RR then rr_thread_activate sched t s else Inr s) (\<lambda>s.
        Inr (upd_t t (\<lambda>x. x\<lparr>t_activated := 1\<rparr>) s)))
      else Inr s)"

text \<open>The two halves of a thread switch: what happens to the thread that was active, and taking the
  next one from the ready list.\<close>

definition switch_out :: "nat \<Rightarrow> kst \<Rightarrow> kst res" where
  "switch_out cur s =
     (if cur \<noteq> 0 then
        rbind (ksched_deactivate_thread cur s) (\<lambda>s.
        if t_state (kt s cur) = THR_STATE_ACTIVE then kthread_move_to_ready cur LIST_LAST s else Inr s)
      else Inr s)"

definition switch_in :: "(kst \<Rightarrow> kst res) \<Rightarrow> int \<Rightarrow> kst \<Rightarrow> kst res" where
  "switch_in sched highest s =
     rbind (in_ready_q highest) (\<lambda>_.
     let (nxt, s) = kthreadq_remove (QReady (nat highest)) 0 s
     in rbind (ASSERT (nxt \<noteq> 0)) (\<lambda>_.
        let s = (if kthreadq_get (QReady (nat highest)) s = 0 then kthread_ready_list_set_empty (nat highest) s else s);
            s = s\<lparr>active_thread := nxt\<rparr>;
            s = upd_t nxt (\<lambda>x. x\<lparr>t_state := THR_STATE_ACTIVE\<rparr>) s;
            s = upd_t nxt (\<lambda>x. x\<lparr>t_queue := None\<rparr>) s
        in ksched_activate_thread sched nxt s))"

primrec kthreads_schedule :: "nat \<Rightarrow> kst \<Rightarrow> kst res" where
  "kthreads_schedule 0 s = Inl Out_of_fuel"
| "kthreads_schedule (Suc n) s =
     (let cur = active_thread s;
          highest = kthread_ready_list_highest s
      in rbind (ASSERT ((cur \<noteq> 0 \<and> t_state (kt s cur) = THR_STATE_ACTIVE) \<or> highest \<ge> 0)) (\<lambda>_.
         rbind (if cur = 0 \<or> t_state (kt s cur) \<noteq> THR_STATE_ACTIVE \<or> highest > t_prio (kt s cur)
                then rbind (switch_out cur s) (switch_in (kthreads_schedule n) highest)
                else Inr s) (\<lambda>s.
         arch_select_thread (active_thread s) s)))"

text \<open>Called from the timer interrupt when an alarm is due.\<close>

definition k_timer_interrupt :: "nat \<Rightarrow> kst \<Rightarrow> kst res" where
  "k_timer_interrupt n s =
     rbind (k_schedule_alarms (kthreads_schedule n) s) (\<lambda>(r, s). if r \<noteq> 0 then kthreads_schedule n s else Inr s)"

text \<open>The timer interrupt as the hardware delivers it: the architecture layer first, then the
  kernel function that it hands over, if any.\<close>

definition timer_interrupt :: "nat \<Rightarrow> kst \<Rightarrow> kst res" where
  "timer_interrupt n s =
     rbind (arch_timer_handler i8253 (tim s)) (\<lambda>(h, tm).
       let s = s\<lparr>tim := tm\<rparr>
       in case h of None \<Rightarrow> Inr s | Some K_timer_interrupt \<Rightarrow> k_timer_interrupt n s)"

end
