(* ===== verification/Os_Inv.thy ===== *)
theory Os_Inv
  imports Os_Sched
begin

text \<open>
  The invariant of the thread queues and the lemmas that carry it through blocking, releasing and
  scheduling. \<open>A\<close> gives for every queue the sequence of threads in it. A thread is in at most
  one queue; its state and its queue field say which; the mask marks exactly the priority
  levels that are not empty.
\<close>

section \<open>The ready mask\<close>

definition mask_ok :: "u32 list \<Rightarrow> (nat \<Rightarrow> bool) \<Rightarrow> bool" where
  "mask_ok ms R \<longleftrightarrow> length ms = RDY_MASKS \<and>
     (\<forall>i<RDY_MASKS. \<forall>j. bit (ms ! i) j \<longleftrightarrow> j < 4 \<and> R (4 * i + j))"

lemma bit_push_1: "n < 4 \<Longrightarrow> bit (push_bit n 1 :: u32) j \<longleftrightarrow> j = n"
  by (auto simp: bit_push_bit_iff bit_1_iff bit_exp_iff possible_bit_word simp del: push_bit_of_1)

lemma mask_ok_set:
  assumes m: "mask_ok ms R" and p: "p < PRIO_LEVELS"
  shows "mask_ok (ms[p div 4 := ms ! (p div 4) OR push_bit (p mod 4) 1]) (R(p := True))"
proof -
  have len: "length ms = 16" using m by (simp add: mask_ok_def)
  have b: "bit (ms ! i) j \<longleftrightarrow> j < 4 \<and> R (4 * i + j)" if "i < 16" for i j using m that by (simp add: mask_ok_def)
  have i: "p div 4 < 16" using p by simp
  have "bit ((ms[p div 4 := ms ! (p div 4) OR push_bit (p mod 4) 1]) ! i) j \<longleftrightarrow> j < 4 \<and> (R(p := True)) (4 * i + j)"
    if i16: "i < 16" for i j
  proof (cases "i = p div 4")
    case True
    have "4 * i + j = p \<longleftrightarrow> j = p mod 4" if "j < 4" for j using that True mult_div_mod_eq [of 4 p] by linarith
    moreover have "p mod 4 < 4" by simp
    ultimately show ?thesis using b [OF i16] True len i
      by (auto simp: bit_or_iff bit_push_1 simp del: push_bit_of_1)
  next
    case False
    have "j < 4 \<Longrightarrow> 4 * i + j \<noteq> p" using False by auto
    then show ?thesis using b [OF i16] False by auto
  qed
  then show ?thesis using len by (simp add: mask_ok_def)
qed

lemma mask_ok_clear:
  assumes m: "mask_ok ms R" and p: "p < PRIO_LEVELS"
  shows "mask_ok (ms[p div 4 := ms ! (p div 4) AND NOT (push_bit (p mod 4) 1)]) (R(p := False))"
proof -
  have len: "length ms = 16" using m by (simp add: mask_ok_def)
  have b: "bit (ms ! i) j \<longleftrightarrow> j < 4 \<and> R (4 * i + j)" if "i < 16" for i j using m that by (simp add: mask_ok_def)
  have i: "p div 4 < 16" using p by simp
  have "bit ((ms[p div 4 := ms ! (p div 4) AND NOT (push_bit (p mod 4) 1)]) ! i) j \<longleftrightarrow> j < 4 \<and> (R(p := False)) (4 * i + j)"
    if i16: "i < 16" for i j
  proof (cases "i = p div 4")
    case True
    have "4 * i + j = p \<longleftrightarrow> j = p mod 4" if "j < 4" for j using that True mult_div_mod_eq [of 4 p] by linarith
    moreover have "p mod 4 < 4" by simp
    ultimately show ?thesis using b [OF i16] True len i
      by (auto simp: bit_and_iff bit_not_iff bit_push_1 possible_bit_word simp del: push_bit_of_1)
  next
    case False
    have "j < 4 \<Longrightarrow> 4 * i + j \<noteq> p" using False by auto
    then show ?thesis using b [OF i16] False by auto
  qed
  then show ?thesis using len by (simp add: mask_ok_def)
qed

lemma mask_ok_cong: "mask_ok ms R \<Longrightarrow> (\<And>p. p < PRIO_LEVELS \<Longrightarrow> R p = R' p) \<Longrightarrow> mask_ok ms R'"
  unfolding mask_ok_def by (auto simp: less_diff_conv)

lemma msb_bit: "w \<noteq> (0::u32) \<Longrightarrow> bit w (arch_msb_index (unat w)) \<and> (\<forall>j>arch_msb_index (unat w). \<not> bit w j)"
proof -
  assume "w \<noteq> 0"
  then have "unat w > 0" by (simp add: unat_gt_0)
  then have b: "2 ^ arch_msb_index (unat w) \<le> unat w" "unat w < 2 ^ Suc (arch_msb_index (unat w))"
    using arch_msb_index_bounds by blast+
  let ?k = "arch_msb_index (unat w)"
  have q: "unat w div 2 ^ ?k = 1"
    using b by (simp add: div_nat_eqI)
  have "bit (unat w) ?k" using q by (simp add: bit_iff_odd)
  moreover have "\<not> bit (unat w) j" if "?k < j" for j
  proof -
    have "unat w < 2 ^ j" using b(2) that by (meson Suc_leI less_le_trans one_le_numeral power_increasing)
    then show ?thesis by (simp add: bit_iff_odd)
  qed
  ultimately show ?thesis by (auto simp: bit_unsigned_iff dest: bit_imp_le_length)
qed

lemma ready_highest_spec:
  assumes m: "mask_ok ms R" and n: "n \<le> RDY_MASKS"
  shows "ready_highest n ms = -1 \<and> (\<forall>p<4 * n. \<not> R p) \<or>
    (\<exists>p<4 * n. ready_highest n ms = int p \<and> R p \<and> (\<forall>r<4 * n. p < r \<longrightarrow> \<not> R r))"
  using n
proof (induction n)
  case (Suc i)
  have b: "bit (ms ! i) j \<longleftrightarrow> j < 4 \<and> R (4 * i + j)" for j using m Suc.prems by (simp add: mask_ok_def)
  show ?case
  proof (cases "ms ! i = 0")
    case True
    then have no: "\<not> R (4 * i + j)" if "j < 4" for j using b [of j] that by simp
    have none: "\<not> R r" if "4 * i \<le> r" "r < 4 * Suc i" for r
      using no [of "r - 4 * i"] that by simp
    show ?thesis
    proof (cases "ready_highest i ms = -1 \<and> (\<forall>p<4 * i. \<not> R p)")
      case True
      then have "ready_highest (Suc i) ms = -1" "\<forall>p<4 * Suc i. \<not> R p"
        using \<open>ms ! i = 0\<close> none by (simp, meson not_le)
      then show ?thesis by blast
    next
      case False
      then obtain p where "p < 4 * i" "ready_highest i ms = int p" "R p" "\<forall>r<4 * i. p < r \<longrightarrow> \<not> R r"
        using Suc by auto
      then show ?thesis using \<open>ms ! i = 0\<close> none
        by (intro disjI2 exI [of _ p]) (auto simp: not_less [symmetric])
    qed
  next
    case False
    let ?k = "arch_msb_index (unat (ms ! i))"
    have k: "?k < 4" "R (4 * i + ?k)" using msb_bit [OF False] b by blast+
    moreover have "\<not> R r" if "r < 4 * Suc i" "4 * i + ?k < r" for r
    proof -
      have "\<not> bit (ms ! i) (r - 4 * i)" using msb_bit [OF False] that by auto
      then show ?thesis using b [of "r - 4 * i"] that by auto
    qed
    ultimately show ?thesis using False by (intro disjI2 exI [of _ "4 * i + ?k"]) (simp add: mult.commute)
  qed
qed simp

section \<open>Queues\<close>

text \<open>What the descriptor of a thread in queue \<open>q\<close> says.\<close>

definition queued :: "qid \<Rightarrow> kthread_t \<Rightarrow> bool" where
  "queued q x \<longleftrightarrow> t_queue x = Some q \<and> 0 \<le> t_prio x \<and> t_prio x < int PRIO_LEVELS \<and>
     (case q of QReady p \<Rightarrow> t_state x = THR_STATE_READY \<and> t_prio x = int p | _ \<Rightarrow> t_state x = THR_STATE_WAIT)"

definition is_ready_q :: "qid \<Rightarrow> bool" where
  "is_ready_q q = (case q of QReady p \<Rightarrow> True | _ \<Rightarrow> False)"

definition queues_ok :: "kst \<Rightarrow> (qid \<Rightarrow> nat list) \<Rightarrow> bool" where
  "queues_ok s A \<longleftrightarrow> lists_ok (ql s) (tq s) A \<and> mask_ok (rdy_mask s) (\<lambda>p. A (QReady p) \<noteq> []) \<and>
     (\<forall>q. \<forall>t\<in>set (A q). queued q (kt s t))"

lemma queues_okD:
  assumes "queues_ok s A"
  shows "lists_ok (ql s) (tq s) A" "mask_ok (rdy_mask s) (\<lambda>p. A (QReady p) \<noteq> [])"
    "t \<in> set (A q) \<Longrightarrow> queued q (kt s t)"
  using assms by (auto simp: queues_ok_def)

lemma queues_ok_0: "queues_ok s A \<Longrightarrow> 0 \<notin> set (A q)"
  by (auto dest: queues_okD(1) lists_okD(5))

lemma queues_ok_unique_queue: "queues_ok s A \<Longrightarrow> t \<in> set (A q) \<Longrightarrow> t \<in> set (A r) \<Longrightarrow> q = r"
  using queues_okD(3) [of s A t q] queues_okD(3) [of s A t r] by (auto simp: queued_def)

lemma queues_ok_distinct: "queues_ok s A \<Longrightarrow> distinct (A q)"
  by (auto dest: queues_okD(1) lists_okD(4))

lemma queued_ready: "queued (QReady p) x \<longleftrightarrow> t_queue x = Some (QReady p) \<and> p < PRIO_LEVELS \<and>
    t_state x = THR_STATE_READY \<and> t_prio x = int p"
  by (auto simp: queued_def)

lemma queued_wait: "\<not> is_ready_q q \<Longrightarrow> queued q x \<longleftrightarrow> t_queue x = Some q \<and> 0 \<le> t_prio x \<and> t_prio x < 64 \<and>
    t_state x = THR_STATE_WAIT"
  by (cases q) (auto simp: queued_def is_ready_q_def)

lemma queues_ok_frame:
  "queues_ok s A \<Longrightarrow> ql s' = ql s \<Longrightarrow> tq s' = tq s \<Longrightarrow> rdy_mask s' = rdy_mask s \<Longrightarrow>
   (\<And>q t. t \<in> set (A q) \<Longrightarrow> queued q (kt s t) \<Longrightarrow> queued q (kt s' t)) \<Longrightarrow> queues_ok s' A"
  by (auto simp: queues_ok_def)

lemma kthreadq_get_eq: "queues_ok s A \<Longrightarrow> kthreadq_get q s = hd0 (A q)"
  by (simp add: kthreadq_get_def lists_ok_get queues_okD(1))

text \<open>A new thread at the end of a queue that is not a ready queue.\<close>

lemma kthread_enqueue_ok:
  assumes ok: "queues_ok s A" and t: "t' = (if t = 0 then active_thread s else t)" "t' \<noteq> 0"
    and new: "\<And>r. t' \<notin> set (A r)" and pr: "0 \<le> t_prio (kt s t')" "t_prio (kt s t') < 64" and q: "\<not> is_ready_q q"
  obtains h L where "kthread_enqueue t q s =
      Inr (s\<lparr>kt := (kt s)(t' := (kt s t')\<lparr>t_state := THR_STATE_WAIT, t_queue := Some q\<rparr>), ql := h, tq := L\<rparr>)"
    and "queues_ok (s\<lparr>kt := (kt s)(t' := (kt s t')\<lparr>t_state := THR_STATE_WAIT, t_queue := Some q\<rparr>), ql := h, tq := L\<rparr>)
      (A(q := A q @ [t']))"
proof -
  obtain l' h' where a: "list_append (tq s q) t' t' (ql s) = Inr (l', h')"
    and lo: "lists_ok h' ((tq s)(q := l')) (A(q := A q @ [t']))"
    using lists_ok_append [OF queues_okD(1) [OF ok] t(2) new, of q] by blast
  let ?s = "s\<lparr>kt := (kt s)(t' := (kt s t')\<lparr>t_state := THR_STATE_WAIT, t_queue := Some q\<rparr>), ql := h', tq := (tq s)(q := l')\<rparr>"
  have ex: "kthread_enqueue t q s = Inr ?s"
    using a t by (auto simp: kthread_enqueue_def kthreadq_append_def Let_def)
  have m: "mask_ok (rdy_mask s) (\<lambda>p. (A(q := A q @ [t'])) (QReady p) \<noteq> [])"
    using queues_okD(2) [OF ok] q by (auto simp: is_ready_q_def elim!: mask_ok_cong)
  have "queued r (kt ?s x)" if "x \<in> set ((A(q := A q @ [t'])) r)" for r x
  proof (cases "x = t'")
    case True
    then have "r = q" using that new by (auto split: if_splits)
    then show ?thesis using True pr q by (simp add: queued_wait)
  next
    case False
    then have "x \<in> set (A r)" using that by (auto split: if_splits)
    then show ?thesis using queues_okD(3) [OF ok] False by simp
  qed
  then have "queues_ok ?s (A(q := A q @ [t']))" using lo m by (auto simp: queues_ok_def)
  with ex that show thesis by blast
qed

text \<open>A thread that is in no queue is made ready.\<close>

lemma kthread_move_to_ready_ok:
  assumes ok: "queues_ok s A" and t: "t \<noteq> 0" and new: "\<And>r. t \<notin> set (A r)"
    and pr: "t_prio (kt s t) = int p" "p < PRIO_LEVELS"
    and q: "q = QReady p" and A': "A' = A(q := (if w = LIST_LAST then A q @ [t] else t # A q))"
  obtains h L ms where "kthread_move_to_ready t w s =
      Inr (s\<lparr>kt := (kt s)(t := (kt s t)\<lparr>t_state := THR_STATE_READY, t_queue := Some q\<rparr>), ql := h, tq := L, rdy_mask := ms\<rparr>)"
    and "queues_ok (s\<lparr>kt := (kt s)(t := (kt s t)\<lparr>t_state := THR_STATE_READY, t_queue := Some q\<rparr>), ql := h, tq := L, rdy_mask := ms\<rparr>) A'"
proof -
  let ?op = "if w = LIST_LAST then list_append (tq s q) t t (ql s) else list_prepend (tq s q) t t (ql s)"
  obtain l' h' where a: "?op = Inr (l', h')" and lo: "lists_ok h' ((tq s)(q := l')) A'"
    using lists_ok_append [OF queues_okD(1) [OF ok] t new, of q]
      lists_ok_prepend [OF queues_okD(1) [OF ok] t new, of q] A' by (cases "w = LIST_LAST") auto
  let ?ms = "(rdy_mask s)[p div 4 := rdy_mask s ! (p div 4) OR push_bit (p mod 4) 1]"
  let ?s = "s\<lparr>kt := (kt s)(t := (kt s t)\<lparr>t_state := THR_STATE_READY, t_queue := Some q\<rparr>), ql := h', tq := (tq s)(q := l'), rdy_mask := ?ms\<rparr>"
  have ex: "kthread_move_to_ready t w s = Inr ?s"
    using a pr q by (cases "w = LIST_LAST") (auto simp: kthread_move_to_ready_def kthreadq_append_def
      kthreadq_prepend_def in_ready_q_def kthread_ready_list_set_not_empty_def Let_def)
  have "mask_ok ?ms ((\<lambda>p. A (QReady p) \<noteq> [])(p := True))"
    using mask_ok_set [OF queues_okD(2) [OF ok] pr(2)] .
  then have m: "mask_ok ?ms (\<lambda>p. A' (QReady p) \<noteq> [])"
    by (rule mask_ok_cong) (auto simp: A' q)
  have "queued r (kt ?s x)" if "x \<in> set (A' r)" for r x
  proof (cases "x = t")
    case True
    then have "r = q" using that new A' by (auto split: if_splits)
    then show ?thesis using True pr q by (simp add: queued_ready)
  next
    case False
    then have "x \<in> set (A r)" using that A' by (auto split: if_splits)
    then show ?thesis using queues_okD(3) [OF ok] False by simp
  qed
  then have "queues_ok ?s A'" using lo m by (auto simp: queues_ok_def)
  with ex that show thesis by blast
qed

text \<open>Taking the first thread out of a queue. The thread is then in no queue.\<close>

lemma kthreadq_remove_first:
  assumes ok: "queues_ok s A" and q: "A q = t # ts" and nr: "\<not> is_ready_q q"
  obtains h L where "kthreadq_remove q 0 s = (t, s\<lparr>ql := h, tq := L\<rparr>)"
    and "queues_ok (s\<lparr>ql := h, tq := L\<rparr>) (A(q := ts))" and "\<And>r. t \<notin> set ((A(q := ts)) r)"
proof -
  obtain l' h' where a: "list_remove (tq s q) LIST_FIRST 0 (ql s) = (t, l', h')"
    and lo: "lists_ok h' ((tq s)(q := l')) (A(q := ts))"
    using lists_ok_remove_first [OF queues_okD(1) [OF ok] q] by blast
  have m: "mask_ok (rdy_mask s) (\<lambda>p. (A(q := ts)) (QReady p) \<noteq> [])"
    using queues_okD(2) [OF ok] nr by (auto simp: is_ready_q_def elim!: mask_ok_cong)
  have no: "t \<notin> set ((A(q := ts)) r)" for r
    using queues_ok_unique_queue [OF ok, of t q r] queues_ok_distinct [OF ok, of q] q by (auto split: if_splits)
  have "queued r (kt s x)" if "x \<in> set ((A(q := ts)) r)" for r x
    using queues_okD(3) [OF ok] that q by (auto split: if_splits)
  then have "queues_ok (s\<lparr>ql := h', tq := (tq s)(q := l')\<rparr>) (A(q := ts))" using lo m by (auto simp: queues_ok_def)
  with a no that show thesis by (auto simp: kthreadq_remove_def)
qed

lemma kthreadq_remove_none: "queues_ok s A \<Longrightarrow> A q = [] \<Longrightarrow> kthreadq_remove q 0 s = (0, s)"
  using lists_ok_remove_empty [OF queues_okD(1), of s A q] by (simp add: kthreadq_remove_def)

section \<open>Releasing threads\<close>

lemma kthreadq_release_empty: "queues_ok s A \<Longrightarrow> A q = [] \<Longrightarrow> kthreadq_release q s = Inr (0, s)"
  by (simp add: kthreadq_release_def kthreadq_remove_none)

lemma kthreadq_release_first:
  assumes ok: "queues_ok s A" and q: "A q = t # ts" and nr: "\<not> is_ready_q q" and p: "t_prio (kt s t) = int p"
    and A': "A' = A(q := ts, QReady p := A (QReady p) @ [t])"
  obtains h L ms where "kthreadq_release q s =
      Inr (1, s\<lparr>kt := (kt s)(t := (kt s t)\<lparr>t_state := THR_STATE_READY, t_queue := Some (QReady p)\<rparr>), ql := h, tq := L, rdy_mask := ms\<rparr>)"
    and "queues_ok (s\<lparr>kt := (kt s)(t := (kt s t)\<lparr>t_state := THR_STATE_READY, t_queue := Some (QReady p)\<rparr>), ql := h, tq := L, rdy_mask := ms\<rparr>) A'"
proof -
  obtain h0 L0 where r: "kthreadq_remove q 0 s = (t, s\<lparr>ql := h0, tq := L0\<rparr>)"
    and ok0: "queues_ok (s\<lparr>ql := h0, tq := L0\<rparr>) (A(q := ts))" and no: "\<And>r. t \<notin> set ((A(q := ts)) r)"
    by (rule kthreadq_remove_first [OF ok q nr]) blast
  have t0: "t \<noteq> 0" using queues_ok_0 [OF ok, of q] q by auto
  have pr: "p < PRIO_LEVELS" using queues_okD(3) [OF ok, of t q] q p by (auto simp: queued_def)
  have qr: "q \<noteq> QReady p" using nr by (auto simp: is_ready_q_def)
  obtain h L ms where m: "kthread_move_to_ready t LIST_LAST (s\<lparr>ql := h0, tq := L0\<rparr>) =
      Inr (s\<lparr>ql := h0, tq := L0, kt := (kt s)(t := (kt s t)\<lparr>t_state := THR_STATE_READY, t_queue := Some (QReady p)\<rparr>), ql := h, tq := L, rdy_mask := ms\<rparr>)"
    "queues_ok (s\<lparr>ql := h0, tq := L0, kt := (kt s)(t := (kt s t)\<lparr>t_state := THR_STATE_READY, t_queue := Some (QReady p)\<rparr>), ql := h, tq := L, rdy_mask := ms\<rparr>) A'"
    by (rule kthread_move_to_ready_ok [OF ok0 t0 no, of p "QReady p" A' LIST_LAST])
      (use p pr qr A' in \<open>auto simp: fun_upd_twist\<close>)
  show thesis
    by (rule that [where h = h and L = L and ms = ms]) (use r m t0 in \<open>auto simp: kthreadq_release_def\<close>)
qed

text \<open>All threads of a queue become ready, in their order, each at its own priority.\<close>

definition readied :: "nat list \<Rightarrow> (nat \<Rightarrow> kthread_t) \<Rightarrow> nat \<Rightarrow> kthread_t" where
  "readied ts K x = (if x \<in> set ts
     then (K x)\<lparr>t_state := THR_STATE_READY, t_queue := Some (QReady (nat (t_prio (K x))))\<rparr> else K x)"

definition released :: "qid \<Rightarrow> (nat \<Rightarrow> kthread_t) \<Rightarrow> (qid \<Rightarrow> nat list) \<Rightarrow> qid \<Rightarrow> nat list" where
  "released q K A r = (if r = q then [] else
     case r of QReady p \<Rightarrow> A (QReady p) @ filter (\<lambda>t. t_prio (K t) = int p) (A q) | _ \<Rightarrow> A r)"

lemma release_loop_ok:
  assumes "queues_ok s A" and "A q = ts" and "\<not> is_ready_q q" and "length ts < n"
  shows "\<exists>h L ms. release_loop n q cnt s =
      Inr (cnt + int (length ts), s\<lparr>kt := readied ts (kt s), ql := h, tq := L, rdy_mask := ms\<rparr>) \<and>
    queues_ok (s\<lparr>kt := readied ts (kt s), ql := h, tq := L, rdy_mask := ms\<rparr>) (released q (kt s) A)"
  using assms
proof (induction ts arbitrary: s A n cnt)
  case Nil
  then obtain m where n: "n = Suc m" by (cases n) auto
  have "readied [] (kt s) = kt s" by (auto simp: readied_def)
  moreover have "released q (kt s) A = A" using Nil(2) by (auto simp: released_def fun_eq_iff split: qid.splits)
  ultimately show ?case
    using kthreadq_release_empty [OF Nil(1,2)] Nil(1) n
    by (intro exI [of _ "ql s"] exI [of _ "tq s"] exI [of _ "rdy_mask s"]) simp
next
  case (Cons t ts)
  then obtain m where n: "n = Suc m" by (cases n) auto
  have qt: "queued q (kt s t)" using queues_okD(3) [OF Cons.prems(1), of t q] Cons.prems(2) by simp
  define p where "p = nat (t_prio (kt s t))"
  have p: "t_prio (kt s t) = int p" using qt by (simp add: p_def queued_def)
  define A1 where "A1 = A(q := ts, QReady p := A (QReady p) @ [t])"
  define K1 where "K1 = (kt s)(t := (kt s t)\<lparr>t_state := THR_STATE_READY, t_queue := Some (QReady p)\<rparr>)"
  obtain h L ms where r: "kthreadq_release q s = Inr (1, s\<lparr>kt := K1, ql := h, tq := L, rdy_mask := ms\<rparr>)"
    and ok1: "queues_ok (s\<lparr>kt := K1, ql := h, tq := L, rdy_mask := ms\<rparr>) A1"
    using kthreadq_release_first [OF Cons.prems(1,2,3) p refl] unfolding A1_def K1_def by metis
  let ?s1 = "s\<lparr>kt := K1, ql := h, tq := L, rdy_mask := ms\<rparr>"
  have q1: "A1 q = ts" using Cons.prems(3) by (auto simp: A1_def is_ready_q_def)
  have tn: "t \<notin> set ts" using queues_ok_distinct [OF Cons.prems(1), of q] Cons.prems(2) by simp
  obtain h' L' ms' where r': "release_loop m q (cnt + 1) ?s1 = Inr (cnt + 1 + int (length ts),
      ?s1\<lparr>kt := readied ts K1, ql := h', tq := L', rdy_mask := ms'\<rparr>)"
    and ok': "queues_ok (?s1\<lparr>kt := readied ts K1, ql := h', tq := L', rdy_mask := ms'\<rparr>) (released q K1 A1)"
    using Cons.IH [OF ok1 q1 Cons.prems(3), of m "cnt + 1"] Cons.prems(4) n by auto
  have K: "readied ts K1 = readied (t # ts) (kt s)"
    using tn by (auto simp: readied_def K1_def p_def fun_eq_iff)
  have prio: "t_prio (K1 x) = t_prio (kt s x)" for x by (simp add: K1_def)
  have A: "released q K1 A1 = released q (kt s) A"
    using Cons.prems(2,3) p by (auto simp: released_def A1_def fun_eq_iff prio is_ready_q_def split: qid.splits)
  show ?case
    using r r' ok' n by (intro exI [of _ h'] exI [of _ L'] exI [of _ ms']) (simp add: K A)
qed

lemma queue_length:
  assumes ok: "queues_ok s A" and b: "\<And>t. t \<in> set (A q) \<Longrightarrow> t < adr_space"
  shows "length (A q) < adr_space"
proof -
  have "length (0 # A q) \<le> 2 ^ 32"
    using queues_ok_distinct [OF ok, of q] queues_ok_0 [OF ok, of q] b by (intro distinct_length_bound) auto
  then show ?thesis by simp
qed

lemma kthreadq_release_all_ok:
  assumes "queues_ok s A" and "\<not> is_ready_q q" and "length (A q) < adr_space"
  obtains h L ms where "kthreadq_release_all q s =
      Inr (int (length (A q)), s\<lparr>kt := readied (A q) (kt s), ql := h, tq := L, rdy_mask := ms\<rparr>)"
    and "queues_ok (s\<lparr>kt := readied (A q) (kt s), ql := h, tq := L, rdy_mask := ms\<rparr>) (released q (kt s) A)"
  using release_loop_ok [OF assms(1) refl assms(2,3), of 0] by (auto simp: kthreadq_release_all_def)

section \<open>Scheduling FIFO threads\<close>

lemma arch_update_user_segments_total: "\<exists>g. arch_update_user_segments a z d = Inr g"
  by (simp add: arch_update_user_segments_def arch_upd_segm_descr_row)

lemma arch_select_thread_ok:
  obtains g where "arch_select_thread t s = Inr (s\<lparr>selected := t, tss_esp0 := t + 64, gdt := g\<rparr>)"
proof -
  let ?p = "kp s (c_proc (t_context (kt s t)))"
  obtain g where "arch_update_user_segments (p_start ?p) (p_size ?p) (gdt s) = Inr g"
    using arch_update_user_segments_total by blast
  then show thesis using that by (simp add: arch_select_thread_def Let_def)
qed

lemma highest_ok:
  assumes ok: "queues_ok s A"
  shows "kthread_ready_list_highest s = -1 \<and> (\<forall>p. A (QReady p) = []) \<or>
    (\<exists>p<PRIO_LEVELS. kthread_ready_list_highest s = int p \<and> A (QReady p) \<noteq> [] \<and> (\<forall>r>p. A (QReady r) = []))"
proof -
  have big: "A (QReady r) = []" if "64 \<le> r" for r
    using queues_okD(3) [OF ok, of _ "QReady r"] that by (cases "A (QReady r)") (auto simp: queued_ready)
  show ?thesis
    using ready_highest_spec [OF queues_okD(2) [OF ok], of 16] big
    by (simp add: kthread_ready_list_highest_def) (meson not_less)
qed

text \<open>The effect of a switch on the descriptors: the old thread \<open>c\<close> is deactivated and, when it could
  go on, made ready; the new thread \<open>t\<close> is made active.\<close>

definition deact :: "kthread_t \<Rightarrow> kthread_t" where
  "deact x = (if t_activated x = 1 then x\<lparr>t_activated := 0\<rparr> else x)"

definition put_out :: "kthread_t \<Rightarrow> kthread_t" where
  "put_out x = (if t_state x = THR_STATE_ACTIVE
     then (deact x)\<lparr>t_state := THR_STATE_READY, t_queue := Some (QReady (nat (t_prio x)))\<rparr> else deact x)"

definition put_in :: "kthread_t \<Rightarrow> kthread_t" where
  "put_in x = x\<lparr>t_state := THR_STATE_ACTIVE, t_queue := None,
     t_activated := (if t_activated x = 0 then 1 else t_activated x)\<rparr>"

lemma deact_simps [simp]:
  "t_state (deact x) = t_state x" "t_prio (deact x) = t_prio x" "t_queue (deact x) = t_queue x"
  "t_policy (deact x) = t_policy x" "t_errno (deact x) = t_errno x" "t_proc (deact x) = t_proc x"
  "t_qdata (deact x) = t_qdata x"
  by (simp_all add: deact_def)

lemma put_simps [simp]:
  "t_prio (put_out x) = t_prio x" "t_policy (put_out x) = t_policy x" "t_errno (put_out x) = t_errno x"
  "t_proc (put_out x) = t_proc x" "t_qdata (put_out x) = t_qdata x"
  "t_prio (put_in x) = t_prio x" "t_policy (put_in x) = t_policy x" "t_errno (put_in x) = t_errno x"
  "t_proc (put_in x) = t_proc x" "t_qdata (put_in x) = t_qdata x" "t_state (put_in x) = THR_STATE_ACTIVE"
  by (simp_all add: put_out_def put_in_def)

lemma queued_deact [simp]: "queued q (deact x) = queued q x"
  by (cases q) (simp_all add: queued_def)

lemma deactivate_fifo:
  assumes "t_policy (kt s c) = SCHED_FIFO"
  shows "ksched_deactivate_thread c s = Inr (s\<lparr>kt := (kt s)(c := deact (kt s c))\<rparr>)"
  using assms by (simp add: ksched_deactivate_thread_def in_ksched_def deact_def)

definition out_queues :: "nat \<Rightarrow> kst \<Rightarrow> (qid \<Rightarrow> nat list) \<Rightarrow> qid \<Rightarrow> nat list" where
  "out_queues c s A = (if c \<noteq> 0 \<and> t_state (kt s c) = THR_STATE_ACTIVE
     then let q = QReady (nat (t_prio (kt s c))) in A(q := A q @ [c]) else A)"

text \<open>The descriptors after the first half; address 0 is no descriptor.\<close>

definition out_kt :: "nat \<Rightarrow> (nat \<Rightarrow> kthread_t) \<Rightarrow> nat \<Rightarrow> kthread_t" where
  "out_kt c K = (if c = 0 then K else K(c := put_out (K c)))"

lemma switch_out_ok:
  assumes ok: "queues_ok s A" and fifo: "c \<noteq> 0 \<Longrightarrow> t_policy (kt s c) = SCHED_FIFO"
    and act: "c \<noteq> 0 \<Longrightarrow> t_state (kt s c) = THR_STATE_ACTIVE \<Longrightarrow>
      (\<forall>r. c \<notin> set (A r)) \<and> 0 \<le> t_prio (kt s c) \<and> t_prio (kt s c) < 64"
  obtains h L ms where "switch_out c s = Inr (s\<lparr>kt := out_kt c (kt s), ql := h, tq := L, rdy_mask := ms\<rparr>)"
    and "queues_ok (s\<lparr>kt := out_kt c (kt s), ql := h, tq := L, rdy_mask := ms\<rparr>) (out_queues c s A)"
proof (cases "c = 0")
  case True
  then show thesis
    using ok that [where h = "ql s" and L = "tq s" and ms = "rdy_mask s"] by (simp add: switch_out_def out_queues_def out_kt_def)
next
  case c: False
  let ?s0 = "s\<lparr>kt := (kt s)(c := deact (kt s c))\<rparr>"
  have d: "ksched_deactivate_thread c s = Inr ?s0" using fifo [OF c] by (rule deactivate_fifo)
  have ok0: "queues_ok ?s0 A" using ok by (rule queues_ok_frame) auto
  show thesis
  proof (cases "t_state (kt s c) = THR_STATE_ACTIVE")
    case False
    then have "put_out (kt s c) = deact (kt s c)" by (simp add: put_out_def)
    then show thesis
      using d False c ok0 that [where h = "ql s" and L = "tq s" and ms = "rdy_mask s"] by (simp add: switch_out_def out_queues_def out_kt_def)
  next
    case True
    define p where "p = nat (t_prio (kt s c))"
    have a: "\<And>r. c \<notin> set (A r)" "t_prio (kt s c) = int p" "p < 64" using act [OF c True] by (auto simp: p_def)
    have po: "put_out (kt s c) = (deact (kt s c))\<lparr>t_state := THR_STATE_READY, t_queue := Some (QReady p)\<rparr>"
      using True by (simp add: put_out_def p_def)
    obtain h L ms where m: "kthread_move_to_ready c LIST_LAST ?s0 = Inr (?s0\<lparr>kt := (kt ?s0)(c := (kt ?s0 c)\<lparr>t_state := THR_STATE_READY, t_queue := Some (QReady p)\<rparr>), ql := h, tq := L, rdy_mask := ms\<rparr>)"
      "queues_ok (?s0\<lparr>kt := (kt ?s0)(c := (kt ?s0 c)\<lparr>t_state := THR_STATE_READY, t_queue := Some (QReady p)\<rparr>), ql := h, tq := L, rdy_mask := ms\<rparr>) (A(QReady p := A (QReady p) @ [c]))"
      by (rule kthread_move_to_ready_ok [OF ok0 c a(1), of p "QReady p" _ LIST_LAST]) (use a in auto)
    show thesis
      by (rule that [where h = h and L = L and ms = ms])
        (use d True c m in \<open>simp_all add: switch_out_def out_queues_def out_kt_def po Let_def flip: p_def\<close>)
  qed
qed

lemma switch_in_ok:
  assumes ok: "queues_ok s A" and q: "A (QReady p) = t # ts" and fifo: "t_policy (kt s t) = SCHED_FIFO"
  obtains h L ms where "switch_in sched (int p) s =
      Inr (s\<lparr>kt := (kt s)(t := put_in (kt s t)), ql := h, tq := L, rdy_mask := ms, active_thread := t\<rparr>)"
    and "queues_ok (s\<lparr>kt := (kt s)(t := put_in (kt s t)), ql := h, tq := L, rdy_mask := ms, active_thread := t\<rparr>) (A(QReady p := ts))"
    and "\<forall>r. t \<notin> set ((A(QReady p := ts)) r)"
proof -
  let ?q = "QReady p" and ?A = "A(QReady p := ts)"
  obtain l' h' where a: "list_remove (tq s ?q) LIST_FIRST 0 (ql s) = (t, l', h')"
    and lo: "lists_ok h' ((tq s)(?q := l')) ?A"
    using lists_ok_remove_first [OF queues_okD(1) [OF ok] q] by blast
  have p: "p < 64" using queues_okD(3) [OF ok, of t ?q] q by (auto simp: queued_ready)
  have t0: "t \<noteq> 0" using queues_ok_0 [OF ok, of ?q] q by auto
  have no: "t \<notin> set (?A r)" for r
    using queues_ok_unique_queue [OF ok, of t ?q r] queues_ok_distinct [OF ok, of ?q] q by (auto split: if_splits)
  let ?s0 = "s\<lparr>ql := h', tq := (tq s)(?q := l')\<rparr>"
  have get: "kthreadq_get ?q ?s0 = hd0 ts"
    using lists_ok_get [OF lo, of ?q] by (simp add: kthreadq_get_def)
  have z: "hd0 ts = 0 \<longleftrightarrow> ts = []" using queues_ok_0 [OF ok, of ?q] q by (intro hd0_eq_0) auto
  define ms where "ms = (if ts = [] then (rdy_mask s)[p div 4 := rdy_mask s ! (p div 4) AND NOT (push_bit (p mod 4) 1)] else rdy_mask s)"
  let ?s = "s\<lparr>kt := (kt s)(t := put_in (kt s t)), ql := h', tq := (tq s)(?q := l'), rdy_mask := ms, active_thread := t\<rparr>"
  have m: "mask_ok ms (\<lambda>r. ?A (QReady r) \<noteq> [])"
  proof (cases "ts = []")
    case True
    then show ?thesis using mask_ok_clear [OF queues_okD(2) [OF ok] p] by (auto simp: ms_def elim!: mask_ok_cong)
  next
    case False
    then show ?thesis using queues_okD(2) [OF ok] q by (auto simp: ms_def elim!: mask_ok_cong)
  qed
  have "queued r (kt ?s x)" if "x \<in> set (?A r)" for r x
  proof -
    have "x \<noteq> t" using that no by auto
    moreover have "x \<in> set (A r)" using that q by (auto split: if_splits)
    ultimately show ?thesis using queues_okD(3) [OF ok] by simp
  qed
  then have qok: "queues_ok ?s ?A" using lo m by (auto simp: queues_ok_def)
  have "switch_in sched (int p) s = Inr ?s"
    using a t0 p get z fifo
    by (cases "ts = []") (auto simp: switch_in_def in_ready_q_def kthreadq_remove_def ksched_activate_thread_def
      in_ksched_def put_in_def ms_def kthread_ready_list_set_empty_def Let_def)
  with qok no that show thesis by blast
qed

section \<open>The invariant of the kernel\<close>

text \<open>Every thread is a FIFO thread; \<open>i\<close> is the idle thread, which never blocks.\<close>

definition fifo :: "kst \<Rightarrow> (qid \<Rightarrow> nat list) \<Rightarrow> bool" where
  "fifo s A \<longleftrightarrow> (\<forall>t. t = active_thread s \<or> (\<exists>q. t \<in> set (A q)) \<longrightarrow> t_policy (kt s t) = SCHED_FIFO)"

definition queues_inv :: "kst \<Rightarrow> (qid \<Rightarrow> nat list) \<Rightarrow> nat \<Rightarrow> bool" where
  "queues_inv s A i \<longleftrightarrow> queues_ok s A \<and> fifo s A \<and> (\<forall>q. \<forall>t\<in>set (A q). t < adr_space) \<and>
     active_thread s < adr_space \<and> (i = active_thread s \<or> (\<exists>p. i \<in> set (A (QReady p))))"

definition active_ok :: "kst \<Rightarrow> (qid \<Rightarrow> nat list) \<Rightarrow> bool" where
  "active_ok s A \<longleftrightarrow> active_thread s \<noteq> 0 \<and> t_state (kt s (active_thread s)) = THR_STATE_ACTIVE \<and>
     (\<forall>q. active_thread s \<notin> set (A q)) \<and> 0 \<le> t_prio (kt s (active_thread s)) \<and> t_prio (kt s (active_thread s)) < 64"

definition highest_active :: "kst \<Rightarrow> (qid \<Rightarrow> nat list) \<Rightarrow> bool" where
  "highest_active s A \<longleftrightarrow> (\<forall>p. A (QReady p) \<noteq> [] \<longrightarrow> int p \<le> t_prio (kt s (active_thread s)))"

definition kinv :: "kst \<Rightarrow> (qid \<Rightarrow> nat list) \<Rightarrow> nat \<Rightarrow> bool" where
  "kinv s A i \<longleftrightarrow> queues_inv s A i \<and> active_ok s A \<and> highest_active s A"

text \<open>What holds when a routine calls the scheduler: the active thread may have blocked, ended, or
  may no longer be the one with the highest priority.\<close>

definition sched_pre :: "kst \<Rightarrow> (qid \<Rightarrow> nat list) \<Rightarrow> nat \<Rightarrow> bool" where
  "sched_pre s A i \<longleftrightarrow> queues_inv s A i \<and>
     (active_ok s A \<or> t_state (kt s (active_thread s)) \<noteq> THR_STATE_ACTIVE \<and> (\<exists>p. i \<in> set (A (QReady p))))"

definition sched_result :: "kst \<Rightarrow> (qid \<Rightarrow> nat list) \<Rightarrow> kst \<Rightarrow> (qid \<Rightarrow> nat list) \<Rightarrow> bool" where
  "sched_result s A s' A' \<longleftrightarrow>
     (let c = active_thread s
      in if active_ok s A \<and> highest_active s A then A' = A \<and> active_thread s' = c \<and> kt s' = kt s
         else \<exists>p t ts. A (QReady p) = t # ts \<and> (\<forall>r>p. A (QReady r) = []) \<and> active_thread s' = t \<and>
           A' = (out_queues c s A)(QReady p := ts) \<and>
           kt s' = (out_kt c (kt s))(t := put_in (out_kt c (kt s) t))) \<and>
     s' = s\<lparr>kt := kt s', ql := ql s', tq := tq s', rdy_mask := rdy_mask s', active_thread := active_thread s',
            selected := active_thread s', tss_esp0 := active_thread s' + 64, gdt := gdt s'\<rparr>"

lemma top_ready:
  assumes ok: "queues_ok s A" and "A (QReady r) \<noteq> []"
  obtains p t ts where "p < 64" "kthread_ready_list_highest s = int p" "A (QReady p) = t # ts" "\<forall>r>p. A (QReady r) = []"
proof -
  from highest_ok [OF ok] assms(2) obtain p where "p < 64" "kthread_ready_list_highest s = int p"
    "A (QReady p) \<noteq> []" "\<forall>r>p. A (QReady r) = []" by auto
  then show thesis using that by (cases "A (QReady p)") auto
qed

lemma schedule_stay:
  assumes ok: "queues_ok s A" and a: "active_ok s A" and h: "highest_active s A"
  obtains g where "kthreads_schedule (Suc n) s = Inr (s\<lparr>selected := active_thread s, tss_esp0 := active_thread s + 64, gdt := g\<rparr>)"
proof -
  have "\<not> kthread_ready_list_highest s > t_prio (kt s (active_thread s))"
    using highest_ok [OF ok] a h by (auto simp: active_ok_def highest_active_def)
  moreover obtain g where "arch_select_thread (active_thread s) s = Inr (s\<lparr>selected := active_thread s, tss_esp0 := active_thread s + 64, gdt := g\<rparr>)"
    by (rule arch_select_thread_ok)
  ultimately show thesis using that a by (simp add: active_ok_def Let_def)
qed

lemma out_queues_top:
  assumes "A (QReady p) = t # ts" and "\<not> active_ok s A \<Longrightarrow> t_state (kt s (active_thread s)) \<noteq> THR_STATE_ACTIVE"
    and "active_ok s A \<Longrightarrow> t_prio (kt s (active_thread s)) < int p"
  shows "out_queues (active_thread s) s A (QReady p) = t # ts"
  using assms by (cases "active_ok s A") (auto simp: out_queues_def active_ok_def Let_def)

lemma schedule_switch:
  assumes pre: "sched_pre s A i" and sw: "\<not> (active_ok s A \<and> highest_active s A)"
    and top: "kthread_ready_list_highest s = int p" "A (QReady p) = t # ts" "\<forall>r>p. A (QReady r) = []"
  obtains s' where "kthreads_schedule (Suc n) s = Inr s'" and "sched_result s A s' ((out_queues (active_thread s) s A)(QReady p := ts))"
    and "queues_ok s' ((out_queues (active_thread s) s A)(QReady p := ts))" and "active_thread s' = t"
    and "\<forall>r. t \<notin> set (((out_queues (active_thread s) s A)(QReady p := ts)) r)"
proof -
  let ?c = "active_thread s" and ?B = "out_queues (active_thread s) s A"
  have ok: "queues_ok s A" and fi: "fifo s A" using pre by (auto simp: sched_pre_def queues_inv_def)
  have noact: "\<not> active_ok s A \<Longrightarrow> t_state (kt s ?c) \<noteq> THR_STATE_ACTIVE" using pre by (auto simp: sched_pre_def)
  have lower: "active_ok s A \<Longrightarrow> t_prio (kt s ?c) < int p"
  proof -
    assume a: "active_ok s A"
    then obtain r where "A (QReady r) \<noteq> []" "t_prio (kt s ?c) < int r" using sw by (auto simp: highest_active_def)
    moreover have "r \<le> p" using top(3) calculation(1) by (meson not_le)
    ultimately show ?thesis by simp
  qed
  have cond: "?c = 0 \<or> t_state (kt s ?c) \<noteq> THR_STATE_ACTIVE \<or> int p > t_prio (kt s ?c)"
    using noact lower by (cases "active_ok s A") (auto simp: active_ok_def)
  obtain h L ms where so: "switch_out ?c s = Inr (s\<lparr>kt := out_kt ?c (kt s), ql := h, tq := L, rdy_mask := ms\<rparr>)"
    and ok1: "queues_ok (s\<lparr>kt := out_kt ?c (kt s), ql := h, tq := L, rdy_mask := ms\<rparr>) ?B"
  proof (rule switch_out_ok [OF ok, of ?c])
    show "t_policy (kt s ?c) = SCHED_FIFO" using fi by (simp add: fifo_def)
    show "(\<forall>r. ?c \<notin> set (A r)) \<and> 0 \<le> t_prio (kt s ?c) \<and> t_prio (kt s ?c) < 64" if "t_state (kt s ?c) = THR_STATE_ACTIVE"
      using noact that by (auto simp: active_ok_def)
  qed
  let ?s1 = "s\<lparr>kt := out_kt ?c (kt s), ql := h, tq := L, rdy_mask := ms\<rparr>"
  have Bp: "?B (QReady p) = t # ts" using top(2) noact lower by (rule out_queues_top)
  have ft: "t_policy (kt ?s1 t) = SCHED_FIFO"
    using fi top(2) by (auto simp: fifo_def out_kt_def intro!: exI [of _ "QReady p"])
  let ?K = "(out_kt ?c (kt s))(t := put_in (out_kt ?c (kt s) t))"
  have k1: "kt ?s1 = out_kt ?c (kt s)" by simp
  obtain h' L' ms' where si: "switch_in (kthreads_schedule n) (int p) ?s1 =
      Inr (?s1\<lparr>kt := ?K, ql := h', tq := L', rdy_mask := ms', active_thread := t\<rparr>)"
    and ok2: "queues_ok (?s1\<lparr>kt := ?K, ql := h', tq := L', rdy_mask := ms', active_thread := t\<rparr>) (?B(QReady p := ts))"
    and no: "\<forall>r. t \<notin> set ((?B(QReady p := ts)) r)"
    by (rule switch_in_ok [OF ok1 Bp ft, where sched = "kthreads_schedule n", unfolded k1])
  let ?s2 = "?s1\<lparr>kt := ?K, ql := h', tq := L', rdy_mask := ms', active_thread := t\<rparr>"
  obtain g where sel: "arch_select_thread t ?s2 = Inr (?s2\<lparr>selected := t, tss_esp0 := t + 64, gdt := g\<rparr>)"
    by (rule arch_select_thread_ok)
  let ?s3 = "?s2\<lparr>selected := t, tss_esp0 := t + 64, gdt := g\<rparr>"
  have ex: "kthreads_schedule (Suc n) s = Inr ?s3"
    using so si sel cond top(1) by (simp add: Let_def)
  have ok3: "queues_ok ?s3 (?B(QReady p := ts))" using ok2 by (rule queues_ok_frame) auto
  have "sched_result s A ?s3 (?B(QReady p := ts))"
    using sw top by (auto simp: sched_result_def Let_def)
  with ex ok3 no that show thesis by simp
qed

lemma out_queues_in: "x \<in> set (out_queues c s A q) \<Longrightarrow> x \<in> set (A q) \<or> x = c"
  by (auto simp: out_queues_def Let_def split: if_splits)

lemma out_queues_keeps: "x \<in> set (A q) \<Longrightarrow> x \<in> set (out_queues c s A q)"
  by (auto simp: out_queues_def Let_def)

lemma out_kt_simps [simp]:
  "t_prio (out_kt c K x) = t_prio (K x)" "t_policy (out_kt c K x) = t_policy (K x)"
  by (auto simp: out_kt_def)

lemma kinv_switch:
  assumes pre: "sched_pre s A i" and sw: "\<not> (active_ok s A \<and> highest_active s A)"
    and top: "A (QReady p) = t # ts" "\<forall>r>p. A (QReady r) = []"
    and ok': "queues_ok s' ((out_queues (active_thread s) s A)(QReady p := ts))" and t: "active_thread s' = t"
    and no: "\<forall>r. t \<notin> set (((out_queues (active_thread s) s A)(QReady p := ts)) r)"
    and K: "kt s' = (out_kt (active_thread s) (kt s))(t := put_in (out_kt (active_thread s) (kt s) t))"
  shows "kinv s' ((out_queues (active_thread s) s A)(QReady p := ts)) i"
proof -
  let ?c = "active_thread s"
  define B where "B = out_queues ?c s A"
  define B' where "B' = B(QReady p := ts)"
  have ok: "queues_ok s A" and fi: "fifo s A" and lt: "\<forall>q. \<forall>t\<in>set (A q). t < adr_space" "?c < adr_space"
    and i: "i = ?c \<or> (\<exists>p. i \<in> set (A (QReady p)))"
    using pre by (auto simp: sched_pre_def queues_inv_def)
  have noact: "\<not> active_ok s A \<Longrightarrow> t_state (kt s ?c) \<noteq> THR_STATE_ACTIVE \<and> (\<exists>p. i \<in> set (A (QReady p)))"
    using pre by (auto simp: sched_pre_def)
  have lower: "active_ok s A \<Longrightarrow> t_prio (kt s ?c) < int p"
  proof -
    assume "active_ok s A"
    then obtain r where "A (QReady r) \<noteq> []" "t_prio (kt s ?c) < int r" using sw by (auto simp: highest_active_def)
    moreover have "r \<le> p" using top(2) calculation(1) by (meson not_le)
    ultimately show ?thesis by simp
  qed
  have Bp: "B (QReady p) = t # ts" using out_queues_top [where A = A and p = p and s = s, OF top(1)] noact lower by (simp add: B_def)
  have sub: "x \<in> set (A q) \<or> x = ?c" if "x \<in> set (B' q)" for x q
    using that Bp out_queues_in [of x ?c s A q] by (auto simp: B'_def B_def split: if_splits)
  have tA: "t \<in> set (A (QReady p))" using top(1) by simp
  have "fifo s' B'" using fi sub tA t by (auto simp: fifo_def K)
  moreover have "\<forall>q. \<forall>x\<in>set (B' q). x < adr_space" using lt sub by blast
  moreover have "active_thread s' < adr_space" using lt tA t by blast
  moreover have "i = t \<or> (\<exists>r. i \<in> set (B' (QReady r)))"
  proof -
    have "\<exists>r. i \<in> set (B (QReady r))"
    proof (cases "active_ok s A \<and> i = ?c")
      case True
      then show ?thesis by (auto simp: B_def out_queues_def active_ok_def Let_def)
    next
      case False
      then show ?thesis using i noact out_queues_keeps [of i A] by (auto simp: B_def)
    qed
    then show ?thesis using Bp by (auto simp: B'_def) (metis fun_upd_other fun_upd_same qid.inject(1) set_ConsD)
  qed
  moreover have pt: "t_prio (kt s' t) = int p" "p < 64"
    using queues_okD(3) [OF ok tA] by (simp_all add: K queued_ready)
  moreover have "t \<noteq> 0" using queues_ok_0 [OF ok, of "QReady p"] tA by metis
  then have "active_ok s' B'"
    using t no pt by (auto simp: active_ok_def B'_def B_def K)
  moreover have "int r \<le> int p" if "B' (QReady r) \<noteq> []" for r
  proof (rule ccontr)
    assume r: "\<not> int r \<le> int p"
    then have e: "A (QReady r) = []" using top(2) by simp
    have "B (QReady r) = []"
    proof (cases "active_ok s A")
      case True
      with lower r have "nat (t_prio (kt s ?c)) \<noteq> r" by auto
      then show ?thesis using e by (simp add: B_def out_queues_def Let_def)
    next
      case False
      then show ?thesis using noact e by (simp add: B_def out_queues_def)
    qed
    then show False using that r by (simp add: B'_def)
  qed
  then have "highest_active s' B'" using pt t by (simp add: highest_active_def)
  ultimately show ?thesis using ok' t by (simp add: kinv_def queues_inv_def B'_def B_def)
qed

text \<open>The scheduler from any state a routine may call it in.\<close>

lemma schedule_ok:
  assumes pre: "sched_pre s A i"
  obtains s' A' where "kthreads_schedule (Suc n) s = Inr s'" and "kinv s' A' i" and "sched_result s A s' A'"
proof (cases "active_ok s A \<and> highest_active s A")
  case True
  have qi: "queues_inv s A i" and ok: "queues_ok s A" using pre by (auto simp: sched_pre_def queues_inv_def)
  obtain g where ex: "kthreads_schedule (Suc n) s = Inr (s\<lparr>selected := active_thread s, tss_esp0 := active_thread s + 64, gdt := g\<rparr>)"
    by (rule schedule_stay [OF ok]) (use True in auto)
  show thesis
    by (rule that [OF ex])
      (use True qi in \<open>auto simp: kinv_def queues_inv_def queues_ok_def fifo_def active_ok_def highest_active_def sched_result_def\<close>)
next
  case sw: False
  let ?c = "active_thread s" and ?B = "out_queues (active_thread s) s A"
  have qi: "queues_inv s A i" and ok: "queues_ok s A" and fi: "fifo s A"
    using pre by (auto simp: sched_pre_def queues_inv_def)
  have "\<exists>r. A (QReady r) \<noteq> []"
  proof (cases "active_ok s A")
    case True
    then show ?thesis using sw by (auto simp: highest_active_def)
  next
    case False
    then obtain p where "i \<in> set (A (QReady p))" using pre by (auto simp: sched_pre_def)
    then show ?thesis by (intro exI [of _ p]) auto
  qed
  then obtain p t ts where p: "p < 64" and top: "kthread_ready_list_highest s = int p" "A (QReady p) = t # ts" "\<forall>r>p. A (QReady r) = []"
    using top_ready [OF ok] by metis
  obtain s' where ex: "kthreads_schedule (Suc n) s = Inr s'" and res: "sched_result s A s' (?B(QReady p := ts))"
    and ok': "queues_ok s' (?B(QReady p := ts))" and t: "active_thread s' = t" and no: "\<forall>r. t \<notin> set ((?B(QReady p := ts)) r)"
    by (rule schedule_switch [OF pre sw top])
  have K: "kt s' = (out_kt ?c (kt s))(t := put_in (out_kt ?c (kt s) t))"
    using res sw t by (auto simp: sched_result_def Let_def)
  show thesis
    by (rule that [OF ex kinv_switch [OF pre sw top(2,3) ok' t no K] res])
qed

end
