(* ===== verification/Os_Calls.thy ===== *)
theory Os_Calls
  imports Os_Inv
begin

text \<open>
  The two things a system call does with threads, blocking the caller and releasing others, each
  followed by the scheduler, and what they keep of the kernel's state. The interface to the
  components that build on it: \<open>kinv\<close> before and after, the queues after the call, and
  \<open>sched_frame\<close>, which says that nothing else has changed.
\<close>

section \<open>What scheduling leaves alone\<close>

definition same_thr :: "kthread_t \<Rightarrow> kthread_t \<Rightarrow> bool" where
  "same_thr x x' \<longleftrightarrow> x' = x\<lparr>t_state := t_state x', t_queue := t_queue x', t_activated := t_activated x'\<rparr>"

lemma same_thr_refl [simp]: "same_thr x x"
  by (simp add: same_thr_def)

lemma same_thr_trans: "same_thr x y \<Longrightarrow> same_thr y z \<Longrightarrow> same_thr x z"
  unfolding same_thr_def by (cases x, cases y, cases z) simp

lemma same_thr_upd [simp]:
  "same_thr x (x\<lparr>t_state := a\<rparr>)" "same_thr x (x\<lparr>t_state := a, t_queue := b\<rparr>)" "same_thr x (x\<lparr>t_activated := d\<rparr>)"
  by (simp_all add: same_thr_def)

lemma same_thrD:
  assumes "same_thr x x'"
  shows "t_prio x' = t_prio x" "t_policy x' = t_policy x" "t_errno x' = t_errno x" "t_proc x' = t_proc x"
    "t_qdata x' = t_qdata x" "t_id x' = t_id x" "t_context x' = t_context x" "t_ref_cnt x' = t_ref_cnt x"
    "t_exit_status x' = t_exit_status x"
proof -
  have e: "x' = x\<lparr>t_state := t_state x', t_queue := t_queue x', t_activated := t_activated x'\<rparr>"
    using assms by (simp add: same_thr_def)
  show "t_prio x' = t_prio x" "t_policy x' = t_policy x" "t_errno x' = t_errno x" "t_proc x' = t_proc x"
    "t_qdata x' = t_qdata x" "t_id x' = t_id x" "t_context x' = t_context x" "t_ref_cnt x' = t_ref_cnt x"
    "t_exit_status x' = t_exit_status x"
    by (subst e, simp)+
qed

lemma same_thr_deact: "same_thr x (deact x)"
  by (simp add: deact_def)

lemma same_thr_out: "same_thr x (put_out x)"
  unfolding put_out_def deact_def same_thr_def by simp

lemma same_thr_in: "same_thr x (put_in x)"
  unfolding put_in_def same_thr_def by simp

definition sched_frame :: "kst \<Rightarrow> kst \<Rightarrow> bool" where
  "sched_frame s s' \<longleftrightarrow> s' = s\<lparr>kt := kt s', ql := ql s', tq := tq s', rdy_mask := rdy_mask s', active_thread := active_thread s',
     selected := selected s', tss_esp0 := tss_esp0 s', gdt := gdt s'\<rparr> \<and> (\<forall>t. same_thr (kt s t) (kt s' t))"

lemma sched_frame_refl [simp]: "sched_frame s s"
  by (simp add: sched_frame_def)

lemma sched_frame_trans:
  assumes "sched_frame a b" and "sched_frame b c"
  shows "sched_frame a c"
proof -
  have b: "b = a\<lparr>kt := kt b, ql := ql b, tq := tq b, rdy_mask := rdy_mask b, active_thread := active_thread b,
      selected := selected b, tss_esp0 := tss_esp0 b, gdt := gdt b\<rparr>"
    and c: "c = b\<lparr>kt := kt c, ql := ql c, tq := tq c, rdy_mask := rdy_mask c, active_thread := active_thread c,
      selected := selected c, tss_esp0 := tss_esp0 c, gdt := gdt c\<rparr>"
    and t: "\<And>t. same_thr (kt a t) (kt b t)" "\<And>t. same_thr (kt b t) (kt c t)"
    using assms unfolding sched_frame_def by blast+
  have "c = a\<lparr>kt := kt c, ql := ql c, tq := tq c, rdy_mask := rdy_mask c, active_thread := active_thread c,
      selected := selected c, tss_esp0 := tss_esp0 c, gdt := gdt c\<rparr>"
    by (subst c, subst b) simp
  then show ?thesis using t same_thr_trans unfolding sched_frame_def by blast
qed

lemma sched_frameI:
  "s' = s\<lparr>kt := K, ql := h, tq := L, rdy_mask := ms\<rparr> \<Longrightarrow> (\<And>t. same_thr (kt s t) (K t)) \<Longrightarrow> sched_frame s s'"
  by (simp add: sched_frame_def)

lemma sched_frameD:
  assumes "sched_frame s s'"
  shows "kp s' = kp s" "kpi s' = kpi s" "kg s' = kg s" "ka s' = ka s" "ksem s' = ksem s" "kmon s' = kmon s" "kmq s' = kmq s"
    "kmsg s' = kmsg s" "mq s' = mq s" "umem s' = umem s" "ffm s' = ffm s" "k_mpool s' = k_mpool s" "idst s' = idst s"
    "kalarms s' = kalarms s" "all_threads s' = all_threads s" "kmsg_qs s' = kmsg_qs s" "tim s' = tim s" "rr s' = rr s"
    "kdev s' = kdev s" "procs s' = procs s" "k_threshold s' = k_threshold s" "devices s' = devices s"
    "same_thr (kt s t) (kt s' t)"
proof -
  have e: "s' = s\<lparr>kt := kt s', ql := ql s', tq := tq s', rdy_mask := rdy_mask s', active_thread := active_thread s',
     selected := selected s', tss_esp0 := tss_esp0 s', gdt := gdt s'\<rparr>" using assms by (simp add: sched_frame_def)
  show "kp s' = kp s" "kpi s' = kpi s" "kg s' = kg s" "ka s' = ka s" "ksem s' = ksem s" "kmon s' = kmon s" "kmq s' = kmq s"
    "kmsg s' = kmsg s" "mq s' = mq s" "umem s' = umem s" "ffm s' = ffm s" "k_mpool s' = k_mpool s" "idst s' = idst s"
    "kalarms s' = kalarms s" "all_threads s' = all_threads s" "kmsg_qs s' = kmsg_qs s" "tim s' = tim s" "rr s' = rr s"
    "kdev s' = kdev s" "procs s' = procs s" "k_threshold s' = k_threshold s" "devices s' = devices s"
    by (subst e, simp)+
  show "same_thr (kt s t) (kt s' t)" using assms by (simp add: sched_frame_def)
qed

lemma sched_result_frame:
  assumes "sched_result s A s' A'"
  shows "sched_frame s s'"
proof -
  have e: "s' = s\<lparr>kt := kt s', ql := ql s', tq := tq s', rdy_mask := rdy_mask s', active_thread := active_thread s',
     selected := active_thread s', tss_esp0 := active_thread s' + 64, gdt := gdt s'\<rparr>"
    using assms by (simp add: sched_result_def)
  have "selected s' = active_thread s'" "tss_esp0 s' = active_thread s' + 64" by (subst e, simp)+
  moreover have o: "same_thr (K t) (out_kt c K t)" for K c t by (auto simp: out_kt_def same_thr_out)
  have "same_thr (kt s t) (kt s' t)" for t
  proof (cases "active_ok s A \<and> highest_active s A")
    case True
    then show ?thesis using assms by (simp add: sched_result_def Let_def)
  next
    case False
    then obtain u where "kt s' = (out_kt (active_thread s) (kt s))(u := put_in (out_kt (active_thread s) (kt s) u))"
      using assms by (auto simp: sched_result_def Let_def)
    then show ?thesis
      using o [of "kt s" t] same_thr_trans [OF o [of "kt s" u] same_thr_in, of "active_thread s"] by (cases "t = u") auto
  qed
  ultimately show ?thesis using e unfolding sched_frame_def by metis
qed

lemma sched_result_queues:
  assumes "sched_result s A s' A'" and "\<not> is_ready_q q"
  shows "A' q = A q"
proof (cases "active_ok s A \<and> highest_active s A")
  case True
  then show ?thesis using assms by (simp add: sched_result_def Let_def)
next
  case False
  then obtain p ts where "A' = (out_queues (active_thread s) s A)(QReady p := ts)" using assms by (auto simp: sched_result_def Let_def)
  then show ?thesis using assms(2) by (auto simp: out_queues_def Let_def is_ready_q_def)
qed

text \<open>A thread that was ready is ready or active after scheduling.\<close>

lemma sched_result_ready:
  assumes "sched_result s A s' A'" and "x \<in> set (A (QReady p))"
  shows "x = active_thread s' \<or> x \<in> set (A' (QReady p))"
proof (cases "active_ok s A \<and> highest_active s A")
  case True
  then show ?thesis using assms by (simp add: sched_result_def Let_def)
next
  case False
  then obtain r t ts where r: "A (QReady r) = t # ts" "active_thread s' = t"
    "A' = (out_queues (active_thread s) s A)(QReady r := ts)" using assms by (auto simp: sched_result_def Let_def)
  then show ?thesis using assms(2) out_queues_keeps [where A = A and q = "QReady p", OF assms(2)] by (cases "p = r") auto
qed

section \<open>Changes that do not concern scheduling\<close>

lemma kinv_cong:
  assumes "kinv s A i" and "ql s' = ql s" "tq s' = tq s" "rdy_mask s' = rdy_mask s" "active_thread s' = active_thread s"
    and "\<And>t. t_state (kt s' t) = t_state (kt s t) \<and> t_prio (kt s' t) = t_prio (kt s t) \<and>
      t_policy (kt s' t) = t_policy (kt s t) \<and> t_queue (kt s' t) = t_queue (kt s t)"
  shows "kinv s' A i"
proof -
  have "queued q (kt s' t) = queued q (kt s t)" for q t using assms(6) [of t] by (simp add: queued_def split: qid.splits)
  then show ?thesis
    using assms by (simp add: kinv_def queues_inv_def queues_ok_def fifo_def active_ok_def highest_active_def)
qed

lemma sched_pre_cong:
  assumes "sched_pre s A i" and "ql s' = ql s" "tq s' = tq s" "rdy_mask s' = rdy_mask s" "active_thread s' = active_thread s"
    and "\<And>t. t_state (kt s' t) = t_state (kt s t) \<and> t_prio (kt s' t) = t_prio (kt s t) \<and>
      t_policy (kt s' t) = t_policy (kt s t) \<and> t_queue (kt s' t) = t_queue (kt s t)"
  shows "sched_pre s' A i"
proof -
  have "queued q (kt s' t) = queued q (kt s t)" for q t using assms(6) [of t] by (simp add: queued_def split: qid.splits)
  then show ?thesis
    using assms by (simp add: sched_pre_def queues_inv_def queues_ok_def fifo_def active_ok_def)
qed

lemma SET_ERRNO_eq: "SET_ERRNO e s = upd_t (active_thread s) (\<lambda>x. x\<lparr>t_errno := - e\<rparr>) s"
  by (simp add: SET_ERRNO_def kthread_set_errno_def)

lemma kinv_errno: "kinv s A i \<Longrightarrow> kinv (SET_ERRNO e s) A i"
  by (erule kinv_cong) (simp_all add: SET_ERRNO_eq)

lemma SET_ERRNO_sel [simp]:
  "active_thread (SET_ERRNO e s) = active_thread s" "ksem (SET_ERRNO e s) = ksem s" "kmon (SET_ERRNO e s) = kmon s"
  "umem (SET_ERRNO e s) = umem s" "kmq (SET_ERRNO e s) = kmq s" "kmsg (SET_ERRNO e s) = kmsg s" "mq (SET_ERRNO e s) = mq s"
  "ffm (SET_ERRNO e s) = ffm s" "k_mpool (SET_ERRNO e s) = k_mpool s" "kp (SET_ERRNO e s) = kp s" "ka (SET_ERRNO e s) = ka s"
  "kalarms (SET_ERRNO e s) = kalarms s" "tim (SET_ERRNO e s) = tim s" "kdev (SET_ERRNO e s) = kdev s" "ql (SET_ERRNO e s) = ql s"
  "tq (SET_ERRNO e s) = tq s" "rdy_mask (SET_ERRNO e s) = rdy_mask s" "rr (SET_ERRNO e s) = rr s" "idst (SET_ERRNO e s) = idst s"
  "k_threshold (SET_ERRNO e s) = k_threshold s" "kpi (SET_ERRNO e s) = kpi s"
  "t_prio (kt (SET_ERRNO e s) t) = t_prio (kt s t)" "t_state (kt (SET_ERRNO e s) t) = t_state (kt s t)"
  "t_policy (kt (SET_ERRNO e s) t) = t_policy (kt s t)" "t_queue (kt (SET_ERRNO e s) t) = t_queue (kt s t)"
  "t_proc (kt (SET_ERRNO e s) t) = t_proc (kt s t)" "t_qdata (kt (SET_ERRNO e s) t) = t_qdata (kt s t)"
  "t_id (kt (SET_ERRNO e s) t) = t_id (kt s t)"
  "t_errno (kt (SET_ERRNO e s) t) = (if t = active_thread s then - e else t_errno (kt s t))"
  by (simp_all add: SET_ERRNO_eq)

lemma kinvD:
  assumes "kinv s A i"
  shows "queues_ok s A" "active_ok s A" "highest_active s A" "queues_inv s A i" "fifo s A"
    "active_thread s \<noteq> 0" "active_thread s \<notin> set (A q)" "0 \<le> t_prio (kt s (active_thread s))"
    "t_prio (kt s (active_thread s)) < 64" "t_state (kt s (active_thread s)) = THR_STATE_ACTIVE"
    "t \<in> set (A q) \<Longrightarrow> t < adr_space"
  using assms by (auto simp: kinv_def queues_inv_def active_ok_def)

lemma fifo_mono:
  assumes "fifo s A" and "active_thread s' = active_thread s" and "\<And>x. t_policy (kt s' x) = t_policy (kt s x)"
    and "\<And>r x. x \<in> set (A' r) \<Longrightarrow> x = active_thread s \<or> (\<exists>q. x \<in> set (A q))"
  shows "fifo s' A'"
  using assms unfolding fifo_def by metis

section \<open>Blocking the caller\<close>

lemma block_ok:
  assumes k: "kinv s A i" and i: "active_thread s \<noteq> i" and q: "\<not> is_ready_q q"
  obtains s1 where "kthread_enqueue 0 q s = Inr s1" and "sched_pre s1 (A(q := A q @ [active_thread s])) i"
    and "sched_frame s s1" and "active_thread s1 = active_thread s"
proof -
  let ?c = "active_thread s" and ?A = "A(q := A q @ [active_thread s])"
  obtain h L where e: "kthread_enqueue 0 q s =
      Inr (s\<lparr>kt := (kt s)(?c := (kt s ?c)\<lparr>t_state := THR_STATE_WAIT, t_queue := Some q\<rparr>), ql := h, tq := L\<rparr>)"
    and ok: "queues_ok (s\<lparr>kt := (kt s)(?c := (kt s ?c)\<lparr>t_state := THR_STATE_WAIT, t_queue := Some q\<rparr>), ql := h, tq := L\<rparr>) ?A"
    by (rule kthread_enqueue_ok [OF kinvD(1) [OF k] _ _ _ _ _ q, of ?c 0]) (use kinvD [OF k] in auto)
  let ?s = "s\<lparr>kt := (kt s)(?c := (kt s ?c)\<lparr>t_state := THR_STATE_WAIT, t_queue := Some q\<rparr>), ql := h, tq := L\<rparr>"
  have iq: "\<exists>p. i \<in> set (A (QReady p))" using k i by (auto simp: kinv_def queues_inv_def)
  have ir: "\<exists>p. i \<in> set (?A (QReady p))" using iq q by (auto simp: is_ready_q_def)
  have "fifo ?s ?A" by (rule fifo_mono [OF kinvD(5) [OF k]]) (auto split: if_splits)
  moreover have "\<forall>q. \<forall>t\<in>set (?A q). t < adr_space" using k by (auto simp: kinv_def queues_inv_def)
  ultimately have "queues_inv ?s ?A i" using ok ir k by (simp add: queues_inv_def kinv_def)
  then have "sched_pre ?s ?A i" using ir by (simp add: sched_pre_def)
  moreover have "sched_frame s ?s" by (simp add: sched_frame_def)
  ultimately show thesis using e that by simp
qed

lemma block_schedule:
  assumes k: "kinv s A i" and i: "active_thread s \<noteq> i" and q: "\<not> is_ready_q q"
  obtains s1 s' A' where "kthread_enqueue 0 q s = Inr s1" and "kthreads_schedule (Suc n) s1 = Inr s'" and "kinv s' A' i"
    and "\<And>r. \<not> is_ready_q r \<Longrightarrow> A' r = (A(q := A q @ [active_thread s])) r" and "sched_frame s s'"
    and "sched_frame s s1" and "active_thread s1 = active_thread s"
proof -
  obtain s1 where 1: "kthread_enqueue 0 q s = Inr s1" "sched_pre s1 (A(q := A q @ [active_thread s])) i" "sched_frame s s1"
    "active_thread s1 = active_thread s"
    using block_ok [OF assms] by blast
  obtain s' A' where 2: "kthreads_schedule (Suc n) s1 = Inr s'" "kinv s' A' i" "sched_result s1 (A(q := A q @ [active_thread s])) s' A'"
    using schedule_ok [OF 1(2)] by blast
  show thesis
    by (rule that [OF 1(1) 2(1,2)])
      (use sched_result_queues [OF 2(3)] sched_frame_trans [OF 1(3) sched_result_frame [OF 2(3)]] 1 in auto)
qed

section \<open>Releasing threads\<close>

lemma kinv_sched_pre: "kinv s A i \<Longrightarrow> sched_pre s A i"
  by (simp add: kinv_def sched_pre_def)

lemma sched_preD:
  assumes "sched_pre s A i"
  shows "queues_ok s A" "fifo s A" "t \<in> set (A q) \<Longrightarrow> t < adr_space"
    "i = active_thread s \<or> (\<exists>p. i \<in> set (A (QReady p)))"
  using assms by (auto simp: sched_pre_def queues_inv_def)

text \<open>Threads change queues: what is left to show for \<open>sched_pre\<close> when the queues of the new state are sound.\<close>

lemma sched_pre_move:
  assumes pre: "sched_pre s A i" and ok: "queues_ok s' A'" and f: "sched_frame s s'" "active_thread s' = active_thread s"
    and sub: "\<And>x r. x \<in> set (A' r) \<Longrightarrow> \<exists>q. x \<in> set (A q)" and rdy: "\<And>p x. x \<in> set (A (QReady p)) \<Longrightarrow> x \<in> set (A' (QReady p))"
    and st: "\<And>x. (\<forall>q. x \<notin> set (A q)) \<Longrightarrow> t_state (kt s' x) = t_state (kt s x)"
    and st': "\<And>x q. x \<in> set (A q) \<Longrightarrow> t_state (kt s' x) \<noteq> THR_STATE_ACTIVE"
  shows "sched_pre s' A' i"
proof -
  have same: "t_policy (kt s' x) = t_policy (kt s x)" "t_prio (kt s' x) = t_prio (kt s x)" for x
    using sched_frameD(23) [OF f(1)] same_thrD by metis+
  have "fifo s' A'" by (rule fifo_mono [OF sched_preD(2) [OF pre] f(2) same(1)]) (use sub in blast)
  moreover have "\<forall>q. \<forall>x\<in>set (A' q). x < adr_space" using sub sched_preD(3) [OF pre] by blast
  moreover have "i = active_thread s \<or> (\<exists>p. i \<in> set (A' (QReady p)))" using sched_preD(4) [OF pre] rdy by blast
  ultimately have inv: "queues_inv s' A' i" using ok pre f(2) by (simp add: queues_inv_def sched_pre_def)
  from pre consider "active_ok s A" | "t_state (kt s (active_thread s)) \<noteq> THR_STATE_ACTIVE" "\<exists>p. i \<in> set (A (QReady p))"
    by (auto simp: sched_pre_def)
  then show ?thesis
  proof cases
    case 1
    then have no: "\<forall>q. active_thread s \<notin> set (A q)" by (simp add: active_ok_def)
    then have "\<forall>q. active_thread s \<notin> set (A' q)" using sub by blast
    then have "active_ok s' A'" using 1 st [OF no] same(2) f(2) by (auto simp: active_ok_def)
    then show ?thesis using inv by (simp add: sched_pre_def)
  next
    case 2
    have "t_state (kt s' (active_thread s)) \<noteq> THR_STATE_ACTIVE" using st [of "active_thread s"] st' 2(1) by metis
    then show ?thesis using inv 2(2) rdy f(2) unfolding sched_pre_def by metis
  qed
qed

lemma release_pre:
  assumes pre: "sched_pre s A i" and q: "A q = t # ts" and nq: "\<not> is_ready_q q" and p: "p = nat (t_prio (kt s t))"
  obtains s1 where "kthreadq_release q s = Inr (1, s1)" and "sched_pre s1 (A(q := ts, QReady p := A (QReady p) @ [t])) i"
    and "sched_frame s s1" and "active_thread s1 = active_thread s"
    and "t_state (kt s1 t) = THR_STATE_READY" and "\<And>x. x \<noteq> t \<Longrightarrow> kt s1 x = kt s x"
proof -
  let ?A = "A(q := ts, QReady p := A (QReady p) @ [t])"
  have tq: "t \<in> set (A q)" using q by simp
  have ok0: "queues_ok s A" using pre by (rule sched_preD(1))
  have pr: "t_prio (kt s t) = int p" using queues_okD(3) [OF ok0 tq] p by (simp add: queued_def)
  obtain h L ms where e: "kthreadq_release q s =
      Inr (1, s\<lparr>kt := (kt s)(t := (kt s t)\<lparr>t_state := THR_STATE_READY, t_queue := Some (QReady p)\<rparr>), ql := h, tq := L, rdy_mask := ms\<rparr>)"
    and ok: "queues_ok (s\<lparr>kt := (kt s)(t := (kt s t)\<lparr>t_state := THR_STATE_READY, t_queue := Some (QReady p)\<rparr>), ql := h, tq := L, rdy_mask := ms\<rparr>) ?A"
    by (rule kthreadq_release_first [OF ok0 q nq pr refl])
  let ?s = "s\<lparr>kt := (kt s)(t := (kt s t)\<lparr>t_state := THR_STATE_READY, t_queue := Some (QReady p)\<rparr>), ql := h, tq := L, rdy_mask := ms\<rparr>"
  have f: "sched_frame s ?s" by (simp add: sched_frame_def)
  have "sched_pre ?s ?A i"
  proof (rule sched_pre_move [OF pre ok f])
    have "x \<in> set (A r) \<or> x \<in> set (A q)" if "x \<in> set (?A r)" for x r using that q by (auto split: if_splits)
    then show "\<exists>q. x \<in> set (A q)" if "x \<in> set (?A r)" for x r using that by blast
    show "x \<in> set (?A (QReady r))" if "x \<in> set (A (QReady r))" for r x using that nq q by (auto simp: is_ready_q_def)
    show "t_state (kt ?s x) = t_state (kt s x)" if "\<forall>q. x \<notin> set (A q)" for x using that tq by auto
    show "t_state (kt ?s x) \<noteq> THR_STATE_ACTIVE" if "x \<in> set (A r)" for x r
      using queues_okD(3) [OF ok0 that] by (auto simp: queued_def split: qid.splits)
  qed simp
  then show thesis using e f that by simp
qed

lemma release_schedule:
  assumes k: "kinv s A i" and q: "A q = t # ts" and nq: "\<not> is_ready_q q"
  obtains s1 s' A' where "kthreadq_release q s = Inr (1, s1)" and "kthreads_schedule (Suc n) s1 = Inr s'" and "kinv s' A' i"
    and "\<And>r. \<not> is_ready_q r \<Longrightarrow> A' r = (A(q := ts)) r" and "sched_frame s s'"
    and "sched_frame s s1" and "active_thread s1 = active_thread s"
    and "t = active_thread s' \<or> t \<in> set (A' (QReady (nat (t_prio (kt s t)))))"
proof -
  let ?p = "nat (t_prio (kt s t))" let ?A = "A(q := ts, QReady ?p := A (QReady ?p) @ [t])"
  obtain s1 where 1: "kthreadq_release q s = Inr (1, s1)" "sched_pre s1 ?A i" "sched_frame s s1" "active_thread s1 = active_thread s"
    by (rule release_pre [OF kinv_sched_pre [OF k] q nq refl])
  obtain s' A' where 2: "kthreads_schedule (Suc n) s1 = Inr s'" "kinv s' A' i" "sched_result s1 ?A s' A'"
    using schedule_ok [OF 1(2)] by blast
  have r: "?A r = (A(q := ts)) r" if "\<not> is_ready_q r" for r using that by (auto simp: is_ready_q_def)
  have "t \<in> set (?A (QReady ?p))" by simp
  from sched_result_ready [OF 2(3) this] show thesis
    by (intro that [OF 1(1) 2(1,2)])
      (use sched_result_queues [OF 2(3)] r sched_frame_trans [OF 1(3) sched_result_frame [OF 2(3)]] 1 in auto)
qed

lemma release_all_pre:
  assumes pre: "sched_pre s A i" and nq: "\<not> is_ready_q q"
  obtains s1 where "kthreadq_release_all q s = Inr (int (length (A q)), s1)" and "sched_pre s1 (released q (kt s) A) i"
    and "sched_frame s s1" and "active_thread s1 = active_thread s"
proof -
  have ok0: "queues_ok s A" using pre by (rule sched_preD(1))
  have len: "length (A q) < adr_space" using queue_length [OF ok0] sched_preD(3) [OF pre] by blast
  obtain h L ms where e: "kthreadq_release_all q s =
      Inr (int (length (A q)), s\<lparr>kt := readied (A q) (kt s), ql := h, tq := L, rdy_mask := ms\<rparr>)"
    and ok: "queues_ok (s\<lparr>kt := readied (A q) (kt s), ql := h, tq := L, rdy_mask := ms\<rparr>) (released q (kt s) A)"
    by (rule kthreadq_release_all_ok [OF ok0 nq len])
  let ?s = "s\<lparr>kt := readied (A q) (kt s), ql := h, tq := L, rdy_mask := ms\<rparr>" and ?A = "released q (kt s) A"
  have f: "sched_frame s ?s" by (simp add: sched_frame_def readied_def)
  have "sched_pre ?s ?A i"
  proof (rule sched_pre_move [OF pre ok f])
    have "x \<in> set (A r) \<or> x \<in> set (A q)" if "x \<in> set (?A r)" for x r
      using that by (auto simp: released_def split: if_splits qid.splits)
    then show "\<exists>q. x \<in> set (A q)" if "x \<in> set (?A r)" for x r using that by blast
    show "x \<in> set (?A (QReady r))" if "x \<in> set (A (QReady r))" for r x using that nq by (auto simp: is_ready_q_def released_def)
    show "t_state (kt ?s x) = t_state (kt s x)" if "\<forall>q. x \<notin> set (A q)" for x using that by (simp add: readied_def)
    show "t_state (kt ?s x) \<noteq> THR_STATE_ACTIVE" if "x \<in> set (A r)" for x r
      using queues_okD(3) [OF ok0 that] by (auto simp: queued_def readied_def split: qid.splits)
  qed simp
  then show thesis using e f that by simp
qed

text \<open>The first thread of a queue goes to the end of another one, without becoming ready.\<close>

lemma move_pre:
  assumes pre: "sched_pre s A i" and q: "A q = t # ts" and nq: "\<not> is_ready_q q" "\<not> is_ready_q r" and qr: "q \<noteq> r"
  obtains s0 s1 where "kthreadq_remove q 0 s = (t, s0)" and "kthread_enqueue t r s0 = Inr s1"
    and "sched_pre s1 (A(q := ts, r := A r @ [t])) i" and "sched_frame s s1" and "active_thread s1 = active_thread s"
    and "\<And>x. x \<noteq> t \<Longrightarrow> kt s1 x = kt s x"
proof -
  let ?A = "A(q := ts, r := A r @ [t])"
  have ok0: "queues_ok s A" using pre by (rule sched_preD(1))
  have tq: "t \<in> set (A q)" using q by simp
  have t0: "t \<noteq> 0" using queues_ok_0 [OF ok0, of q] tq by metis
  have pr: "0 \<le> t_prio (kt s t)" "t_prio (kt s t) < 64" using queues_okD(3) [OF ok0 tq] by (simp_all add: queued_def)
  obtain h L where 1: "kthreadq_remove q 0 s = (t, s\<lparr>ql := h, tq := L\<rparr>)" "queues_ok (s\<lparr>ql := h, tq := L\<rparr>) (A(q := ts))"
    "\<And>r. t \<notin> set ((A(q := ts)) r)"
    by (rule kthreadq_remove_first [OF ok0 q nq(1)]) blast
  let ?s0 = "s\<lparr>ql := h, tq := L\<rparr>"
  have te: "t = (if t = 0 then active_thread ?s0 else t)" and pr0: "0 \<le> t_prio (kt ?s0 t)" "t_prio (kt ?s0 t) < 64"
    using t0 pr by simp_all
  obtain h' L' where 2: "kthread_enqueue t r ?s0 =
      Inr (?s0\<lparr>kt := (kt ?s0)(t := (kt ?s0 t)\<lparr>t_state := THR_STATE_WAIT, t_queue := Some r\<rparr>), ql := h', tq := L'\<rparr>)"
    "queues_ok (?s0\<lparr>kt := (kt ?s0)(t := (kt ?s0 t)\<lparr>t_state := THR_STATE_WAIT, t_queue := Some r\<rparr>), ql := h', tq := L'\<rparr>)
      ((A(q := ts))(r := (A(q := ts)) r @ [t]))"
    by (rule kthread_enqueue_ok [OF 1(2) te t0 1(3) pr0 nq(2)])
  let ?s1 = "?s0\<lparr>kt := (kt ?s0)(t := (kt ?s0 t)\<lparr>t_state := THR_STATE_WAIT, t_queue := Some r\<rparr>), ql := h', tq := L'\<rparr>"
  have f: "sched_frame s ?s1" by (simp add: sched_frame_def)
  have ok: "queues_ok ?s1 ?A" using 2(2) qr by simp
  have "sched_pre ?s1 ?A i"
  proof (rule sched_pre_move [OF pre ok f])
    have "x \<in> set (A r') \<or> x \<in> set (A q)" if "x \<in> set (?A r')" for x r' using that q by (auto split: if_splits)
    then show "\<exists>q. x \<in> set (A q)" if "x \<in> set (?A r')" for x r' using that by blast
    show "x \<in> set (?A (QReady p))" if "x \<in> set (A (QReady p))" for p x using that nq by (auto simp: is_ready_q_def)
    show "t_state (kt ?s1 x) = t_state (kt s x)" if "\<forall>q. x \<notin> set (A q)" for x using that tq by auto
    show "t_state (kt ?s1 x) \<noteq> THR_STATE_ACTIVE" if "x \<in> set (A r')" for x r'
      using queues_okD(3) [OF ok0 that] by (auto simp: queued_def split: qid.splits)
  qed simp
  then show thesis by (intro that [OF 1(1) 2(1)]) (use f in simp_all)
qed

text \<open>As long as the ready queues stay the same, the active thread goes on.\<close>

lemma kinv_from_pre:
  assumes k: "kinv s A i" and pre: "sched_pre s' A' i" and a: "active_thread s' = active_thread s"
    and t: "kt s' (active_thread s) = kt s (active_thread s)" and r: "\<And>p. A' (QReady p) = A (QReady p)"
  shows "kinv s' A' i"
proof -
  have "active_ok s' A'" using pre k t a by (auto simp: sched_pre_def kinv_def active_ok_def)
  then show ?thesis using pre k t a r by (simp add: kinv_def sched_pre_def highest_active_def)
qed

text \<open>With nothing to release the state does not change.\<close>

lemma release_all_empty:
  assumes "kinv s A i" and "A q = []"
  shows "kthreadq_release_all q s = Inr (0, s)"
proof -
  define m :: nat where "m = 2 ^ 32 - 1"
  have e: "adr_space = Suc m" by (simp add: m_def)
  show ?thesis unfolding kthreadq_release_all_def e release_loop.simps(2)
    by (simp add: kthreadq_release_empty [OF kinvD(1) [OF assms(1)] assms(2)])
qed

text \<open>Releasing all and, when there were any, scheduling.\<close>

lemma release_all_schedule:
  assumes k: "kinv s A i" and nq: "\<not> is_ready_q q"
  obtains s' A' where "rbind (kthreadq_release_all q s) (\<lambda>(r, s). if r \<noteq> 0 then kthreads_schedule (Suc n) s else Inr s) = Inr s'"
    and "kinv s' A' i" and "\<And>r. \<not> is_ready_q r \<Longrightarrow> A' r = (A(q := [])) r" and "sched_frame s s'"
    and "\<And>t. t \<in> set (A q) \<Longrightarrow> t = active_thread s' \<or> t \<in> set (A' (QReady (nat (t_prio (kt s t)))))"
proof (cases "A q = []")
  case True
  show thesis by (rule that [of s A]) (use release_all_empty [OF k True] True k in auto)
next
  case False
  obtain s1 where 1: "kthreadq_release_all q s = Inr (int (length (A q)), s1)" "sched_pre s1 (released q (kt s) A) i" "sched_frame s s1"
    using release_all_pre [OF kinv_sched_pre [OF k] nq] by metis
  obtain s' A' where 2: "kthreads_schedule (Suc n) s1 = Inr s'" "kinv s' A' i" "sched_result s1 (released q (kt s) A) s' A'"
    using schedule_ok [OF 1(2)] by blast
  have r: "released q (kt s) A r = (A(q := [])) r" if "\<not> is_ready_q r" for r
    using that by (cases r) (auto simp: released_def is_ready_q_def)
  have t: "t = active_thread s' \<or> t \<in> set (A' (QReady (nat (t_prio (kt s t)))))" if "t \<in> set (A q)" for t
  proof -
    have "0 \<le> t_prio (kt s t)" using queues_okD(3) [OF kinvD(1) [OF k] that] by (simp add: queued_def)
    then have "t \<in> set (released q (kt s) A (QReady (nat (t_prio (kt s t)))))"
      using that nq by (auto simp: released_def is_ready_q_def)
    then show ?thesis by (rule sched_result_ready [OF 2(3)])
  qed
  show thesis
    by (rule that [of s' A'])
      (use 1 2 False sched_result_queues [OF 2(3)] r t sched_frame_trans [OF 1(3) sched_result_frame [OF 2(3)]] in auto)
qed

section \<open>Handles\<close>

text \<open>The parameter at \<open>p\<close> points to a user level handle of the kernel object \<open>k\<close>.\<close>

definition handle_at :: "nat \<Rightarrow> nat \<Rightarrow> nat \<Rightarrow> kst \<Rightarrow> bool" where
  "handle_at p h k s \<longleftrightarrow> user_ptr p s = Inr h \<and> h \<noteq> 0 \<and> ptr_at h s = k \<and> k \<noteq> 0"

lemma is_ready_q_simps [simp]:
  "\<not> is_ready_q (QSem k)" "\<not> is_ready_q (QMon k)" "\<not> is_ready_q (QMonq k)" "\<not> is_ready_q (QJoin k)"
  "\<not> is_ready_q (QMsg m)" "\<not> is_ready_q (QAlarm k)" "\<not> is_ready_q (QDev k)" "is_ready_q (QReady p)"
  by (simp_all add: is_ready_q_def)

lemma handle_cases:
  assumes "handle_at p h k s"
  shows "user_ptr p s = Inr h" "h \<noteq> 0" "ptr_at h s = k" "k \<noteq> 0"
  using assms by (auto simp: handle_at_def)

section \<open>New and deleted objects\<close>

lemma kthreadq_init_same:
  assumes "kinv s A i" and "A q = []"
  shows "kthreadq_init q s = s"
proof -
  have "dl_list (ql s) (tq s q) []" using lists_okD(1) [OF queues_okD(1) [OF kinvD(1) [OF assms(1)]], of q] assms(2) by simp
  then have "tq s q = list_init" by (cases "tq s q") (simp add: dl_list_def list_init_def)
  then show ?thesis by (simp add: kthreadq_init_def fun_upd_idem)
qed

text \<open>The kernel heap is sound, and no thread waits in a queue of an object that is not allocated.\<close>

definition no_waiters :: "(qid \<Rightarrow> nat list) \<Rightarrow> nat \<Rightarrow> bool" where
  "no_waiters A k \<longleftrightarrow> A (QSem k) = [] \<and> A (QMon k) = [] \<and> A (QMonq k) = [] \<and> A (QMsg (MGlobal k)) = [] \<and> A (QAlarm k) = [] \<and>
     A (QJoin k) = [] \<and> A (QMsg (MThread k)) = []"

definition heap_ok :: "kst \<Rightarrow> (qid \<Rightarrow> nat list) \<Rightarrow> bool" where
  "heap_ok s A \<longleftrightarrow> ffs_ok (k_mpool s) (ffm s) \<and>
     (\<forall>k. (\<nexists>l. (k, l) \<in> ffs_blocks (k_mpool s) (ffm s)) \<longrightarrow> no_waiters A k)"

lemma kmalloc_ok:
  assumes h: "heap_ok s A" and sz: "sz < 2 ^ 32 - 11"
  obtains k m where "kmalloc sz s = Inr (k, s\<lparr>ffm := m\<rparr>)" and "heap_ok (s\<lparr>ffm := m\<rparr>) A"
    and "k \<noteq> 0 \<longrightarrow> no_waiters A k"
    and "k \<noteq> 0 \<longrightarrow> (\<exists>l\<ge>sz. (k, l) \<notin> ffs_blocks (k_mpool s) (ffm s) \<and>
       ffs_blocks (k_mpool s) m = insert (k, l) (ffs_blocks (k_mpool s) (ffm s)))"
    and "k = 0 \<longrightarrow> m = ffm s"
proof -
  let ?B = "ffs_blocks (k_mpool s)"
  have ok: "ffs_ok (k_mpool s) (ffm s)" using h by (simp add: heap_ok_def)
  obtain k m where a: "ffs_alloc (k_mpool s) sz (ffm s) = Inr (k, m)" "ffs_ok (k_mpool s) m" "k = 0 \<longrightarrow> m = ffm s"
    "k \<noteq> 0 \<longrightarrow> (\<exists>l\<ge>sz. (k, l) \<notin> ?B (ffm s) \<and> ?B m = insert (k, l) (?B (ffm s)))"
    using ffs_alloc_law [OF ok sz] by blast
  have fresh: "no_waiters A k" if k0: "k \<noteq> 0"
  proof -
    obtain l' where l': "(k, l') \<notin> ?B (ffm s)" "?B m = insert (k, l') (?B (ffm s))" using a(4) k0 by blast
    have "(k, l) \<notin> ?B (ffm s)" for l
      using ffs.block_unique [OF a(2), of k l l'] l' by auto
    then show ?thesis using h by (simp add: heap_ok_def)
  qed
  have sup: "?B (ffm s) \<subseteq> ?B m" using a(3,4) by (cases "k = 0") auto
  have hk: "heap_ok (s\<lparr>ffm := m\<rparr>) A"
    unfolding heap_ok_def
  proof (intro conjI allI impI)
    show "ffs_ok (k_mpool (s\<lparr>ffm := m\<rparr>)) (ffm (s\<lparr>ffm := m\<rparr>))" using a(2) by simp
    fix j assume "\<nexists>l. (j, l) \<in> ffs_blocks (k_mpool (s\<lparr>ffm := m\<rparr>)) (ffm (s\<lparr>ffm := m\<rparr>))"
    then have "\<nexists>l. (j, l) \<in> ?B (ffm s)" using sup by auto
    then show "no_waiters A j" using h by (simp add: heap_ok_def)
  qed
  have ex: "kmalloc sz s = Inr (k, s\<lparr>ffm := m\<rparr>)" using a(1) by (simp add: kmalloc_def)
  show thesis
    by (rule that [OF ex hk]) (use a(3,4) fresh in simp_all)
qed

text \<open>The heap as seen through changes elsewhere, and after an object without waiting threads is freed.\<close>

lemma heap_ok_cong: "heap_ok s A \<Longrightarrow> ffm s' = ffm s \<Longrightarrow> k_mpool s' = k_mpool s \<Longrightarrow>
    (\<And>q. \<not> is_ready_q q \<Longrightarrow> A q = [] \<Longrightarrow> A' q = []) \<Longrightarrow> heap_ok s' A'"
  unfolding heap_ok_def by (simp add: is_ready_q_def no_waiters_def)

lemma kfree_ok:
  assumes h: "heap_ok s A" and b: "(k, l) \<in> ffs_blocks (k_mpool s) (ffm s)" and e: "no_waiters A k"
  obtains m where "kfree k s = Inr (s\<lparr>ffm := m\<rparr>)" and "heap_ok (s\<lparr>ffm := m\<rparr>) A"
proof -
  have ok: "ffs_ok (k_mpool s) (ffm s)" using h by (simp add: heap_ok_def)
  obtain m where m: "ffs_free (k_mpool s) k (ffm s) = Inr m" "ffs_ok (k_mpool s) m"
    "ffs_blocks (k_mpool s) m = ffs_blocks (k_mpool s) (ffm s) - {(k, l)}"
    using ffs_free_law [OF ok b] by blast
  have hk: "heap_ok (s\<lparr>ffm := m\<rparr>) A"
    unfolding heap_ok_def
  proof (intro conjI allI impI)
    show "ffs_ok (k_mpool (s\<lparr>ffm := m\<rparr>)) (ffm (s\<lparr>ffm := m\<rparr>))" using m(2) by simp
    fix j assume j: "\<nexists>l. (j, l) \<in> ffs_blocks (k_mpool (s\<lparr>ffm := m\<rparr>)) (ffm (s\<lparr>ffm := m\<rparr>))"
    have "j = k \<or> (\<nexists>l. (j, l) \<in> ffs_blocks (k_mpool s) (ffm s))" using j m(3) by auto
    then show "no_waiters A j" using h e by (auto simp: heap_ok_def)
  qed
  show thesis using m(1) by (intro that [OF _ hk]) (simp add: kfree_def)
qed

lemma ffs_block_bound:
  assumes "ffs_ok mp m" and "(k, l) \<in> ffs_blocks mp m"
  shows "k + l < 2 ^ 32"
proof -
  obtain cs fs where "pool m mp cs fs" "ffs_blocks mp m = set (used_blocks (mp + 8) cs)" by (rule ffs_okE [OF assms(1)])
  then show ?thesis using used_blocks_range [of cs k l "mp + 8"] assms(2) by (auto simp: pool_def tiled_def)
qed

lemma ptr_put [simp]: "ptr_at a (put_at a w s) = unat w"
  by (simp add: ptr_at_def put_at_def ld32_st32_same)

lemma put_at_sel [simp]:
  "kt (put_at a w s) = kt s" "ql (put_at a w s) = ql s" "tq (put_at a w s) = tq s" "rdy_mask (put_at a w s) = rdy_mask s"
  "active_thread (put_at a w s) = active_thread s" "ffm (put_at a w s) = ffm s" "k_mpool (put_at a w s) = k_mpool s"
  "ksem (put_at a w s) = ksem s" "kmon (put_at a w s) = kmon s" "kp (put_at a w s) = kp s" "mq (put_at a w s) = mq s"
  "kmsg (put_at a w s) = kmsg s" "kmq (put_at a w s) = kmq s" "kdev (put_at a w s) = kdev s" "ka (put_at a w s) = ka s"
  "kalarms (put_at a w s) = kalarms s" "tim (put_at a w s) = tim s"
  by (simp_all add: put_at_def)

lemma kinv_put: "kinv s A i \<Longrightarrow> kinv (put_at a w s) A i"
  by (erule kinv_cong) simp_all

lemma ptr_errno [simp]: "ptr_at a (SET_ERRNO e s) = ptr_at a s"
  by (simp add: ptr_at_def)

text \<open>The end of an object with one waiting queue, the body common to the destroying calls: all waiting threads
  are released, the object is freed, the user's handle cleared.\<close>

lemma drop_object:
  assumes k: "kinv s A i" and h: "heap_ok s A" and b: "(k, l) \<in> ffs_blocks (k_mpool s) (ffm s)" and nq: "\<not> is_ready_q q"
    and nw: "no_waiters (A(q := [])) k"
  obtains s' A' where
    "rbind (rbind (kthreadq_release_all q s) (\<lambda>(r, s). if r \<noteq> 0 then kthreads_schedule (Suc n) s else Inr s)) (\<lambda>s.
     rbind (kfree k s) (\<lambda>s. EXIT SUCCESS (put_at a 0 s))) = Inr (0, s')"
    and "kinv s' A' i" and "heap_ok s' A'" and "ptr_at a s' = 0" and "ksem s' = ksem s" and "kmon s' = kmon s"
    and "ffs_blocks (k_mpool s') (ffm s') = ffs_blocks (k_mpool s) (ffm s) - {(k, l)}"
    and "\<And>r. \<not> is_ready_q r \<Longrightarrow> A' r = (A(q := [])) r"
    and "\<And>t. t \<in> set (A q) \<Longrightarrow> t = active_thread s' \<or> (\<exists>p. t \<in> set (A' (QReady p)))"
proof -
  obtain s1 A' where 1: "rbind (kthreadq_release_all q s) (\<lambda>(r, s). if r \<noteq> 0 then kthreads_schedule (Suc n) s else Inr s) = Inr s1"
    "kinv s1 A' i" "\<And>r. \<not> is_ready_q r \<Longrightarrow> A' r = (A(q := [])) r" "sched_frame s s1"
    "\<And>t. t \<in> set (A q) \<Longrightarrow> t = active_thread s1 \<or> t \<in> set (A' (QReady (nat (t_prio (kt s t)))))"
    by (rule release_all_schedule [OF k nq]) blast
  have f: "ffm s1 = ffm s" "k_mpool s1 = k_mpool s" using sched_frameD [OF 1(4)] by auto
  have h1: "heap_ok s1 A'" by (rule heap_ok_cong [OF h f]) (use 1(3) in auto)
  have ok: "ffs_ok (k_mpool s) (ffm s)" using h by (simp add: heap_ok_def)
  have nw': "no_waiters A' k" using nw 1(3) by (simp add: no_waiters_def)
  obtain m where m: "ffs_free (k_mpool s) k (ffm s) = Inr m" "ffs_ok (k_mpool s) m"
    "ffs_blocks (k_mpool s) m = ffs_blocks (k_mpool s) (ffm s) - {(k, l)}"
    using ffs_free_law [OF ok b] by blast
  have kf: "kfree k s1 = Inr (s1\<lparr>ffm := m\<rparr>)" using m(1) f by (simp add: kfree_def)
  have b1: "(k, l) \<in> ffs_blocks (k_mpool s1) (ffm s1)" using b f by simp
  have h2: "heap_ok (s1\<lparr>ffm := m\<rparr>) A'" by (rule kfree_ok [OF h1 b1 nw']) (use kf in simp)
  let ?s = "SET_ERRNO SUCCESS (put_at a 0 (s1\<lparr>ffm := m\<rparr>))"
  have k2: "kinv ?s A' i" by (rule kinv_errno, rule kinv_put, rule kinv_cong [OF 1(2)]) simp_all
  have h3: "heap_ok ?s A'" using h2 by (rule heap_ok_cong) simp_all
  have rd: "t = active_thread ?s \<or> (\<exists>p. t \<in> set (A' (QReady p)))" if "t \<in> set (A q)" for t using 1(5) [OF that] by auto
  show thesis
    by (rule that [OF _ k2 h3]) (use 1(1,3) kf m(3) f rd sched_frameD(5,6) [OF 1(4)] in \<open>simp_all add: EXIT_def\<close>)
qed

end
