(* ===== verification/Os_Demo.thy ===== *)
theory Os_Demo
  imports Os_Calls
begin

text \<open>
  A small concrete state of the kernel: the idle thread (descriptor at 1000) is ready, a thread of a user
  process (descriptor at 2000) is active, a third thread (3000) waits in a queue that is a
  parameter. The theorems about system calls are instantiated on it.
\<close>

definition demo_thread :: "nat \<Rightarrow> int \<Rightarrow> int \<Rightarrow> qid option \<Rightarrow> nat \<Rightarrow> kthread_t" where
  "demo_thread i st pr q proc =
     \<lparr>t_context = \<lparr>c_eip = 0, c_esp = 256, c_cs = 0, c_ss = 0, c_eflags = 0, c_eax = 0, c_proc = proc\<rparr>, t_id = i, t_state = st,
      t_prio = pr, t_policy = 0, t_activated = 0, t_slice_start = Time 0 0, t_slice_end = Time 0 0, t_remainder = Time 0 0,
      t_queue = q, t_qdata = 0, t_stack = 0, t_stack_size = 0, t_proc = proc, t_storage = 0, t_min_prio = 0, t_sig_prio = 0,
      t_handler = 0, t_exit_status = 0, t_errno = 0, t_ref_cnt = 1\<rparr>"

definition demo_alarm :: alarm_t where
  "demo_alarm = \<lparr>exp_time = Time 0 0, action = Null_fn, param = 0, flags = 0, period = Time 0 0\<rparr>"

definition demo_gdt :: GDT_t where
  "demo_gdt = \<lparr>segm_limit0 = 0, base_addr0 = 0, base_addr1 = 0, seg_type = 0, gdt_S = 0, gdt_DPL = 0, gdt_P = 0,
     segm_limit1 = 0, gdt_AVL = 0, gdt_L = 0, gdt_DB = 0, gdt_G = 0, base_addr2 = 0\<rparr>"

definition demo_device :: kdevice_t where
  "demo_device = \<lparr>dev = \<lparr>dev_name = [], irq_num = -1, irq_handler = None, d_callback = 0, d_init = 0, d_destroy = 0,
     d_send = 0, d_recv = 0, d_flags = 0, d_params = 0\<rparr>, opened = False, locked = False\<rparr>"

text \<open>Process memory starts at \<open>0x10000\<close>; \<open>m\<close> is the memory, \<open>q\<close> the queue in which thread 3000 waits.\<close>

definition demo :: "bmem \<Rightarrow> qid \<Rightarrow> kst" where
  "demo m q =
     \<lparr>kt = (\<lambda>_. demo_thread 0 4 0 None 0)(1000 := demo_thread 1 2 0 (Some (QReady 0)) 700,
         2000 := demo_thread 2 1 20 None 800, 3000 := demo_thread 3 3 20 (Some q) 800),
      kp = (\<lambda>_. \<lparr>p_prog = 0, p_stack_pool = 0, p_pi = 900, p_start = 65536, p_size = 65536, p_thr_count = 2\<rparr>),
      kpi = (\<lambda>_. \<lparr>pi_init = 0, pi_entry = 0, pi_exit = 0, pi_prio = 0, pi_heap_size = 0, pi_stack_size = 0, pi_thread_stack = 4096,
         pi_start_adr = 0, pi_heap = 0, pi_stack = 0, pi_end_adr = 0, pi_stdin = 0, pi_stdout = 0\<rparr>),
      kg = (\<lambda>_. \<lparr>prog_name = 0, g_pi = 0, g_start = 0, g_size = 0\<rparr>),
      ka = (\<lambda>_. \<lparr>alarm = demo_alarm, a_active = 0, a_thread = 0, a_magic = ALARM_MAGIC\<rparr>),
      ksem = (\<lambda>_. 0), kmon = (\<lambda>_. \<lparr>lock = 0, owner = 0\<rparr>), kmq = (\<lambda>_. \<lparr>q_min_prio = 0, q_id = 5\<rparr>),
      kmsg = (\<lambda>_. \<lparr>m_type = 1, m_size = 0, m_data = []\<rparr>),
      ql = (\<lambda>x. \<lparr>prev = 0, next = 0, object = x\<rparr>),
      tq = (\<lambda>_. \<lparr>first = 0, last = 0\<rparr>)(QReady 0 := \<lparr>first = 1000, last = 1000\<rparr>, q := \<lparr>first = 3000, last = 3000\<rparr>),
      mq = (\<lambda>_. []), all_threads = [1000, 2000, 3000], procs = [800], progs = [], kalarms = [], kmsg_qs = [],
      active_thread = 2000, rdy_mask = (replicate 16 0)[0 := 1], idst = ids_init, ffm = (\<lambda>_. 0), k_mpool = 0, umem = m,
      tim = \<lparr>clock = Time 0 0, delay = Time 0 54924655, last_load = Time 0 54924655, threshold = half_interval (Time 0 52800),
         alarm_handler = None, hw = 65535\<rparr>,
      k_threshold = Time 0 26400,
      rr = \<lparr>rr_time_slice = Time 0 50000000, rr_threshold = Time 0 10000000, rr_alarm = 0, rr_params = demo_alarm\<rparr>,
      gdt = (\<lambda>_. demo_gdt), tss_esp0 = 2064, selected = 2000, kdev = (\<lambda>_. demo_device), devices = [], k_stdout = 0, u_stdin = 0,
      u_stdout = 0, kih = (\<lambda>_. \<lparr>ih_device = 0, ihandler = K_syscall\<rparr>), ihandlers = (\<lambda>_. []), new_mode = 0, prev_mode = -1\<rparr>"

definition demo_queues :: "qid \<Rightarrow> qid \<Rightarrow> nat list" where
  "demo_queues q = (\<lambda>_. [])(QReady 0 := [1000], q := [3000])"

lemma demo_mask: "mask_ok ((replicate 16 0)[0 := 1]) (\<lambda>p. p = 0)"
proof -
  have "bit ((replicate 16 (0::u32))[0 := 1] ! i) j \<longleftrightarrow> j < 4 \<and> 4 * i + j = 0" if "i < 16" for i j
    using that by (cases "i = 0") (auto simp: bit_1_iff)
  then show ?thesis unfolding mask_ok_def by simp
qed

lemma demo_kinv:
  assumes q: "\<not> is_ready_q q"
  shows "kinv (demo m q) (demo_queues q) 1000"
proof -
  have nq: "q \<noteq> QReady p" for p using q by (auto simp: is_ready_q_def)
  have l: "lists_ok (ql (demo m q)) (tq (demo m q)) (demo_queues q)"
    using nq by (auto simp: lists_ok_def demo_def demo_queues_def dl_list_def)
  have e: "(\<lambda>p. demo_queues q (QReady p) \<noteq> []) = (\<lambda>p. p = 0)" using nq by (auto simp: demo_queues_def fun_eq_iff)
  have m: "mask_ok (rdy_mask (demo m q)) (\<lambda>p. demo_queues q (QReady p) \<noteq> [])"
    unfolding e using demo_mask by (simp add: demo_def)
  have "queued r (kt (demo m q) t)" if "t \<in> set (demo_queues q r)" for r t
    using that nq q
    by (auto simp: demo_queues_def demo_def queued_ready queued_wait demo_thread_def split: if_splits)
  then have ok: "queues_ok (demo m q) (demo_queues q)" using l m by (simp add: queues_ok_def)
  have "fifo (demo m q) (demo_queues q)" by (simp add: fifo_def demo_def demo_thread_def)
  moreover have "\<forall>r. \<forall>t\<in>set (demo_queues q r). t < adr_space" by (auto simp: demo_queues_def)
  moreover have "1000 \<in> set (demo_queues q (QReady 0))" using nq [of 0] by (auto simp: demo_queues_def)
  moreover have "active_thread (demo m q) < adr_space" by (simp add: demo_def)
  ultimately have "queues_inv (demo m q) (demo_queues q) 1000" using ok by (auto simp: queues_inv_def)
  moreover have "active_ok (demo m q) (demo_queues q)"
    by (auto simp: active_ok_def demo_queues_def demo_def demo_thread_def)
  moreover have "highest_active (demo m q) (demo_queues q)"
    using nq by (auto simp: highest_active_def demo_queues_def demo_def demo_thread_def)
  ultimately show ?thesis by (simp add: kinv_def)
qed

text \<open>A memory that holds 32-bit words at the given addresses.\<close>

definition words_at :: "(nat \<times> u32) list \<Rightarrow> bmem" where
  "words_at ws = foldr (\<lambda>(a, w) m. st32 m a w) ws (\<lambda>_. 0)"

lemma demo_sel [simp]:
  "umem (demo m q) = m" "active_thread (demo m q) = 2000" "ksem (demo m q) k = 0" "kmon (demo m q) k = \<lparr>lock = 0, owner = 0\<rparr>"
  "kmq (demo m q) k = \<lparr>q_min_prio = 0, q_id = 5\<rparr>" "mq (demo m q) x = []" "p_start (kp (demo m q) pr) = 65536"
  "p_size (kp (demo m q) pr) = 65536" "t_proc (kt (demo m q) 2000) = 800" "t_prio (kt (demo m q) 2000) = 20"
  "kdev (demo m q) d = demo_device" "kalarms (demo m q) = []"
  by (simp_all add: demo_def demo_thread_def)

lemma demo_queues_sel [simp]:
  "demo_queues q q = [3000]" "r \<noteq> q \<Longrightarrow> \<not> is_ready_q r \<Longrightarrow> demo_queues q r = []"
  by (auto simp: demo_queues_def is_ready_q_def)

text \<open>A kernel heap in which nothing is allocated yet, with room for a small object.\<close>

lemma demo_heap:
  assumes "req \<le> 4000"
  obtains m p m' where "ffs_init 4096 8192 (\<lambda>a. 0) = Inr (4096, m)" and "ffs_ok 4096 m" and "ffs_blocks 4096 m = {}"
    and "ffs_alloc 4096 req m = Inr (p, m')" and "p \<noteq> 0" and "ffs_ok 4096 m'" and "\<exists>l. ffs_blocks 4096 m' = {(p, l)}" and "p < 2 ^ 32"
proof -
  obtain m where m: "ffs_init 4096 8192 (\<lambda>a. 0) = Inr (4096, m)" "pool m 4096 [(8180, Free)] [4104]"
    using ffs_init_pool(2) [OF _ _ _ refl refl, of 4096 8192 "\<lambda>a. 0"] by (auto simp: ALIGN_FW_def ALIGN_eq)
  have "ffs_chunk_size req \<le> 8180"
    using assms by (auto simp: ffs_chunk_size_def ALIGN_FW_def ALIGN_eq Let_def)
  then have big: "\<exists>x\<in>set [4104::nat]. ffs_chunk_size req \<le> m x" using m(2) by (simp add: pool_def tiled_def size_word_def)
  have r: "req + 12 \<le> 2 ^ 32" using assms by simp
  obtain p m' where "ffs_alloc 4096 req m = Inr (p, m')" "p \<noteq> 0"
    by (rule ffs_alloc_some [OF m(2) r refl big]) auto
  note al = this
  have ok: "ffs_ok 4096 m" and bl: "ffs_blocks 4096 m = {}" using pool_ok [OF m(2)] pool_blocks [OF m(2)] by simp_all
  have rq: "req < 2 ^ 32 - 11" using assms by simp
  obtain l where ok': "ffs_ok 4096 m'" and bl': "ffs_blocks 4096 m' = {(p, l)}" using ffs_alloc_law [OF ok rq] al bl by auto
  have "p < 2 ^ 32" using ffs_block_bound [OF ok', of p l] bl' by simp
  with al show thesis using that [OF m(1) ok bl] ok' bl' by blast
qed

text \<open>The concrete state with such a heap.\<close>

lemma demo_heap_ok:
  assumes "ffs_ok 4096 m" and "\<And>k. (\<nexists>l. (k, l) \<in> ffs_blocks 4096 m) \<Longrightarrow> no_waiters (demo_queues q) k"
  shows "heap_ok ((demo u q)\<lparr>ffm := m, k_mpool := 4096\<rparr>) (demo_queues q)"
  using assms by (simp add: heap_ok_def)

end
