(* ===== verification/Os_Fair.thy ===== *)
theory Os_Fair
  imports Os_Demo
begin

text \<open>
  The interface between the thread queues and the components that block and release threads, as a locale, with what follows from
  it for whole histories of calls; and what \<open>kthreads_schedule\<close> guarantees to threads with the FIFO policy, in every state in which a routine of the kernel calls it:
  the thread with the highest priority runs, first come first served among equals, and no thread is lost.
\<close>

section \<open>Waiting queues as a service\<close>

text \<open>\<open>A\<close> gives the threads of every queue in order, \<open>waiting\<close> says which queues are waiting queues. A thread that blocks becomes the last of its
  queue, releasing takes the first one, which can run then.\<close>

datatype qop = Block qid | Wake qid

locale wait_service =
  fixes inv :: "'s \<Rightarrow> (qid \<Rightarrow> nat list) \<Rightarrow> bool"
    and can_block :: "'s \<Rightarrow> bool"
    and me :: "'s \<Rightarrow> nat"
    and waiting :: "qid \<Rightarrow> bool"
    and can_run :: "'s \<Rightarrow> (qid \<Rightarrow> nat list) \<Rightarrow> nat \<Rightarrow> bool"
    and block :: "qid \<Rightarrow> 's \<Rightarrow> 's res"
    and wake :: "qid \<Rightarrow> 's \<Rightarrow> 's res"
  assumes block_law: "inv s A \<Longrightarrow> can_block s \<Longrightarrow> waiting q \<Longrightarrow>
      \<exists>s' A'. block q s = Inr s' \<and> inv s' A' \<and> (\<forall>r. waiting r \<longrightarrow> A' r = (A(q := A q @ [me s])) r)"
    and wake_law: "inv s A \<Longrightarrow> waiting q \<Longrightarrow>
      \<exists>s' A'. wake q s = Inr s' \<and> inv s' A' \<and> (\<forall>r. waiting r \<longrightarrow> A' r = (A(q := tl (A q))) r) \<and>
        (\<forall>t ts. A q = t # ts \<longrightarrow> can_run s' A' t)"
begin

definition serve :: "qop \<Rightarrow> 's \<Rightarrow> 's res" where
  "serve c s = (case c of Block q \<Rightarrow> block q s | Wake q \<Rightarrow> wake q s)"

definition legal :: "qop \<Rightarrow> 's \<Rightarrow> bool" where
  "legal c s = (case c of Block q \<Rightarrow> waiting q \<and> can_block s | Wake q \<Rightarrow> waiting q)"

fun run :: "qop list \<Rightarrow> 's \<Rightarrow> 's res" where
  "run [] s = Inr s"
| "run (c # cs) s = rbind (serve c s) (run cs)"

text \<open>Every call is legal in the state that the calls before it have led to; nothing is asked of what a call does.\<close>

fun all_legal :: "qop list \<Rightarrow> 's \<Rightarrow> bool" where
  "all_legal [] s = True"
| "all_legal (c # cs) s = (legal c s \<and> (case serve c s of Inl e \<Rightarrow> True | Inr s' \<Rightarrow> all_legal cs s'))"

text \<open>The threads that have blocked on \<open>q\<close>, in order.\<close>

fun arrivals :: "qid \<Rightarrow> qop list \<Rightarrow> 's \<Rightarrow> nat list" where
  "arrivals q [] s = []"
| "arrivals q (c # cs) s = (if c = Block q then [me s] else []) @ (case serve c s of Inl e \<Rightarrow> [] | Inr s' \<Rightarrow> arrivals q cs s')"

lemma serve_law:
  assumes "inv s A" and "legal c s"
  obtains s' A' where "serve c s = Inr s'" and "inv s' A'"
    and "\<And>r. waiting r \<Longrightarrow> A' r = (if c = Block r then A r @ [me s] else if c = Wake r then tl (A r) else A r)"
proof (cases c)
  case (Block q)
  then have "can_block s" "waiting q" using assms(2) by (simp_all add: legal_def)
  from block_law [OF assms(1) this] obtain s' A' where "block q s = Inr s'" "inv s' A'"
    "\<forall>r. waiting r \<longrightarrow> A' r = (A(q := A q @ [me s])) r" by blast
  then show thesis using that [of s' A'] Block by (auto simp: serve_def)
next
  case (Wake q)
  then have "waiting q" using assms(2) by (simp add: legal_def)
  from wake_law [OF assms(1) this] obtain s' A' where "wake q s = Inr s'" "inv s' A'"
    "\<forall>r. waiting r \<longrightarrow> A' r = (A(q := tl (A q))) r" by blast
  then show thesis using that [of s' A'] Wake by (auto simp: serve_def)
qed

text \<open>Threads leave a queue in the order in which they came, one for each release that finds one: the releases take threads as long as there are any.\<close>

lemma run_fifo:
  "inv s A \<Longrightarrow> all_legal cs s \<Longrightarrow> \<exists>s' A'. run cs s = Inr s' \<and> inv s' A' \<and>
    (\<forall>q. waiting q \<longrightarrow> (\<exists>gone. A q @ arrivals q cs s = gone @ A' q \<and> min (length (A q)) (count_list cs (Wake q)) \<le> length gone \<and>
      length gone \<le> count_list cs (Wake q)))"
proof (induction cs arbitrary: s A)
  case Nil
  then show ?case by auto
next
  case (Cons c cs)
  have lg: "legal c s" using Cons.prems(2) by simp
  obtain s1 A1 where 1: "serve c s = Inr s1" "inv s1 A1"
    "\<And>r. waiting r \<Longrightarrow> A1 r = (if c = Block r then A r @ [me s] else if c = Wake r then tl (A r) else A r)"
    by (rule serve_law [OF Cons.prems(1) lg]) blast
  obtain s' A' where 2: "run cs s1 = Inr s'" "inv s' A'"
    "\<forall>q. waiting q \<longrightarrow> (\<exists>gone. A1 q @ arrivals q cs s1 = gone @ A' q \<and> min (length (A1 q)) (count_list cs (Wake q)) \<le> length gone \<and>
      length gone \<le> count_list cs (Wake q))"
    using Cons.IH [OF 1(2)] Cons.prems(2) 1(1) by auto
  have "\<exists>gone. A q @ arrivals q (c # cs) s = gone @ A' q \<and> min (length (A q)) (count_list (c # cs) (Wake q)) \<le> length gone \<and>
      length gone \<le> count_list (c # cs) (Wake q)" if q: "waiting q" for q
  proof -
    obtain gone where g: "A1 q @ arrivals q cs s1 = gone @ A' q" "min (length (A1 q)) (count_list cs (Wake q)) \<le> length gone"
      "length gone \<le> count_list cs (Wake q)" using 2(3) q by blast
    show ?thesis
    proof (cases "c = Wake q")
      case True
      then have "A q @ arrivals q (c # cs) s = (take 1 (A q) @ gone) @ A' q" using g(1) 1 q by (cases "A q") auto
      moreover have "min (length (A q)) (count_list (c # cs) (Wake q)) \<le> length (take 1 (A q) @ gone)"
        using True g(2) 1(3) [OF q] by (cases "A q") auto
      moreover have "length (take 1 (A q) @ gone) \<le> count_list (c # cs) (Wake q)" using True g(3) by simp
      ultimately show ?thesis by blast
    next
      case False
      then show ?thesis using g 1 q by (intro exI [of _ gone]) auto
    qed
  qed
  moreover have "run (c # cs) s = Inr s'" using 1(1) 2(1) by simp
  ultimately show ?case using 2(2) by blast
qed

end

section \<open>The kernel as such a service\<close>

text \<open>What the system calls do: \<^verbatim>\<open>kthread_enqueue ( NULL, q ); kthreads_schedule ()\<close>, and \<^verbatim>\<open>if ( kthreadq_release ( q ) ) kthreads_schedule ()\<close>.\<close>

definition block_on :: "nat \<Rightarrow> qid \<Rightarrow> kst \<Rightarrow> kst res" where
  "block_on n q s = rbind (kthread_enqueue 0 q s) (kthreads_schedule n)"

definition wake_one :: "nat \<Rightarrow> qid \<Rightarrow> kst \<Rightarrow> kst res" where
  "wake_one n q s = rbind (kthreadq_release q s) (\<lambda>(r, s). if r \<noteq> 0 then kthreads_schedule n s else Inr s)"

lemma wake_one_ok:
  assumes k: "kinv s A i" and q: "\<not> is_ready_q q"
  obtains s' A' where "wake_one (Suc n) q s = Inr s'" and "kinv s' A' i" and "sched_frame s s'"
    and "\<And>r. \<not> is_ready_q r \<Longrightarrow> A' r = (A(q := tl (A q))) r"
    and "\<And>t ts. A q = t # ts \<Longrightarrow> t = active_thread s' \<or> (\<exists>r. t \<in> set (A' (QReady r)))"
proof (cases "A q")
  case Nil
  then have e: "wake_one (Suc n) q s = Inr s" using kthreadq_release_empty [OF kinvD(1) [OF k]] by (simp add: wake_one_def)
  show thesis by (rule that [OF e k]) (use Nil in auto)
next
  case (Cons t ts)
  obtain s1 s' A' where 1: "kthreadq_release q s = Inr (1, s1)" "kthreads_schedule (Suc n) s1 = Inr s'" "kinv s' A' i"
    "\<And>r. \<not> is_ready_q r \<Longrightarrow> A' r = (A(q := ts)) r" "sched_frame s s'"
    "t = active_thread s' \<or> t \<in> set (A' (QReady (nat (t_prio (kt s t)))))"
    using release_schedule [OF k Cons q, of n] by metis
  have e: "wake_one (Suc n) q s = Inr s'" using 1(1,2) by (simp add: wake_one_def)
  show thesis by (rule that [OF e 1(3,5)]) (use 1(4,6) Cons in auto)
qed

interpretation kwait: wait_service "\<lambda>s A. kinv s A i" "\<lambda>s. active_thread s \<noteq> i" active_thread "\<lambda>q. \<not> is_ready_q q"
  "\<lambda>s A t. t = active_thread s \<or> (\<exists>r. t \<in> set (A (QReady r)))" "block_on (Suc n)" "wake_one (Suc n)" for i n
proof unfold_locales
  fix s A q
  assume k: "kinv s A i" and "active_thread s \<noteq> i" and "\<not> is_ready_q q"
  then obtain s1 s' A' where "kthread_enqueue 0 q s = Inr s1" "kthreads_schedule (Suc n) s1 = Inr s'" "kinv s' A' i"
    "\<And>r. \<not> is_ready_q r \<Longrightarrow> A' r = (A(q := A q @ [active_thread s])) r"
    using block_schedule [of s A i q n] by metis
  then show "\<exists>s' A'. block_on (Suc n) q s = Inr s' \<and> kinv s' A' i \<and> (\<forall>r. \<not> is_ready_q r \<longrightarrow> A' r = (A(q := A q @ [active_thread s])) r)"
    unfolding block_on_def by (intro exI [of _ s'] exI [of _ A']) (simp del: kthreads_schedule.simps)
next
  fix s A q
  assume k: "kinv s A i" and q: "\<not> is_ready_q q"
  then show "\<exists>s' A'. wake_one (Suc n) q s = Inr s' \<and> kinv s' A' i \<and> (\<forall>r. \<not> is_ready_q r \<longrightarrow> A' r = (A(q := tl (A q))) r) \<and>
      (\<forall>t ts. A q = t # ts \<longrightarrow> t = active_thread s' \<or> (\<exists>r. t \<in> set (A' (QReady r))))"
    by (rule wake_one_ok) blast
qed

text \<open>\<^bold>\<open>C4\<close> Waiting queues are first come, first served: in every history of blocking and releasing calls by threads of the FIFO policy other than the idle one, on
  any number of queues, every call returns, the kernel's invariant holds at the end, and for each queue the threads that were in it
  followed by those that have blocked on it are, in this order, the threads that have left followed by those that still wait. At most one leaves per release, and the threads that
  were waiting at the start have all left once there were as many releases. A further release returns, takes the first thread that waits, if there is one, and
  that thread is then active or ready.\<close>

theorem queues_first_come_first_served:
  assumes "kinv s A i" and "kwait.all_legal i n cs s"
  shows "\<exists>s' A'. kwait.run n cs s = Inr s' \<and> kinv s' A' i \<and>
    (\<forall>q. \<not> is_ready_q q \<longrightarrow>
      (\<exists>gone. A q @ kwait.arrivals n q cs s = gone @ A' q \<and> min (length (A q)) (count_list cs (Wake q)) \<le> length gone \<and>
        length gone \<le> count_list cs (Wake q)) \<and>
      (\<exists>s'' A''. wake_one (Suc n) q s' = Inr s'' \<and> kinv s'' A'' i \<and> A'' q = tl (A' q) \<and>
        (\<forall>t ts. A' q = t # ts \<longrightarrow> t = active_thread s'' \<or> (\<exists>r. t \<in> set (A'' (QReady r))))))"
proof -
  obtain s' A' where r: "kwait.run n cs s = Inr s'" "kinv s' A' i"
    "\<forall>q. \<not> is_ready_q q \<longrightarrow> (\<exists>gone. A q @ kwait.arrivals n q cs s = gone @ A' q \<and> min (length (A q)) (count_list cs (Wake q)) \<le> length gone \<and>
      length gone \<le> count_list cs (Wake q))"
    using kwait.run_fifo [OF assms] by blast
  have "\<exists>s'' A''. wake_one (Suc n) q s' = Inr s'' \<and> kinv s'' A'' i \<and> A'' q = tl (A' q) \<and>
      (\<forall>t ts. A' q = t # ts \<longrightarrow> t = active_thread s'' \<or> (\<exists>r. t \<in> set (A'' (QReady r))))" if nq: "\<not> is_ready_q q" for q
    by (rule wake_one_ok [OF r(2) nq, of n]) (use nq in \<open>auto simp del: kthreads_schedule.simps\<close>)
  with r show ?thesis by blast
qed

theorem queues_first_come_first_served_witness:
  "\<exists>s' A'. kwait.run 0 [Block (QSem 5000), Wake (QSem 5000)] (demo (\<lambda>_. 0) (QSem 5000)) = Inr s' \<and> kinv s' A' 1000 \<and>
     kwait.arrivals 0 (QSem 5000) [Block (QSem 5000), Wake (QSem 5000)] (demo (\<lambda>_. 0) (QSem 5000)) = A' (QSem 5000)"
proof -
  let ?d = "demo (\<lambda>_. 0) (QSem 5000)" and ?D = "demo_queues (QSem 5000)" and ?q = "QSem 5000"
  have k: "kinv ?d ?D 1000" by (rule demo_kinv) simp
  have l1: "kwait.legal 1000 (Block ?q) ?d" by (simp add: kwait.legal_def)
  obtain s1 A1 where 1: "kwait.serve 0 (Block ?q) ?d = Inr s1" "kinv s1 A1 1000" by (rule kwait.serve_law [OF k l1])
  have l2: "kwait.legal 1000 (Wake ?q) s1" by (simp add: kwait.legal_def)
  obtain s2 A2 where 2: "kwait.serve 0 (Wake ?q) s1 = Inr s2" by (rule kwait.serve_law [OF 1(2) l2])
  have "kwait.all_legal 1000 0 [Block ?q, Wake ?q] ?d" using l1 l2 1(1) 2 by simp
  from queues_first_come_first_served [OF k this] obtain s' A' gone where r: "kwait.run 0 [Block ?q, Wake ?q] ?d = Inr s'" "kinv s' A' 1000"
    "?D ?q @ kwait.arrivals 0 ?q [Block ?q, Wake ?q] ?d = gone @ A' ?q" "min (length (?D ?q)) (count_list [Block ?q, Wake ?q] (Wake ?q)) \<le> length gone"
    "length gone \<le> count_list [Block ?q, Wake ?q] (Wake ?q)"
    using is_ready_q_simps(1) by meson
  then have "length gone = 1" by simp
  then have "kwait.arrivals 0 ?q [Block ?q, Wake ?q] ?d = A' ?q" using r(3) by (cases gone) auto
  with r(1,2) show ?thesis by blast
qed

section \<open>Who runs\<close>

definition ready_threads :: "(qid \<Rightarrow> nat list) \<Rightarrow> nat set" where
  "ready_threads A = {x. \<exists>p. x \<in> set (A (QReady p))}"

definition running :: "kst \<Rightarrow> nat set" where
  "running s = (if active_thread s \<noteq> 0 \<and> t_state (kt s (active_thread s)) = THR_STATE_ACTIVE then {active_thread s} else {})"

lemma ready_threads_Un: "ready_threads A = (\<Union>p. set (A (QReady p)))"
  by (auto simp: ready_threads_def)

lemma ready_upd: "ready_threads (A(QReady p := ts)) = set ts \<union> (\<Union>r\<in>-{p}. set (A (QReady r)))"
  by (auto simp: ready_threads_Un split: if_splits)

lemma ready_split: "ready_threads A = set (A (QReady p)) \<union> (\<Union>r\<in>-{p}. set (A (QReady r)))"
  by (auto simp: ready_threads_Un)

lemma ready_out: "ready_threads (out_queues c s A) =
    ready_threads A \<union> (if c \<noteq> 0 \<and> t_state (kt s c) = THR_STATE_ACTIVE then {c} else {})"
  unfolding out_queues_def Let_def by (auto simp: ready_upd ready_split [of A "nat (t_prio (kt s c))"])

lemma ready_take: "B (QReady p) = t # ts \<Longrightarrow> insert t (ready_threads (B(QReady p := ts))) = ready_threads B"
  by (simp add: ready_upd ready_split [of B p])

lemma highest_prio:
  assumes "kinv s A i" and "x \<in> set (A (QReady p))"
  shows "t_prio (kt s x) \<le> t_prio (kt s (active_thread s))"
proof -
  have "t_prio (kt s x) = int p" using queues_okD(3) [OF kinvD(1) [OF assms(1)] assms(2)] by (simp add: queued_ready)
  moreover have "A (QReady p) \<noteq> []" using assms(2) by auto
  ultimately show ?thesis using kinvD(3) [OF assms(1)] by (simp add: highest_active_def)
qed

text \<open>\<^bold>\<open>C3\<close> As long as all threads have the FIFO policy (part of \<open>sched_pre\<close>; with threads of the round robin policy nothing is claimed), the scheduler returns and establishes
  the kernel's invariant from every state in which the kernel calls it: \<open>sched_pre\<close> asks for sound queues, and that the active thread is running or has already been put away. The thread that runs
  afterwards has at least the priority of every ready thread; it is the one that was running, when that thread can go on and
  none has a higher priority, and otherwise the first in the queue of the highest level; exactly the threads that could run
  before can run after it, and no waiting queue changes.\<close>

theorem schedule_highest_first:
  assumes pre: "sched_pre s A i"
  shows "\<exists>s' A'. kthreads_schedule (Suc n) s = Inr s' \<and> kinv s' A' i \<and> selected s' = active_thread s' \<and>
    (\<forall>x\<in>ready_threads A'. t_prio (kt s' x) \<le> t_prio (kt s' (active_thread s'))) \<and>
    (if active_ok s A \<and> highest_active s A then active_thread s' = active_thread s
     else \<exists>p ts. A (QReady p) = active_thread s' # ts \<and> (\<forall>r>p. A (QReady r) = [])) \<and>
    insert (active_thread s') (ready_threads A') = running s \<union> ready_threads A \<and> (\<forall>q. \<not> is_ready_q q \<longrightarrow> A' q = A q)"
proof -
  obtain s' A' where 1: "kthreads_schedule (Suc n) s = Inr s'" "kinv s' A' i" "sched_result s A s' A'"
    by (rule schedule_ok [OF pre])
  have hi: "\<forall>x\<in>ready_threads A'. t_prio (kt s' x) \<le> t_prio (kt s' (active_thread s'))"
    using highest_prio [OF 1(2)] by (auto simp: ready_threads_def)
  have "s' = s\<lparr>kt := kt s', ql := ql s', tq := tq s', rdy_mask := rdy_mask s', active_thread := active_thread s',
      selected := active_thread s', tss_esp0 := active_thread s' + 64, gdt := gdt s'\<rparr>" using 1(3) by (simp add: sched_result_def)
  then have sel: "selected s' = active_thread s'" by (rule ssubst [of s']) simp
  have "(if active_ok s A \<and> highest_active s A then active_thread s' = active_thread s
     else \<exists>p ts. A (QReady p) = active_thread s' # ts \<and> (\<forall>r>p. A (QReady r) = [])) \<and>
    insert (active_thread s') (ready_threads A') = running s \<union> ready_threads A"
  proof (cases "active_ok s A \<and> highest_active s A")
    case True
    then have "A' = A" "active_thread s' = active_thread s" using 1(3) by (auto simp: sched_result_def Let_def)
    then show ?thesis using True by (auto simp: running_def active_ok_def)
  next
    case False
    then obtain p t ts where t: "A (QReady p) = t # ts" "\<forall>r>p. A (QReady r) = []" "active_thread s' = t"
      "A' = (out_queues (active_thread s) s A)(QReady p := ts)" using 1(3) by (auto simp: sched_result_def Let_def)
    have "out_queues (active_thread s) s A (QReady p) = t # ts"
    proof (rule out_queues_top [where A = A and s = s, OF t(1)])
      show "t_state (kt s (active_thread s)) \<noteq> THR_STATE_ACTIVE" if "\<not> active_ok s A" using pre that by (auto simp: sched_pre_def)
      show "t_prio (kt s (active_thread s)) < int p" if a: "active_ok s A"
      proof -
        obtain r where "A (QReady r) \<noteq> []" "t_prio (kt s (active_thread s)) < int r"
          using a False by (auto simp: highest_active_def)
        moreover have "r \<le> p" using t(2) calculation(1) by (meson not_le)
        ultimately show ?thesis by simp
      qed
    qed
    then have "insert t (ready_threads A') = ready_threads (out_queues (active_thread s) s A)" unfolding t(4) by (rule ready_take)
    then show ?thesis using False t by (auto simp: ready_out running_def)
  qed
  then show ?thesis using 1(1,2) hi sel sched_result_queues [OF 1(3)] by blast
qed

theorem schedule_highest_first_witness:
  "\<exists>s' A'. kthreads_schedule 1 (demo (\<lambda>_. 0) (QSem 5000)) = Inr s' \<and> kinv s' A' 1000 \<and> active_thread s' = 2000 \<and>
     insert (active_thread s') (ready_threads A') = {1000, 2000}"
proof -
  let ?d = "demo (\<lambda>_. 0) (QSem 5000)" let ?D = "demo_queues (QSem 5000)"
  have k: "kinv ?d ?D 1000" by (rule demo_kinv) simp
  have a: "active_ok ?d ?D \<and> highest_active ?d ?D" using kinvD(2,3) [OF k] by simp
  have r: "running ?d \<union> ready_threads ?D = {1000, 2000}"
    by (auto simp: running_def ready_threads_def demo_def demo_thread_def demo_queues_def split: if_splits)
  obtain s' A' where "kthreads_schedule (Suc 0) ?d = Inr s'" "kinv s' A' 1000" "active_thread s' = active_thread ?d"
    "insert (active_thread s') (ready_threads A') = running ?d \<union> ready_threads ?D"
    using schedule_highest_first [OF kinv_sched_pre [OF k], of 0, unfolded if_P [OF a]] by blast
  then show ?thesis unfolding r by (intro exI [of _ s'] exI [of _ A']) simp
qed

end
