(* ===== verification/Os_Messages.thy ===== *)
theory Os_Messages
  imports Os_Fair
begin

text \<open>
  Message queues and signals, \<^verbatim>\<open>kernel/messages.c\<close>. Every thread has a queue of its own, other queues are
  created by threads. A message is copied into the kernel when it is sent and out of it when it
  is received; a signal starts a new thread in the process of its target. A message occupies 24 bytes and
  its data; the sum is taken modulo \<open>2 ^ 32\<close>, and when it wraps the copy that follows leaves the block
  (\<open>Out_of_bounds\<close>). Abstractly a queue is a sequence of types and data; sending appends to it and receiving takes the
  first message of the wanted type.
\<close>

section \<open>Copying\<close>

fun put_bytes :: "nat \<Rightarrow> u8 list \<Rightarrow> bmem \<Rightarrow> bmem" where
  "put_bytes a [] m = m"
| "put_bytes a (b # bs) m = put_bytes (a + 1) bs (m(a := b))"

text \<open>A user level \<^verbatim>\<open>msg_t\<close> is its type, the size of its data and the data.\<close>

definition msg_type :: "nat \<Rightarrow> kst \<Rightarrow> int" where "msg_type msg s = int_at msg s"
definition msg_size :: "nat \<Rightarrow> kst \<Rightarrow> nat" where "msg_size msg s = ptr_at (msg + 4) s"
definition msg_data :: "nat \<Rightarrow> kst \<Rightarrow> u8 list" where "msg_data msg s = bytes (umem s) (msg + 8) (msg_size msg s)"

definition put_msg :: "nat \<Rightarrow> int \<Rightarrow> u8 list \<Rightarrow> kst \<Rightarrow> kst" where
  "put_msg msg type data s =
     (let s = put_at msg (word_of_int type) s;
          s = put_at (msg + 4) (of_nat (length data)) s
      in s\<lparr>umem := put_bytes (msg + 8) data (umem s)\<rparr>)"

section \<open>Queues\<close>

abbreviation (input) MSG_QUEUE :: int where "MSG_QUEUE \<equiv> 1"
abbreviation (input) MSG_THREAD :: int where "MSG_THREAD \<equiv> 2"
abbreviation (input) MSG_SIGNAL :: int where "MSG_SIGNAL \<equiv> 4"

definition min_prio :: "mqid \<Rightarrow> kst \<Rightarrow> nat" where
  "min_prio q s = (case q of MThread t \<Rightarrow> t_min_prio (kt s t) | MGlobal g \<Rightarrow> q_min_prio (kmq s g))"

definition sys__thread_msg_set :: "nat \<Rightarrow> kst \<Rightarrow> (int \<times> kst) res" where
  "sys__thread_msg_set p s =
     (let min_msg_prio = ptr_at p s;
          min_sig_prio = ptr_at (p + 4) s;
          sig_handler = ptr_at (p + 8) s;
          s = upd_t (kthread_get_active s) (\<lambda>x. x\<lparr>t_min_prio := min_msg_prio, t_sig_prio := min_sig_prio, t_handler := sig_handler\<rparr>) s
      in EXIT SUCCESS s)"

definition sys__create_msg_queue :: "nat \<Rightarrow> kst \<Rightarrow> (int \<times> kst) res" where
  "sys__create_msg_queue p s =
     (let msgq = ptr_at p s;
          prio = ptr_at (p + 4) s
      in assert_errno_exit (msgq \<noteq> 0) E_INVALID_HANDLE s (
         rbind (k_u2k_adr msgq (kthread_get_process 0 s) s) (\<lambda>msgq.
         rbind (kmalloc 36 s) (\<lambda>(g, s).
         assert_errno_exit (g \<noteq> 0) E_NO_MEMORY s (
         let s = s\<lparr>mq := (mq s)(MGlobal g := [])\<rparr>;
             s = kthreadq_init (QMsg (MGlobal g)) s;
             s = s\<lparr>kmq := (kmq s)(g := (kmq s g)\<lparr>q_min_prio := prio\<rparr>)\<rparr>
         in rbind (k_new_unique_id (idst s)) (\<lambda>(i, ids).
            let s = s\<lparr>idst := ids, kmq := (kmq s)(g := (kmq s g)\<lparr>q_id := i\<rparr>)\<rparr>;
                s = put_at (msgq + 4) (of_nat i) s;
                s = put_at msgq (of_nat g) s;
                s = s\<lparr>kmsg_qs := kmsg_qs s @ [g]\<rparr>
            in EXIT SUCCESS s))))))"

text \<open>\<^verbatim>\<open>k_msgq_clean\<close>: remove the first message and free it, until there is none.\<close>

fun msgq_clean_loop :: "nat list \<Rightarrow> mqid \<Rightarrow> kst \<Rightarrow> kst res" where
  "msgq_clean_loop [] q s = Inr s"
| "msgq_clean_loop (m # ms) q s = rbind (kfree m (s\<lparr>mq := (mq s)(q := ms)\<rparr>)) (msgq_clean_loop ms q)"

definition k_msgq_clean :: "mqid \<Rightarrow> kst \<Rightarrow> kst res" where
  "k_msgq_clean q s = msgq_clean_loop (mq s q) q s"

definition sys__delete_msg_queue :: "nat \<Rightarrow> kst \<Rightarrow> (int \<times> kst) res" where
  "sys__delete_msg_queue p s =
     (let msgq = ptr_at p s
      in assert_errno_exit (msgq \<noteq> 0) E_INVALID_HANDLE s (
         rbind (k_u2k_adr msgq (kthread_get_process 0 s) s) (\<lambda>msgq.
         let g = ptr_at msgq s
         in assert_errno_exit (q_id (kmq s g) = ptr_at (msgq + 4) s) E_INVALID_HANDLE s (
            rbind (k_msgq_clean (MGlobal g) s) (\<lambda>s.
            rbind (kthreadq_release_all (QMsg (MGlobal g)) s) (\<lambda>(r, s).
            rbind (k_free_unique_id (q_id (kmq s g)) (idst s)) (\<lambda>ids.
            rbind (kfree g (s\<lparr>idst := ids\<rparr>)) (\<lambda>s.
            let s = put_at (msgq + 4) 0 s;
                s = put_at msgq 0 s
            in EXIT SUCCESS s))))))))"

section \<open>Sending\<close>

text \<open>The queue a message goes to, or the error number that says why there is none.\<close>

definition post_dest :: "int \<Rightarrow> nat \<Rightarrow> kst \<Rightarrow> int + mqid" where
  "post_dest dest_type dest s =
     (if dest_type = MSG_THREAD \<or> dest_type = MSG_SIGNAL then
        let t = kthread_get_descriptor dest s in if t \<noteq> 0 then Inr (MThread t) else Inl E_DONT_EXIST
      else if dest_type = MSG_QUEUE then
        let g = ptr_at dest s in if g \<noteq> 0 \<and> q_id (kmq s g) = ptr_at (dest + 4) s then Inr (MGlobal g) else Inl E_INVALID_HANDLE
      else Inl E_INVALID_TYPE)"

definition post_message :: "nat \<Rightarrow> mqid \<Rightarrow> nat \<Rightarrow> kst \<Rightarrow> (int \<times> kst) res" where
  "post_message n q msg s =
     (if min_prio q s \<le> uint32 (msg_type msg s) then
        rbind (kmalloc ((24 + msg_size msg s) mod 2 ^ 32) s) (\<lambda>(m, s).
        assert_errno_exit (m \<noteq> 0) E_NO_MEMORY s (
        if 24 + msg_size msg s \<ge> 2 ^ 32 then Inl Out_of_bounds
        else
          let s = s\<lparr>kmsg := (kmsg s)(m := \<lparr>m_type = msg_type msg s, m_size = msg_size msg s, m_data = msg_data msg s\<rparr>)\<rparr>;
              s = s\<lparr>mq := (mq s)(q := mq s q @ [m])\<rparr>
          in rbind (kthreadq_release (QMsg q) s) (\<lambda>(r, s).
             rbind (if r \<noteq> 0 then kthreads_schedule n s else Inr s) (\<lambda>s.
             EXIT SUCCESS s))))
      else EXIT E_IGNORED s)"

definition post_signal :: "nat \<Rightarrow> nat \<Rightarrow> nat \<Rightarrow> kst \<Rightarrow> (int \<times> kst) res" where
  "post_signal n t msg s =
     (if t_sig_prio (kt s t) \<le> uint32 (msg_type msg s) then
        rbind (kthread_create_private_storage t ((12 + msg_size msg s) mod 2 ^ 32) s) (\<lambda>(cmsg, s).
        if 12 + msg_size msg s \<ge> 2 ^ 32 then Inl Out_of_bounds
        else
          let s = put_msg cmsg (msg_type msg s) (msg_data msg s) s;
              proc = kthread_get_process t s
          in rbind (k_k2u_adr cmsg proc s) (\<lambda>ucmsg.
             rbind (kthread_create (t_handler (kt s t)) ucmsg (pi_exit (kpi s (p_pi (kp s proc)))) SCHED_FIFO
                      (kthread_get_prio t s + 1) 0 0 True proc s) (\<lambda>(t', s).
             assert_errno_exit (t' \<noteq> 0) (kthread_get_errno 0 s) s (
             let s = kthread_set_private_storage t' cmsg s;
                 s = SET_ERRNO SUCCESS s
             in rbind (kthreads_schedule n s) (\<lambda>s. Inr (- SUCCESS, s))))))
      else EXIT E_IGNORED s)"

definition sys__msg_post :: "nat \<Rightarrow> nat \<Rightarrow> kst \<Rightarrow> (int \<times> kst) res" where
  "sys__msg_post n p s =
     (let dest_type = int_at p s;
          dest = ptr_at (p + 4) s;
          msg = ptr_at (p + 8) s
      in assert_errno_exit (dest \<noteq> 0 \<and> msg \<noteq> 0) E_INVALID_HANDLE s (
         rbind (k_u2k_adr dest (kthread_get_process 0 s) s) (\<lambda>dest.
         rbind (k_u2k_adr msg (kthread_get_process 0 s) s) (\<lambda>msg.
         case post_dest dest_type dest s of
           Inl e \<Rightarrow> EXIT e s
         | Inr (MThread t) \<Rightarrow> if dest_type = MSG_SIGNAL then post_signal n t msg s else post_message n (MThread t) msg s
         | Inr (MGlobal g) \<Rightarrow> post_message n (MGlobal g) msg s))))"

section \<open>Receiving\<close>

text \<open>The first message, or the first one of the given type.\<close>

definition pick_msg :: "int \<Rightarrow> mqid \<Rightarrow> kst \<Rightarrow> nat option" where
  "pick_msg type q s = (if type = 0 then (case mq s q of [] \<Rightarrow> None | m # _ \<Rightarrow> Some m) else find (\<lambda>m. m_type (kmsg s m) = type) (mq s q))"

definition recv_message :: "nat \<Rightarrow> mqid \<Rightarrow> nat \<Rightarrow> int \<Rightarrow> nat \<Rightarrow> nat \<Rightarrow> kst \<Rightarrow> (int \<times> kst) res" where
  "recv_message n q msg type sz fl s =
     (case pick_msg type q s of
        Some m \<Rightarrow>
          if sz < m_size (kmsg s m) then EXIT E_TOO_BIG (put_at (msg + 4) 0 s)
          else
            let s = put_msg msg (m_type (kmsg s m)) (m_data (kmsg s m)) s;
                s = s\<lparr>mq := (mq s)(q := remove1 m (mq s q))\<rparr>
            in rbind (kfree m s) (\<lambda>s. EXIT SUCCESS s)
      | None \<Rightarrow>
          if fl AND IPC_WAIT = 0 then EXIT E_EMPTY s
          else
            let s = SET_ERRNO E_RETRY s
            in rbind (kthread_enqueue 0 (QMsg q) s) (\<lambda>s.
               rbind (kthreads_schedule n s) (\<lambda>s. Inr (- E_RETRY, s))))"

definition sys__msg_recv :: "nat \<Rightarrow> nat \<Rightarrow> kst \<Rightarrow> (int \<times> kst) res" where
  "sys__msg_recv n p s =
     (let src_type = int_at p s;
          src = ptr_at (p + 4) s;
          msg = ptr_at (p + 8) s;
          type = int_at (p + 12) s;
          sz = ptr_at (p + 16) s;
          fl = ptr_at (p + 20) s
      in assert_errno_exit (src \<noteq> 0 \<and> msg \<noteq> 0) E_INVALID_HANDLE s (
         rbind (k_u2k_adr src (kthread_get_process 0 s) s) (\<lambda>src.
         rbind (k_u2k_adr msg (kthread_get_process 0 s) s) (\<lambda>msg.
         assert_errno_exit (src_type = MSG_THREAD \<or> src_type = MSG_QUEUE) E_INVALID_TYPE s (
         if src_type = MSG_THREAD then recv_message n (MThread (kthread_get_active s)) msg type sz fl s
         else
           let g = ptr_at src s
           in assert_errno_exit (g \<noteq> 0 \<and> q_id (kmq s g) = ptr_at (src + 4) s) E_INVALID_HANDLE s (
              recv_message n (MGlobal g) msg type sz fl s))))))"

section \<open>Queues of messages as sequences\<close>

text \<open>What a receiver can see of a message is its type and its data.\<close>

type_synonym amsg = "int \<times> u8 list"

definition abs_msgs :: "kst \<Rightarrow> mqid \<Rightarrow> amsg list" where
  "abs_msgs s q = map (\<lambda>m. (m_type (kmsg s m), m_data (kmsg s m))) (mq s q)"

fun take_first :: "('a \<Rightarrow> bool) \<Rightarrow> 'a list \<Rightarrow> ('a \<times> 'a list) option" where
  "take_first P [] = None"
| "take_first P (x # xs) = (if P x then Some (x, xs) else map_option (apsnd ((#) x)) (take_first P xs))"

text \<open>A receiver asks for any message (type 0) or for the first one of a type.\<close>

definition wanted :: "int \<Rightarrow> amsg \<Rightarrow> bool" where
  "wanted type x \<longleftrightarrow> type = 0 \<or> fst x = type"

lemma find_take_first:
  "take_first P (map f ms) = (case find (\<lambda>m. P (f m)) ms of None \<Rightarrow> None | Some m \<Rightarrow> Some (f m, map f (remove1 m ms)))"
proof (induction ms)
  case (Cons m ms)
  have "P (f a)" if "find (\<lambda>m. P (f m)) ms = Some a" for a using that by (auto simp: find_Some_iff)
  then show ?case using Cons by (auto split: option.splits)
qed simp

lemma pick_msg_eq: "pick_msg type q s = find (\<lambda>m. wanted type (m_type (kmsg s m), m_data (kmsg s m))) (mq s q)"
  by (cases "mq s q") (auto simp: pick_msg_def wanted_def)

lemma take_first_abs:
  "take_first (wanted type) (abs_msgs s q) = (case pick_msg type q s of None \<Rightarrow> None
     | Some m \<Rightarrow> Some ((m_type (kmsg s m), m_data (kmsg s m)), map (\<lambda>m. (m_type (kmsg s m), m_data (kmsg s m))) (remove1 m (mq s q))))"
  unfolding abs_msgs_def pick_msg_eq by (rule find_take_first)

text \<open>Every message is in one queue, once, on an allocated block; its size field is the length of its data.\<close>

definition msg_wf :: "kst \<Rightarrow> (qid \<Rightarrow> nat list) \<Rightarrow> nat \<Rightarrow> bool" where
  "msg_wf s A m \<longleftrightarrow> (\<exists>l. (m, l) \<in> ffs_blocks (k_mpool s) (ffm s)) \<and> no_waiters A m \<and>
     m_size (kmsg s m) = length (m_data (kmsg s m)) \<and> m_size (kmsg s m) < 2 ^ 32 \<and>
     - (2 ^ 31) \<le> m_type (kmsg s m) \<and> m_type (kmsg s m) < 2 ^ 31"

definition msgs_ok :: "kst \<Rightarrow> (qid \<Rightarrow> nat list) \<Rightarrow> bool" where
  "msgs_ok s A \<longleftrightarrow> (\<forall>q. distinct (mq s q)) \<and> (\<forall>q r. q \<noteq> r \<longrightarrow> set (mq s q) \<inter> set (mq s r) = {}) \<and>
     (\<forall>q. \<forall>m\<in>set (mq s q). msg_wf s A m)"

lemma msgs_okD:
  assumes "msgs_ok s A"
  shows "distinct (mq s q)" "q \<noteq> r \<Longrightarrow> m \<in> set (mq s q) \<Longrightarrow> m \<notin> set (mq s r)" "m \<in> set (mq s q) \<Longrightarrow> msg_wf s A m"
  using assms unfolding msgs_ok_def by blast+

section \<open>Copies\<close>

lemma put_bytes_outside: "a < b \<or> b + length bs \<le> a \<Longrightarrow> put_bytes b bs m a = m a"
  by (induction b bs m rule: put_bytes.induct) auto

lemma bytes_put: "bytes (put_bytes a bs m) a (length bs) = bs"
  by (induction bs arbitrary: a m) (simp_all add: put_bytes_outside)

lemma ld32_put: "a + 4 \<le> b \<Longrightarrow> ld32 (put_bytes b bs m) a = ld32 m a"
  by (simp add: ld32_def put_bytes_outside)

lemma put_msg_read:
  assumes "length d < 2 ^ 32" and "- (2 ^ 31) \<le> ty" and "ty < 2 ^ 31"
  shows "msg_type msg (put_msg msg ty d s) = ty" and "msg_data msg (put_msg msg ty d s) = d"
proof -
  have sz: "msg_size msg (put_msg msg ty d s) = length d"
    using assms(1) by (simp add: msg_size_def put_msg_def put_at_def ptr_at_def ld32_put ld32_st32_same unat_of_nat take_bit_nat_eq_self Let_def)
  show "msg_type msg (put_msg msg ty d s) = ty"
    using int32_id [OF assms(2,3)] by (simp add: msg_type_def put_msg_def put_at_def int_at_def ld32_put ld32_st32_same ld32_st32_other int32_def Let_def)
  show "msg_data msg (put_msg msg ty d s) = d"
    unfolding msg_data_def sz by (simp add: put_msg_def bytes_put Let_def)
qed

lemma put_msg_sel [simp]:
  "kt (put_msg a ty d s) = kt s" "ql (put_msg a ty d s) = ql s" "tq (put_msg a ty d s) = tq s" "rdy_mask (put_msg a ty d s) = rdy_mask s"
  "active_thread (put_msg a ty d s) = active_thread s" "ffm (put_msg a ty d s) = ffm s" "k_mpool (put_msg a ty d s) = k_mpool s"
  "mq (put_msg a ty d s) = mq s" "kmsg (put_msg a ty d s) = kmsg s"
  by (simp_all add: put_msg_def Let_def)

section \<open>Sending\<close>

definition msg_of :: "nat \<Rightarrow> kst \<Rightarrow> amsg" where
  "msg_of msg s = (msg_type msg s, msg_data msg s)"

lemma msgs_ok_add:
  assumes ok: "msgs_ok s A" and fresh: "\<And>l. (k, l) \<notin> ffs_blocks (k_mpool s) (ffm s)"
    and b: "ffs_blocks (k_mpool s') (ffm s') = insert (k, l) (ffs_blocks (k_mpool s) (ffm s))"
    and m: "mq s' = (mq s)(q := mq s q @ [k])" and c: "kmsg s' = (kmsg s)(k := x)" and x: "m_size x = length (m_data x)" "m_size x < 2 ^ 32"
      "- (2 ^ 31) \<le> m_type x" "m_type x < 2 ^ 31"
    and w: "\<And>j. no_waiters A j \<Longrightarrow> no_waiters A' j" and nk: "no_waiters A k"
  shows "msgs_ok s' A'" and "abs_msgs s' = (abs_msgs s)(q := abs_msgs s q @ [(m_type x, m_data x)])"
proof -
  have new: "k \<notin> set (mq s r)" for r using msgs_okD(3) [OF ok, of k r] fresh by (auto simp: msg_wf_def)
  have e: "kmsg s' j = kmsg s j" if "j \<in> set (mq s r)" for j r using new that c by auto
  have each: "msg_wf s' A' j" if j: "j \<in> set (mq s' r)" for j r
  proof (cases "j = k")
    case True
    then show ?thesis using b c x w [OF nk] by (auto simp: msg_wf_def)
  next
    case False
    then have "j \<in> set (mq s r)" using j m by (auto split: if_splits)
    then show ?thesis using msgs_okD(3) [OF ok, of j r] e [of j r] w b by (auto simp: msg_wf_def)
  qed
  have "distinct (mq s' r)" for r using msgs_okD(1) [OF ok] new m by auto
  moreover have "set (mq s' r) \<inter> set (mq s' r') = {}" if "r \<noteq> r'" for r r'
    using that msgs_okD(2) [OF ok that] msgs_okD(2) [OF ok that [symmetric]] new m by auto
  ultimately show "msgs_ok s' A'" using each by (simp add: msgs_ok_def)
  have "map (\<lambda>m. (m_type (kmsg s' m), m_data (kmsg s' m))) (mq s r) = abs_msgs s r" for r
    unfolding abs_msgs_def by (rule map_cong) (use e in auto)
  then show "abs_msgs s' = (abs_msgs s)(q := abs_msgs s q @ [(m_type x, m_data x)])"
    using m c by (auto simp: abs_msgs_def [of s'] fun_eq_iff)
qed

text \<open>Sending when there is memory for the message, at \<open>j\<close>.\<close>

lemma post_queued:
  assumes k: "kinv s A i" and ok: "msgs_ok s A" and sz: "msg_size msg s < 2 ^ 32 - 35" and pr: "min_prio q s \<le> uint32 (msg_type msg s)" and j: "j \<noteq> 0"
    and a: "kmalloc (24 + msg_size msg s) s = Inr (j, s\<lparr>ffm := m\<rparr>)" "heap_ok (s\<lparr>ffm := m\<rparr>) A" "no_waiters A j"
      "(j, l) \<notin> ffs_blocks (k_mpool s) (ffm s)" "ffs_blocks (k_mpool s) m = insert (j, l) (ffs_blocks (k_mpool s) (ffm s))"
  shows "\<exists>s' A'. post_message (Suc n) q msg s = Inr (0, s') \<and> kinv s' A' i \<and> heap_ok s' A' \<and> msgs_ok s' A' \<and>
    abs_msgs s' = (abs_msgs s)(q := abs_msgs s q @ [msg_of msg s]) \<and>
    (\<forall>r. \<not> is_ready_q r \<longrightarrow> A' r = (A(QMsg q := tl (A (QMsg q)))) r) \<and>
    (\<forall>t ts. A (QMsg q) = t # ts \<longrightarrow> t = active_thread s' \<or> (\<exists>r. t \<in> set (A' (QReady r))))"
proof -
  note l = a(4,5)
  have okm: "ffs_ok (k_mpool s) m" using a(2) by (simp add: heap_ok_def)
  have fresh: "(j, l') \<notin> ffs_blocks (k_mpool s) (ffm s)" for l'
    using ffs.block_unique [OF okm, of j l' l] l by auto
  let ?x = "\<lparr>m_type = msg_type msg s, m_size = msg_size msg s, m_data = msg_data msg s\<rparr>"
  let ?u = "s\<lparr>ffm := m, kmsg := (kmsg s)(j := ?x), mq := (mq s)(q := mq s q @ [j])\<rparr>"
  have ku: "kinv ?u A i" using k by (rule kinv_cong) simp_all
  have su: "msg_type msg (s\<lparr>ffm := m\<rparr>) = msg_type msg s" "msg_size msg (s\<lparr>ffm := m\<rparr>) = msg_size msg s"
    "msg_data msg (s\<lparr>ffm := m\<rparr>) = msg_data msg s"
    by (simp_all add: msg_type_def msg_size_def msg_data_def int_at_def ptr_at_def)
  have post: "post_message (Suc n) q msg s = rbind (wake_one (Suc n) (QMsg q) ?u) (EXIT SUCCESS)"
    using a(1) j pr sz
    by (simp add: post_message_def assert_errno_exit_def wake_one_def su rbind_assoc case_prod_beta Let_def del: kthreads_schedule.simps)
      (simp add: rbind_def split: sum.splits)
  obtain s1 A' where 1: "wake_one (Suc n) (QMsg q) ?u = Inr s1" "kinv s1 A' i" "sched_frame ?u s1"
    "\<And>r. \<not> is_ready_q r \<Longrightarrow> A' r = (A(QMsg q := tl (A (QMsg q)))) r"
    "\<And>t ts. A (QMsg q) = t # ts \<Longrightarrow> t = active_thread s1 \<or> (\<exists>r. t \<in> set (A' (QReady r)))"
    by (rule wake_one_ok [OF ku, of "QMsg q" n]) auto
  let ?s' = "SET_ERRNO SUCCESS s1"
  have f: "ffm s1 = m" "k_mpool s1 = k_mpool s" "mq s1 = (mq s)(q := mq s q @ [j])" "kmsg s1 = (kmsg s)(j := ?x)"
    using sched_frameD [OF 1(3)] by simp_all
  have nw: "no_waiters A' x" if "no_waiters A x" for x using that 1(4) by (auto simp: no_waiters_def)
  have hp': "heap_ok ?s' A'" by (rule heap_ok_cong [OF a(2)]) (use f 1(4) in auto)
  have b: "ffs_blocks (k_mpool ?s') (ffm ?s') = insert (j, l) (ffs_blocks (k_mpool s) (ffm s))" using l f by simp
  have x: "m_size ?x = length (m_data ?x)" "m_size ?x < 2 ^ 32" "- (2 ^ 31) \<le> m_type ?x" "m_type ?x < 2 ^ 31"
    using sz sint_range_size [of "ld32 (umem s) msg"] by (simp_all add: msg_data_def msg_type_def int_at_def word_size)
  have nj: "no_waiters A j" by (rule a(3))
  have m': "mq ?s' = (mq s)(q := mq s q @ [j])" "kmsg ?s' = (kmsg s)(j := ?x)" using f by simp_all
  have "msgs_ok ?s' A'" "abs_msgs ?s' = (abs_msgs s)(q := abs_msgs s q @ [(m_type ?x, m_data ?x)])"
    by (rule msgs_ok_add [OF ok fresh b m' x nw nj], assumption+)+
  then show ?thesis using post 1 hp' kinv_errno [OF 1(2)] by (intro exI [of _ ?s'] exI [of _ A']) (auto simp: EXIT_def msg_of_def)
qed

text \<open>\<^bold>\<open>C11\<close> \<open>post_message\<close> appends the message to the queue as it is in the sender's memory, and releases the first thread that waits for a
  message there; every other queue of messages or threads stays as it is and all invariants hold. Without memory for
  the message nothing happens and the sender gets \<^verbatim>\<open>E_NO_MEMORY\<close>; a message below the queue's minimal priority is ignored.\<close>

theorem msg_post_appends:
  assumes k: "kinv s A i" and hp: "heap_ok s A" and ok: "msgs_ok s A" and sz: "msg_size msg s < 2 ^ 32 - 35"
  shows "if min_prio q s \<le> uint32 (msg_type msg s)
    then \<exists>j m. kmalloc (24 + msg_size msg s) s = Inr (j, s\<lparr>ffm := m\<rparr>) \<and>
      (if j = 0 then post_message (Suc n) q msg s = Inr (- E_NO_MEMORY, SET_ERRNO E_NO_MEMORY s)
       else \<exists>s' A'. post_message (Suc n) q msg s = Inr (0, s') \<and> kinv s' A' i \<and> heap_ok s' A' \<and> msgs_ok s' A' \<and>
         abs_msgs s' = (abs_msgs s)(q := abs_msgs s q @ [msg_of msg s]) \<and>
         (\<forall>r. \<not> is_ready_q r \<longrightarrow> A' r = (A(QMsg q := tl (A (QMsg q)))) r) \<and>
         (\<forall>t ts. A (QMsg q) = t # ts \<longrightarrow> t = active_thread s' \<or> (\<exists>r. t \<in> set (A' (QReady r)))))
    else post_message (Suc n) q msg s = Inr (- E_IGNORED, SET_ERRNO E_IGNORED s)" (is "if _ then \<exists>j m. _ \<and> (if _ then _ else \<exists>s' A'. ?Q s' A') else _")
proof (cases "min_prio q s \<le> uint32 (msg_type msg s)")
  case False
  then show ?thesis by (simp add: post_message_def EXIT_def)
next
  case pr: True
  have sz': "24 + msg_size msg s < 2 ^ 32 - 11" using sz by simp
  obtain j m where a: "kmalloc (24 + msg_size msg s) s = Inr (j, s\<lparr>ffm := m\<rparr>)" "heap_ok (s\<lparr>ffm := m\<rparr>) A" "j \<noteq> 0 \<longrightarrow> no_waiters A j"
    "j \<noteq> 0 \<longrightarrow> (\<exists>l\<ge>24 + msg_size msg s. (j, l) \<notin> ffs_blocks (k_mpool s) (ffm s) \<and>
       ffs_blocks (k_mpool s) m = insert (j, l) (ffs_blocks (k_mpool s) (ffm s)))"
    "j = 0 \<longrightarrow> m = ffm s"
    by (rule kmalloc_ok [OF hp sz'])
  show ?thesis
  proof (cases "j = 0")
    case True
    have "post_message (Suc n) q msg s = Inr (- E_NO_MEMORY, SET_ERRNO E_NO_MEMORY s)"
      using a(1,5) True pr sz by (simp add: post_message_def assert_errno_exit_def EXIT_def)
    then show ?thesis unfolding if_P [OF pr] using a(1) True by auto
  next
    case j: False
    obtain l where "(j, l) \<notin> ffs_blocks (k_mpool s) (ffm s)" "ffs_blocks (k_mpool s) m = insert (j, l) (ffs_blocks (k_mpool s) (ffm s))"
      using a(4) j by blast
    note post_queued [OF k ok sz pr j a(1,2) _ this, of n]
    with a(3) j have post: "\<exists>s' A'. ?Q s' A'" by blast
    show ?thesis unfolding if_P [OF pr] by (intro exI [of _ j] exI [of _ m] conjI a(1)) (simp only: j if_False, rule post)
  qed
qed

theorem msg_post_appends_witness:
  "\<exists>m s' A'. post_message 1 (MGlobal 5) 66000 (put_msg 66000 7 [1, 2] ((demo (\<lambda>_. 0) (QDev 7))\<lparr>ffm := m, k_mpool := 4096\<rparr>)) = Inr (0, s') \<and>
     kinv s' A' 1000 \<and> abs_msgs s' (MGlobal 5) = [(7, [1, 2])]"
proof -
  let ?D = "demo_queues (QDev 7)"
  obtain m p m' where m: "ffs_init 4096 8192 (\<lambda>a. 0) = Inr (4096, m)" "ffs_ok 4096 m" "ffs_blocks 4096 m = {}"
    "ffs_alloc 4096 26 m = Inr (p, m')" "p \<noteq> 0" by (rule demo_heap [of 26]) (simp, blast)
  let ?d = "(demo (\<lambda>_. 0) (QDev 7))\<lparr>ffm := m, k_mpool := 4096\<rparr>"
  let ?s = "put_msg 66000 7 [1, 2] ?d"
  have nw: "no_waiters ?D j" for j by (simp add: no_waiters_def)
  have k: "kinv ?s ?D 1000" by (rule kinv_cong [OF demo_kinv [of "QDev 7" "\<lambda>_. 0"]]) simp_all
  have hp: "heap_ok ?s ?D" by (rule heap_ok_cong [OF demo_heap_ok [OF m(2) nw]]) simp_all
  have ok: "msgs_ok ?s ?D" by (simp add: msgs_ok_def)
  have ms: "msg_type 66000 ?s = 7" "msg_data 66000 ?s = [1, 2]" by (rule put_msg_read; simp)+
  have sz: "msg_size 66000 ?s = 2" using arg_cong [OF ms(2), of length] by (simp add: msg_data_def)
  have al: "kmalloc (24 + msg_size 66000 ?s) ?s = Inr (p, ?s\<lparr>ffm := m'\<rparr>)" using m(4) by (simp add: kmalloc_def sz)
  have pr: "min_prio (MGlobal 5) ?s \<le> uint32 (msg_type 66000 ?s)" by (simp add: min_prio_def put_msg_def put_at_def Let_def)
  have "msg_size 66000 ?s < 2 ^ 32 - 35" by (simp add: sz)
  from msg_post_appends [OF k hp ok this, of "MGlobal 5" 0, unfolded if_P [OF pr]]
  obtain j m'' where "kmalloc (24 + msg_size 66000 ?s) ?s = Inr (j, ?s\<lparr>ffm := m''\<rparr>)"
    and r: "if j = 0 then post_message (Suc 0) (MGlobal 5) 66000 ?s = Inr (- E_NO_MEMORY, SET_ERRNO E_NO_MEMORY ?s)
      else \<exists>s' A'. post_message (Suc 0) (MGlobal 5) 66000 ?s = Inr (0, s') \<and> kinv s' A' 1000 \<and> heap_ok s' A' \<and> msgs_ok s' A' \<and>
         abs_msgs s' = (abs_msgs ?s)(MGlobal 5 := abs_msgs ?s (MGlobal 5) @ [msg_of 66000 ?s]) \<and>
         (\<forall>r. \<not> is_ready_q r \<longrightarrow> A' r = (?D(QMsg (MGlobal 5) := tl (?D (QMsg (MGlobal 5))))) r) \<and>
         (\<forall>t ts. ?D (QMsg (MGlobal 5)) = t # ts \<longrightarrow> t = active_thread s' \<or> (\<exists>r. t \<in> set (A' (QReady r))))"
    by blast
  then have "j \<noteq> 0" using al m(5) by simp
  then obtain s' A' where "post_message (Suc 0) (MGlobal 5) 66000 ?s = Inr (0, s')" "kinv s' A' 1000"
    "abs_msgs s' = (abs_msgs ?s)(MGlobal 5 := abs_msgs ?s (MGlobal 5) @ [msg_of 66000 ?s])" using r by auto
  then show ?thesis using ms by (intro exI [of _ m] exI [of _ s'] exI [of _ A']) (simp add: msg_of_def abs_msgs_def [of ?s])
qed

section \<open>Receiving\<close>

lemma msgs_ok_take:
  assumes ok: "msgs_ok s A" and m: "j \<in> set (mq s q)" and mq: "mq s' = (mq s)(q := remove1 j (mq s q))" and c: "kmsg s' = kmsg s"
    and b: "ffs_blocks (k_mpool s') (ffm s') = ffs_blocks (k_mpool s) (ffm s) - {(j, l)}"
  shows "msgs_ok s' A"
    and "abs_msgs s' = (abs_msgs s)(q := map (\<lambda>m. (m_type (kmsg s m), m_data (kmsg s m))) (remove1 j (mq s q)))"
proof -
  have d: "distinct (mq s r)" for r using msgs_okD(1) [OF ok] .
  have sub: "x \<in> set (mq s r) \<and> x \<noteq> j" if "x \<in> set (mq s' r)" for x r
    using that m mq d msgs_okD(2) [OF ok, of q r j] by (auto split: if_splits)
  have "msg_wf s' A x" if "x \<in> set (mq s' r)" for x r
    using msgs_okD(3) [OF ok, of x r] sub [OF that] b c by (auto simp: msg_wf_def)
  moreover have "distinct (mq s' r)" for r using d mq by simp
  moreover have "set (mq s' r) \<inter> set (mq s' r') = {}" if "r \<noteq> r'" for r r'
    using sub msgs_okD(2) [OF ok that] by blast
  ultimately show "msgs_ok s' A" by (simp add: msgs_ok_def)
  show "abs_msgs s' = (abs_msgs s)(q := map (\<lambda>m. (m_type (kmsg s m), m_data (kmsg s m))) (remove1 j (mq s q)))"
    using mq c by (auto simp: abs_msgs_def fun_eq_iff)
qed

text \<open>The three branches of receiving: waiting, a message that is too big, and taking one.\<close>

lemma recv_waits:
  assumes k: "kinv s A i" and me: "active_thread s \<noteq> i" and none: "pick_msg type q s = None" and fl: "fl AND IPC_WAIT \<noteq> 0"
  shows "\<exists>s' A'. recv_message (Suc n) q msg type sz fl s = Inr (- E_RETRY, s') \<and> kinv s' A' i \<and> abs_msgs s' = abs_msgs s \<and>
    A' (QMsg q) = A (QMsg q) @ [active_thread s] \<and> active_thread s' \<noteq> active_thread s"
proof -
  let ?u = "SET_ERRNO E_RETRY s"
  have ku: "kinv ?u A i" and mu: "active_thread ?u \<noteq> i" using k me by (simp_all add: kinv_errno)
  obtain s1 s' A' where r: "kthread_enqueue 0 (QMsg q) ?u = Inr s1" "kthreads_schedule (Suc n) s1 = Inr s'" "kinv s' A' i"
    "\<And>r. \<not> is_ready_q r \<Longrightarrow> A' r = (A(QMsg q := A (QMsg q) @ [active_thread ?u])) r" "sched_frame ?u s'"
    using block_schedule [OF ku mu, of "QMsg q" n] by (metis is_ready_q_simps(5))
  have "recv_message (Suc n) q msg type sz fl s = Inr (- E_RETRY, s')"
    using none fl r(1,2) by (simp add: recv_message_def Let_def)
  moreover have "A' (QMsg q) = A (QMsg q) @ [active_thread s]" using r(4) [of "QMsg q"] by simp
  moreover have "active_thread s' \<noteq> active_thread s" using kinvD(7) [OF r(3), of "QMsg q"] calculation(2) by auto
  moreover have "abs_msgs s' = abs_msgs s" using sched_frameD(8,9) [OF r(5)] by (simp add: abs_msgs_def fun_eq_iff)
  ultimately show ?thesis using r(3) by auto
qed

lemma recv_too_big:
  assumes "kinv s A i" "heap_ok s A" "msgs_ok s A" and "pick_msg type q s = Some j" "msg_wf s A j" "sz < length (m_data (kmsg s j))"
  shows "\<exists>s'. recv_message n q msg type sz fl s = Inr (- E_TOO_BIG, s') \<and> msg_size msg s' = 0 \<and> abs_msgs s' = abs_msgs s \<and>
    kinv s' A i \<and> heap_ok s' A \<and> msgs_ok s' A"
proof (intro exI conjI)
  let ?s' = "SET_ERRNO E_TOO_BIG (put_at (msg + 4) 0 s)"
  show "recv_message n q msg type sz fl s = Inr (- E_TOO_BIG, ?s')"
    using assms(4-6) by (simp add: recv_message_def EXIT_def msg_wf_def)
  show "msg_size msg ?s' = 0" by (simp add: msg_size_def)
  show "abs_msgs ?s' = abs_msgs s" by (simp add: abs_msgs_def fun_eq_iff)
  show "kinv ?s' A i" using assms(1) by (intro kinv_errno kinv_put)
  show "heap_ok ?s' A" using assms(2) by (rule heap_ok_cong) simp_all
  have "msg_wf ?s' A = msg_wf s A" by (simp add: msg_wf_def fun_eq_iff)
  then show "msgs_ok ?s' A" using assms(3) by (simp add: msgs_ok_def)
qed

lemma recv_takes:
  assumes k: "kinv s A i" and hp: "heap_ok s A" and ok: "msgs_ok s A" and pick: "pick_msg type q s = Some j" and jq: "j \<in> set (mq s q)" and wf: "msg_wf s A j"
    and fits: "\<not> sz < length (m_data (kmsg s j))"
  shows "\<exists>s'. recv_message n q msg type sz fl s = Inr (0, s') \<and> msg_of msg s' = (m_type (kmsg s j), m_data (kmsg s j)) \<and>
    abs_msgs s' = (abs_msgs s)(q := map (\<lambda>m. (m_type (kmsg s m), m_data (kmsg s m))) (remove1 j (mq s q))) \<and> kinv s' A i \<and> heap_ok s' A \<and> msgs_ok s' A"
proof -
  let ?x = "kmsg s j"
  let ?u = "(put_msg msg (m_type ?x) (m_data ?x) s)\<lparr>mq := (mq s)(q := remove1 j (mq s q))\<rparr>"
  obtain l where l: "(j, l) \<in> ffs_blocks (k_mpool s) (ffm s)" using wf by (auto simp: msg_wf_def)
  have okm: "ffs_ok (k_mpool s) (ffm s)" using hp by (simp add: heap_ok_def)
  obtain m where m: "ffs_free (k_mpool s) j (ffm s) = Inr m" "ffs_blocks (k_mpool s) m = ffs_blocks (k_mpool s) (ffm s) - {(j, l)}"
    using ffs_free_law [OF okm l] by blast
  have hu: "heap_ok ?u A" using hp by (rule heap_ok_cong) simp_all
  have lu: "(j, l) \<in> ffs_blocks (k_mpool ?u) (ffm ?u)" using l by simp
  have nw: "no_waiters A j" using wf by (simp add: msg_wf_def)
  have kf: "kfree j ?u = Inr (?u\<lparr>ffm := m\<rparr>)" using m(1) by (simp add: kfree_def)
  have hf: "heap_ok (?u\<lparr>ffm := m\<rparr>) A" by (rule kfree_ok [OF hu lu nw]) (use kf in simp)
  let ?s' = "SET_ERRNO SUCCESS (?u\<lparr>ffm := m\<rparr>)"
  have "recv_message n q msg type sz fl s = Inr (0, ?s')"
    using pick fits wf kf by (simp add: recv_message_def EXIT_def msg_wf_def Let_def)
  moreover have "msg_of msg ?s' = msg_of msg (put_msg msg (m_type ?x) (m_data ?x) s)"
    by (simp add: msg_of_def msg_type_def msg_data_def msg_size_def int_at_def ptr_at_def)
  then have "msg_of msg ?s' = (m_type ?x, m_data ?x)" using wf by (simp add: msg_of_def put_msg_read msg_wf_def)
  moreover have "kinv ?s' A i" by (rule kinv_errno, rule kinv_cong [OF k]) simp_all
  moreover have "heap_ok ?s' A" using hf by (rule heap_ok_cong) simp_all
  moreover have "msgs_ok ?s' A" "abs_msgs ?s' = (abs_msgs s)(q := map (\<lambda>m. (m_type (kmsg s m), m_data (kmsg s m))) (remove1 j (mq s q)))"
    by (rule msgs_ok_take [OF ok jq, of ?s' l]; simp add: m(2))+
  ultimately show ?thesis by blast
qed



end
