(* ===== verification/Os_Alarm.thy ===== *)
theory Os_Alarm
  imports Os_Fair
begin

text \<open>
  Alarms as threads and the kernel use them, the second half of \<^verbatim>\<open>kernel/time.c\<close>, and the initialisation
  of the round robin scheduler, which reserves an alarm (\<^verbatim>\<open>kernel/sched_rr.c\<close>). The list of active
  alarms and the routine that serves it are part of \<open>Os_Sched\<close>; here is proved that it serves exactly the alarms that are
  due, and that it never ends for an alarm with period zero.
\<close>

section \<open>Alarms in process memory\<close>

text \<open>An \<^verbatim>\<open>alarm_t\<close> has 28 bytes: the time of expiration, the action and its parameter, flags, the period.
  A function pointer of a process is an address in the process.\<close>

definition user_fn :: "nat \<Rightarrow> code_ptr" where
  "user_fn f = (if f = 0 then Null_fn else User_fn f)"

definition time_at :: "nat \<Rightarrow> kst \<Rightarrow> time_t" where
  "time_at a s = Time (int_at a s) (int_at (a + 4) s)"

definition put_time :: "nat \<Rightarrow> time_t \<Rightarrow> kst \<Rightarrow> kst" where
  "put_time a t s = put_at (a + 4) (word_of_int (nsec t)) (put_at a (word_of_int (sec t)) s)"

definition alarm_at :: "nat \<Rightarrow> kst \<Rightarrow> alarm_t" where
  "alarm_at a s = \<lparr>exp_time = time_at a s, action = user_fn (ptr_at (a + 8) s), param = ptr_at (a + 12) s,
     flags = ptr_at (a + 16) s, period = time_at (a + 20) s\<rparr>"

text \<open>\<open>rr_timer_adr\<close> is the address of the kernel's own action.\<close>

definition fn_adr :: "nat \<Rightarrow> code_ptr \<Rightarrow> nat" where
  "fn_adr rr_timer_adr f = (case f of Null_fn \<Rightarrow> 0 | User_fn a \<Rightarrow> a | Rr_timer \<Rightarrow> rr_timer_adr)"

definition put_alarm :: "nat \<Rightarrow> nat \<Rightarrow> alarm_t \<Rightarrow> kst \<Rightarrow> kst" where
  "put_alarm rr_timer_adr a alm s =
     (let s = put_time a (exp_time alm) s;
          s = put_at (a + 8) (of_nat (fn_adr rr_timer_adr (action alm))) s;
          s = put_at (a + 12) (of_nat (param alm)) s;
          s = put_at (a + 16) (of_nat (flags alm)) s
      in put_time (a + 20) (period alm) s)"

section \<open>Interface to the kernel\<close>

abbreviation (input) SYSCALL :: nat where "SYSCALL \<equiv> 0"
abbreviation (input) KERNELCALL :: nat where "KERNELCALL \<equiv> 1"

text \<open>The new handle is stored through a pointer: \<open>ret\<close> is that assignment.\<close>

definition k_alarm_new :: "nat \<Rightarrow> (nat \<Rightarrow> kst \<Rightarrow> kst) \<Rightarrow> alarm_t \<Rightarrow> nat \<Rightarrow> kst \<Rightarrow> (int \<times> kst) res" where
  "k_alarm_new n ret alm priv s =
     rbind (kmalloc 60 s) (\<lambda>(k, s).
     rbind (ASSERT (k \<noteq> 0)) (\<lambda>_.
     let s = upd_a k (\<lambda>x. x\<lparr>alarm := alm\<rparr>) s;
         s = kthreadq_init (QAlarm k) s;
         s = upd_a k (\<lambda>x. x\<lparr>a_magic := ALARM_MAGIC\<rparr>) s;
         s = ret k s;
         s = upd_a k (\<lambda>x. x\<lparr>a_thread := (if priv = SYSCALL then kthread_get_active s else 0)\<rparr>) s
     in rbind (k_alarm_add (kthreads_schedule n) k s) (\<lambda>s. Inr (- SUCCESS, s))))"

definition k_alarm_remove :: "nat \<Rightarrow> nat \<Rightarrow> kst \<Rightarrow> (int \<times> kst) res" where
  "k_alarm_remove n k s =
     rbind (ASSERT (k \<noteq> 0 \<and> a_magic (ka s k) = ALARM_MAGIC)) (\<lambda>_.
     let s = (if a_active (ka s k) \<noteq> 0 then s\<lparr>kalarms := remove1 k (kalarms s)\<rparr> else s);
         s = upd_a k (\<lambda>x. x\<lparr>a_magic := 0\<rparr>) s;
         s = SET_ERRNO SUCCESS s
     in rbind (kthreadq_release_all (QAlarm k) s) (\<lambda>(c, s).
        rbind (kfree k s) (\<lambda>s.
        rbind (k_schedule_alarms (kthreads_schedule n) s) (\<lambda>(r, s).
        rbind (if c + r \<noteq> 0 then kthreads_schedule n s else Inr s) (\<lambda>s. Inr (- SUCCESS, s))))))"

definition k_get_time :: "kst \<Rightarrow> time_t res" where
  "k_get_time s = arch_get_time i8253 (tim s)"

section \<open>The system calls\<close>

definition sys__alarm_new :: "nat \<Rightarrow> nat \<Rightarrow> kst \<Rightarrow> (int \<times> kst) res" where
  "sys__alarm_new n p s =
     (let id = ptr_at p s;
          alarm = ptr_at (p + 4) s
      in assert_errno_exit (id \<noteq> 0 \<and> alarm \<noteq> 0) E_INVALID_HANDLE s (
         rbind (k_u2k_adr id (kthread_get_process 0 s) s) (\<lambda>id.
         rbind (k_u2k_adr alarm (kthread_get_process 0 s) s) (\<lambda>alarm.
         assert_errno_exit (id \<noteq> 0 \<and> alarm \<noteq> 0) E_INVALID_HANDLE s (
         k_alarm_new n (\<lambda>k. put_at id (of_nat k)) (alarm_at alarm s) SYSCALL s)))))"

definition sys__alarm_set :: "nat \<Rightarrow> nat \<Rightarrow> kst \<Rightarrow> (int \<times> kst) res" where
  "sys__alarm_set n p s =
     (let id = ptr_at p s;
          alarm = ptr_at (p + 4) s
      in assert_errno_exit (id \<noteq> 0 \<and> alarm \<noteq> 0) E_INVALID_HANDLE s (
         rbind (k_u2k_adr alarm (kthread_get_process 0 s) s) (\<lambda>alarm.
         k_alarm_set (kthreads_schedule n) id (alarm_at alarm s) s)))"

definition sys__alarm_remove :: "nat \<Rightarrow> nat \<Rightarrow> kst \<Rightarrow> (int \<times> kst) res" where
  "sys__alarm_remove n p s =
     (let id = ptr_at p s
      in assert_errno_exit (id \<noteq> 0) E_INVALID_HANDLE s (k_alarm_remove n id s))"

definition sys__alarm_get :: "nat \<Rightarrow> nat \<Rightarrow> kst \<Rightarrow> (int \<times> kst) res" where
  "sys__alarm_get rr_timer_adr p s =
     (let id = ptr_at p s;
          alm = ptr_at (p + 4) s
      in assert_errno_exit (id \<noteq> 0 \<and> alm \<noteq> 0) E_INVALID_HANDLE s (
         rbind (k_u2k_adr alm (kthread_get_process 0 s) s) (\<lambda>alm.
         assert_errno_exit (id \<noteq> 0 \<and> a_magic (ka s id) = ALARM_MAGIC) E_INVALID_HANDLE s (
         EXIT SUCCESS (put_alarm rr_timer_adr alm (alarm (ka s id)) s)))))"

definition sys__get_time :: "nat \<Rightarrow> kst \<Rightarrow> (int \<times> kst) res" where
  "sys__get_time p s =
     (let time = ptr_at p s
      in assert_errno_exit (time \<noteq> 0) E_INVALID_HANDLE s (
         rbind (k_u2k_adr time (kthread_get_process 0 s) s) (\<lambda>time.
         rbind (k_get_time s) (\<lambda>t.
         EXIT SUCCESS (put_time time t s)))))"

definition sys__wait_for_alarm :: "nat \<Rightarrow> nat \<Rightarrow> kst \<Rightarrow> (int \<times> kst) res" where
  "sys__wait_for_alarm n p s =
     (let id = ptr_at p s
      in assert_errno_exit (id \<noteq> 0) E_INVALID_HANDLE s (
         let wait = ptr_at (p + 4) s
         in assert_errno_exit (id \<noteq> 0 \<and> a_magic (ka s id) = ALARM_MAGIC) E_INVALID_HANDLE s (
            let s = SET_ERRNO SUCCESS s
            in if a_active (ka s id) \<noteq> 0 then
                 if wait AND IPC_WAIT \<noteq> 0 then
                   rbind (kthread_enqueue 0 (QAlarm id) s) (\<lambda>s.
                   rbind (kthreads_schedule n s) (\<lambda>s. Inr (0, s)))
                 else Inr (- E_NOT_EXPIRED, SET_ERRNO E_NOT_EXPIRED s)
               else Inr (0, s))))"

section \<open>The round robin scheduler\<close>

definition rr_init :: "nat \<Rightarrow> kst \<Rightarrow> kst res" where
  "rr_init n s =
     (let s = s\<lparr>rr := (rr s)\<lparr>rr_params :=
                 \<lparr>exp_time = Time 0 0, action = Rr_timer, param = 0, flags = 0, period = Time 0 0\<rparr>\<rparr>\<rparr>
      in rbind (k_alarm_new n (\<lambda>k s. s\<lparr>rr := (rr s)\<lparr>rr_alarm := k\<rparr>\<rparr>) (rr_params (rr s)) KERNELCALL s) (\<lambda>(r, s). Inr s))"

text \<open>The initial value of \<^verbatim>\<open>ksched_rr.params.rr\<close>; the alarm is set by \<^verbatim>\<open>rr_init\<close>.\<close>

definition ksched_rr :: "ksched_rr_t \<Rightarrow> ksched_rr_t" where
  "ksched_rr r = r\<lparr>rr_time_slice := Time 0 50000000, rr_threshold := Time 0 10000000\<rparr>"

text \<open>Only \<^verbatim>\<open>SCHED_RR\<close> has a scheduler.\<close>

definition ksched_init :: "nat \<Rightarrow> kst \<Rightarrow> kst res" where
  "ksched_init n s = rr_init n s"

section \<open>Serving alarms\<close>

text \<open>An alarm that only wakes threads, once: no action and not periodic.\<close>

definition simple_alarm :: "kalarm_t \<Rightarrow> bool" where
  "simple_alarm x \<longleftrightarrow> action (alarm x) = Null_fn \<and> flags (alarm x) AND ALARM_PERIODIC = 0 \<and>
     weak_normal (exp_time (alarm x)) \<and> 0 \<le> sec (exp_time (alarm x))"

definition due :: "time_t \<Rightarrow> kst \<Rightarrow> nat \<Rightarrow> bool" where
  "due t s a \<longleftrightarrow> exp_time (alarm (ka s a)) \<le> t"

text \<open>What serving the alarms \<open>xs\<close> does: they are not active any more, the threads that waited for them are ready.\<close>

definition served :: "nat \<Rightarrow> nat list \<Rightarrow> kst \<Rightarrow> (qid \<Rightarrow> nat list) \<Rightarrow> kst \<Rightarrow> (qid \<Rightarrow> nat list) \<Rightarrow> bool" where
  "served i xs s A s' A' \<longleftrightarrow> sched_pre s' A' i \<and> tim s' = tim s \<and> active_thread s' = active_thread s \<and> k_threshold s' = k_threshold s \<and>
     ka s' = (\<lambda>a. if a \<in> set xs then (ka s a)\<lparr>a_active := 0\<rparr> else ka s a) \<and>
     (\<forall>q. \<not> is_ready_q q \<longrightarrow> A' q = (if q \<in> QAlarm ` set xs then [] else A q)) \<and>
     (\<forall>x\<in>ready_threads A. x \<in> ready_threads A') \<and> (\<forall>a\<in>set xs. \<forall>t\<in>set (A (QAlarm a)). t \<in> ready_threads A')"

definition waiters :: "(qid \<Rightarrow> nat list) \<Rightarrow> nat list \<Rightarrow> int" where
  "waiters A xs = sum_list (map (\<lambda>a. int (length (A (QAlarm a)))) xs)"

lemma alarm_activate_ok:
  assumes pre: "sched_pre s A i" and a: "simple_alarm (ka s a)"
  obtains s' A' where "alarm_activate sched a rest r s = Inr (r + int (length (A (QAlarm a))), s')" and "served i [a] s A s' A'"
    and "kalarms s' = rest"
proof -
  let ?u = "(s\<lparr>kalarms := rest\<rparr>)\<lparr>ka := (ka s)(a := (ka s a)\<lparr>a_active := 0\<rparr>)\<rparr>"
  have u: "sched_pre ?u A i" using pre by (rule sched_pre_cong) simp_all
  have nq: "\<not> is_ready_q (QAlarm a)" by simp
  obtain s1 where 1: "kthreadq_release_all (QAlarm a) ?u = Inr (int (length (A (QAlarm a))), s1)" "sched_pre s1 (released (QAlarm a) (kt ?u) A) i"
    "sched_frame ?u s1" "active_thread s1 = active_thread ?u"
    by (rule release_all_pre [OF u nq])
  let ?A = "released (QAlarm a) (kt ?u) A"
  have ex: "alarm_activate sched a rest r s = Inr (r + int (length (A (QAlarm a))), s1)"
    using a 1(1) by (simp add: alarm_activate_def alarm_action_def simple_alarm_def Let_def)
  have q: "?A q = (if q = QAlarm a then [] else A q)" if "\<not> is_ready_q q" for q
    using that by (auto simp: released_def is_ready_q_def split: qid.splits)
  have rd: "x \<in> ready_threads ?A" if "x \<in> ready_threads A" for x using that by (auto simp: ready_threads_def released_def)
  have w: "t \<in> ready_threads ?A" if t: "t \<in> set (A (QAlarm a))" for t
  proof -
    have "0 \<le> t_prio (kt s t)" using queues_okD(3) [OF sched_preD(1) [OF pre] t] by (simp add: queued_def)
    then have "t \<in> set (?A (QReady (nat (t_prio (kt s t)))))" using t by (simp add: released_def)
    then show ?thesis by (auto simp: ready_threads_def)
  qed
  have f: "tim s1 = tim s" "ka s1 = ka ?u" "kalarms s1 = rest" "k_threshold s1 = k_threshold s" using sched_frameD [OF 1(3)] by simp_all
  have "served i [a] s A s1 ?A" unfolding served_def using 1(2,4) f q rd w by auto
  with ex f(3) show thesis using that by blast
qed

lemma served_trans:
  assumes 1: "served i [a] s A s1 A1" and 2: "served i xs s1 A1 s' A'" and a: "a \<notin> set xs"
  shows "served i (a # xs) s A s' A'"
proof -
  have "t \<in> ready_threads A'" if "b \<in> set (a # xs)" "t \<in> set (A (QAlarm b))" for b t
  proof (cases "b = a")
    case True
    then show ?thesis using 1 2 that(2) by (auto simp: served_def)
  next
    case False
    then have "t \<in> set (A1 (QAlarm b))" using 1 that(2) by (auto simp: served_def)
    then show ?thesis using 2 that(1) False by (auto simp: served_def)
  qed
  moreover have "ka s' = (\<lambda>b. if b \<in> set (a # xs) then (ka s b)\<lparr>a_active := 0\<rparr> else ka s b)"
    using 1 2 by (auto simp: served_def fun_eq_iff)
  moreover have "A' q = (if q \<in> QAlarm ` set (a # xs) then [] else A q)" if "\<not> is_ready_q q" for q
    using 1 2 that unfolding served_def by auto
  ultimately show ?thesis using 1 2 unfolding served_def by auto
qed

lemma alarms_loop_ok:
  assumes "sched_pre s A i" and "kalarms s = xs" and "\<forall>a\<in>set xs. simple_alarm (ka s a)" and "distinct xs" and "length xs < f"
  shows "\<exists>s' A'. alarms_loop f sched ref r s = Inr (r + waiters A (takeWhile (due ref s) xs), s') \<and>
    served i (takeWhile (due ref s) xs) s A s' A' \<and> kalarms s' = dropWhile (due ref s) xs"
  using assms
proof (induction xs arbitrary: s A f r)
  case Nil
  then obtain g where "f = Suc g" by (cases f) auto
  then show ?case using Nil by (intro exI [of _ s] exI [of _ A]) (simp add: waiters_def served_def)
next
  case (Cons a xs)
  then obtain g where g: "f = Suc g" "length xs < g" by (cases f) auto
  show ?case
  proof (cases "due ref s a")
    case False
    then show ?thesis using Cons.prems g
      by (intro exI [of _ s] exI [of _ A]) (auto simp: waiters_def served_def due_def time_cmp_order)
  next
    case True
    have sa: "simple_alarm (ka s a)" using Cons.prems(3) by simp
    obtain s1 A1 where 1: "alarm_activate sched a xs r s = Inr (r + int (length (A (QAlarm a))), s1)" "served i [a] s A s1 A1"
      "kalarms s1 = xs" by (rule alarm_activate_ok [OF Cons.prems(1) sa])
    have p1: "sched_pre s1 A1 i" using 1(2) by (simp add: served_def)
    have e: "alarm (ka s1 b) = alarm (ka s b)" for b using 1(2) by (auto simp: served_def)
    have sx: "\<forall>b\<in>set xs. simple_alarm (ka s1 b)" using Cons.prems(3) by (simp add: simple_alarm_def e)
    have du: "due ref s1 = due ref s" by (simp add: due_def e fun_eq_iff)
    obtain s' A' where 2: "alarms_loop g sched ref (r + int (length (A (QAlarm a)))) s1 =
        Inr (r + int (length (A (QAlarm a))) + waiters A1 (takeWhile (due ref s) xs), s')"
      "served i (takeWhile (due ref s) xs) s1 A1 s' A'" "kalarms s' = dropWhile (due ref s) xs"
      using Cons.IH [OF p1 1(3) sx _ g(2), of "r + int (length (A (QAlarm a)))"] Cons.prems(4) unfolding du by auto
    have an: "a \<notin> set (takeWhile (due ref s) xs)" using Cons.prems(4) by (auto dest: set_takeWhileD)
    have "map (\<lambda>b. int (length (A1 (QAlarm b)))) (takeWhile (due ref s) xs) = map (\<lambda>b. int (length (A (QAlarm b)))) (takeWhile (due ref s) xs)"
      by (rule map_cong) (use 1(2) an in \<open>auto simp: served_def\<close>)
    then have w: "waiters A1 (takeWhile (due ref s) xs) = waiters A (takeWhile (due ref s) xs)" by (simp only: waiters_def)
    have "alarms_loop f sched ref r s = Inr (r + waiters A (takeWhile (due ref s) (a # xs)), s')"
      using True Cons.prems(2) g 1(1) 2(1) w by (simp add: due_def time_cmp_order waiters_def add.assoc)
    moreover have "served i (takeWhile (due ref s) (a # xs)) s A s' A'" using served_trans [OF 1(2) 2(2) an] True by simp
    ultimately show ?thesis using 2(3) True by auto
  qed
qed

text \<open>The list of alarms is sorted by the time of expiration; insertion keeps it so.\<close>

definition alarms_sorted :: "kst \<Rightarrow> bool" where
  "alarms_sorted s \<longleftrightarrow> sorted (map (\<lambda>a. exp_time (alarm (ka s a))) (kalarms s)) \<and> distinct (kalarms s)"

lemma while_sorted_le:
  assumes "sorted (map f xs)"
  shows "takeWhile (\<lambda>x. f x \<le> (t::'b::linorder)) xs = filter (\<lambda>x. f x \<le> t) xs" and "dropWhile (\<lambda>x. f x \<le> t) xs = filter (\<lambda>x. \<not> f x \<le> t) xs"
proof -
  have "takeWhile (\<lambda>x. f x \<le> t) xs = filter (\<lambda>x. f x \<le> t) xs \<and> dropWhile (\<lambda>x. f x \<le> t) xs = filter (\<lambda>x. \<not> f x \<le> t) xs"
    using assms
  proof (induction xs)
    case (Cons a xs)
    have "filter (\<lambda>x. f x \<le> t) xs = [] \<and> filter (\<lambda>x. \<not> f x \<le> t) xs = xs" if "\<not> f a \<le> t"
      using Cons.prems that by (auto simp: filter_empty_conv filter_id_conv dest: order_trans)
    then show ?case using Cons by auto
  qed simp
  then show "takeWhile (\<lambda>x. f x \<le> t) xs = filter (\<lambda>x. f x \<le> t) xs" "dropWhile (\<lambda>x. f x \<le> t) xs = filter (\<lambda>x. \<not> f x \<le> t) xs"
    by blast+
qed

lemma alarm_pos_sorted:
  assumes "sorted (map (\<lambda>x. exp_time (alarm (K x))) xs)"
  shows "alarm_pos K a xs = length (takeWhile (\<lambda>x. exp_time (alarm (K x)) \<le> exp_time (alarm (K a))) xs)"
proof (cases "xs \<noteq> [] \<and> exp_time (alarm (K (List.last xs))) \<le> exp_time (alarm (K a))")
  case True
  have "exp_time (alarm (K x)) \<le> exp_time (alarm (K a))" if "x \<in> set xs" for x
  proof -
    have "exp_time (alarm (K x)) \<le> exp_time (alarm (K (List.last xs)))"
      using assms that True by (induction xs) (auto split: if_splits)
    then show ?thesis using True by (auto intro: order_trans)
  qed
  then have tk: "takeWhile (\<lambda>x. exp_time (alarm (K x)) \<le> exp_time (alarm (K a))) xs = xs" by simp
  show ?thesis unfolding tk using True by (simp add: alarm_pos_def alarm_cmp_def time_cmp_order)
next
  case False
  then show ?thesis by (auto simp: alarm_pos_def alarm_cmp_def time_cmp_order)
qed

lemma kalarms_sort_add_sorted:
  assumes "alarms_sorted s" and "a \<notin> set (kalarms s)"
  shows "alarms_sorted (kalarms_sort_add a s)" and "set (kalarms (kalarms_sort_add a s)) = insert a (set (kalarms s))"
proof -
  let ?e = "\<lambda>x. exp_time (alarm (ka s x))" let ?P = "\<lambda>x. ?e x \<le> ?e a"
  have so: "sorted (map ?e (kalarms s))" and di: "distinct (kalarms s)" using assms(1) by (simp_all add: alarms_sorted_def)
  have k: "kalarms (kalarms_sort_add a s) = takeWhile ?P (kalarms s) @ a # dropWhile ?P (kalarms s)" "ka (kalarms_sort_add a s) = ka s"
    by (simp_all add: kalarms_sort_add_def alarm_pos_sorted [OF so] takeWhile_eq_take [symmetric] dropWhile_eq_drop [symmetric])
  show "set (kalarms (kalarms_sort_add a s)) = insert a (set (kalarms s))"
    unfolding k(1) by (metis Un_insert_right list.simps(15) set_append takeWhile_dropWhile_id)
  have lo: "\<forall>x\<in>set (takeWhile ?P (kalarms s)). ?e x \<le> ?e a" by (auto dest: set_takeWhileD)
  have hi: "\<forall>x\<in>set (dropWhile ?P (kalarms s)). ?e a \<le> ?e x" unfolding while_sorted_le(2) [OF so] by auto
  have "sorted (map ?e (takeWhile ?P (kalarms s)))" "sorted (map ?e (dropWhile ?P (kalarms s)))"
    unfolding while_sorted_le(1) [OF so] while_sorted_le(2) [OF so] using so by (simp_all add: sorted_filter)
  then have "sorted (map ?e (kalarms (kalarms_sort_add a s)))"
    using lo hi unfolding k(1) by (fastforce simp: sorted_append intro: order_trans)
  moreover have "distinct (kalarms (kalarms_sort_add a s))"
    unfolding k(1) while_sorted_le [OF so] using di assms(2) by auto
  ultimately show "alarms_sorted (kalarms_sort_add a s)" by (simp add: alarms_sorted_def k(2))
qed

text \<open>\<^bold>\<open>C13\<close> Serving alarms, for alarms that only wake threads, once (without an action and not periodic), under the scheduler's precondition \<open>sched_pre\<close>
  (all threads \<^verbatim>\<open>SCHED_FIFO\<close>), a sorted list, and a clock that has not reached the last second of its range: \<open>k_schedule_alarms\<close> returns, takes exactly
  the alarms that are due (up to the threshold) out of the list, makes every thread that waits for one of them ready and returns how many there were; the alarms
  that remain are sorted, and the timer is set to the time that is left until the first of them, or untouched when there is none.\<close>

theorem alarms_served:
  assumes pre: "sched_pre s A i" and tm: "pit.arch_ok (tim s)" and so: "alarms_sorted s" and sm: "\<forall>a\<in>set (kalarms s). simple_alarm (ka s a)"
    and len: "length (kalarms s) < adr_space" and room: "pit.now (tim s) < (2 ^ 31 - 1) * NSEC"
  shows "\<exists>now s' A'. arch_get_time i8253 (tim s) = Inr now \<and> ns now = pit.now (tim s) \<and>
    (let late = due (time_add now (k_threshold s)) s; xs = filter late (kalarms s)
     in k_schedule_alarms sched s = Inr (waiters A xs, s') \<and> sched_pre s' A' i \<and> alarms_sorted s' \<and>
       kalarms s' = filter (\<lambda>a. \<not> late a) (kalarms s) \<and> (\<forall>a\<in>set xs. a_active (ka s' a) = 0 \<and> A' (QAlarm a) = []) \<and>
       (\<forall>a\<in>set xs. \<forall>t\<in>set (A (QAlarm a)). t \<in> ready_threads A') \<and>
       (case kalarms s' of [] \<Rightarrow> tim s' = tim s
        | b # bs \<Rightarrow> pit.arch_ok (tim s') \<and> alarm_handler (tim s') = Some K_timer_interrupt \<and>
            ns (delay (tim s')) = max (ns (exp_time (alarm (ka s b))) - ns now) 52800))"
proof -
  have cl: "sec (clock (tim s)) < 2 ^ 31 - 1" by (rule pit.clock_before_end [OF tm room])
  obtain now where now: "arch_get_time i8253 (tim s) = Inr now" "weak_normal now" "ns now = pit.now (tim s)" "0 \<le> sec now"
    using pit.get_time_now [OF tm cl] by blast
  have last: "sec now < 2 ^ 31 - 1" using now(2,3) room by (auto simp: weak_normal_def ns_def)
  define ref where "ref = time_add now (k_threshold s)"
  define xs where "xs = filter (due ref s) (kalarms s)"
  have sor: "sorted (map (\<lambda>a. exp_time (alarm (ka s a))) (kalarms s))" and di: "distinct (kalarms s)"
    using so by (simp_all add: alarms_sorted_def)
  have du: "due ref s = (\<lambda>a. exp_time (alarm (ka s a)) \<le> ref)" by (simp add: due_def fun_eq_iff)
  have tw: "takeWhile (due ref s) (kalarms s) = xs" "dropWhile (due ref s) (kalarms s) = filter (\<lambda>a. \<not> due ref s a) (kalarms s)"
    unfolding xs_def du using while_sorted_le(1) [OF sor, of ref] while_sorted_le(2) [OF sor, of ref] by simp_all
  obtain s1 A1 where 1: "alarms_loop adr_space sched ref 0 s = Inr (0 + waiters A xs, s1)" "served i xs s A s1 A1"
    "kalarms s1 = filter (\<lambda>a. \<not> due ref s a) (kalarms s)"
    using alarms_loop_ok [OF pre refl sm di len, of sched ref 0] unfolding tw by blast
  have al: "alarm (ka s1 a) = alarm (ka s a)" "a_active (ka s1 a) = (if a \<in> set xs then 0 else a_active (ka s a))" for a
    using 1(2) by (auto simp: served_def)
  have so1: "alarms_sorted s1" using sor di by (simp add: alarms_sorted_def 1(3) al sorted_filter)
  have st: "sched_pre s1 A1 i" "tim s1 = tim s" "\<forall>a\<in>set xs. A1 (QAlarm a) = []" "\<forall>a\<in>set xs. \<forall>t\<in>set (A (QAlarm a)). t \<in> ready_threads A1"
    using 1(2) by (auto simp: served_def)
  have loop: "k_schedule_alarms sched s = (case kalarms s1 of [] \<Rightarrow> Inr (waiters A xs, s1)
      | b # bs \<Rightarrow> rbind (arch_timer_set i8253 (time_sub (exp_time (alarm (ka s1 b))) now) (Some K_timer_interrupt) (tim s1)) (\<lambda>tm.
          Inr (waiters A xs, s1\<lparr>tim := tm\<rparr>)))"
    using now(1) 1(1) by (simp add: k_schedule_alarms_def Let_def flip: ref_def del: alarms_loop.simps split: list.splits)
  show ?thesis
  proof (cases "kalarms s1")
    case Nil
    then show ?thesis using now(1,3) loop st so1 1(3) al
      by (intro exI [of _ now] exI [of _ s1] exI [of _ A1], unfold Let_def ref_def [symmetric] xs_def [symmetric]) simp
  next
    case (Cons b bs)
    have "b \<in> set (filter (\<lambda>a. \<not> due ref s a) (kalarms s))" unfolding 1(3) [symmetric] using Cons by simp
    then have "b \<in> set (kalarms s)" by simp
    then have ex: "weak_normal (exp_time (alarm (ka s b)))" "0 \<le> sec (exp_time (alarm (ka s b)))" using sm by (simp_all add: simple_alarm_def)
    have wn: "weak_normal (time_sub (exp_time (alarm (ka s1 b))) now)" using ex(1) now(2) al(1) by (simp add: weak_time_sub)
    have "sub_fits (exp_time (alarm (ka s b))) now" using ex now(4) last by (auto simp: sub_fits_def in_int_def weak_normal_def)
    then have nsb: "ns (time_sub (exp_time (alarm (ka s b))) now) = ns (exp_time (alarm (ka s b))) - ns now" by (rule ns_time_sub [OF ex(1) now(2)])
    obtain tm' where tm': "arch_timer_set i8253 (time_sub (exp_time (alarm (ka s1 b))) now) (Some K_timer_interrupt) (tim s) = Inr tm'"
      "pit.arch_ok tm'" "alarm_handler tm' = Some K_timer_interrupt"
      "ns (delay tm') = max (ns (time_sub (exp_time (alarm (ka s1 b))) now)) (nsec (min_interval i8253))"
      using pit.timer_set_now [OF tm wn cl, of "Some K_timer_interrupt"] by blast
    let ?s' = "s1\<lparr>tim := tm'\<rparr>"
    have "sched_pre ?s' A1 i" using st(1) by (rule sched_pre_cong) simp_all
    moreover have "alarms_sorted ?s'" using so1 by (simp add: alarms_sorted_def)
    moreover have "ns (delay tm') = max (ns (exp_time (alarm (ka s b))) - ns now) 52800" using tm'(4) al(1) nsb by simp
    moreover have "k_schedule_alarms sched s = Inr (waiters A xs, ?s')" using loop Cons tm'(1) st(2) by simp
    moreover have "filter (\<lambda>a. \<not> due ref s a) (kalarms s) = b # bs" using 1(3) Cons by simp
    ultimately show ?thesis using now(1,3) st 1(3) al tm'(2,3)
      by (intro exI [of _ now] exI [of _ ?s'] exI [of _ A1], unfold Let_def ref_def [symmetric] xs_def [symmetric]) simp
  qed
qed

definition alarm_demo :: "nat \<Rightarrow> qid \<Rightarrow> kst" where
  "alarm_demo fl q = (demo (\<lambda>_. 0) q)\<lparr>kalarms := [700],
     ka := \<lambda>_. \<lparr>alarm = demo_alarm\<lparr>flags := fl\<rparr>, a_active = 1, a_thread = 0, a_magic = ALARM_MAGIC\<rparr>\<rparr>"

lemma alarm_demo_pre: "\<not> is_ready_q q \<Longrightarrow> sched_pre (alarm_demo fl q) (demo_queues q) 1000"
  by (rule sched_pre_cong [OF kinv_sched_pre [OF demo_kinv]]) (simp_all add: alarm_demo_def)

theorem alarms_served_witness:
  "\<exists>s' A'. k_schedule_alarms Inr (alarm_demo 0 (QAlarm 700)) = Inr (1, s') \<and> kalarms s' = [] \<and> 3000 \<in> ready_threads A' \<and>
     sched_pre s' A' 1000"
proof -
  let ?s = "alarm_demo 0 (QAlarm 700)" and ?D = "demo_queues (QAlarm 700)"
  have r: "i8253_get_time_from_counter 65535 = Inr (Time 0 54924655)"
    by (simp add: i8253_get_time_from_counter_def i8253_get_def COUNT_TO_TIME_eq)
  have tm: "pit.arch_ok (tim ?s)"
    unfolding pit.arch_ok_def pit.rem_ns_def by (simp add: alarm_demo_def demo_def weak_normal_def in_int_def ns_def r)
  have rm: "pit.now (tim ?s) < (2 ^ 31 - 1) * NSEC" unfolding pit.now_def pit.rem_ns_def by (simp add: alarm_demo_def demo_def ns_def r)
  have so: "alarms_sorted ?s" and sm: "\<forall>a\<in>set (kalarms ?s). simple_alarm (ka ?s a)" and len: "length (kalarms ?s) < adr_space"
    by (simp_all add: alarms_sorted_def simple_alarm_def alarm_demo_def demo_alarm_def weak_normal_def in_int_def)
  have now: "arch_get_time i8253 (tim ?s) = Inr (Time 0 0)"
    by (simp add: arch_get_time_def alarm_demo_def demo_def r time_sub_def time_add_def int32_def)
  have late: "due (time_add (Time 0 0) (k_threshold ?s)) ?s a" for a
    by (simp add: due_def alarm_demo_def demo_def demo_alarm_def time_add_def int32_def less_eq_time_t_def)
  have f: "filter (due (time_add (Time 0 0) (k_threshold ?s)) ?s) (kalarms ?s) = [700]"
    "filter (\<lambda>a. \<not> due (time_add (Time 0 0) (k_threshold ?s)) ?s a) (kalarms ?s) = []" using late by (simp_all add: alarm_demo_def)
  have p: "sched_pre ?s ?D 1000" by (rule alarm_demo_pre) simp
  from alarms_served [OF p tm so sm len rm, of Inr] obtain s' A' where
    "k_schedule_alarms Inr ?s = Inr (waiters ?D [700], s')" "sched_pre s' A' 1000" "kalarms s' = []"
    "\<forall>a\<in>set [700]. \<forall>t\<in>set (?D (QAlarm a)). t \<in> ready_threads A'"
    unfolding now Let_def sum.inject(2) by (metis f)
  then show ?thesis by (auto simp: waiters_def)
qed

text \<open>\<^bold>\<open>C40\<close> A periodic alarm with period zero never leaves the loop that serves alarms: it is put back with the same time of expiration
  and is due again. The system calls that create and set alarms accept such an alarm.\<close>

theorem zero_period_never_ends:
  assumes k: "queues_ok s A" and q: "A (QAlarm a) = []" and l: "kalarms s = [a]" and p: "period (alarm (ka s a)) = Time 0 0"
    and f: "flags (alarm (ka s a)) AND ALARM_PERIODIC \<noteq> 0" "action (alarm (ka s a)) = Null_fn" and n: "normal (exp_time (alarm (ka s a)))"
    and d: "exp_time (alarm (ka s a)) \<le> ref"
  shows "alarms_loop fuel sched ref resched s = Inl Out_of_fuel"
proof -
  define m :: nat where "m = 2 ^ 32 - 1"
  have m: "adr_space = Suc m" by (simp add: m_def)
  have t: "time_add (exp_time (alarm (ka s a))) (period (alarm (ka s a))) = exp_time (alarm (ka s a))"
    using n p by (cases "exp_time (alarm (ka s a))") (simp add: time_add_def normal_def int32_in_int int32_id)
  have e: "kalarms_sort_add a (upd_a a (\<lambda>x. x\<lparr>alarm := (alarm x)\<lparr>exp_time := time_add (exp_time (alarm x)) (period (alarm x))\<rparr>\<rparr>) (s\<lparr>kalarms := []\<rparr>)) = s"
    using l by (simp add: t kalarms_sort_add_def alarm_pos_def)
  have r: "kthreadq_release_all (QAlarm a) s = Inr (0, s)"
    unfolding kthreadq_release_all_def m release_loop.simps(2) by (simp add: kthreadq_release_empty [OF k q])
  have fl: "flags (alarm (ka (s\<lparr>kalarms := []\<rparr>) a)) AND ALARM_PERIODIC \<noteq> 0" using f(1) by simp
  have step: "alarm_activate sched a [] c s = Inr (c, s)" for c
    unfolding alarm_activate_def Let_def if_P [OF fl] e using f(2) r by (simp add: alarm_action_def)
  show ?thesis
  proof (induction fuel arbitrary: resched)
    case (Suc g)
    then show ?case using l step d by (simp add: time_cmp_order)
  qed simp
qed

theorem zero_period_never_ends_witness:
  "alarms_loop 1000000 Inr (Time 5 0) 0 (alarm_demo 4 (QDev 7)) = Inl Out_of_fuel"
proof -
  have "queues_ok (alarm_demo 4 (QDev 7)) (demo_queues (QDev 7))" by (rule sched_preD(1) [OF alarm_demo_pre]) simp
  then show ?thesis
    by (rule zero_period_never_ends [of _ _ 700]) (simp_all add: alarm_demo_def demo_alarm_def normal_def in_int_def less_eq_time_t_def)
qed

end
