(* ===== verification/Os_Thread.thy ===== *)
theory Os_Thread
  imports Os_Messages Os_Alarm
begin

text \<open>
  The end of threads, processes, and the system calls of \<^verbatim>\<open>kernel/thread.c\<close> and \<^verbatim>\<open>kernel/sched.c\<close>. Descriptors are freed
  when nobody refers to them any more; the memory of a freed descriptor keeps its contents until it
  is allocated again, and the code relies on that. The theorem is about waiting for the end of a thread.
\<close>

section \<open>Cancelling a thread\<close>

definition kthread_remove_descriptor :: "nat \<Rightarrow> kst \<Rightarrow> kst res" where
  "kthread_remove_descriptor t s =
     rbind (k_free_unique_id (t_id (kt s t)) (idst s)) (\<lambda>ids.
     let s = s\<lparr>idst := ids\<rparr>;
         s = upd_t t (\<lambda>x. x\<lparr>t_id := 0\<rparr>) s;
         s = s\<lparr>all_threads := remove1 t (all_threads s)\<rparr>
     in kfree t s)"

text \<open>\<^verbatim>\<open>kthreadq_remove ( kthread->queue, kthread )\<close>\<close>

definition leave_queue :: "nat \<Rightarrow> kst \<Rightarrow> kst res" where
  "leave_queue t s = (case t_queue (kt s t) of None \<Rightarrow> Inl Out_of_bounds | Some q \<Rightarrow> Inr (snd (kthreadq_remove q t s)))"

text \<open>The first part of \<^verbatim>\<open>kthread_cancel\<close> takes the thread out of where it is; an \<open>Inl\<close> in the inner result is
  the early return.\<close>

definition cancel_detach :: "nat \<Rightarrow> kst \<Rightarrow> (int + kst) res" where
  "cancel_detach t s =
     (if t_state (kt s t) = THR_STATE_PASSIVE then Inr (Inl SUCCESS)
      else if t_state (kt s t) = THR_STATE_READY then
        rbind (leave_queue t s) (\<lambda>s.
        rbind (in_ready_q (t_prio (kt s t))) (\<lambda>_.
        Inr (Inr (if kthreadq_get (QReady (nat (t_prio (kt s t)))) s = 0
                  then kthread_ready_list_set_empty (nat (t_prio (kt s t))) s else s))))
      else if t_state (kt s t) = THR_STATE_WAIT then rbind (leave_queue t s) (\<lambda>s. Inr (Inr s))
      else if t_state (kt s t) = THR_STATE_ACTIVE then
        if t \<noteq> active_thread s then Inr (Inl E_DONT_EXIST)
        else Inr (Inr (upd_t t (\<lambda>x. x\<lparr>t_state := THR_STATE_PASSIVE\<rparr>) s))
      else Inr (Inl E_INVALID_HANDLE))"

text \<open>The stack goes back to the pool it is from, the process ends with its last thread.\<close>

definition release_stack :: "nat \<Rightarrow> kst \<Rightarrow> kst res" where
  "release_stack t s =
     (let stack = t_stack (kt s t); proc = t_proc (kt s t)
      in if stack = 0 then Inr s
         else if p_start (kp s proc) \<noteq> 0
         then rbind (ffs_free (p_stack_pool (kp s proc)) stack (ffm s)) (\<lambda>m. Inr (s\<lparr>ffm := m\<rparr>))
         else kfree stack s)"

definition end_process :: "nat \<Rightarrow> kst \<Rightarrow> kst res" where
  "end_process proc s =
     (if p_thr_count (kp s proc) = 0 \<and> p_pi (kp s proc) \<noteq> 0 then
        rbind (kfree (p_pi (kp s proc)) s) (\<lambda>s.
        rbind (ASSERT (proc \<in> set (procs s))) (\<lambda>_.
        kfree proc (s\<lparr>procs := remove1 proc (procs s)\<rparr>)))
      else Inr s)"

definition kthread_cancel :: "nat \<Rightarrow> nat \<Rightarrow> int \<Rightarrow> kst \<Rightarrow> (int \<times> kst) res" where
  "kthread_cancel n t exit_status s =
     rbind (cancel_detach t s) (\<lambda>d.
     case d of
       Inl r \<Rightarrow> Inr (r, s)
     | Inr s \<Rightarrow>
         let s = upd_t t (\<lambda>x. x\<lparr>t_ref_cnt := t_ref_cnt x - 1, t_exit_status := exit_status\<rparr>) s;
             proc = t_proc (kt s t);
             s = upd_p proc (\<lambda>x. x\<lparr>p_thr_count := p_thr_count x - 1\<rparr>) s
         in rbind (k_msgq_clean (MThread t) s) (\<lambda>s.
            rbind (release_stack t s) (\<lambda>s.
            rbind (kthread_delete_private_storage t (t_storage (kt s t)) s) (\<lambda>s.
            rbind (end_process proc s) (\<lambda>s.
            rbind (if t_ref_cnt (kt s t) = 0 then kthread_remove_descriptor t s
                   else rbind (kthreadq_release_all (QJoin t) s) (\<lambda>(r, s). Inr s)) (\<lambda>s.
            rbind (kthreads_schedule n s) (\<lambda>s. Inr (SUCCESS, s))))))))"

section \<open>Priority\<close>

definition kthread_set_prio :: "nat \<Rightarrow> nat \<Rightarrow> int \<Rightarrow> kst \<Rightarrow> (int \<times> kst) res" where
  "kthread_set_prio n t prio s =
     (let t = or_active t s;
          old_prio = t_prio (kt s t);
          st = t_state (kt s t)
      in rbind
        (if st = THR_STATE_ACTIVE then
           let s = upd_t t (\<lambda>x. x\<lparr>t_prio := prio\<rparr>) s
           in rbind (kthread_move_to_ready t LIST_LAST s) (kthreads_schedule n)
         else if st = THR_STATE_READY then
           rbind (kthread_remove_from_ready t s) (\<lambda>(r, s).
           let s = upd_t t (\<lambda>x. x\<lparr>t_prio := prio\<rparr>) s
           in rbind (kthread_move_to_ready t LIST_LAST s) (kthreads_schedule n))
         else if st = THR_STATE_WAIT \<or> st = THR_STATE_PASSIVE then Inr (upd_t t (\<lambda>x. x\<lparr>t_prio := prio\<rparr>) s)
         else Inr s) (\<lambda>s. Inr (old_prio, s)))"

section \<open>Processes\<close>

text \<open>\<^verbatim>\<open>prog = list_get (&progs); while ( prog && strcmp (...) ) prog = list_get_next ( &prog->all )\<close>\<close>

fun find_prog :: "nat list \<Rightarrow> nat \<Rightarrow> kst \<Rightarrow> nat res" where
  "find_prog [] name s = Inr 0"
| "find_prog (g # gs) name s =
     rbind (strcmp (prog_name (kg s g)) name (umem s)) (\<lambda>c. if c \<noteq> 0 then find_prog gs name s else Inr g)"

text \<open>The number of entries of an argument vector.\<close>

fun argc :: "nat \<Rightarrow> nat \<Rightarrow> nat \<Rightarrow> kst \<Rightarrow> nat res" where
  "argc 0 v i s = Inl Out_of_fuel"
| "argc (Suc f) v i s = (if ptr_at (v + 4 * i) s = 0 then Inr i else argc f v (i + 1) s)"

text \<open>Copying the arguments from the kernel's copy into the new process.\<close>

fun give_args :: "nat \<Rightarrow> nat \<Rightarrow> nat \<Rightarrow> nat \<Rightarrow> nat \<Rightarrow> nat \<Rightarrow> kst \<Rightarrow> kst res" where
  "give_args 0 kargs args arg i proc s = Inl Out_of_fuel"
| "give_args (Suc f) kargs args arg i proc s =
     rbind (strcpy arg (ptr_at (kargs + 4 * i) s) (umem s)) (\<lambda>m.
     let s = s\<lparr>umem := m\<rparr>
     in rbind (k_k2u_adr arg proc s) (\<lambda>u.
        let s = put_at (args + 4 * i) (of_nat u) s
        in rbind (strlen arg (umem s)) (\<lambda>l.
           if ptr_at (kargs + 4 * (i + 1)) s \<noteq> 0 then give_args f kargs args (arg + l + 1) (i + 1) proc s
           else Inr (put_at (args + 4 * (i + 1)) 0 s))))"

definition start_args :: "nat \<Rightarrow> nat \<Rightarrow> kst \<Rightarrow> (nat \<times> kst) res" where
  "start_args prm proc s =
     (if prm = 0 then Inr (0, s)
      else
        rbind (argc adr_space prm 0 s) (\<lambda>i.
        rbind (if i = 0 then Inl Out_of_bounds else strlen (ptr_at (prm + 4 * (i - 1)) s) (umem s)) (\<lambda>l.
        let argsize = nat ((int (ptr_at (prm + 4 * (i - 1)) s) + int l + 1 - int prm) mod 2 ^ 32)
        in rbind
          (if argsize > 0 then
             rbind (ffs_alloc (p_stack_pool (kp s proc)) argsize (ffm s)) (\<lambda>(args, m).
             rbind (give_args adr_space prm args (args + (i + 1) * 4) 0 proc (s\<lparr>ffm := m\<rparr>)) (\<lambda>s.
             rbind (k_k2u_adr args proc s) (\<lambda>u. Inr (u, s))))
           else Inr (0, s)) (\<lambda>(u, s).
          rbind (kfree prm s) (\<lambda>s. Inr (u, s))))))"

text \<open>Setting up the memory of a new process. The header of the program is found at its start, \<^verbatim>\<open>kpi\<close> is the
  typed view of it.\<close>

definition load_process :: "nat \<Rightarrow> nat \<Rightarrow> nat \<Rightarrow> kst \<Rightarrow> kst res" where
  "load_process g proc pi s =
     (let gpi = g_pi (kg s g);
          s = s\<lparr>umem := memcpy pi gpi (g_size (kg s g)) (umem s), kpi := (kpi s)(pi := kpi s gpi)\<rparr>;
          hp = pi + g_size (kg s g);
          st = hp + pi_heap_size (kpi s gpi);
          s = s\<lparr>umem := memset hp 0 ((pi_heap_size (kpi s gpi) + pi_stack_size (kpi s gpi)) mod 2 ^ 32) (umem s)\<rparr>;
          s = upd_p proc (\<lambda>x. x\<lparr>p_start := pi\<rparr>) s;
          s = s\<lparr>kpi := (kpi s)(pi := (kpi s pi)\<lparr>pi_stdin := u_stdin s, pi_stdout := u_stdout s\<rparr>)\<rparr>
      in rbind (ffs_init st (pi_stack_size (kpi s gpi)) (ffm s)) (\<lambda>(pool, m).
         let s = upd_p proc (\<lambda>x. x\<lparr>p_stack_pool := pool\<rparr>) (s\<lparr>ffm := m\<rparr>);
             s = s\<lparr>kpi := (kpi s)(pi := (kpi s pi)\<lparr>pi_heap := g_size (kg s g),
                   pi_stack := g_size (kg s g) + pi_heap_size (kpi s gpi),
                   pi_end_adr := g_size (kg s g) + pi_heap_size (kpi s gpi) + pi_stack_size (kpi s gpi)\<rparr>)\<rparr>
         in Inr (upd_p proc (\<lambda>x. x\<lparr>p_thr_count := 0\<rparr>) s)))"

abbreviation (input) THR_DEFAULT_PRIO :: int where "THR_DEFAULT_PRIO \<equiv> 20"

definition kthread_start_process :: "nat \<Rightarrow> nat \<Rightarrow> nat \<Rightarrow> int \<Rightarrow> kst \<Rightarrow> (nat \<times> kst) res" where
  "kthread_start_process n name prm prio s =
     rbind (find_prog (progs s) name s) (\<lambda>g.
     if g = 0 then Inr (0, s)
     else
       rbind (kmalloc 36 s) (\<lambda>(proc, s).
       rbind (ASSERT (proc \<noteq> 0)) (\<lambda>_.
       let gpi = kpi s (g_pi (kg s g));
           sz = (g_size (kg s g) + pi_heap_size gpi + pi_stack_size gpi) mod 2 ^ 32;
           s = upd_p proc (\<lambda>x. x\<lparr>p_prog := g, p_size := sz\<rparr>) s
       in rbind (kmalloc sz s) (\<lambda>(pi, s).
          let s = upd_p proc (\<lambda>x. x\<lparr>p_start := pi, p_pi := pi\<rparr>) s
          in if pi = 0 then rbind (kfree pi s) (\<lambda>s. Inr (0, s))
             else
               rbind (load_process g proc pi s) (\<lambda>s.
               let prio = (if prio = 0 then pi_prio (kpi s pi) else prio);
                   prio = (if prio = 0 then THR_DEFAULT_PRIO else prio)
               in rbind (start_args prm proc s) (\<lambda>(args, s).
                  rbind (kthread_create (pi_init (kpi s pi)) args 0 SCHED_FIFO prio 0 0 True proc s) (\<lambda>(t, s).
                  let s = s\<lparr>procs := procs s @ [proc]\<rparr>
                  in rbind (kthreads_schedule n s) (\<lambda>s. Inr (t, s)))))))))"

text \<open>\<open>kernel_proc\<close> and \<open>idle_thread\<close> are the addresses of the kernel's own process descriptor and of the
  function of the idle thread.\<close>

definition kthreads_init :: "nat \<Rightarrow> nat \<Rightarrow> nat \<Rightarrow> kst \<Rightarrow> kst res" where
  "kthreads_init n kernel_proc idle_thread s =
     (let s = s\<lparr>all_threads := [], procs := []\<rparr>;
          s = kthread_ready_list_init s
      in rbind (ksched_init n s) (\<lambda>s.
         let s = s\<lparr>active_thread := 0\<rparr>;
             s = upd_p kernel_proc (\<lambda>x. x\<lparr>p_prog := 0, p_stack_pool := 0, p_start := 0, p_size := 0xffffffff\<rparr>) s
         in rbind (kthread_create idle_thread 0 0 SCHED_FIFO 0 0 0 True kernel_proc s) (\<lambda>(t, s).
            kthreads_schedule n s)))"

section \<open>The system calls\<close>

definition put_thread :: "nat \<Rightarrow> nat \<Rightarrow> kst \<Rightarrow> kst" where
  "put_thread adr t s = put_at (adr + 4) (of_nat (t_id (kt s t))) (put_at adr (of_nat t) s)"

definition sys__create_thread :: "nat \<Rightarrow> nat \<Rightarrow> kst \<Rightarrow> (int \<times> kst) res" where
  "sys__create_thread n p s =
     (let func = ptr_at p s;
          prm = ptr_at (p + 4) s;
          sched = int_at (p + 8) s;
          prio = int_at (p + 12) s;
          proc = t_proc (kt s (active_thread s))
      in rbind (kthread_create func prm (pi_exit (kpi s (p_pi (kp s proc)))) sched prio 0 0 True proc s) (\<lambda>(t, s).
         assert_errno_exit (t \<noteq> 0) E_NO_MEMORY s (
         let thr_desc = ptr_at (p + 16) s
         in rbind (if thr_desc \<noteq> 0
                   then rbind (k_u2k_adr thr_desc (t_proc (kt s (active_thread s))) s) (\<lambda>a. Inr (put_thread a t s))
                   else Inr s) (\<lambda>s.
            let s = SET_ERRNO SUCCESS s
            in rbind (kthreads_schedule n s) (\<lambda>s. Inr (- SUCCESS, s))))))"

definition sys__thread_exit :: "nat \<Rightarrow> nat \<Rightarrow> kst \<Rightarrow> (int \<times> kst) res" where
  "sys__thread_exit n p s =
     rbind (kthread_cancel n (active_thread s) (int_at p s) s) (\<lambda>(r, s).
     rbind (kthreads_schedule n s) (\<lambda>s. Inr (0, s)))"

definition sys__wait_for_thread :: "nat \<Rightarrow> nat \<Rightarrow> kst \<Rightarrow> (int \<times> kst) res" where
  "sys__wait_for_thread n p s =
     rbind (k_u2k_adr (ptr_at p s) (t_proc (kt s (active_thread s))) s) (\<lambda>thread.
     let wait = int_at (p + 4) s
     in assert_errno_exit (thread \<noteq> 0 \<and> ptr_at thread s \<noteq> 0) E_INVALID_HANDLE s (
        let t = ptr_at thread s
        in if t_id (kt s t) \<noteq> ptr_at (thread + 4) s then Inr (- SUCCESS, SET_ERRNO SUCCESS s)
           else if t_state (kt s t) \<noteq> THR_STATE_PASSIVE \<and> wait = 0 then Inr (- E_NOT_FINISHED, SET_ERRNO E_NOT_FINISHED s)
           else if t_state (kt s t) \<noteq> THR_STATE_PASSIVE then
             let s = upd_t t (\<lambda>x. x\<lparr>t_ref_cnt := t_ref_cnt x + 1\<rparr>) s;
                 s = SET_ERRNO E_RETRY s
             in rbind (kthread_enqueue 0 (QJoin t) s) (\<lambda>s.
                rbind (kthreads_schedule n s) (\<lambda>s. Inr (- E_RETRY, s)))
           else
             let s = SET_ERRNO SUCCESS s;
                 ret_value = t_exit_status (kt s t);
                 s = upd_t t (\<lambda>x. x\<lparr>t_ref_cnt := t_ref_cnt x - 1\<rparr>) s
             in rbind (if t_ref_cnt (kt s t) = 0 then kthread_remove_descriptor t s else Inr s) (\<lambda>s.
                Inr (ret_value, s))))"

text \<open>\<^verbatim>\<open>EXIT ( kthread_cancel ( kthread, -1 ) )\<close>: the macro uses its argument twice, so the thread is cancelled
  twice.\<close>

definition sys__cancel_thread :: "nat \<Rightarrow> nat \<Rightarrow> kst \<Rightarrow> (int \<times> kst) res" where
  "sys__cancel_thread n p s =
     rbind (k_u2k_adr (ptr_at p s) (t_proc (kt s (active_thread s))) s) (\<lambda>thread.
     assert_errno_exit (thread \<noteq> 0 \<and> ptr_at thread s \<noteq> 0) E_INVALID_HANDLE s (
     let t = ptr_at thread s; st = t_state (kt s t)
     in if t_id (kt s t) \<noteq> ptr_at (thread + 4) s then EXIT SUCCESS s
        else if st = THR_STATE_PASSIVE then EXIT SUCCESS s
        else if st = THR_STATE_READY \<or> st = THR_STATE_WAIT then
          rbind (kthread_cancel n t (-1) s) (\<lambda>(r, s).
          let s = SET_ERRNO r s
          in rbind (kthread_cancel n t (-1) s) (\<lambda>(r, s). Inr (- r, s)))
        else EXIT E_INVALID_HANDLE s))"

definition sys__thread_self :: "nat \<Rightarrow> kst \<Rightarrow> (int \<times> kst) res" where
  "sys__thread_self p s =
     rbind (k_u2k_adr (ptr_at p s) (t_proc (kt s (active_thread s))) s) (\<lambda>thread.
     assert_errno_exit (thread \<noteq> 0) E_INVALID_HANDLE s (
     EXIT SUCCESS (put_thread thread (active_thread s) s)))"

text \<open>The two loops of \<^verbatim>\<open>sys__start_program\<close>: measuring the arguments, and copying them to the kernel.\<close>

fun measure_args :: "nat \<Rightarrow> nat \<Rightarrow> nat \<Rightarrow> nat \<Rightarrow> nat \<Rightarrow> kst \<Rightarrow> (nat \<times> nat) res" where
  "measure_args 0 args argnum argsize proc s = Inl Out_of_fuel"
| "measure_args (Suc f) args argnum argsize proc s =
     (if ptr_at (args + 4 * argnum) s = 0 then Inr (argnum, argsize)
      else
        rbind (k_u2k_adr (ptr_at (args + 4 * argnum) s) proc s) (\<lambda>arg.
        rbind (strlen arg (umem s)) (\<lambda>l. measure_args f args (argnum + 1) (argsize + l + 1) proc s)))"

fun take_args :: "nat \<Rightarrow> nat \<Rightarrow> nat \<Rightarrow> nat \<Rightarrow> nat \<Rightarrow> nat \<Rightarrow> kst \<Rightarrow> kst res" where
  "take_args 0 args kargs karg argnum proc s = Inl Out_of_fuel"
| "take_args (Suc f) args kargs karg argnum proc s =
     (if ptr_at (args + 4 * argnum) s = 0 then Inr (put_at (kargs + 4 * argnum) 0 s)
      else
        rbind (k_u2k_adr (ptr_at (args + 4 * argnum) s) proc s) (\<lambda>arg.
        rbind (strcpy karg arg (umem s)) (\<lambda>m.
        let s = put_at (kargs + 4 * argnum) (of_nat karg) (s\<lparr>umem := m\<rparr>)
        in rbind (strlen karg (umem s)) (\<lambda>l. take_args f args kargs (karg + l + 1) (argnum + 1) proc s))))"

definition sys__start_program :: "nat \<Rightarrow> nat \<Rightarrow> kst \<Rightarrow> (int \<times> kst) res" where
  "sys__start_program n p s =
     (let cur = active_thread s;
          proc = t_proc (kt s cur);
          name = ptr_at p s
      in assert_errno_exit (name \<noteq> 0) E_INVALID_HANDLE s (
         rbind (k_u2k_adr name proc s) (\<lambda>name.
         let thr_desc = ptr_at (p + 4) s;
             prm = ptr_at (p + 8) s;
             prio = int_at (p + 12) s
         in rbind
           (if prm \<noteq> 0 then
              rbind (k_u2k_adr prm proc s) (\<lambda>args.
              rbind (measure_args adr_space args 0 0 proc s) (\<lambda>(argnum, argsize).
              if argnum > 0 then
                rbind (kmalloc (((argnum + 1) * 4 + argsize) mod 2 ^ 32) s) (\<lambda>(kargs, s).
                rbind (take_args adr_space args kargs (kargs + (argnum + 1) * 4) 0 proc s) (\<lambda>s. Inr (kargs, s)))
              else Inr (0, s)))
            else Inr (0, s)) (\<lambda>(kargs, s).
           let s = SET_ERRNO SUCCESS s
           in rbind (kthread_start_process n name kargs prio s) (\<lambda>(t, s).
              if t = 0 then EXIT E_NO_MEMORY s
              else
                rbind (if thr_desc \<noteq> 0 then rbind (k_u2k_adr thr_desc (t_proc (kt s cur)) s) (\<lambda>a. Inr (put_thread a t s))
                       else Inr s) (\<lambda>s. Inr (- SUCCESS, s)))))))"

definition sys__set_errno :: "nat \<Rightarrow> kst \<Rightarrow> (int \<times> kst) res" where
  "sys__set_errno p s = Inr (0, upd_t (active_thread s) (\<lambda>x. x\<lparr>t_errno := int_at p s\<rparr>) s)"

definition sys__get_errno :: "nat \<Rightarrow> kst \<Rightarrow> (int \<times> kst) res" where
  "sys__get_errno p s = Inr (t_errno (kt s (active_thread s)), s)"

section \<open>Scheduling parameters\<close>

definition rr_set_sched_parameters :: "int \<Rightarrow> nat \<Rightarrow> kst \<Rightarrow> kst res" where
  "rr_set_sched_parameters sched_policy params s =
     rbind (ASSERT (sched_policy \<ge> 0 \<and> sched_policy < SCHED_NUM)) (\<lambda>_.
     Inr (s\<lparr>rr := (rr s)\<lparr>rr_time_slice := time_at params s\<rparr>\<rparr>))"

definition rr_set_thread_sched_parameters :: "nat \<Rightarrow> nat \<Rightarrow> kst \<Rightarrow> kst" where
  "rr_set_thread_sched_parameters t params s = s\<lparr>rr := (rr s)\<lparr>rr_time_slice := time_at params s\<rparr>\<rparr>"

text \<open>The policy is \<^verbatim>\<open>SCHED_RR\<close> when the checks are passed, and \<^verbatim>\<open>get_thread_sched_parameters\<close> of that scheduler
  does nothing.\<close>

definition sys__set_thread_sched_params :: "nat \<Rightarrow> nat \<Rightarrow> kst \<Rightarrow> (int \<times> kst) res" where
  "sys__set_thread_sched_params n p s =
     rbind (user_ptr p s) (\<lambda>thread.
     assert_errno_exit (thread \<noteq> 0 \<and> ptr_at thread s \<noteq> 0) E_INVALID_HANDLE s (
     let t = ptr_at thread s
     in assert_errno_exit (ptr_at (thread + 4) s = kthread_get_id t s) E_INVALID_HANDLE s (
        let sched_policy = int_at (p + 4) s
        in assert_errno_exit (sched_policy > 0 \<and> sched_policy < SCHED_NUM) E_INVALID_HANDLE s (
           let prio = int_at (p + 8) s
           in assert_errno_exit (prio > 0 \<and> prio < int PRIO_LEVELS) E_INVALID_HANDLE s (
              rbind (user_ptr (p + 12) s) (\<lambda>params.
              rbind (ksched_set_thread_policy t sched_policy s) (\<lambda>(o', s).
              rbind (kthread_set_prio n t prio s) (\<lambda>(o', s).
              Inr (0, if params \<noteq> 0 then rr_set_thread_sched_parameters t params s else s)))))))))"

definition out_int :: "nat \<Rightarrow> int \<Rightarrow> kst \<Rightarrow> kst res" where
  "out_int p v s =
     (if ptr_at p s \<noteq> 0 then rbind (user_ptr p s) (\<lambda>a. Inr (if a \<noteq> 0 then put_at a (word_of_int v) s else s)) else Inr s)"

definition sys__get_thread_sched_params :: "nat \<Rightarrow> kst \<Rightarrow> (int \<times> kst) res" where
  "sys__get_thread_sched_params p s =
     rbind (user_ptr p s) (\<lambda>thread.
     assert_errno_exit (thread \<noteq> 0 \<and> ptr_at thread s \<noteq> 0) E_INVALID_HANDLE s (
     let t = ptr_at thread s
     in assert_errno_exit (ptr_at (thread + 4) s = kthread_get_id t s) E_INVALID_HANDLE s (
        rbind (out_int (p + 4) (t_policy (kt s t)) s) (\<lambda>s.
        rbind (out_int (p + 8) (kthread_get_prio t s) s) (\<lambda>s.
        rbind (if ptr_at (p + 12) s \<noteq> 0
               then rbind (user_ptr (p + 12) s) (\<lambda>params. if params \<noteq> 0 then in_ksched (t_policy (kt s t)) else Inr ())
               else Inr ()) (\<lambda>_.
        Inr (0, s)))))))"

definition sys__set_sched_params :: "nat \<Rightarrow> kst \<Rightarrow> (int \<times> kst) res" where
  "sys__set_sched_params p s =
     (let sched_policy = int_at p s
      in assert_errno_exit (sched_policy > 0 \<and> sched_policy < SCHED_NUM) E_INVALID_HANDLE s (
         rbind (user_ptr (p + 4) s) (\<lambda>params.
         rbind (if params \<noteq> 0 then rr_set_sched_parameters sched_policy params s else Inr s) (\<lambda>s.
         Inr (0, s)))))"

definition sys__get_sched_params :: "nat \<Rightarrow> kst \<Rightarrow> (int \<times> kst) res" where
  "sys__get_sched_params p s = Inr (0, s)"

definition ksched_thread_remove :: "nat \<Rightarrow> int \<Rightarrow> kst \<Rightarrow> int res" where
  "ksched_thread_remove t sched_policy s =
     rbind (ASSERT (sched_policy \<ge> 0 \<and> sched_policy < SCHED_NUM)) (\<lambda>_.
     rbind (ASSERT (t_policy (kt s (or_active t s)) = sched_policy)) (\<lambda>_. Inr 0))"

section \<open>Waiting for the end of a thread\<close>

text \<open>The descriptor of an ended thread: an allocated block, with no thread waiting in its queues and an identifier that is in use.\<close>

definition descriptor_ok :: "kst \<Rightarrow> (qid \<Rightarrow> nat list) \<Rightarrow> nat \<Rightarrow> bool" where
  "descriptor_ok s A t \<longleftrightarrow> (\<exists>l. (t, l) \<in> ffs_blocks (k_mpool s) (ffm s)) \<and> no_waiters A t \<and>
     0 < t_id (kt s t) \<and> t_id (kt s t) < MAX_RESOURCES \<and> t_id (kt s t) \<in> live_ids (idst s)"

lemma remove_descriptor_ok:
  assumes k: "kinv s A i" and h: "heap_ok s A" and d: "descriptor_ok s A t"
  shows "\<exists>s' l. kthread_remove_descriptor t s = Inr s' \<and> kinv s' A i \<and> heap_ok s' A \<and> (t, l) \<in> ffs_blocks (k_mpool s) (ffm s) \<and>
    ffs_blocks (k_mpool s') (ffm s') = ffs_blocks (k_mpool s) (ffm s) - {(t, l)} \<and> t_id (kt s' t) = 0 \<and>
    live_ids (idst s') = live_ids (idst s) - {t_id (kt s t)} \<and> all_threads s' = remove1 t (all_threads s)"
proof -
  obtain l where l: "(t, l) \<in> ffs_blocks (k_mpool s) (ffm s)" and nw: "no_waiters A t" using d by (auto simp: descriptor_ok_def)
  obtain ids where ids: "k_free_unique_id (t_id (kt s t)) (idst s) = Inr ids" "live_ids ids = live_ids (idst s) - {t_id (kt s t)}"
    using k_free_unique_id_live [of "t_id (kt s t)" "idst s"] d by (auto simp: descriptor_ok_def)
  let ?u = "(upd_t t (\<lambda>x. x\<lparr>t_id := 0\<rparr>) (s\<lparr>idst := ids\<rparr>))\<lparr>all_threads := remove1 t (all_threads s)\<rparr>"
  obtain m where m: "ffs_free (k_mpool s) t (ffm s) = Inr m" "ffs_blocks (k_mpool s) m = ffs_blocks (k_mpool s) (ffm s) - {(t, l)}"
    using ffs_free_law [of "k_mpool s" "ffm s" t l] h l by (auto simp: heap_ok_def)
  have hu: "heap_ok ?u A" using h by (rule heap_ok_cong) simp_all
  have lu: "(t, l) \<in> ffs_blocks (k_mpool ?u) (ffm ?u)" using l by simp
  have kf: "kfree t ?u = Inr (?u\<lparr>ffm := m\<rparr>)" using m(1) by (simp add: kfree_def)
  have "kthread_remove_descriptor t s = Inr (?u\<lparr>ffm := m\<rparr>)" using ids(1) kf by (simp add: kthread_remove_descriptor_def Let_def)
  moreover have "heap_ok (?u\<lparr>ffm := m\<rparr>) A" by (rule kfree_ok [OF hu lu nw]) (use kf in simp)
  moreover have "kinv (?u\<lparr>ffm := m\<rparr>) A i" by (rule kinv_cong [OF k]) simp_all
  ultimately show ?thesis using l m(2) ids(2) by (intro exI [of _ "?u\<lparr>ffm := m\<rparr>"] exI [of _ l]) simp
qed

lemma removed_ref_cnt: "kthread_remove_descriptor t s = Inr s' \<Longrightarrow> t_ref_cnt (kt s' t) = t_ref_cnt (kt s t)"
  by (auto simp: kthread_remove_descriptor_def kfree_def Let_def rbind_eq_Inr)

text \<open>The call, when the handle is good.\<close>

lemma join_blocks:
  assumes k: "kinv s A i" and me: "active_thread s \<noteq> i" and h: "handle_at p h t s" and st: "t_id (kt s t) = ptr_at (h + 4) s"
    "t_state (kt s t) \<noteq> THR_STATE_PASSIVE" "int_at (p + 4) s \<noteq> 0"
  shows "\<exists>s' A'. sys__wait_for_thread (Suc n) p s = Inr (- E_RETRY, s') \<and> kinv s' A' i \<and> A' (QJoin t) = A (QJoin t) @ [active_thread s] \<and>
    active_thread s' \<noteq> active_thread s \<and> t_ref_cnt (kt s' t) = t_ref_cnt (kt s t) + 1 \<and> (\<forall>r. r \<noteq> QJoin t \<and> \<not> is_ready_q r \<longrightarrow> A' r = A r)"
proof -
  have u: "k_u2k_adr (ptr_at p s) (t_proc (kt s (active_thread s))) s = Inr h" and h0: "h \<noteq> 0" and t: "ptr_at h s = t" "t \<noteq> 0"
    using handle_cases [OF h] by (simp_all add: user_ptr_def kthread_get_process_def or_active_def)
  let ?u = "SET_ERRNO E_RETRY (upd_t t (\<lambda>x. x\<lparr>t_ref_cnt := t_ref_cnt x + 1\<rparr>) s)"
  have ku: "kinv ?u A i" by (rule kinv_errno, rule kinv_cong [OF k]) simp_all
  have mu: "active_thread ?u \<noteq> i" using me by simp
  obtain s1 s' A' where r: "kthread_enqueue 0 (QJoin t) ?u = Inr s1" "kthreads_schedule (Suc n) s1 = Inr s'" "kinv s' A' i"
    "\<And>r. \<not> is_ready_q r \<Longrightarrow> A' r = (A(QJoin t := A (QJoin t) @ [active_thread ?u])) r" "sched_frame ?u s'"
    using block_schedule [OF ku mu, of "QJoin t" n] by (metis is_ready_q_simps(4))
  have ex: "sys__wait_for_thread (Suc n) p s = Inr (- E_RETRY, s')"
    using st u h0 t r(1,2) by (simp add: sys__wait_for_thread_def assert_errno_exit_def Let_def del: kthreads_schedule.simps)
  have q: "A' (QJoin t) = A (QJoin t) @ [active_thread s]" using r(4) [of "QJoin t"] by simp
  have "t_ref_cnt (kt s' t) = t_ref_cnt (kt s t) + 1"
    using same_thrD(8) [OF sched_frameD(23) [OF r(5), of t]] by (simp add: SET_ERRNO_eq)
  moreover have "active_thread s' \<noteq> active_thread s" using kinvD(7) [OF r(3), of "QJoin t"] q by auto
  ultimately show ?thesis using ex r(3,4) q by auto
qed

lemma join_collects:
  assumes k: "kinv s A i" and hp: "heap_ok s A" and h: "handle_at p h t s" and st: "t_id (kt s t) = ptr_at (h + 4) s" "t_state (kt s t) = THR_STATE_PASSIVE"
    and d: "t_ref_cnt (kt s t) = 1 \<Longrightarrow> descriptor_ok s A t"
  shows "\<exists>s'. sys__wait_for_thread n p s = Inr (t_exit_status (kt s t), s') \<and> kinv s' A i \<and> heap_ok s' A \<and>
    t_ref_cnt (kt s' t) = t_ref_cnt (kt s t) - 1 \<and>
    (if t_ref_cnt (kt s t) = 1
     then \<exists>l. (t, l) \<in> ffs_blocks (k_mpool s) (ffm s) \<and> ffs_blocks (k_mpool s') (ffm s') = ffs_blocks (k_mpool s) (ffm s) - {(t, l)} \<and>
       t_id (kt s' t) = 0 \<and> live_ids (idst s') = live_ids (idst s) - {t_id (kt s t)} \<and> all_threads s' = remove1 t (all_threads s)
     else ffm s' = ffm s \<and> t_id (kt s' t) = t_id (kt s t) \<and> idst s' = idst s \<and> all_threads s' = all_threads s)"
proof -
  have u: "k_u2k_adr (ptr_at p s) (t_proc (kt s (active_thread s))) s = Inr h" and h0: "h \<noteq> 0" and t: "ptr_at h s = t" "t \<noteq> 0"
    using handle_cases [OF h] by (simp_all add: user_ptr_def kthread_get_process_def or_active_def)
  let ?u = "upd_t t (\<lambda>x. x\<lparr>t_ref_cnt := t_ref_cnt x - 1\<rparr>) (SET_ERRNO SUCCESS s)"
  have ku: "kinv ?u A i" by (rule kinv_cong [OF kinv_errno [OF k, of SUCCESS]]) simp_all
  have hu: "heap_ok ?u A" using hp by (rule heap_ok_cong) simp_all
  have x: "t_exit_status (kt (SET_ERRNO SUCCESS s) t) = t_exit_status (kt s t)" "t_ref_cnt (kt (SET_ERRNO SUCCESS s) t) = t_ref_cnt (kt s t)"
    "t_id (kt (SET_ERRNO SUCCESS s) t) = t_id (kt s t)" "all_threads (SET_ERRNO SUCCESS s) = all_threads s" "idst (SET_ERRNO SUCCESS s) = idst s"
    by (simp_all add: SET_ERRNO_eq)
  have call: "sys__wait_for_thread n p s =
      rbind (if t_ref_cnt (kt s t) = 1 then kthread_remove_descriptor t ?u else Inr ?u) (\<lambda>s'. Inr (t_exit_status (kt s t), s'))"
    using st u h0 t x by (simp add: sys__wait_for_thread_def assert_errno_exit_def Let_def)
  show ?thesis
  proof (cases "t_ref_cnt (kt s t) = 1")
    case True
    have "descriptor_ok ?u A t" using d [OF True] x by (simp add: descriptor_ok_def)
    from remove_descriptor_ok [OF ku hu this] obtain s' l where s': "kthread_remove_descriptor t ?u = Inr s'" "kinv s' A i" "heap_ok s' A"
      "(t, l) \<in> ffs_blocks (k_mpool s) (ffm s)" "ffs_blocks (k_mpool s') (ffm s') = ffs_blocks (k_mpool s) (ffm s) - {(t, l)}" "t_id (kt s' t) = 0"
      "live_ids (idst s') = live_ids (idst s) - {t_id (kt s t)}" "all_threads s' = remove1 t (all_threads s)" using x by auto
    have "t_ref_cnt (kt s' t) = t_ref_cnt (kt ?u t)" using removed_ref_cnt [OF s'(1)] by simp
    then show ?thesis using call True s' x by (intro exI [of _ s']) auto
  next
    case False
    then show ?thesis using call ku hu x by (intro exI [of _ ?u]) simp
  qed
qed

text \<open>\<^bold>\<open>C15\<close> \<open>sys__wait_for_thread\<close> on every branch. A null pointer to the handle, or a handle without a thread, is refused (\<^verbatim>\<open>E_INVALID_HANDLE\<close>); a handle outside of the
  process stops the machine. A handle whose identifier is not the one of the descriptor (the thread is gone) succeeds at once;
  a thread that has not ended is reported by \<^verbatim>\<open>E_NOT_FINISHED\<close> to a caller that does not wait, and otherwise the caller is counted in the
  descriptor, becomes the last thread that waits for it and is told to retry (\<^verbatim>\<open>E_RETRY\<close>) when it runs again. Of an ended thread the
  exit status is returned and the count goes down: the descriptor stays as long as others are counted, and the last one that collects the status frees it, with its
  identifier, and takes it out of the list of all threads. The last is for a descriptor that is still allocated, has no waiting threads and an identifier in use.\<close>

theorem join_branches:
  assumes k: "kinv s A i" and hp: "heap_ok s A" and me: "active_thread s \<noteq> i"
    and d: "\<And>h. user_ptr p s = Inr h \<Longrightarrow> t_state (kt s (ptr_at h s)) = THR_STATE_PASSIVE \<Longrightarrow> t_ref_cnt (kt s (ptr_at h s)) = 1 \<Longrightarrow>
      t_id (kt s (ptr_at h s)) = ptr_at (h + 4) s \<Longrightarrow> descriptor_ok s A (ptr_at h s)"
  shows "case user_ptr p s of
      Inl e \<Rightarrow> sys__wait_for_thread (Suc n) p s = Inl e
    | Inr h \<Rightarrow> (let t = ptr_at h s in
        if h = 0 \<or> t = 0 then sys__wait_for_thread (Suc n) p s = Inr (- E_INVALID_HANDLE, SET_ERRNO E_INVALID_HANDLE s)
        else if t_id (kt s t) \<noteq> ptr_at (h + 4) s then sys__wait_for_thread (Suc n) p s = Inr (0, SET_ERRNO SUCCESS s)
        else if t_state (kt s t) \<noteq> THR_STATE_PASSIVE then
          if int_at (p + 4) s = 0 then sys__wait_for_thread (Suc n) p s = Inr (- E_NOT_FINISHED, SET_ERRNO E_NOT_FINISHED s)
          else \<exists>s' A'. sys__wait_for_thread (Suc n) p s = Inr (- E_RETRY, s') \<and> kinv s' A' i \<and> A' (QJoin t) = A (QJoin t) @ [active_thread s] \<and>
            active_thread s' \<noteq> active_thread s \<and> t_ref_cnt (kt s' t) = t_ref_cnt (kt s t) + 1 \<and>
            (\<forall>r. r \<noteq> QJoin t \<and> \<not> is_ready_q r \<longrightarrow> A' r = A r)
        else \<exists>s'. sys__wait_for_thread (Suc n) p s = Inr (t_exit_status (kt s t), s') \<and> kinv s' A i \<and> heap_ok s' A \<and>
          t_ref_cnt (kt s' t) = t_ref_cnt (kt s t) - 1 \<and>
          (if t_ref_cnt (kt s t) = 1
           then \<exists>l. (t, l) \<in> ffs_blocks (k_mpool s) (ffm s) \<and> ffs_blocks (k_mpool s') (ffm s') = ffs_blocks (k_mpool s) (ffm s) - {(t, l)} \<and>
             t_id (kt s' t) = 0 \<and> live_ids (idst s') = live_ids (idst s) - {t_id (kt s t)} \<and> all_threads s' = remove1 t (all_threads s)
           else ffm s' = ffm s \<and> t_id (kt s' t) = t_id (kt s t) \<and> idst s' = idst s \<and> all_threads s' = all_threads s))"
proof (cases "user_ptr p s")
  case (Inl e)
  then show ?thesis by (simp add: sys__wait_for_thread_def user_ptr_def kthread_get_process_def or_active_def)
next
  case (Inr h)
  define t where "t = ptr_at h s"
  have u: "k_u2k_adr (ptr_at p s) (t_proc (kt s (active_thread s))) s = Inr h"
    using Inr by (simp add: user_ptr_def kthread_get_process_def or_active_def)
  note w = sys__wait_for_thread_def assert_errno_exit_def Let_def
  consider "h = 0 \<or> t = 0" | "h \<noteq> 0" "t \<noteq> 0" "t_id (kt s t) \<noteq> ptr_at (h + 4) s"
    | "h \<noteq> 0" "t \<noteq> 0" "t_id (kt s t) = ptr_at (h + 4) s" "t_state (kt s t) \<noteq> THR_STATE_PASSIVE" "int_at (p + 4) s = 0"
    | "h \<noteq> 0" "t \<noteq> 0" "t_id (kt s t) = ptr_at (h + 4) s" "t_state (kt s t) \<noteq> THR_STATE_PASSIVE" "int_at (p + 4) s \<noteq> 0"
    | "h \<noteq> 0" "t \<noteq> 0" "t_id (kt s t) = ptr_at (h + 4) s" "t_state (kt s t) = THR_STATE_PASSIVE" by blast
  then show ?thesis
  proof cases
    case 1
    then show ?thesis using u unfolding Inr sum.case t_def by (auto simp: w EXIT_def)
  next
    case 2
    then show ?thesis using u unfolding Inr sum.case t_def by (simp add: w)
  next
    case 3
    then show ?thesis using u unfolding Inr sum.case t_def by (simp add: w)
  next
    case 4
    have "handle_at p h t s" using 4 Inr by (simp add: handle_at_def t_def)
    note join_blocks [OF k me this 4(3-5), of n]
    then show ?thesis using 4 unfolding Inr sum.case Let_def t_def [symmetric] by simp
  next
    case 5
    have "handle_at p h t s" using 5 Inr by (simp add: handle_at_def t_def)
    moreover have "t_ref_cnt (kt s t) = 1 \<Longrightarrow> descriptor_ok s A t" using d [OF Inr] 5 by (simp add: t_def)
    ultimately show ?thesis using join_collects [OF k hp _ 5(3,4), of p "Suc n"] 5 unfolding Inr sum.case Let_def t_def [symmetric] by simp
  qed
qed

text \<open>The active thread is the last to collect the status of the thread with descriptor \<open>k\<close>, identifier 3 and exit status 42.\<close>

definition ended_demo :: "nat \<Rightarrow> wmem \<Rightarrow> kst" where
  "ended_demo k m = (let d = demo (words_at [(70000, 256), (65792, of_nat k), (65796, 3)]) (QDev 7)
     in d\<lparr>ffm := m, k_mpool := 4096, idst := \<lparr>idmask = 8 # replicate 30 0, last_id = 3\<rparr>, all_threads := all_threads d @ [k],
          kt := (kt d)(k := (demo_thread 3 4 0 None 0)\<lparr>t_exit_status := 42\<rparr>)\<rparr>)"

lemma ffs_block_start:
  assumes "ffs_ok mp m" and "(k, l) \<in> ffs_blocks mp m"
  shows "mp < k"
proof -
  obtain cs fs where "pool m mp cs fs" "ffs_blocks mp m = set (used_blocks (mp + 8) cs)" by (rule ffs_okE [OF assms(1)])
  then show ?thesis using used_blocks_range [of cs k l "mp + 8"] assms(2) by (auto simp: pool_def tiled_def)
qed

theorem join_branches_witness:
  "\<exists>k m s' A'. sys__wait_for_thread 1 70000 (ended_demo k m) = Inr (42, s') \<and> kinv s' A' 1000 \<and> ffs_blocks (k_mpool s') (ffm s') = {} \<and>
     live_ids (idst s') = {} \<and> all_threads s' = [1000, 2000, 3000]"
proof -
  obtain m0 k m where m: "ffs_init 4096 8192 (\<lambda>a. 0) = Inr (4096, m0)" "ffs_ok 4096 m0" "ffs_blocks 4096 m0 = {}"
    "ffs_alloc 4096 12 m0 = Inr (k, m)" "k \<noteq> 0" "ffs_ok 4096 m" "\<exists>l. ffs_blocks 4096 m = {(k, l)}" "k < 2 ^ 32" by (rule demo_heap [of 12]) simp
  then obtain l where l: "ffs_blocks 4096 m = {(k, l)}" by blast
  have k0: "k \<ge> 4096" using ffs_block_start [OF m(6), of k l] l by simp
  let ?s = "ended_demo k m" and ?D = "demo_queues (QDev 7)"
  have kt: "kt ?s k = (demo_thread 3 4 0 None 0)\<lparr>t_exit_status := 42\<rparr>" "\<And>x. x \<noteq> k \<Longrightarrow> kt ?s x = kt (demo (umem ?s) (QDev 7)) x"
    "kt (demo (umem ?s) (QDev 7)) k = demo_thread 0 4 0 None 0"
    "active_thread ?s = 2000" "t_proc (kt ?s 2000) = 800" "p_start (kp ?s 800) = 65536" "p_size (kp ?s 800) = 65536"
    using k0 by (simp_all add: ended_demo_def Let_def, simp_all add: demo_def demo_thread_def)
  have k: "kinv ?s ?D 1000"
  proof (rule kinv_cong [OF demo_kinv [of "QDev 7" "umem ?s"]])
    show "t_state (kt ?s x) = t_state (kt (demo (umem ?s) (QDev 7)) x) \<and> t_prio (kt ?s x) = t_prio (kt (demo (umem ?s) (QDev 7)) x) \<and>
      t_policy (kt ?s x) = t_policy (kt (demo (umem ?s) (QDev 7)) x) \<and> t_queue (kt ?s x) = t_queue (kt (demo (umem ?s) (QDev 7)) x)" for x
      using kt(1,3) kt(2) [of x] by (cases "x = k") (simp_all add: demo_thread_def)
  qed (simp_all add: ended_demo_def Let_def demo_def)
  have nw: "no_waiters ?D j" for j by (simp add: no_waiters_def)
  have hp: "heap_ok ?s ?D" using m(6) nw by (simp add: heap_ok_def ended_demo_def Let_def)
  have live: "live_ids (idst ?s) = {3}"
  proof -
    have "bit (push_bit 3 1 :: u32) j \<longleftrightarrow> j = 3" for j unfolding bit_push_bit_iff bit_1_iff by auto
    then have b8: "bit (8 :: u32) j \<longleftrightarrow> j = 3" for j by simp
    have "bit ((8 # replicate 30 0) ! (i div 32) :: u32) (i mod 32) \<longleftrightarrow> i = 3" if "i div 32 < 31" for i
      using that b8 [of "i mod 32"] by (cases "i div 32 = 0") (auto simp: nth_Cons')
    then show ?thesis by (auto simp: live_ids_def ended_demo_def Let_def)
  qed
  have u: "user_ptr 70000 ?s = Inr 65792" "ptr_at 65792 ?s = k" "ptr_at 65796 ?s = 3"
    using m(8) kt(4-7) by (simp_all add: user_ptr_def k_u2k_adr_def kthread_get_process_def or_active_def ptr_at_def ended_demo_def Let_def words_at_def
      ld32_st32_same ld32_st32_other unat_of_nat take_bit_nat_eq_self)
  have d: "descriptor_ok ?s ?D k" using l nw live kt(1) by (simp add: descriptor_ok_def demo_thread_def) (simp add: ended_demo_def Let_def)
  have me: "active_thread ?s \<noteq> 1000" using kt(4) by simp
  have "descriptor_ok ?s ?D (ptr_at h ?s)" if "user_ptr 70000 ?s = Inr h" for h using that u(1,2) d by simp
  from join_branches [OF k hp me, of 70000 0, OF this] obtain s' l' where "sys__wait_for_thread (Suc 0) 70000 ?s = Inr (42, s')" "kinv s' ?D 1000"
    "(k, l') \<in> ffs_blocks (k_mpool ?s) (ffm ?s)" "ffs_blocks (k_mpool s') (ffm s') = ffs_blocks (k_mpool ?s) (ffm ?s) - {(k, l')}"
    "live_ids (idst s') = live_ids (idst ?s) - {3}" "all_threads s' = remove1 k (all_threads ?s)"
    using u kt(1) m(5) by (auto simp: Let_def demo_thread_def)
  moreover have "ffs_blocks (k_mpool ?s) (ffm ?s) = {(k, l)}" "remove1 k (all_threads ?s) = [1000, 2000, 3000]"
    using l k0 by (simp_all add: ended_demo_def Let_def demo_def)
  ultimately show ?thesis using live by (intro exI [of _ k] exI [of _ m] exI [of _ s'] exI [of _ ?D]) simp
qed

end
