(* ===== verification/Os_Ring.thy ===== *)
theory Os_Ring
  imports Os_Base
begin

text \<open>
  Ring buffers as the drivers keep them: an array of fixed size with the index of the oldest entry, the
  index behind the newest one and the number of entries. The locale states what a driver
  promises of its buffer (a bounded queue that forgets its oldest entry when it is full) and
  what follows for sequences of operations; the keyboard and the serial port interpret it. The
  theory also has the port interface that the drivers are written against.
\<close>

section \<open>Ports\<close>

text \<open>The \<^verbatim>\<open>in\<close> and \<^verbatim>\<open>out\<close> instructions on 8-bit ports are a parameter of the drivers: the state
  \<open>'p\<close> of the hardware may change with every access.\<close>

record 'p io =
  inb :: "nat \<Rightarrow> 'p \<Rightarrow> nat \<times> 'p"
  outb :: "nat \<Rightarrow> nat \<Rightarrow> 'p \<Rightarrow> 'p"

section \<open>Arrays used as rings\<close>

definition ring_contents :: "'a list \<Rightarrow> nat \<Rightarrow> nat \<Rightarrow> 'a list" where
  "ring_contents b f n = map (\<lambda>i. b ! ((f + i) mod length b)) [0..<n]"

definition ring_ok :: "nat \<Rightarrow> 'a list \<Rightarrow> nat \<Rightarrow> nat \<Rightarrow> nat \<Rightarrow> bool" where
  "ring_ok N b f l n \<longleftrightarrow> 0 < N \<and> length b = N \<and> f < N \<and> n \<le> N \<and> l = (f + n) mod N"

lemma length_ring_contents [simp]: "length (ring_contents b f n) = n"
  by (simp add: ring_contents_def)

lemma mod_add_inj: "f < N \<Longrightarrow> i < N \<Longrightarrow> j < N \<Longrightarrow> (f + i) mod N = (f + j) mod N \<longleftrightarrow> i = (j::nat)"
  by (auto simp: mod_if split: if_splits)

lemma ring_put_room:
  assumes ok: "ring_ok N b f l n" and room: "n < N"
  shows "ring_ok N (b[l := x]) f ((l + 1) mod N) (n + 1) \<and>
    ring_contents (b[l := x]) f (n + 1) = ring_contents b f n @ [x]"
proof -
  have len: "length b = N" "f < N" "l = (f + n) mod N" "0 < N" using ok by (auto simp: ring_ok_def)
  have "ring_contents (b[l := x]) f n = ring_contents b f n"
    using len room by (auto simp: ring_contents_def nth_list_update mod_add_inj)
  moreover have "b[l := x] ! ((f + n) mod N) = x" using len by simp
  ultimately have "ring_contents (b[l := x]) f (n + 1) = ring_contents b f n @ [x]"
    using len by (simp add: ring_contents_def)
  then show ?thesis using len room by (auto simp: ring_ok_def mod_Suc_eq)
qed

lemma ring_get_first:
  assumes ok: "ring_ok N b f l n" and n: "0 < n"
  shows "ring_ok N b ((f + 1) mod N) l (n - 1) \<and> ring_contents b f n = b ! f # ring_contents b ((f + 1) mod N) (n - 1)"
proof -
  have len: "length b = N" "f < N" "l = (f + n) mod N" "0 < N" "n \<le> N" using ok by (auto simp: ring_ok_def)
  obtain k where k: "n = Suc k" using n by (cases n) auto
  have "ring_contents b f n = b ! f # map (\<lambda>i. b ! ((f + Suc i) mod N)) [0..<k]"
    using len k by (simp add: ring_contents_def map_upt_Suc del: upt_Suc)
  also have "\<dots> = b ! f # ring_contents b ((f + 1) mod N) (n - 1)"
    using len k by (simp add: ring_contents_def mod_add_left_eq)
  finally show ?thesis using len k by (simp add: ring_ok_def mod_add_left_eq)
qed

lemma ring_put_full:
  assumes ok: "ring_ok N b f l n" and full: "n = N"
  shows "ring_ok N (b[l := x]) ((f + 1) mod N) ((l + 1) mod N) N \<and>
    ring_contents (b[l := x]) ((f + 1) mod N) N = tl (ring_contents b f n) @ [x]"
proof -
  have "0 < n" using ok full by (auto simp: ring_ok_def)
  with ring_get_first [OF ok] have g: "ring_ok N b ((f + 1) mod N) l (n - 1)"
    "tl (ring_contents b f n) = ring_contents b ((f + 1) mod N) (n - 1)" by auto
  with ring_put_room [OF g(1)] full \<open>0 < n\<close> show ?thesis by simp
qed

section \<open>The contract\<close>

locale ring_buffer =
  fixes ok :: "'s \<Rightarrow> bool" and contents :: "'s \<Rightarrow> 'a list" and cap :: nat
    and put :: "'a \<Rightarrow> 's \<Rightarrow> 's" and get :: "'s \<Rightarrow> 'a \<times> 's"
  assumes cap: "0 < cap" "ok s \<Longrightarrow> length (contents s) \<le> cap"
    and put_law: "ok s \<Longrightarrow> ok (put x s) \<and>
      contents (put x s) = (if length (contents s) < cap then contents s else tl (contents s)) @ [x]"
    and get_law: "ok s \<Longrightarrow> contents s = y # ys \<Longrightarrow> fst (get s) = y \<and> ok (snd (get s)) \<and> contents (snd (get s)) = ys"
begin

text \<open>After any number of entries the buffer holds the newest ones.\<close>

lemma put_all: "ok s \<Longrightarrow> ok (fold put xs s) \<and>
    contents (fold put xs s) = drop (length (contents s) + length xs - cap) (contents s @ xs)"
proof (induction xs arbitrary: s)
  case Nil
  then show ?case using cap(2) [of s] by simp
next
  case (Cons x xs)
  have p: "ok (put x s)" "contents (put x s) = (if length (contents s) < cap then contents s else tl (contents s)) @ [x]"
    using put_law [OF Cons.prems] by blast+
  show ?case
  proof (cases "length (contents s) < cap")
    case True
    then show ?thesis using Cons.IH [OF p(1)] p(2) by simp
  next
    case False
    then have "length (contents s) = cap" using cap(2) [OF Cons.prems] by simp
    then obtain y ys where y: "contents s = y # ys" "length ys = cap - 1" using cap(1) by (cases "contents s") auto
    then have "contents (put x s) = ys @ [x]" using p(2) False by simp
    then show ?thesis using Cons.IH [OF p(1)] y cap(1) by simp
  qed
qed

text \<open>Reading \<open>k\<close> entries.\<close>

fun get_many :: "nat \<Rightarrow> 's \<Rightarrow> 'a list \<times> 's" where
  "get_many 0 s = ([], s)"
| "get_many (Suc k) s = (let (x, s) = get s; (xs, s) = get_many k s in (x # xs, s))"

lemma get_all: "ok s \<Longrightarrow> k \<le> length (contents s) \<Longrightarrow>
    fst (get_many k s) = take k (contents s) \<and> ok (snd (get_many k s)) \<and>
    contents (snd (get_many k s)) = drop k (contents s)"
proof (induction k arbitrary: s)
  case (Suc k)
  then obtain y ys where y: "contents s = y # ys" by (cases "contents s") auto
  have g: "fst (get s) = y" "ok (snd (get s))" "contents (snd (get s)) = ys" using get_law [OF Suc.prems(1) y] by blast+
  with Suc.IH [OF g(2)] Suc.prems(2) y show ?case by (auto simp: split_beta Let_def)
qed simp

text \<open>What is put into the buffer is what is read from it, in the same order, as long as it fits.\<close>

lemma put_get: "ok s \<Longrightarrow> contents s = [] \<Longrightarrow> length xs \<le> cap \<Longrightarrow> fst (get_many (length xs) (fold put xs s)) = xs"
  using put_all [of s xs] get_all [of "fold put xs s" "length xs"] by simp

end

end
