(* ===== verification/Os_Keyboard.thy ===== *)
theory Os_Keyboard
  imports Os_Ring
begin

text \<open>
  The keyboard driver, \<^verbatim>\<open>arch/i386/arch/devices/i8042.c\<close>: the ring of the last keystrokes, the
  translation of scan codes with the modifier keys, and the interrupt handler. The callback to the
  kernel is reported as a result; echo to the console is left out.
\<close>

unbundle bit_operations_syntax

section \<open>State\<close>

abbreviation (input) KEYB_DR :: nat where "KEYB_DR \<equiv> 96"
abbreviation (input) KEYB_SR :: nat where "KEYB_SR \<equiv> 100"
abbreviation (input) KEYB_BUFF_SIZE :: nat where "KEYB_BUFF_SIZE \<equiv> 256"
abbreviation (input) CAPSLED :: nat where "CAPSLED \<equiv> 4"

abbreviation (input) ONLY_ASCII :: nat where "ONLY_ASCII \<equiv> 4"
abbreviation (input) ONLY_LAST :: nat where "ONLY_LAST \<equiv> 8"
abbreviation (input) RAW_KEYSTROKES :: nat where "RAW_KEYSTROKES \<equiv> 16"
abbreviation (input) CLEAR_BUFFER :: nat where "CLEAR_BUFFER \<equiv> 32"

text \<open>Modifier keys that are held down, bits 16 to 22 of a keystroke.\<close>

definition LSHIFT :: u32 where "LSHIFT = 0x10000"
definition RSHIFT :: u32 where "RSHIFT = 0x20000"
definition LALT :: u32 where "LALT = 0x40000"
definition RALT :: u32 where "RALT = 0x80000"
definition LCTRL :: u32 where "LCTRL = 0x100000"
definition RCTRL :: u32 where "RCTRL = 0x200000"
definition CAPSL :: u32 where "CAPSL = 0x400000"

lemmas modifier_defs = LSHIFT_def RSHIFT_def LALT_def RALT_def LCTRL_def RCTRL_def CAPSL_def

definition K_SPEC_KEY :: "nat \<Rightarrow> u32" where
  "K_SPEC_KEY k = push_bit 8 (of_nat k)"

definition ASCII_KEY :: "u32 \<Rightarrow> u32" where
  "ASCII_KEY k = k AND 0xFF"

definition SHIFT_ON :: "u32 \<Rightarrow> bool" where
  "SHIFT_ON s \<longleftrightarrow> (s AND (LSHIFT OR RSHIFT) \<noteq> 0 \<and> s AND CAPSL = 0) \<or> (s AND (LSHIFT OR RSHIFT) = 0 \<and> s AND CAPSL \<noteq> 0)"

definition keyb_codes :: "nat list" where
  "keyb_codes =
     [0, 27, 49, 50, 51, 52, 53, 54, 55, 56, 57, 48, 39, 43, 8, 9,
      113, 119, 101, 114, 116, 122, 117, 105, 111, 112, 123, 125, 10, 0, 97, 115,
      100, 102, 103, 104, 106, 107, 108, 59, 39, 96, 0, 92, 121, 120, 99, 118,
      98, 110, 109, 44, 46, 45, 0, 42, 0, 32, 0, 0, 0, 0, 0, 0,
      0, 0, 0, 0, 0, 0, 0, 55, 56, 57, 45, 52, 53, 54, 43, 49,
      50, 51, 48, 46] @ replicate 44 0"

definition keyb_codes_shift :: "nat list" where
  "keyb_codes_shift =
     [0, 0, 33, 34, 35, 36, 37, 38, 47, 40, 41, 61, 0, 42, 8, 9,
      81, 87, 69, 82, 84, 90, 85, 73, 79, 80, 91, 93, 10, 0, 65, 83,
      68, 70, 71, 72, 74, 75, 76, 59, 34, 0, 0, 124, 89, 88, 67, 86,
      66, 78, 77, 59, 58, 95, 0, 0, 0, 32, 0, 0, 0, 0, 0, 0,
      0, 0, 0, 0, 0, 0, 0, 55, 56, 57, 45, 52, 53, 54, 43, 49,
      50, 51, 48, 46] @ replicate 44 0"

record kbd =
  keyb_buffer :: "u32 list"
  buf_first :: nat
  buf_last :: nat
  buf_size :: nat
  spec_keys_down :: u32
  keyb_flags :: nat
  multi_code :: bool
  kernel_callback :: nat

section \<open>The buffer\<close>

text \<open>The result says whether the keystroke was stored.\<close>

definition i8042_insert_keystroke :: "u32 \<Rightarrow> kbd \<Rightarrow> bool \<times> kbd" where
  "i8042_insert_keystroke c s =
     (if c = 0 then (False, s)
      else if keyb_flags s AND ONLY_ASCII \<noteq> 0 \<and> ASCII_KEY c = 0 then (False, s)
      else
        let s = s\<lparr>keyb_buffer := (keyb_buffer s)[buf_last s := c OR spec_keys_down s]\<rparr>;
            s = s\<lparr>buf_last := (buf_last s + 1) mod KEYB_BUFF_SIZE\<rparr>
        in if buf_size s < KEYB_BUFF_SIZE then (True, s\<lparr>buf_size := buf_size s + 1\<rparr>)
           else (True, s\<lparr>buf_first := (buf_first s + 1) mod KEYB_BUFF_SIZE\<rparr>))"

fun i8042_send :: "u32 list \<Rightarrow> kbd \<Rightarrow> int \<times> kbd" where
  "i8042_send [] s = (0, s)"
| "i8042_send (c # chars) s = i8042_send chars (snd (i8042_insert_keystroke c s))"

text \<open>The \<^verbatim>\<open>do ... while\<close> loop that takes keystrokes out, skipping those without ASCII code on
  request.\<close>

function get_loop :: "nat \<Rightarrow> kbd \<Rightarrow> u32 \<times> kbd" where
  "get_loop flags s =
     (let key = keyb_buffer s ! buf_first s;
          s' = s\<lparr>buf_first := (buf_first s + 1) mod KEYB_BUFF_SIZE, buf_size := buf_size s - 1\<rparr>;
          key = (if flags AND ONLY_ASCII \<noteq> 0 then ASCII_KEY key else key)
      in if flags AND ONLY_ASCII \<noteq> 0 \<and> key = 0 \<and> buf_size s' > 0 then get_loop flags s' else (key, s'))"
  by pat_completeness auto
termination
  by (relation "measure (\<lambda>(flags, s). buf_size s)") auto

declare get_loop.simps [simp del]

text \<open>The second component of the result is what is written to \<^verbatim>\<open>*data\<close>, if anything is.\<close>

definition i8042_get :: "bool \<Rightarrow> nat \<Rightarrow> kbd \<Rightarrow> int \<times> u32 option \<times> kbd" where
  "i8042_get data flags s =
     (if buf_size s > 0 then
        let s = (if flags AND ONLY_LAST \<noteq> 0 \<and> buf_last s \<noteq> buf_first s
                 then s\<lparr>buf_last := buf_first s, buf_size := 1\<rparr> else s);
            (key, s) = get_loop flags s;
            s = (if flags AND CLEAR_BUFFER \<noteq> 0 then s\<lparr>buf_first := 0, buf_last := 0, buf_size := 0\<rparr> else s)
        in (if key \<noteq> 0 then 1 else 0, if key \<noteq> 0 \<and> data then Some key else None, s)
      else (0, None, s))"

section \<open>Scan codes\<close>

fun i8042_send_cmd :: "nat \<Rightarrow> 'p io \<Rightarrow> nat \<Rightarrow> 'p \<Rightarrow> 'p res" where
  "i8042_send_cmd 0 io cmd p = Inl Out_of_fuel"
| "i8042_send_cmd (Suc n) io cmd p =
     (let (v, p) = inb io KEYB_SR p
      in if v AND 2 \<noteq> 0 then i8042_send_cmd n io cmd p else Inr (outb io KEYB_DR (cmd mod 256) p))"

definition i8042_set_leds :: "nat \<Rightarrow> 'p io \<Rightarrow> kbd \<Rightarrow> 'p \<Rightarrow> 'p res" where
  "i8042_set_leds n io s p =
     rbind (i8042_send_cmd n io 237 p) (\<lambda>p.
     if spec_keys_down s AND CAPSL \<noteq> 0 then i8042_send_cmd n io CAPSLED p else i8042_send_cmd n io 0 p)"

text \<open>A code that is one of the modifier keys: what happens to \<^verbatim>\<open>spec_keys_down\<close> and the keystroke that is
  reported. The release of the right Ctrl key is reported without \<^verbatim>\<open>K_SPEC_KEY\<close>.\<close>

abbreviation key_down :: "u32 \<Rightarrow> kbd \<Rightarrow> kbd" where
  "key_down k s \<equiv> s\<lparr>spec_keys_down := spec_keys_down s OR k\<rparr>"

abbreviation key_up :: "u32 \<Rightarrow> kbd \<Rightarrow> kbd" where
  "key_up k s \<equiv> s\<lparr>spec_keys_down := spec_keys_down s AND NOT k\<rparr>"

definition i8042_prepare_char :: "nat \<Rightarrow> 'p io \<Rightarrow> nat \<Rightarrow> kbd \<Rightarrow> 'p \<Rightarrow> (u32 \<times> kbd \<times> 'p) res" where
  "i8042_prepare_char n io c s p =
     (if c = 0xE0 \<and> \<not> multi_code s then Inr (0, s\<lparr>multi_code := True\<rparr>, p)
      else if \<not> multi_code s then
        if c = 0xBA then
          let s = s\<lparr>spec_keys_down := spec_keys_down s XOR CAPSL\<rparr>
          in rbind (i8042_set_leds n io s p) (\<lambda>p. Inr (K_SPEC_KEY 13, s, p))
        else if c = 0xAA then Inr (K_SPEC_KEY 2, key_up LSHIFT s, p)
        else if c = 0x2A then Inr (K_SPEC_KEY 1, key_down LSHIFT s, p)
        else if c = 0xB6 then Inr (K_SPEC_KEY 4, key_up RSHIFT s, p)
        else if c = 0x36 then Inr (K_SPEC_KEY 3, key_down RSHIFT s, p)
        else if c = 0x1D then Inr (K_SPEC_KEY 9, key_down LCTRL s, p)
        else if c = 0x9D then Inr (K_SPEC_KEY 10, key_up LCTRL s, p)
        else if c = 0x38 then Inr (K_SPEC_KEY 5, key_down LALT s, p)
        else if c = 0xB8 then Inr (K_SPEC_KEY 6, key_up LALT s, p)
        else if c < 128 then
          Inr (of_nat (if SHIFT_ON (spec_keys_down s) then keyb_codes_shift ! c else keyb_codes ! c), s, p)
        else Inr (0, s, p)
      else
        let s = s\<lparr>multi_code := False\<rparr>
        in if c = 0x1D then Inr (K_SPEC_KEY 11, key_down RCTRL s, p)
           else if c = 0x9D then Inr (12, key_up RCTRL s, p)
           else if c = 0x38 then Inr (K_SPEC_KEY 7, key_down RALT s, p)
           else if c = 0xB8 then Inr (K_SPEC_KEY 8, key_up RALT s, p)
           else Inr (0, s, p))"

text \<open>\<open>None\<close> is the result \<open>-1\<close>.\<close>

definition i8042_read :: "nat \<Rightarrow> 'p io \<Rightarrow> kbd \<Rightarrow> 'p \<Rightarrow> (u32 option \<times> kbd \<times> 'p) res" where
  "i8042_read n io s p =
     (let (v, p) = inb io KEYB_SR p
      in if v AND 1 = 0 then Inr (None, s, p)
         else
           let (c, p) = inb io KEYB_DR p
           in if keyb_flags s AND RAW_KEYSTROKES \<noteq> 0 then Inr (Some (of_nat c), s, p)
              else rbind (i8042_prepare_char n io c s p) (\<lambda>(key, s, p). Inr (Some key, s, p)))"

fun i8042_init_loop :: "nat \<Rightarrow> 'p io \<Rightarrow> kbd \<Rightarrow> 'p \<Rightarrow> (kbd \<times> 'p) res" where
  "i8042_init_loop 0 io s p = Inl Out_of_fuel"
| "i8042_init_loop (Suc n) io s p =
     rbind (i8042_read n io s p) (\<lambda>(c, s, p).
       case c of Some k \<Rightarrow> if sint k > 0 then i8042_init_loop n io s p else Inr (s, p) | None \<Rightarrow> Inr (s, p))"

definition i8042_init :: "nat \<Rightarrow> 'p io \<Rightarrow> nat \<Rightarrow> nat \<Rightarrow> kbd \<Rightarrow> 'p \<Rightarrow> (int \<times> kbd \<times> 'p) res" where
  "i8042_init n io flags kernel_callback_function s p =
     (let s = s\<lparr>buf_first := 0, buf_last := 0, buf_size := 0, spec_keys_down := 0, keyb_flags := flags\<rparr>
      in rbind (i8042_init_loop n io s p) (\<lambda>(s, p).
         Inr (0, s\<lparr>kernel_callback := kernel_callback_function\<rparr>, p)))"

definition i8042_destroy :: "kbd \<Rightarrow> int \<times> kbd" where
  "i8042_destroy s = (0, s\<lparr>kernel_callback := 0\<rparr>)"

fun i8042_handler_loop :: "nat \<Rightarrow> 'p io \<Rightarrow> bool \<Rightarrow> kbd \<Rightarrow> 'p \<Rightarrow> (bool \<times> kbd \<times> 'p) res" where
  "i8042_handler_loop 0 io new s p = Inl Out_of_fuel"
| "i8042_handler_loop (Suc n) io new s p =
     rbind (i8042_read n io s p) (\<lambda>(c, s, p).
       case c of
         Some k \<Rightarrow>
           if sint k \<ge> 0 then let (st, s) = i8042_insert_keystroke k s in i8042_handler_loop n io (new \<or> st) s p
           else Inr (new, s, p)
       | None \<Rightarrow> Inr (new, s, p))"

text \<open>The first component of the result says whether the kernel is called back.\<close>

definition i8042_interrupt_handler :: "nat \<Rightarrow> 'p io \<Rightarrow> kbd \<Rightarrow> 'p \<Rightarrow> (bool \<times> kbd \<times> 'p) res" where
  "i8042_interrupt_handler n io s p =
     rbind (i8042_handler_loop n io False s p) (\<lambda>(new_keystrokes, s, p).
     Inr (new_keystrokes \<and> kernel_callback s \<noteq> 0, s, p))"

section \<open>The buffer is a bounded queue\<close>

definition kbd_ok :: "kbd \<Rightarrow> bool" where
  "kbd_ok s = ring_ok KEYB_BUFF_SIZE (keyb_buffer s) (buf_first s) (buf_last s) (buf_size s)"

definition keys :: "kbd \<Rightarrow> u32 list" where
  "keys s = ring_contents (keyb_buffer s) (buf_first s) (buf_size s)"

text \<open>Storing a keystroke that is not filtered out, and taking one without flags.\<close>

definition store_key :: "u32 \<Rightarrow> kbd \<Rightarrow> kbd" where
  "store_key k s =
     (let s = s\<lparr>keyb_buffer := (keyb_buffer s)[buf_last s := k], buf_last := (buf_last s + 1) mod KEYB_BUFF_SIZE\<rparr>
      in if buf_size s < KEYB_BUFF_SIZE then s\<lparr>buf_size := buf_size s + 1\<rparr>
         else s\<lparr>buf_first := (buf_first s + 1) mod KEYB_BUFF_SIZE\<rparr>)"

lemma insert_store:
  "i8042_insert_keystroke c s =
     (if c = 0 \<or> keyb_flags s AND ONLY_ASCII \<noteq> 0 \<and> ASCII_KEY c = 0 then (False, s)
      else (True, store_key (c OR spec_keys_down s) s))"
  by (simp add: i8042_insert_keystroke_def store_key_def Let_def)

interpretation kb: ring_buffer kbd_ok keys 256 store_key "get_loop 0"
proof
  fix s x
  assume ok: "kbd_ok s"
  then have r: "ring_ok 256 (keyb_buffer s) (buf_first s) (buf_last s) (buf_size s)" by (simp add: kbd_ok_def)
  show "length (keys s) \<le> 256" using r by (simp add: keys_def ring_ok_def)
  show "kbd_ok (store_key x s) \<and> keys (store_key x s) = (if length (keys s) < 256 then keys s else tl (keys s)) @ [x]"
  proof (cases "buf_size s < 256")
    case True
    then show ?thesis using ring_put_room [OF r, of x] by (simp add: store_key_def kbd_ok_def keys_def)
  next
    case False
    then have "buf_size s = 256" using r by (simp add: ring_ok_def)
    then show ?thesis using ring_put_full [OF r, of x] by (simp add: store_key_def kbd_ok_def keys_def)
  qed
  show "fst (get_loop 0 s) = y \<and> kbd_ok (snd (get_loop 0 s)) \<and> keys (snd (get_loop 0 s)) = ys" if "keys s = y # ys" for y ys
  proof -
    have "0 < buf_size s" using that by (cases "buf_size s") (auto simp: keys_def ring_contents_def)
    from ring_get_first [OF r this] that show ?thesis
      by (simp add: get_loop.simps [of 0 s] Let_def kbd_ok_def keys_def)
  qed
qed simp

section \<open>Properties\<close>

lemma store_key_frame [simp]: "spec_keys_down (store_key k s) = spec_keys_down s" "keyb_flags (store_key k s) = keyb_flags s"
  by (simp_all add: store_key_def Let_def)

lemma i8042_send_fold:
  "0 \<notin> set cs \<Longrightarrow> keyb_flags s AND ONLY_ASCII = 0 \<Longrightarrow>
   i8042_send cs s = (0, fold store_key (map (\<lambda>c. c OR spec_keys_down s) cs) s)"
  by (induction cs arbitrary: s) (auto simp: insert_store)

lemma get_nonzero:
  assumes "keys s = y # ys"
  shows "0 < buf_size s"
  using assms by (cases "buf_size s") (auto simp: keys_def ring_contents_def)

text \<open>C33. The keyboard buffer is a queue of the last 256 keystrokes: keystrokes that are pushed back into the
  driver go to the end, each with the modifier keys that are held, the oldest ones are dropped
  when there are more than 256, and a read without flags takes the oldest one out.\<close>

theorem keyboard_fifo:
  assumes "kbd_ok s" and "0 \<notin> set cs" and "keyb_flags s AND ONLY_ASCII = 0"
  shows "kbd_ok (snd (i8042_send cs s)) \<and>
    keys (snd (i8042_send cs s)) =
      drop (length (keys s) + length cs - 256) (keys s @ map (\<lambda>c. c OR spec_keys_down s) cs) \<and>
    (\<forall>y ys. keys s = y # ys \<and> y \<noteq> 0 \<longrightarrow>
      (\<exists>s'. i8042_get True 0 s = (1, Some y, s') \<and> kbd_ok s' \<and> keys s' = ys))"
proof -
  have "kbd_ok (snd (i8042_send cs s)) \<and>
    keys (snd (i8042_send cs s)) = drop (length (keys s) + length cs - 256) (keys s @ map (\<lambda>c. c OR spec_keys_down s) cs)"
    using kb.put_all [OF assms(1), of "map (\<lambda>c. c OR spec_keys_down s) cs"] i8042_send_fold [OF assms(2,3)] by simp
  moreover have "\<exists>s'. i8042_get True 0 s = (1, Some y, s') \<and> kbd_ok s' \<and> keys s' = ys" if "keys s = y # ys" "y \<noteq> 0" for y ys
    using kb.get_law [OF assms(1) that(1)] get_nonzero [OF that(1)] that(2)
    by (cases "get_loop 0 s") (simp add: i8042_get_def)
  ultimately show ?thesis by blast
qed

definition kbd_start :: kbd where
  "kbd_start = \<lparr>keyb_buffer = replicate KEYB_BUFF_SIZE 0, buf_first = 0, buf_last = 0, buf_size = 0,
     spec_keys_down = 0, keyb_flags = 0, multi_code = False, kernel_callback = 0\<rparr>"

lemma kbd_start_ok: "kbd_ok kbd_start" "keys kbd_start = []"
  by (simp_all add: kbd_start_def kbd_ok_def ring_ok_def keys_def ring_contents_def)

theorem keyboard_fifo_witness:
  "kbd_ok kbd_start \<and> keys (snd (i8042_send [97, 98] kbd_start)) = [97, 98]"
  using keyboard_fifo [OF kbd_start_ok(1), of "[97, 98]"] kbd_start_ok by (simp add: kbd_start_def)

text \<open>A read with \<^verbatim>\<open>ONLY_LAST\<close> does not do what its comment says (return the last keystroke, drop all
  before): with two or more keystrokes in a buffer that is not full it returns the oldest one,
  and leaves the indices of the empty buffer different, so that the next keystroke stored is not
  the next one read.\<close>

theorem only_last_returns_oldest:
  assumes "kbd_ok s" and "keys s = y # z # zs" and "buf_size s < 256" and "y \<noteq> 0"
  shows "\<exists>s'. i8042_get True ONLY_LAST s = (1, Some y, s') \<and> \<not> kbd_ok s'"
proof -
  have r: "ring_ok 256 (keyb_buffer s) (buf_first s) (buf_last s) (buf_size s)" using assms(1) by (simp add: kbd_ok_def)
  have sz: "buf_size s = Suc (Suc (length zs))"
    using arg_cong [OF assms(2), of length] by (simp add: keys_def)
  have f: "buf_first s < 256" and ne: "buf_last s \<noteq> buf_first s"
    using r assms(3) sz by (auto simp: ring_ok_def mod_if split: if_splits)
  have y: "keyb_buffer s ! buf_first s = y" using ring_get_first [OF r] assms(2) sz by (simp add: keys_def)
  let ?s = "s\<lparr>buf_last := buf_first s, buf_size := 0, buf_first := (buf_first s + 1) mod 256\<rparr>"
  have "i8042_get True ONLY_LAST s = (1, Some y, ?s)"
    using ne y sz assms(4) by (simp add: i8042_get_def get_loop.simps Let_def)
  moreover have "\<not> kbd_ok ?s" using f by (auto simp: kbd_ok_def ring_ok_def mod_if split: if_splits)
  ultimately show ?thesis by blast
qed

theorem only_last_returns_oldest_witness:
  "\<exists>s. keys s = [97, 98] \<and> (\<exists>s'. i8042_get True ONLY_LAST s = (1, Some 97, s') \<and> \<not> kbd_ok s')"
proof -
  let ?s = "fold store_key [97, 98] kbd_start"
  have k: "kbd_ok ?s" "keys ?s = [97, 98]"
    using kb.put_all [OF kbd_start_ok(1), of "[97, 98]"] kbd_start_ok(2) by simp_all
  have "buf_size ?s = 2" using arg_cong [OF k(2), of length] by (simp add: keys_def)
  then have "\<exists>s'. i8042_get True ONLY_LAST ?s = (1, Some 97, s') \<and> \<not> kbd_ok s'"
    by (intro only_last_returns_oldest [OF k]) simp_all
  with k show ?thesis by blast
qed

text \<open>Pressing and releasing a modifier key is tracked: after the scan code for pressing it the bit of the
  key is set in \<^verbatim>\<open>spec_keys_down\<close>, and after the code for releasing it the bit is clear and
  all the others are as before. (The keys with prefix \<open>0xE0\<close> take two codes.)\<close>

theorem modifiers_tracked:
  assumes "\<not> multi_code s"
    and "(pre, down, up, k) \<in> {(False, 0x2A, 0xAA, LSHIFT), (False, 0x36, 0xB6, RSHIFT), (False, 0x1D, 0x9D, LCTRL),
      (False, 0x38, 0xB8, LALT), (True, 0x1D, 0x9D, RCTRL), (True, 0x38, 0xB8, RALT)}"
  shows "\<exists>key1 s1 key2 s2. i8042_prepare_char n io down (s\<lparr>multi_code := pre\<rparr>) p = Inr (key1, s1, p) \<and>
    spec_keys_down s1 = spec_keys_down s OR k \<and> \<not> multi_code s1 \<and>
    i8042_prepare_char n io up (s1\<lparr>multi_code := pre\<rparr>) p = Inr (key2, s2, p) \<and>
    spec_keys_down s2 = spec_keys_down s AND NOT k \<and> \<not> multi_code s2"
proof -
  have a: "(w OR b) AND NOT b = w AND NOT b" for w b :: u32 by (rule bit_eqI) (auto simp: bit_simps)
  show ?thesis
    using assms(2) by (elim insertE emptyE; simp only: prod.inject; simp add: i8042_prepare_char_def a del: bit.disj_conj_distrib2)
qed

theorem modifiers_tracked_witness:
  "\<exists>key1 s1 key2 s2. i8042_prepare_char 0 \<lparr>inb = (\<lambda>a p. (0, p)), outb = (\<lambda>a v p. p)\<rparr> 0x2A (kbd_start\<lparr>multi_code := False\<rparr>) () = Inr (key1, s1, ()) \<and>
    spec_keys_down s1 = spec_keys_down kbd_start OR LSHIFT \<and> \<not> multi_code s1 \<and>
    i8042_prepare_char 0 \<lparr>inb = (\<lambda>a p. (0, p)), outb = (\<lambda>a v p. p)\<rparr> 0xAA (s1\<lparr>multi_code := False\<rparr>) () = Inr (key2, s2, ()) \<and>
    spec_keys_down s2 = spec_keys_down kbd_start AND NOT LSHIFT \<and> \<not> multi_code s2"
  by (rule modifiers_tracked) (simp_all add: kbd_start_def)

end
