(* ===== verification/Os_Uart.thy ===== *)
theory Os_Uart
  imports Os_Ring
begin

text \<open>
  The serial port driver, \<^verbatim>\<open>arch/i386/arch/devices/uart.c\<close>: identification and configuration of the
  chip, the software buffers in both directions, and the interrupt handler. Loops that wait for the
  hardware take a bound on the number of rounds.
\<close>

unbundle bit_operations_syntax

section \<open>State\<close>

abbreviation (input) COM1_BASE :: nat where "COM1_BASE \<equiv> 0x3F8"
abbreviation (input) THR :: nat where "THR \<equiv> 0"
abbreviation (input) RBR :: nat where "RBR \<equiv> 0"
abbreviation (input) DLL :: nat where "DLL \<equiv> 0"
abbreviation (input) IER :: nat where "IER \<equiv> 1"
abbreviation (input) DLM :: nat where "DLM \<equiv> 1"
abbreviation (input) IIR :: nat where "IIR \<equiv> 2"
abbreviation (input) FCR :: nat where "FCR \<equiv> 2"
abbreviation (input) LCR :: nat where "LCR \<equiv> 3"
abbreviation (input) MCR :: nat where "MCR \<equiv> 4"
abbreviation (input) LSR :: nat where "LSR \<equiv> 5"
abbreviation (input) SR :: nat where "SR \<equiv> 7"

abbreviation (input) UT8250 :: nat where "UT8250 \<equiv> 1"
abbreviation (input) UT16450 :: nat where "UT16450 \<equiv> 2"
abbreviation (input) UT16550 :: nat where "UT16550 \<equiv> 3"
abbreviation (input) UT16550A :: nat where "UT16550A \<equiv> 4"
abbreviation (input) UT16750 :: nat where "UT16750 \<equiv> 5"

abbreviation (input) LSR_DATA_READY :: nat where "LSR_DATA_READY \<equiv> 1"
abbreviation (input) LSR_BREAK :: nat where "LSR_BREAK \<equiv> 16"
abbreviation (input) LSR_THR_EMPTY :: nat where "LSR_THR_EMPTY \<equiv> 32"
abbreviation (input) IIR_INT_PENDING :: nat where "IIR_INT_PENDING \<equiv> 1"
abbreviation (input) IIR_THR_EMPTY :: nat where "IIR_THR_EMPTY \<equiv> 2"
abbreviation (input) IIR_RECV_DATA :: nat where "IIR_RECV_DATA \<equiv> 4"
abbreviation (input) IIR_LINE :: nat where "IIR_LINE \<equiv> 6"
abbreviation (input) IIR_TIMEOUT :: nat where "IIR_TIMEOUT \<equiv> 12"

abbreviation (input) BUFFER_SIZE :: nat where "BUFFER_SIZE \<equiv> 256"
abbreviation (input) E_INVALID_ARGUMENT :: int where "E_INVALID_ARGUMENT \<equiv> 13"

record uart_t =
  speed :: int
  data_bits :: int
  parity :: int
  stop_bit :: int
  mode :: int

definition UART_DEFAULT_SETTING :: uart_t where
  "UART_DEFAULT_SETTING = \<lparr>speed = 115200, data_bits = 8, parity = 0, stop_bit = 0, mode = 1\<rparr>"

text \<open>\<open>uart_type\<close> is a static variable of the driver.\<close>

record arch_uart_t =
  initialized :: bool
  uparams :: uart_t
  port :: nat
  inbuff :: "u8 list"
  inf :: nat
  inl :: nat
  insz :: nat
  outbuff :: "u8 list"
  outf :: nat
  outl :: nat
  outsz :: nat
  uart_type :: nat

definition INC_MOD :: "nat \<Rightarrow> nat \<Rightarrow> nat" where
  "INC_MOD x m = (if x + 1 < m then x + 1 else 0)"

definition com1_params :: arch_uart_t where
  "com1_params = \<lparr>initialized = False, uparams = UART_DEFAULT_SETTING, port = COM1_BASE,
     inbuff = replicate BUFFER_SIZE 0, inf = 0, inl = 0, insz = 0,
     outbuff = replicate BUFFER_SIZE 0, outf = 0, outl = 0, outsz = 0, uart_type = 0\<rparr>"

section \<open>Identification and configuration\<close>

definition identify_UART :: "'p io \<Rightarrow> arch_uart_t \<Rightarrow> 'p \<Rightarrow> arch_uart_t \<times> 'p" where
  "identify_UART io up p =
     (if uart_type up \<noteq> 0 then (up, p)
      else
        let p = outb io (COM1_BASE + FCR) 0xE7 p;
            (test, p) = inb io (COM1_BASE + IIR) p
        in if test AND 0x40 \<noteq> 0 then
             (up\<lparr>uart_type := (if test AND 0x80 \<noteq> 0 then if test AND 0x20 \<noteq> 0 then UT16750 else UT16550A else UT16550)\<rparr>, p)
           else
             let p = outb io (COM1_BASE + SR) 0x2A p;
                 (test, p) = inb io (COM1_BASE + SR) p
             in (up\<lparr>uart_type := (if test = 0x2A then UT16450 else UT8250)\<rparr>, p))"

text \<open>The setting for the line control register is computed and not used. A negative result is an error
  number.\<close>

definition uart_config :: "'p io \<Rightarrow> uart_t \<Rightarrow> arch_uart_t \<Rightarrow> 'p \<Rightarrow> int \<times> arch_uart_t \<times> 'p" where
  "uart_config io params up p =
     (if \<not> (data_bits params \<ge> 5 \<or> data_bits params \<le> 8) then (- E_INVALID_ARGUMENT, up, p)
      else if \<not> (parity params \<ge> 0 \<or> parity params \<le> 7) then (- E_INVALID_ARGUMENT, up, p)
      else if \<not> (stop_bit params \<ge> 0 \<or> stop_bit params \<le> 4) then (- E_INVALID_ARGUMENT, up, p)
      else if \<not> (mode params = 1 \<or> mode params = 2) then (- E_INVALID_ARGUMENT, up, p)
      else
        let up = up\<lparr>uparams := params\<rparr>;
            p = outb io (port up + IER) 0 p;
            p = (if uart_type up > UT8250 then
                   let setting = 0x01 OR 0x06;
                       setting = (if mode params = 1 then setting OR 0x00 else setting OR 0xC0);
                       setting = (if uart_type up = UT16750 then setting OR 0x20 else setting)
                   in outb io (port up + FCR) setting p
                 else p);
            p = outb io (port up + LCR) 0x80 p;
            p = outb io (port up + DLL) (nat (speed (uparams up) mod 256)) p;
            p = outb io (port up + DLM) (nat (speed (uparams up) div 256 mod 256)) p;
            p = outb io (port up + LCR) 0x00 p;
            p = outb io (port up + MCR) 0x08 p;
            p = outb io (port up + IER) 7 p
        in (0, up\<lparr>inf := 0, inl := 0, insz := 0, outf := 0, outl := 0, outsz := 0, initialized := True\<rparr>, p))"

definition uart_init :: "'p io \<Rightarrow> arch_uart_t \<Rightarrow> 'p \<Rightarrow> int \<times> arch_uart_t \<times> 'p" where
  "uart_init io up p =
     (let (up, p) = identify_UART io up p
      in if initialized up then (0, up, p) else uart_config io (uparams up) up p)"

definition uart_destroy :: "'p io \<Rightarrow> arch_uart_t \<Rightarrow> 'p \<Rightarrow> int \<times> 'p" where
  "uart_destroy io up p = (0, outb io (port up + IER) 0 p)"

section \<open>Buffers\<close>

definition uart_store :: "u8 \<Rightarrow> arch_uart_t \<Rightarrow> arch_uart_t" where
  "uart_store c up =
     (let up = up\<lparr>inbuff := (inbuff up)[inl up := c]\<rparr>;
          up = up\<lparr>inl := INC_MOD (inl up) BUFFER_SIZE\<rparr>;
          up = up\<lparr>insz := insz up + 1\<rparr>
      in if insz up > BUFFER_SIZE then up\<lparr>insz := insz up - 1, inf := INC_MOD (inf up) BUFFER_SIZE\<rparr> else up)"

fun uart_read :: "nat \<Rightarrow> 'p io \<Rightarrow> arch_uart_t \<Rightarrow> 'p \<Rightarrow> (arch_uart_t \<times> 'p) res" where
  "uart_read 0 io up p = Inl Out_of_fuel"
| "uart_read (Suc n) io up p =
     (let (v, p) = inb io (port up + LSR) p
      in if v AND LSR_DATA_READY \<noteq> 0 then
           let (c, p) = inb io (port up + RBR) p in uart_read n io (uart_store (of_nat c) up) p
         else Inr (up, p))"

text \<open>\<open>n\<close> is the number of bytes in the buffer, so the loop always ends.\<close>

fun uart_write_loop :: "nat \<Rightarrow> 'p io \<Rightarrow> arch_uart_t \<Rightarrow> 'p \<Rightarrow> arch_uart_t \<times> 'p" where
  "uart_write_loop 0 io up p = (up, p)"
| "uart_write_loop (Suc n) io up p =
     (let (v, p) = inb io (port up + LSR) p
      in if v AND LSR_THR_EMPTY \<noteq> 0 then
           let p = outb io (port up + THR) (unat (outbuff up ! outf up)) p
           in uart_write_loop n io (up\<lparr>outf := INC_MOD (outf up) BUFFER_SIZE, outsz := outsz up - 1\<rparr>) p
         else (up, p))"

definition uart_write :: "'p io \<Rightarrow> arch_uart_t \<Rightarrow> 'p \<Rightarrow> arch_uart_t \<times> 'p" where
  "uart_write io up p = uart_write_loop (outsz up) io up p"

text \<open>Copying to the software buffer; the bytes that do not fit are left.\<close>

fun uart_queue :: "u8 list \<Rightarrow> arch_uart_t \<Rightarrow> u8 list \<times> arch_uart_t" where
  "uart_queue [] up = ([], up)"
| "uart_queue (d # ds) up =
     (if outsz up < BUFFER_SIZE then
        uart_queue ds (up\<lparr>outbuff := (outbuff up)[outl up := d], outl := INC_MOD (outl up) BUFFER_SIZE, outsz := outsz up + 1\<rparr>)
      else (d # ds, up))"

text \<open>\<open>data\<close> are the bytes from the address given by the caller on, \<open>conf\<close> is their reading as \<^verbatim>\<open>uart_t\<close>.\<close>

definition uart_send :: "'p io \<Rightarrow> (nat \<Rightarrow> u8) \<Rightarrow> nat \<Rightarrow> uart_t \<Rightarrow> nat \<Rightarrow> arch_uart_t \<Rightarrow> 'p \<Rightarrow> int \<times> arch_uart_t \<times> 'p" where
  "uart_send io data sz conf flags up p =
     (if flags AND 2 ^ 30 \<noteq> 0 then uart_config io conf up p
      else
        let d = (if flags = 4 then [data 0] else if flags = 8 \<or> flags = 16 then [10] else map data [0..<sz]);
            (rest, up) = uart_queue d up;
            (up, p) = uart_write io up p
        in (int (length rest), up, p))"

fun uart_take :: "nat \<Rightarrow> arch_uart_t \<Rightarrow> u8 list \<times> arch_uart_t" where
  "uart_take 0 up = ([], up)"
| "uart_take (Suc n) up =
     (if insz up > 0 then
        let (ds, up') = uart_take n (up\<lparr>inf := INC_MOD (inf up) BUFFER_SIZE, insz := insz up - 1\<rparr>)
        in (inbuff up ! inf up # ds, up')
      else ([], up))"

text \<open>Reading, and reading the configuration: \<^verbatim>\<open>sizeof (uart_t)\<close> is 8.\<close>

definition uart_recv :: "nat \<Rightarrow> 'p io \<Rightarrow> nat \<Rightarrow> nat \<Rightarrow> arch_uart_t \<Rightarrow> 'p \<Rightarrow> (int \<times> u8 list \<times> uart_t option \<times> arch_uart_t \<times> 'p) res" where
  "uart_recv n io sz flags up p =
     (if flags AND 2 ^ 31 \<noteq> 0 then
        if sz < 8 then Inr (-1, [], None, up, p) else Inr (8, [], Some (uparams up), up, p)
      else
        rbind (uart_read n io up p) (\<lambda>(up, p).
        let (ds, up) = uart_take sz up in Inr (int (length ds), ds, None, up, p)))"

section \<open>Interrupts\<close>

fun uart_interrupt_handler :: "nat \<Rightarrow> 'p io \<Rightarrow> bool \<Rightarrow> bool \<Rightarrow> bool \<Rightarrow> arch_uart_t \<Rightarrow> 'p \<Rightarrow> (arch_uart_t \<times> 'p) res" where
  "uart_interrupt_handler 0 io brk rcv snd' up p = Inl Out_of_fuel"
| "uart_interrupt_handler (Suc n) io brk rcv snd' up p =
     (let (iir, p) = inb io (port up + IIR) p
      in if iir AND IIR_INT_PENDING = 0 then Inr (up, p)
         else
           let brk = (brk \<or> iir AND IIR_TIMEOUT \<noteq> 0);
               (rcv, snd', p) =
                 (if iir AND IIR_LINE \<noteq> 0 then
                    let (a, p) = inb io (port up + LSR) p
                    in if a AND LSR_DATA_READY \<noteq> 0 then (True, snd', p)
                       else
                         let (b, p) = inb io (port up + LSR) p
                         in if b AND LSR_THR_EMPTY \<noteq> 0 then (rcv, True, p)
                            else
                              let (c, p) = inb io (port up + LSR) p
                              in if c AND LSR_BREAK \<noteq> 0 then (rcv, True, p) else (rcv, snd', p)
                  else (rcv, snd', p))
           in if rcv \<or> brk \<or> iir AND IIR_RECV_DATA \<noteq> 0 then
                rbind (uart_read n io up p) (\<lambda>(up, p). uart_interrupt_handler n io brk True snd' up p)
              else if snd' \<or> iir AND IIR_THR_EMPTY \<noteq> 0 then
                let (up, p) = uart_write io up p in uart_interrupt_handler n io brk rcv True up p
              else uart_interrupt_handler n io brk rcv snd' up p)"

section \<open>The buffers are bounded queues\<close>

lemma INC_MOD_mod: "x < m \<Longrightarrow> INC_MOD x m = (x + 1) mod m"
  by (auto simp: INC_MOD_def) (metis Suc_lessI mod_self)

definition uart_ok :: "arch_uart_t \<Rightarrow> bool" where
  "uart_ok up \<longleftrightarrow> ring_ok BUFFER_SIZE (inbuff up) (inf up) (inl up) (insz up) \<and>
     ring_ok BUFFER_SIZE (outbuff up) (outf up) (outl up) (outsz up)"

definition received :: "arch_uart_t \<Rightarrow> u8 list" where
  "received up = ring_contents (inbuff up) (inf up) (insz up)"

definition pending :: "arch_uart_t \<Rightarrow> u8 list" where
  "pending up = ring_contents (outbuff up) (outf up) (outsz up)"

definition take_one :: "arch_uart_t \<Rightarrow> u8 \<times> arch_uart_t" where
  "take_one up = (inbuff up ! inf up, up\<lparr>inf := INC_MOD (inf up) BUFFER_SIZE, insz := insz up - 1\<rparr>)"

lemma ring_ok_idx: "ring_ok N b f l n \<Longrightarrow> f < N \<and> l < N"
  by (auto simp: ring_ok_def)

interpretation rx: ring_buffer uart_ok received 256 uart_store take_one
proof
  fix up x
  assume ok: "uart_ok up"
  then have r: "ring_ok 256 (inbuff up) (inf up) (inl up) (insz up)" and o: "ring_ok 256 (outbuff up) (outf up) (outl up) (outsz up)"
    by (auto simp: uart_ok_def)
  note ix = ring_ok_idx [OF r]
  show "length (received up) \<le> 256" using r by (simp add: received_def ring_ok_def)
  show "uart_ok (uart_store x up) \<and> received (uart_store x up) = (if length (received up) < 256 then received up else tl (received up)) @ [x]"
  proof (cases "insz up < 256")
    case True
    then show ?thesis using ring_put_room [OF r, of x] o ix by (simp add: uart_store_def uart_ok_def received_def INC_MOD_mod)
  next
    case False
    then have "insz up = 256" using r by (simp add: ring_ok_def)
    then show ?thesis using ring_put_full [OF r, of x] o ix by (simp add: uart_store_def uart_ok_def received_def INC_MOD_mod)
  qed
  show "fst (take_one up) = y \<and> uart_ok (snd (take_one up)) \<and> received (snd (take_one up)) = ys" if "received up = y # ys" for y ys
  proof -
    have "0 < insz up" using that by (cases "insz up") (auto simp: received_def ring_contents_def)
    from ring_get_first [OF r this] that o ix show ?thesis
      by (simp add: take_one_def uart_ok_def received_def INC_MOD_mod)
  qed
qed simp

section \<open>Properties\<close>

lemma uart_queue_law:
  assumes "uart_ok up"
  shows "uart_ok (snd (uart_queue ds up)) \<and> received (snd (uart_queue ds up)) = received up \<and>
    pending (snd (uart_queue ds up)) = pending up @ take (256 - length (pending up)) ds \<and>
    fst (uart_queue ds up) = drop (256 - length (pending up)) ds"
  using assms
proof (induction ds arbitrary: up)
  case (Cons d ds)
  have r: "ring_ok 256 (outbuff up) (outf up) (outl up) (outsz up)" using Cons.prems by (simp add: uart_ok_def)
  show ?case
  proof (cases "outsz up < 256")
    case True
    let ?u = "up\<lparr>outbuff := (outbuff up)[outl up := d], outl := INC_MOD (outl up) 256, outsz := outsz up + 1\<rparr>"
    have "uart_ok ?u" "pending ?u = pending up @ [d]" "received ?u = received up"
      using ring_put_room [OF r True, of d] Cons.prems ring_ok_idx [OF r]
      by (simp_all add: uart_ok_def pending_def received_def INC_MOD_mod)
    moreover have "length (pending up) < 256" using True by (simp add: pending_def)
    moreover have "256 - length (pending up) = Suc (256 - Suc (length (pending up)))" using calculation(4) by simp
    ultimately show ?thesis using Cons.IH [of ?u] True by simp
  next
    case False
    then have "length (pending up) = 256" using r by (simp add: pending_def ring_ok_def)
    then show ?thesis using False Cons.prems by simp
  qed
qed simp

lemma uart_queue_port: "port (snd (uart_queue ds up)) = port up"
  by (induction ds arbitrary: up) simp_all

text \<open>The transmission of bytes: before each one the line status register is read, then the byte is written to the transmitter holding register.\<close>

definition transmit :: "'p io \<Rightarrow> nat \<Rightarrow> u8 list \<Rightarrow> 'p \<Rightarrow> 'p" where
  "transmit io prt bs p = foldl (\<lambda>p b. outb io (prt + THR) (unat b) (snd (inb io (prt + LSR) p))) p bs"

lemma transmit_simps [simp]:
  "transmit io prt [] p = p"
  "transmit io prt (b # bs) p = transmit io prt bs (outb io (prt + THR) (unat b) (snd (inb io (prt + LSR) p)))"
  by (simp_all add: transmit_def)

text \<open>The first \<open>k\<close> pending bytes are transmitted, in order; the driver stops when none is left or when the transmitter is busy.\<close>

lemma uart_write_law:
  "uart_ok up \<Longrightarrow> n = outsz up \<Longrightarrow> uart_write_loop n io up p = (up', p') \<Longrightarrow>
   uart_ok up' \<and> received up' = received up \<and> (\<exists>k\<le>length (pending up). pending up' = drop k (pending up) \<and>
     (let q = transmit io (port up) (take k (pending up)) p
      in if k = length (pending up) then p' = q
         else fst (inb io (port up + LSR) q) AND LSR_THR_EMPTY = 0 \<and> p' = snd (inb io (port up + LSR) q)))"
proof (induction n arbitrary: up p)
  case 0
  then have "pending up = []" by (simp add: pending_def ring_contents_def)
  then show ?case using 0 by auto
next
  case (Suc n)
  have r: "ring_ok 256 (outbuff up) (outf up) (outl up) (outsz up)" using Suc.prems by (simp add: uart_ok_def)
  obtain v p1 where v: "inb io (port up + LSR) p = (v, p1)" by fastforce
  let ?u = "up\<lparr>outf := INC_MOD (outf up) 256, outsz := outsz up - 1\<rparr>"
  have u: "uart_ok ?u" "received ?u = received up" "pending up = outbuff up ! outf up # pending ?u"
    using ring_get_first [OF r] Suc.prems ring_ok_idx [OF r]
    by (simp_all add: uart_ok_def pending_def received_def INC_MOD_mod)
  show ?case
  proof (cases "v AND LSR_THR_EMPTY \<noteq> 0")
    case True
    let ?p = "outb io (port up + THR) (unat (outbuff up ! outf up)) p1"
    have pu: "port ?u = port up" by simp
    have nn: "n = outsz ?u" using Suc.prems(2) by simp
    have w: "uart_write_loop n io ?u ?p = (up', p')" using Suc.prems(3) v True by simp
    obtain k where k: "uart_ok up'" "received up' = received up" "k \<le> length (pending ?u)" "pending up' = drop k (pending ?u)"
      "let q = transmit io (port up) (take k (pending ?u)) ?p
       in if k = length (pending ?u) then p' = q else fst (inb io (port up + LSR) q) AND LSR_THR_EMPTY = 0 \<and> p' = snd (inb io (port up + LSR) q)"
      using Suc.IH [OF u(1) nn w] unfolding u(2) pu by blast
    then show ?thesis using u(3) v by (intro conjI exI [of _ "Suc k"]) (simp_all add: Let_def)
  next
    case False
    then have "up' = up" "p' = p1" using Suc.prems(3) v by simp_all
    then show ?thesis using Suc.prems(1) v False u(3) by (intro conjI exI [of _ 0]) (simp_all add: Let_def)
  qed
qed

lemma uart_take_law:
  "uart_ok up \<Longrightarrow> uart_ok (snd (uart_take n up)) \<and> fst (uart_take n up) = take n (received up) \<and>
   received (snd (uart_take n up)) = drop n (received up)"
proof (induction n arbitrary: up)
  case (Suc n)
  show ?case
  proof (cases "insz up > 0")
    case True
    then have "length (received up) > 0" by (simp add: received_def)
    then obtain y ys where y: "received up = y # ys" by (cases "received up") auto
    have "fst (take_one up) = y \<and> uart_ok (snd (take_one up)) \<and> received (snd (take_one up)) = ys"
      using rx.get_law [OF Suc.prems y] .
    then show ?thesis using Suc.IH [of "snd (take_one up)"] True y by (auto simp: take_one_def split_beta Let_def)
  next
    case False
    then show ?thesis using Suc.prems by (simp add: received_def ring_contents_def)
  qed
qed simp

text \<open>What is to be sent: for \<^verbatim>\<open>PRINTCHAR\<close> the low byte of the character, for \<^verbatim>\<open>CLEAR\<close> and \<^verbatim>\<open>GOTOXY\<close> a new line, otherwise the bytes as they are.\<close>

definition payload :: "(nat \<Rightarrow> u8) \<Rightarrow> nat \<Rightarrow> nat \<Rightarrow> u8 list" where
  "payload data sz flags = (if flags = 4 then [data 0] else if flags = 8 \<or> flags = 16 then [10] else map data [0..<sz])"


lemma com1_ok: "uart_ok com1_params" "pending com1_params = []" "received com1_params = []" "port com1_params = COM1_BASE"
  by (simp_all add: com1_params_def uart_ok_def ring_ok_def pending_def received_def ring_contents_def)


text \<open>The interrupt handler takes bit 0 of the interrupt identification register as \<open>pending when set\<close>:
  it returns at once, without reading or writing, when the bit is clear, and when the register
  stays at 1 it never returns.\<close>

theorem uart_handler_polarity:
  assumes "\<And>a p. fst (inb io a p) = v"
  shows "(v AND IIR_INT_PENDING = 0 \<longrightarrow>
      uart_interrupt_handler (Suc n) io False False False up p = Inr (up, snd (inb io (port up + IIR) p))) \<and>
    (v = 1 \<longrightarrow> uart_interrupt_handler m io False False False up p = Inl Out_of_fuel)"
proof -
  have "uart_interrupt_handler m io False False False up p = Inl Out_of_fuel" if "v = 1"
    using that assms by (induction m arbitrary: p) (simp_all add: split_beta)
  then show ?thesis using assms by (simp add: split_beta)
qed

theorem uart_handler_polarity_witness:
  "uart_interrupt_handler 5 \<lparr>inb = (\<lambda>a p. (1, p)), outb = (\<lambda>a v p. p)\<rparr> False False False com1_params (0::nat) = Inl Out_of_fuel"
  using uart_handler_polarity [of "\<lparr>inb = (\<lambda>a p. (1, p)), outb = (\<lambda>a v p. p)\<rparr>" 1 0 com1_params 0 5] by simp

end
