(* ===== verification/Os_Vga.thy ===== *)
theory Os_Vga
  imports Os_String Os_Ring
begin

text \<open>
  The text console, \<^verbatim>\<open>arch/i386/arch/devices/vga_text.c\<close>: the cursor position, the video memory
  (part of the physical memory, so that a write beside it is a write somewhere else) and the cursor
  registers behind the ports \<^verbatim>\<open>0x3D4\<close> and \<^verbatim>\<open>0x3D5\<close>.
\<close>

section \<open>The driver\<close>

abbreviation (input) VIDEO :: nat where "VIDEO \<equiv> 0xB8000"
abbreviation (input) COLS :: int where "COLS \<equiv> 80"
abbreviation (input) ROWS :: int where "ROWS \<equiv> 24"
abbreviation (input) PRINTCHAR :: nat where "PRINTCHAR \<equiv> 4"
abbreviation (input) CLEAR :: nat where "CLEAR \<equiv> 8"
abbreviation (input) GOTOXY :: nat where "GOTOXY \<equiv> 16"

record vga =
  xpos :: int
  ypos :: int
  pmem :: bmem

definition color :: "nat list" where
  "color = [7, 4, 2]"

definition color_at :: "int \<Rightarrow> nat res" where
  "color_at attr = (if 0 \<le> attr \<and> attr < 3 then Inr (color ! nat attr) else Inl Out_of_bounds)"

text \<open>\<^verbatim>\<open>video + (x + y * COLS) * 2\<close> and a byte written there.\<close>

definition cell :: "int \<Rightarrow> int \<Rightarrow> nat" where
  "cell x y = nat ((int VIDEO + (x + y * COLS) * 2) mod 2 ^ 32)"

definition poke :: "nat \<Rightarrow> u8 \<Rightarrow> vga \<Rightarrow> vga" where
  "poke a b v = v\<lparr>pmem := (pmem v)(a := b)\<rparr>"

definition vga_text_gotoxy :: "'p io \<Rightarrow> int \<Rightarrow> int \<Rightarrow> vga \<Rightarrow> 'p \<Rightarrow> int \<times> vga \<times> 'p" where
  "vga_text_gotoxy io x y v p =
     (let v = v\<lparr>xpos := x, ypos := y\<rparr>;
          t = nat ((ypos v * 80 + xpos v) mod 2 ^ 16);
          p = outb io 0x3D4 14 p;
          p = outb io 0x3D5 (t div 2 ^ 8) p;
          p = outb io 0x3D4 15 p;
          p = outb io 0x3D5 (t mod 256) p
      in (0, v, p))"

definition vga_text_clear :: "'p io \<Rightarrow> vga \<Rightarrow> 'p \<Rightarrow> int \<times> vga \<times> 'p" where
  "vga_text_clear io v p =
     (let v = v\<lparr>pmem := memset_loop (nat (COLS * ROWS * 2)) VIDEO 0 (pmem v)\<rparr>
      in vga_text_gotoxy io 0 0 v p)"

definition vga_text_init :: "'p io \<Rightarrow> vga \<Rightarrow> 'p \<Rightarrow> int \<times> vga \<times> 'p" where
  "vga_text_init io v p = vga_text_clear io (v\<lparr>xpos := 0, ypos := 0\<rparr>) p"

text \<open>Division of C rounds towards 0.\<close>

definition cdiv :: "int \<Rightarrow> int \<Rightarrow> int" where
  "cdiv a b = (if a \<ge> 0 then a div b else - ((- a) div b))"

text \<open>The \<^verbatim>\<open>switch\<close> on the character.\<close>

definition put_char :: "int \<Rightarrow> int \<Rightarrow> vga \<Rightarrow> vga res" where
  "put_char c attr v =
     (if c = 9 then Inr (v\<lparr>xpos := (cdiv (xpos v) 8 + 1) * 8\<rparr>)
      else if c = 13 then Inr (v\<lparr>xpos := 0\<rparr>)
      else if c = 10 then Inr v
      else if c = 8 then
        if xpos v > 0 then
          let v = v\<lparr>xpos := xpos v - 1\<rparr>
          in rbind (color_at attr) (\<lambda>k.
             Inr (poke (cell (xpos v) (ypos v) + 1) (of_nat k) (poke (cell (xpos v) (ypos v)) 32 v)))
        else Inr v
      else
        rbind (color_at attr) (\<lambda>k.
        let v = poke (cell (xpos v) (ypos v) + 1) (of_nat k) (poke (cell (xpos v) (ypos v)) (word_of_int c) v)
        in Inr (v\<lparr>xpos := xpos v + 1\<rparr>)))"

definition new_line :: "int \<Rightarrow> vga \<Rightarrow> vga res" where
  "new_line attr v =
     (let v = v\<lparr>xpos := 0\<rparr>
      in if ypos v < ROWS then Inr (v\<lparr>ypos := ypos v + 1\<rparr>)
         else
           let v = v\<lparr>pmem := memmove VIDEO (VIDEO + 80 * 2) (80 * 2 * 24) (pmem v)\<rparr>
           in rbind (color_at attr) (\<lambda>k.
              Inr (v\<lparr>pmem := memsetw (VIDEO + 80 * 2 * 24) (of_nat (32 + k * 256)) 80 (pmem v)\<rparr>)))"

definition vga_text_print_char :: "'p io \<Rightarrow> int \<Rightarrow> int \<Rightarrow> vga \<Rightarrow> 'p \<Rightarrow> (int \<times> vga \<times> 'p) res" where
  "vga_text_print_char io c attr v p =
     rbind (put_char c attr v) (\<lambda>v.
     rbind (if xpos v \<ge> COLS \<or> c = 10 then new_line attr v else Inr v) (\<lambda>v.
     let (r, v, p) = vga_text_gotoxy io (xpos v) (ypos v) v p in Inr (0, v, p)))"

text \<open>\<open>p0\<close> and \<open>p1\<close> are the two integers at \<^verbatim>\<open>data\<close>.\<close>

definition vga_text_send :: "'p io \<Rightarrow> int \<Rightarrow> int \<Rightarrow> nat \<Rightarrow> vga \<Rightarrow> 'p \<Rightarrow> (int \<times> vga \<times> 'p) res" where
  "vga_text_send io p0 p1 flags v p =
     (if flags = PRINTCHAR then vga_text_print_char io p0 p1 v p
      else if flags = CLEAR then Inr (vga_text_clear io v p)
      else if flags = GOTOXY then Inr (vga_text_gotoxy io p0 p1 v p)
      else Inr (-1, v, p))"

section \<open>Properties\<close>

definition vga_ok :: "vga \<Rightarrow> bool" where
  "vga_ok v \<longleftrightarrow> 0 \<le> xpos v \<and> xpos v < COLS \<and> 0 \<le> ypos v \<and> ypos v \<le> ROWS"

text \<open>Memory outside of the 25 lines of video memory.\<close>

definition same_outside :: "vga \<Rightarrow> vga \<Rightarrow> bool" where
  "same_outside v v' \<longleftrightarrow> (\<forall>a. a < VIDEO \<or> VIDEO + 4000 \<le> a \<longrightarrow> pmem v' a = pmem v a)"

lemma memsetw_loop_frame: "x < a \<or> a + 2 * n \<le> x \<Longrightarrow> memsetw_loop n a c m x = m x"
proof (induction n a c m rule: memsetw_loop.induct)
  case (2 n a c m)
  then have "memsetw_loop n (a + 2) c (m(a := ucast c, a + 1 := ucast (drop_bit 8 c))) x = (m(a := ucast c, a + 1 := ucast (drop_bit 8 c))) x"
    by (intro 2) auto
  with 2(2) show ?case by auto
qed simp

lemma cell_in: "0 \<le> x \<Longrightarrow> x < 80 \<Longrightarrow> 0 \<le> y \<Longrightarrow> y \<le> 24 \<Longrightarrow> cell x y = VIDEO + 2 * (nat x + 80 * nat y)"
  by (simp add: cell_def)

lemma cell_bound: "0 \<le> x \<Longrightarrow> x < 80 \<Longrightarrow> 0 \<le> y \<Longrightarrow> y \<le> 24 \<Longrightarrow> VIDEO \<le> cell x y \<and> cell x y + 1 < VIDEO + 4000"
  by (simp add: cell_in nat_less_iff)

lemma color_at_ok: "0 \<le> attr \<Longrightarrow> attr < 3 \<Longrightarrow> color_at attr = Inr (color ! nat attr)"
  by (simp add: color_at_def)

lemma poke_outside: "VIDEO \<le> a \<Longrightarrow> a < VIDEO + 4000 \<Longrightarrow> same_outside v w \<Longrightarrow> same_outside v (poke a b w)"
  by (auto simp: same_outside_def poke_def)

lemma poke_pos [simp]: "xpos (poke a b v) = xpos v" "ypos (poke a b v) = ypos v"
  by (simp_all add: poke_def)

lemma put_char_ok:
  assumes v: "vga_ok v" and a: "0 \<le> attr" "attr < 3"
  shows "\<exists>w. put_char c attr v = Inr w \<and> 0 \<le> xpos w \<and> ypos w = ypos v \<and> same_outside v w"
proof -
  have p: "0 \<le> xpos v" "xpos v < 80" "0 \<le> ypos v" "ypos v \<le> 24" using v by (auto simp: vga_ok_def)
  note b = cell_bound [OF p]
  have b': "xpos v > 0 \<Longrightarrow> VIDEO \<le> cell (xpos v - 1) (ypos v) \<and> cell (xpos v - 1) (ypos v) + 1 < VIDEO + 4000"
    using cell_bound [of "xpos v - 1" "ypos v"] p by simp
  have s: "same_outside v (v\<lparr>xpos := k\<rparr>)" for k by (simp add: same_outside_def)
  have s': "same_outside v w \<Longrightarrow> same_outside v (w\<lparr>xpos := k\<rparr>)" for k w by (simp add: same_outside_def)
  show ?thesis
    using p b b' a s [of 0] s [of "(cdiv (xpos v) 8 + 1) * 8"] s [of "xpos v - 1"] s [of "xpos v"]
    by (auto simp: put_char_def color_at_ok cdiv_def intro!: poke_outside s')
qed

lemma new_line_ok:
  assumes "0 \<le> ypos w" "ypos w \<le> 24" and a: "0 \<le> attr" "attr < 3"
  shows "\<exists>u. new_line attr w = Inr u \<and> vga_ok u \<and> same_outside w u"
proof (cases "ypos w < 24")
  case True
  then show ?thesis using assms by (auto simp: new_line_def vga_ok_def same_outside_def)
next
  case False
  then show ?thesis using assms
    by (auto simp: new_line_def color_at_ok vga_ok_def same_outside_def memsetw_def memsetw_loop_frame memmove_eq)
qed

lemma vga_print_ok:
  assumes "vga_ok v" and "0 \<le> attr" and "attr < 3"
  shows "\<exists>u p'. vga_text_print_char io c attr v p = Inr (0, u, p') \<and> vga_ok u \<and> same_outside v u"
proof -
  obtain w where w: "put_char c attr v = Inr w" "0 \<le> xpos w" "ypos w = ypos v" "same_outside v w"
    using put_char_ok [OF assms] by blast
  have y: "0 \<le> ypos w" "ypos w \<le> 24" using w(3) assms(1) by (auto simp: vga_ok_def)
  obtain u where u: "(if xpos w \<ge> 80 \<or> c = 10 then new_line attr w else Inr w) = Inr u" "vga_ok u" "same_outside w u"
    using new_line_ok [OF y assms(2,3)] w(2) y by (cases "xpos w \<ge> 80 \<or> c = 10") (auto simp: vga_ok_def same_outside_def)
  have "same_outside v u" using w(4) u(3) by (auto simp: same_outside_def)
  moreover have "u\<lparr>xpos := xpos u, ypos := ypos u\<rparr> = u" by simp
  ultimately show ?thesis using w(1) u by (simp add: vga_text_print_char_def vga_text_gotoxy_def Let_def)
qed

text \<open>C35. As long as the cursor is on the screen, printing any character (tab, return, newline and
  backspace included) with one of the three colours returns, leaves the cursor on the screen and
  writes nowhere but into the 4000 bytes of video memory.\<close>

theorem vga_print_safe:
  assumes "vga_ok v" and "0 \<le> attr" and "attr < 3"
  shows "\<exists>u p'. vga_text_print_char io c attr v p = Inr (0, u, p') \<and> vga_ok u \<and> same_outside v u"
  using vga_print_ok [OF assms] .

theorem vga_print_safe_witness:
  "\<exists>u p'. vga_text_print_char \<lparr>inb = (\<lambda>a p. (0, p)), outb = (\<lambda>a v p. p)\<rparr> 65 1 \<lparr>xpos = 79, ypos = 24, pmem = (\<lambda>a. 0)\<rparr> () = Inr (0, u, p') \<and>
     vga_ok u"
  using vga_print_safe [of "\<lparr>xpos = 79, ypos = 24, pmem = (\<lambda>a. 0)\<rparr>" 1 "\<lparr>inb = (\<lambda>a p. (0, p)), outb = (\<lambda>a v p. p)\<rparr>" 65 "()"]
  by (auto simp: vga_ok_def)

text \<open>The driver does not check the position given with \<^verbatim>\<open>GOTOXY\<close>, which any program can send: the next
  character is written at \<open>VIDEO + 2 (x + 80 y)\<close>, for every position that fits into the address
  space, so also to memory that does not belong to the screen.\<close>

theorem gotoxy_writes_anywhere:
  assumes "0 \<le> x" and "0 \<le> y" and "int VIDEO + (x + y * 80) * 2 + 1 < 2 ^ 32" and "c \<notin> {8, 9, 10, 13}"
    and "x < 79"
  shows "\<exists>v1 p1 v2 p2. vga_text_send io x y GOTOXY v p = Inr (0, v1, p1) \<and>
    vga_text_send io c 2 PRINTCHAR v1 p1 = Inr (0, v2, p2) \<and>
    pmem v2 (nat (int VIDEO + (x + y * 80) * 2)) = word_of_int c"
  using assms
  by (simp add: vga_text_send_def vga_text_gotoxy_def vga_text_print_char_def put_char_def color_at_def Let_def poke_def cell_def)

theorem gotoxy_writes_anywhere_witness:
  "\<exists>v1 p1 v2 p2. vga_text_send \<lparr>inb = (\<lambda>a p. (0, p)), outb = (\<lambda>a v p. p)\<rparr> 0 2000 GOTOXY \<lparr>xpos = 0, ypos = 0, pmem = (\<lambda>a. 0)\<rparr> () = Inr (0, v1, p1) \<and>
    vga_text_send \<lparr>inb = (\<lambda>a p. (0, p)), outb = (\<lambda>a v p. p)\<rparr> 65 2 PRINTCHAR v1 p1 = Inr (0, v2, p2) \<and>
    pmem v2 (nat (int VIDEO + (0 + 2000 * 80) * 2)) = word_of_int 65"
  by (rule gotoxy_writes_anywhere) simp_all

end
