(* ===== verification/Os_Devices.thy ===== *)
theory Os_Devices
  imports Os_Thread Os_Keyboard Os_Uart Os_Vga
begin

text \<open>
  The whole machine: the kernel, the state of the three drivers and the hardware behind the ports. On it
  the interrupt layer (\<^verbatim>\<open>arch/i386/arch/interrupts.c\<close> with the i8259 controller) and the common device
  interface (\<^verbatim>\<open>kernel/devices.c\<close>) are defined. The functions of a driver are called by their addresses;
  the ones of the drivers that the build links have names here. The lock of a device is shown to be a lock with a queue.
\<close>

record 'p mach =
  ks :: kst
  kbd_st :: kbd
  uart_st :: arch_uart_t
  vga_st :: vga
  prt :: 'p

definition lift_k :: "(kst \<Rightarrow> ('a \<times> kst) res) \<Rightarrow> 'p mach \<Rightarrow> ('a \<times> 'p mach) res" where
  "lift_k f w = rbind (f (ks w)) (\<lambda>(r, s). Inr (r, w\<lparr>ks := s\<rparr>))"

definition upd_k :: "(kst \<Rightarrow> kst res) \<Rightarrow> 'p mach \<Rightarrow> 'p mach res" where
  "upd_k f w = rbind (f (ks w)) (\<lambda>s. Inr (w\<lparr>ks := s\<rparr>))"

section \<open>The interrupt controller\<close>

abbreviation (input) PIC1_CMD :: nat where "PIC1_CMD \<equiv> 0x20"
abbreviation (input) PIC2_CMD :: nat where "PIC2_CMD \<equiv> 0xA0"
abbreviation (input) PIC1_DATA :: nat where "PIC1_DATA \<equiv> 0x21"
abbreviation (input) PIC2_DATA :: nat where "PIC2_DATA \<equiv> 0xA1"
abbreviation (input) PIC_EOI :: nat where "PIC_EOI \<equiv> 0x20"
abbreviation (input) IRQ_OFFSET :: nat where "IRQ_OFFSET \<equiv> 0x20"
abbreviation (input) HW_INTERRUPTS :: nat where "HW_INTERRUPTS \<equiv> 48"
abbreviation (input) INTERRUPTS :: nat where "INTERRUPTS \<equiv> 49"
abbreviation (input) SOFTWARE_INTERRUPT :: nat where "SOFTWARE_INTERRUPT \<equiv> 48"
abbreviation (input) INT_STF :: nat where "INT_STF \<equiv> 12"
abbreviation (input) INT_GPF :: nat where "INT_GPF \<equiv> 13"
abbreviation (input) IRQ_TIMER :: nat where "IRQ_TIMER \<equiv> 32"
abbreviation (input) IRQ_KEYBOARD :: nat where "IRQ_KEYBOARD \<equiv> 33"
abbreviation (input) IRQ_COM1 :: nat where "IRQ_COM1 \<equiv> 36"
abbreviation (input) KERNEL_MODE :: int where "KERNEL_MODE \<equiv> 0"
abbreviation (input) USER_MODE :: int where "USER_MODE \<equiv> -1"

definition i8259_init :: "'p io \<Rightarrow> 'p \<Rightarrow> 'p" where
  "i8259_init io p =
     (let p = outb io PIC1_CMD 0x11 p;
          p = outb io PIC2_CMD 0x11 p;
          p = outb io PIC1_DATA (IRQ_OFFSET AND 0xF8) p;
          p = outb io PIC2_DATA ((IRQ_OFFSET + 8) AND 0xF8) p;
          p = outb io PIC1_DATA 0x4 p;
          p = outb io PIC2_DATA 0x2 p;
          p = outb io PIC1_DATA 0x1 p;
          p = outb io PIC2_DATA 0x1 p;
          p = outb io PIC1_DATA 0xFB p
      in outb io PIC2_DATA 0xFF p)"

text \<open>A bit of the 8-bit mask register cleared and set; the values are at most 8 bits wide.\<close>

definition clear_bit8 :: "nat \<Rightarrow> nat \<Rightarrow> nat" where
  "clear_bit8 v i = (if bit v i then v - 2 ^ i else v)"

text \<open>\<^verbatim>\<open>irq -= IRQ_OFFSET\<close> on unsigned values. A line number above 15 shifts beyond the register and changes
  nothing.\<close>

definition i8259_irq_enable :: "'p io \<Rightarrow> nat \<Rightarrow> 'p \<Rightarrow> 'p" where
  "i8259_irq_enable io irq p =
     (let irq = nat ((int irq - int IRQ_OFFSET) mod 2 ^ 32)
      in if irq < 8 then let (v, p) = inb io PIC1_DATA p in outb io PIC1_DATA (clear_bit8 v irq) p
         else let (v, p) = inb io PIC2_DATA p in outb io PIC2_DATA (clear_bit8 v (irq - 8)) p)"

definition i8259_irq_disable :: "'p io \<Rightarrow> nat \<Rightarrow> 'p \<Rightarrow> 'p" where
  "i8259_irq_disable io irq p =
     (let irq = nat ((int irq - int IRQ_OFFSET) mod 2 ^ 32)
      in if irq < 8 then let (v, p) = inb io PIC1_DATA p in outb io PIC1_DATA ((v OR 2 ^ irq) mod 256) p
         else let (v, p) = inb io PIC2_DATA p in outb io PIC2_DATA ((v OR 2 ^ (irq - 8)) mod 256) p)"

definition i8259_at_exit :: "'p io \<Rightarrow> nat \<Rightarrow> 'p \<Rightarrow> 'p" where
  "i8259_at_exit io irq p =
     (if irq \<ge> IRQ_OFFSET \<and> irq < HW_INTERRUPTS then
        let p = outb io PIC1_CMD PIC_EOI p
        in if irq \<ge> IRQ_OFFSET + 8 then outb io PIC2_CMD PIC_EOI p else p
      else p)"

section \<open>Registration of interrupt handlers\<close>

definition arch_init_interrupts :: "'p io \<Rightarrow> 'p mach \<Rightarrow> 'p mach" where
  "arch_init_interrupts io w =
     (let w = w\<lparr>prt := i8259_init io (prt w)\<rparr>
      in w\<lparr>ks := (ks w)\<lparr>ihandlers := (\<lambda>i. if i < INTERRUPTS then [] else ihandlers (ks w) i)\<rparr>\<rparr>)"

definition arch_register_interrupt_handler :: "nat \<Rightarrow> irq_fn \<Rightarrow> nat \<Rightarrow> kst \<Rightarrow> kst res" where
  "arch_register_interrupt_handler inum handler device s =
     (if inum < INTERRUPTS then
        rbind (kmalloc 20 s) (\<lambda>(ih, s).
        rbind (ASSERT (ih \<noteq> 0)) (\<lambda>_.
        let s = s\<lparr>kih := (kih s)(ih := \<lparr>ih_device = device, ihandler = handler\<rparr>)\<rparr>
        in Inr (s\<lparr>ihandlers := (ihandlers s)(inum := ihandlers s inum @ [ih])\<rparr>)))
      else Inl Halt)"

text \<open>The entries are taken out of the list and not freed.\<close>

definition arch_unregister_interrupt_handler :: "nat \<Rightarrow> irq_fn \<Rightarrow> nat \<Rightarrow> kst \<Rightarrow> kst res" where
  "arch_unregister_interrupt_handler inum handler device s =
     rbind (ASSERT (inum < INTERRUPTS)) (\<lambda>_.
     Inr (s\<lparr>ihandlers := (ihandlers s)(inum :=
       filter (\<lambda>ih. \<not> (ihandler (kih s ih) = handler \<and> ih_device (kih s ih) = device)) (ihandlers s inum))\<rparr>))"

section \<open>Calls into the drivers\<close>

abbreviation (input) FN_vga_text_init :: nat where "FN_vga_text_init \<equiv> 11"
abbreviation (input) FN_vga_text_send :: nat where "FN_vga_text_send \<equiv> 13"
abbreviation (input) FN_uart_init :: nat where "FN_uart_init \<equiv> 21"
abbreviation (input) FN_uart_destroy :: nat where "FN_uart_destroy \<equiv> 22"
abbreviation (input) FN_uart_send :: nat where "FN_uart_send \<equiv> 23"
abbreviation (input) FN_uart_recv :: nat where "FN_uart_recv \<equiv> 24"
abbreviation (input) FN_i8042_init :: nat where "FN_i8042_init \<equiv> 31"
abbreviation (input) FN_i8042_destroy :: nat where "FN_i8042_destroy \<equiv> 32"
abbreviation (input) FN_i8042_send :: nat where "FN_i8042_send \<equiv> 33"
abbreviation (input) FN_i8042_get :: nat where "FN_i8042_get \<equiv> 34"
abbreviation (input) IRQ_uart :: nat where "IRQ_uart \<equiv> 2"
abbreviation (input) IRQ_i8042 :: nat where "IRQ_i8042 \<equiv> 3"
abbreviation (input) ADR_vga_text_dev :: nat where "ADR_vga_text_dev \<equiv> 41"
abbreviation (input) ADR_com1_params :: nat where "ADR_com1_params \<equiv> 42"
abbreviation (input) DEV_TYPE_SHARED :: int where "DEV_TYPE_SHARED \<equiv> 1"
abbreviation (input) DEV_TYPE_NOTSHARED :: int where "DEV_TYPE_NOTSHARED \<equiv> 2"

definition cname :: "string \<Rightarrow> u8 list" where
  "cname str = map of_char str @ [0]"

definition vga_text_dev :: device_t where
  "vga_text_dev = \<lparr>dev_name = cname ''VGA_TXT'', irq_num = -1, irq_handler = None, d_callback = 0, d_init = FN_vga_text_init,
     d_destroy = 0, d_send = FN_vga_text_send, d_recv = 0, d_flags = DEV_TYPE_SHARED, d_params = ADR_vga_text_dev\<rparr>"

definition uart_com1 :: device_t where
  "uart_com1 = \<lparr>dev_name = cname ''COM1'', irq_num = int IRQ_COM1, irq_handler = Some (Driver_irq IRQ_uart), d_callback = 0,
     d_init = FN_uart_init, d_destroy = FN_uart_destroy, d_send = FN_uart_send, d_recv = FN_uart_recv,
     d_flags = DEV_TYPE_SHARED, d_params = ADR_com1_params\<rparr>"

definition i8042_dev :: device_t where
  "i8042_dev = \<lparr>dev_name = cname ''i8042'', irq_num = int IRQ_KEYBOARD, irq_handler = Some (Driver_irq IRQ_i8042), d_callback = 0,
     d_init = FN_i8042_init, d_destroy = FN_i8042_destroy, d_send = FN_i8042_send, d_recv = FN_i8042_get,
     d_flags = DEV_TYPE_SHARED, d_params = 0\<rparr>"

text \<open>\<^verbatim>\<open>up = dev->params\<close>\<close>

definition with_uart :: "device_t \<Rightarrow> 'a res \<Rightarrow> 'a res" where
  "with_uart d k = (if d_params d = ADR_com1_params then k else Inl Out_of_bounds)"

definition call_init :: "nat \<Rightarrow> 'p io \<Rightarrow> nat \<Rightarrow> nat \<Rightarrow> nat \<Rightarrow> device_t \<Rightarrow> 'p mach \<Rightarrow> (int \<times> 'p mach) res" where
  "call_init n io fn fl params d w =
     (if fn = FN_vga_text_init then
        let (r, v, p) = vga_text_init io (vga_st w) (prt w) in Inr (r, w\<lparr>vga_st := v, prt := p\<rparr>)
      else if fn = FN_uart_init then with_uart d (
        let (r, u, p) = uart_init io (uart_st w) (prt w) in Inr (r, w\<lparr>uart_st := u, prt := p\<rparr>))
      else if fn = FN_i8042_init then
        rbind (i8042_init n io fl params (kbd_st w) (prt w)) (\<lambda>(r, k, p). Inr (r, w\<lparr>kbd_st := k, prt := p\<rparr>))
      else Inl Wild_jump)"

definition call_destroy :: "'p io \<Rightarrow> nat \<Rightarrow> device_t \<Rightarrow> 'p mach \<Rightarrow> (int \<times> 'p mach) res" where
  "call_destroy io fn d w =
     (if fn = FN_uart_destroy then with_uart d (let (r, p) = uart_destroy io (uart_st w) (prt w) in Inr (r, w\<lparr>prt := p\<rparr>))
      else if fn = FN_i8042_destroy then let (r, k) = i8042_destroy (kbd_st w) in Inr (r, w\<lparr>kbd_st := k\<rparr>)
      else Inl Wild_jump)"

text \<open>A \<^verbatim>\<open>uart_t\<close> in memory: the speed and four signed bytes.\<close>

definition uart_t_at :: "nat \<Rightarrow> kst \<Rightarrow> uart_t" where
  "uart_t_at a s = \<lparr>speed = int_at a s, data_bits = sint (umem s (a + 4)), parity = sint (umem s (a + 5)),
     stop_bit = sint (umem s (a + 6)), mode = sint (umem s (a + 7))\<rparr>"

definition put_uart_t :: "nat \<Rightarrow> uart_t \<Rightarrow> kst \<Rightarrow> kst" where
  "put_uart_t a u s =
     (let s = put_at a (word_of_int (speed u)) s
      in s\<lparr>umem := put_bytes (a + 4) (map word_of_int [data_bits u, parity u, stop_bit u, mode u]) (umem s)\<rparr>)"

definition call_send :: "'p io \<Rightarrow> nat \<Rightarrow> nat \<Rightarrow> nat \<Rightarrow> nat \<Rightarrow> device_t \<Rightarrow> 'p mach \<Rightarrow> (int \<times> 'p mach) res" where
  "call_send io fn data sz fl d w =
     (let s = ks w
      in if fn = FN_vga_text_send then
           rbind (vga_text_send io (int_at data s) (int_at (data + 4) s) fl (vga_st w) (prt w)) (\<lambda>(r, v, p).
           Inr (r, w\<lparr>vga_st := v, prt := p\<rparr>))
         else if fn = FN_uart_send then with_uart d (
           let (r, u, p) = uart_send io (\<lambda>i. umem s (data + i)) sz (uart_t_at data s) fl (uart_st w) (prt w)
           in Inr (r, w\<lparr>uart_st := u, prt := p\<rparr>))
         else if fn = FN_i8042_send then
           let (r, k) = i8042_send (map (\<lambda>i. ld32 (umem s) (data + 4 * i)) [0..<sz]) (kbd_st w) in Inr (r, w\<lparr>kbd_st := k\<rparr>)
         else Inl Wild_jump)"

definition call_recv :: "nat \<Rightarrow> 'p io \<Rightarrow> nat \<Rightarrow> nat \<Rightarrow> nat \<Rightarrow> nat \<Rightarrow> device_t \<Rightarrow> 'p mach \<Rightarrow> (int \<times> 'p mach) res" where
  "call_recv n io fn data sz fl d w =
     (let s = ks w
      in if fn = FN_uart_recv then with_uart d (
           rbind (uart_recv n io sz fl (uart_st w) (prt w)) (\<lambda>(r, ds, conf, u, p).
           let s = s\<lparr>umem := put_bytes data ds (umem s)\<rparr>;
               s = (case conf of None \<Rightarrow> s | Some c \<Rightarrow> put_uart_t data c s)
           in Inr (r, w\<lparr>ks := s, uart_st := u, prt := p\<rparr>)))
         else if fn = FN_i8042_get then
           let (r, key, k) = i8042_get (data \<noteq> 0) fl (kbd_st w);
               s = (case key of None \<Rightarrow> s | Some c \<Rightarrow> put_at data c s)
           in Inr (r, w\<lparr>ks := s, kbd_st := k\<rparr>)
         else Inl Wild_jump)"

section \<open>Devices\<close>

abbreviation upd_d :: "nat \<Rightarrow> (kdevice_t \<Rightarrow> kdevice_t) \<Rightarrow> kst \<Rightarrow> kst" where
  "upd_d k f s \<equiv> s\<lparr>kdev := (kdev s)(k := f (kdev s k))\<rparr>"

definition k_device_add :: "device_t \<Rightarrow> kst \<Rightarrow> (nat \<times> kst) res" where
  "k_device_add d s =
     rbind (kmalloc 96 s) (\<lambda>(k, s).
     rbind (ASSERT (k \<noteq> 0)) (\<lambda>_.
     let s = upd_d k (\<lambda>x. x\<lparr>dev := d, opened := False\<rparr>) s
     in Inr (k, s\<lparr>devices := devices s @ [k]\<rparr>)))"

definition k_device_init :: "nat \<Rightarrow> 'p io \<Rightarrow> nat \<Rightarrow> int \<Rightarrow> nat \<Rightarrow> nat \<Rightarrow> 'p mach \<Rightarrow> (int \<times> 'p mach) res" where
  "k_device_init n io k fl params callback w =
     rbind (ASSERT (k \<noteq> 0)) (\<lambda>_.
     let s = ks w;
         s = (if fl \<noteq> 0 then upd_d k (\<lambda>x. x\<lparr>dev := (dev x)\<lparr>d_flags := fl\<rparr>\<rparr>) s else s);
         s = (if params \<noteq> 0 then upd_d k (\<lambda>x. x\<lparr>dev := (dev x)\<lparr>d_params := params\<rparr>\<rparr>) s else s);
         s = upd_d k (\<lambda>x. x\<lparr>locked := False\<rparr>) s;
         s = kthreadq_init (QDev k) s;
         d = dev (kdev s k);
         w = w\<lparr>ks := s\<rparr>
     in rbind (if d_init d \<noteq> 0 then call_init n io (d_init d) (uint32 fl) params d w else Inr (0, w)) (\<lambda>(retval, w).
        rbind (case irq_handler d of
                 Some h \<Rightarrow>
                   if retval = 0 then
                     rbind (upd_k (arch_register_interrupt_handler (uint32 (irq_num d)) h k) w) (\<lambda>w.
                     Inr (w\<lparr>prt := i8259_irq_enable io (uint32 (irq_num d)) (prt w)\<rparr>))
                   else Inr w
               | None \<Rightarrow> Inr w) (\<lambda>w.
        Inr (retval,
          if callback \<noteq> 0 then w\<lparr>ks := upd_d k (\<lambda>x. x\<lparr>dev := (dev x)\<lparr>d_callback := callback\<rparr>\<rparr>) (ks w)\<rparr> else w))))"

definition k_device_remove :: "'p io \<Rightarrow> nat \<Rightarrow> 'p mach \<Rightarrow> (int \<times> 'p mach) res" where
  "k_device_remove io k w =
     rbind (ASSERT (k \<noteq> 0)) (\<lambda>_.
     let d = dev (kdev (ks w) k);
         w = (if irq_num d \<noteq> -1 then w\<lparr>prt := i8259_irq_disable io (uint32 (irq_num d)) (prt w)\<rparr> else w)
     in rbind (case irq_handler d of
                 Some h \<Rightarrow> upd_k (arch_unregister_interrupt_handler (uint32 (irq_num d)) h k) w
               | None \<Rightarrow> Inr w) (\<lambda>w.
        rbind (if d_destroy d \<noteq> 0 then call_destroy io (d_destroy d) d w else Inr (0, w)) (\<lambda>(r, w).
        let w = w\<lparr>ks := (ks w)\<lparr>devices := remove1 k (devices (ks w))\<rparr>\<rparr>
        in rbind (upd_k (kfree k) w) (\<lambda>w. Inr (0, w)))))"

definition k_device_send :: "'p io \<Rightarrow> nat \<Rightarrow> nat \<Rightarrow> int \<Rightarrow> nat \<Rightarrow> 'p mach \<Rightarrow> (int \<times> 'p mach) res" where
  "k_device_send io data sz fl k w =
     (let d = dev (kdev (ks w) k)
      in if d_send d \<noteq> 0 then call_send io (d_send d) data sz (uint32 fl) d w else Inr (-1, w))"

definition k_device_recv :: "nat \<Rightarrow> 'p io \<Rightarrow> nat \<Rightarrow> nat \<Rightarrow> int \<Rightarrow> nat \<Rightarrow> 'p mach \<Rightarrow> (int \<times> 'p mach) res" where
  "k_device_recv n io data sz fl k w =
     (let d = dev (kdev (ks w) k)
      in if d_recv d \<noteq> 0 then call_recv n io (d_recv d) data sz (uint32 fl) d w else Inr (-1, w))"

text \<open>\<^verbatim>\<open>!strcmp ( name, kdev->dev.dev_name )\<close>, the name being in memory and the device name an array.\<close>

fun name_eq :: "nat \<Rightarrow> u8 list \<Rightarrow> bmem \<Rightarrow> bool" where
  "name_eq a [] m = False"
| "name_eq a (c # cs) m = (m a = c \<and> (c = 0 \<or> name_eq (a + 1) cs m))"

fun open_loop :: "nat list \<Rightarrow> nat \<Rightarrow> kst \<Rightarrow> nat \<times> kst" where
  "open_loop [] name s = (0, s)"
| "open_loop (k # ds) name s =
     (if name_eq name (dev_name (dev (kdev s k))) (umem s) then
        if uint32 (d_flags (dev (kdev s k))) AND 2 \<noteq> 0 \<and> opened (kdev s k) then (0, s)
        else (k, upd_d k (\<lambda>x. x\<lparr>opened := True\<rparr>) s)
      else open_loop ds name s)"

definition k_device_open :: "nat \<Rightarrow> kst \<Rightarrow> nat \<times> kst" where
  "k_device_open name s = open_loop (devices s) name s"

definition k_device_close :: "nat \<Rightarrow> kst \<Rightarrow> kst" where
  "k_device_close k s = upd_d k (\<lambda>x. x\<lparr>opened := False\<rparr>) s"

definition k_device_lock :: "nat \<Rightarrow> nat \<Rightarrow> bool \<Rightarrow> kst \<Rightarrow> (int \<times> kst) res" where
  "k_device_lock n k wait s =
     (if \<not> wait \<and> locked (kdev s k) then Inr (-1, s)
      else
        rbind (if locked (kdev s k) then rbind (kthread_enqueue 0 (QDev k) s) (kthreads_schedule n) else Inr s) (\<lambda>s.
        Inr (0, upd_d k (\<lambda>x. x\<lparr>locked := True\<rparr>) s)))"

definition k_device_unlock :: "nat \<Rightarrow> nat \<Rightarrow> kst \<Rightarrow> (int \<times> kst) res" where
  "k_device_unlock n k s =
     rbind (kthreadq_release (QDev k) s) (\<lambda>(r, s).
     if r \<noteq> 0 then rbind (kthreads_schedule n s) (\<lambda>s. Inr (0, s))
     else Inr (0, upd_d k (\<lambda>x. x\<lparr>locked := False\<rparr>) s))"

section \<open>The system calls\<close>

definition sys__device_send :: "'p io \<Rightarrow> nat \<Rightarrow> 'p mach \<Rightarrow> (int \<times> 'p mach) res" where
  "sys__device_send io p w =
     (let s = ks w
      in rbind (user_ptr p s) (\<lambda>data. k_device_send io data (ptr_at (p + 4) s) (int_at (p + 8) s) (ptr_at (p + 12) s) w))"

definition sys__device_recv :: "nat \<Rightarrow> 'p io \<Rightarrow> nat \<Rightarrow> 'p mach \<Rightarrow> (int \<times> 'p mach) res" where
  "sys__device_recv n io p w =
     (let s = ks w
      in rbind (user_ptr p s) (\<lambda>data. k_device_recv n io data (ptr_at (p + 4) s) (int_at (p + 8) s) (ptr_at (p + 12) s) w))"

definition sys__device_open :: "nat \<Rightarrow> kst \<Rightarrow> (int \<times> kst) res" where
  "sys__device_open p s =
     rbind (user_ptr p s) (\<lambda>name.
     rbind (user_ptr (p + 4) s) (\<lambda>d.
     let (k, s) = k_device_open name s
     in Inr (if k = 0 then 1 else 0, put_at d (of_nat k) s)))"

definition sys__device_close :: "nat \<Rightarrow> kst \<Rightarrow> (int \<times> kst) res" where
  "sys__device_close p s = Inr (0, k_device_close (ptr_at p s) s)"

definition sys__device_lock :: "nat \<Rightarrow> nat \<Rightarrow> kst \<Rightarrow> (int \<times> kst) res" where
  "sys__device_lock n p s = k_device_lock n (ptr_at p s) (int_at (p + 4) s \<noteq> 0) s"

definition sys__device_unlock :: "nat \<Rightarrow> nat \<Rightarrow> kst \<Rightarrow> (int \<times> kst) res" where
  "sys__device_unlock n p s = k_device_unlock n (ptr_at p s) s"

section \<open>Locks on devices\<close>

text \<open>An abstract lock: whether it is taken, and the queue of threads that wait for it. A thread that does not want to wait fails at once.\<close>

type_synonym alock = "bool \<times> nat list"

definition abs_lock :: "kst \<Rightarrow> (qid \<Rightarrow> nat list) \<Rightarrow> nat \<Rightarrow> alock" where
  "abs_lock s A k = (locked (kdev s k), A (QDev k))"

fun spec_lock :: "bool \<Rightarrow> nat \<Rightarrow> alock \<Rightarrow> int \<times> alock" where
  "spec_lock w me (False, ts) = (0, (True, ts))"
| "spec_lock w me (True, ts) = (if w then (0, (True, ts @ [me])) else (-1, (True, ts)))"

fun spec_unlock :: "alock \<Rightarrow> alock" where
  "spec_unlock (b, []) = (False, [])"
| "spec_unlock (b, t # ts) = (b, ts)"

lemma kinv_dev: "kinv s A i \<Longrightarrow> kinv (upd_d k f s) A i"
  by (erule kinv_cong) simp_all

lemma device_lock_ok:
  assumes k: "kinv s A i" and me: "active_thread s \<noteq> i" and d: "d = ptr_at p s" and w: "w \<longleftrightarrow> int_at (p + 4) s \<noteq> 0"
  shows "\<exists>s' A'. sys__device_lock (Suc n) p s = Inr (fst (spec_lock w (active_thread s) (abs_lock s A d)), s') \<and>
      kinv s' A' i \<and> abs_lock s' A' d = snd (spec_lock w (active_thread s) (abs_lock s A d)) \<and>
      (\<forall>r. r \<noteq> QDev d \<and> \<not> is_ready_q r \<longrightarrow> A' r = A r) \<and> (\<forall>j. j \<noteq> d \<longrightarrow> kdev s' j = kdev s j)"
proof (cases "locked (kdev s d) \<and> w")
  case True
  obtain s1 s' A' where r: "kthread_enqueue 0 (QDev d) s = Inr s1" "kthreads_schedule (Suc n) s1 = Inr s'" "kinv s' A' i"
    "\<And>r. \<not> is_ready_q r \<Longrightarrow> A' r = (A(QDev d := A (QDev d) @ [active_thread s])) r" "sched_frame s s'"
    using block_schedule [OF k me, of "QDev d" n] by (metis is_ready_q_simps(7))
  let ?s' = "upd_d d (\<lambda>x. x\<lparr>locked := True\<rparr>) s'"
  have "sys__device_lock (Suc n) p s = Inr (0, ?s')"
    using True r(1,2) d w by (simp add: sys__device_lock_def k_device_lock_def)
  then show ?thesis using True r(4) kinv_dev [OF r(3)] sched_frameD(19) [OF r(5)]
    by (intro exI [of _ ?s'] exI [of _ A']) (simp add: abs_lock_def)
next
  case False
  let ?s' = "if locked (kdev s d) then s else upd_d d (\<lambda>x. x\<lparr>locked := True\<rparr>) s"
  have "sys__device_lock (Suc n) p s = Inr (fst (spec_lock w (active_thread s) (abs_lock s A d)), ?s')"
    using False d w by (cases "locked (kdev s d)") (auto simp: sys__device_lock_def k_device_lock_def abs_lock_def)
  then show ?thesis using False k kinv_dev [OF k]
    by (intro exI [of _ ?s'] exI [of _ A]) (auto simp: abs_lock_def)
qed

lemma device_unlock_ok:
  assumes k: "kinv s A i" and d: "d = ptr_at p s"
  shows "\<exists>s' A'. sys__device_unlock (Suc n) p s = Inr (0, s') \<and> kinv s' A' i \<and> abs_lock s' A' d = spec_unlock (abs_lock s A d) \<and>
      (\<forall>r. r \<noteq> QDev d \<and> \<not> is_ready_q r \<longrightarrow> A' r = A r) \<and> (\<forall>j. j \<noteq> d \<longrightarrow> kdev s' j = kdev s j) \<and>
      (\<forall>t ts. A (QDev d) = t # ts \<longrightarrow> t = active_thread s' \<or> (\<exists>r. t \<in> set (A' (QReady r))))"
proof -
  let ?q = "QDev d"
  have nq: "\<not> is_ready_q ?q" by simp
  obtain s1 A' where w: "wake_one (Suc n) ?q s = Inr s1" "kinv s1 A' i" "sched_frame s s1" "\<And>r. \<not> is_ready_q r \<Longrightarrow> A' r = (A(?q := tl (A ?q))) r"
    "\<And>t ts. A ?q = t # ts \<Longrightarrow> t = active_thread s1 \<or> (\<exists>r. t \<in> set (A' (QReady r)))"
    by (rule wake_one_ok [OF k nq, of n]) blast
  have dev: "kdev s1 = kdev s" using sched_frameD(19) [OF w(3)] .
  let ?s' = "if A ?q = [] then upd_d d (\<lambda>x. x\<lparr>locked := False\<rparr>) s1 else s1"
  have "sys__device_unlock (Suc n) p s = Inr (0, ?s')"
  proof (cases "A ?q")
    case Nil
    then have e: "kthreadq_release ?q s = Inr (0, s)" using kthreadq_release_empty [OF kinvD(1) [OF k]] by simp
    then have "s1 = s" using w(1) by (simp add: wake_one_def)
    then show ?thesis using e Nil d by (simp add: sys__device_unlock_def k_device_unlock_def)
  next
    case (Cons t ts)
    obtain s2 where e: "kthreadq_release ?q s = Inr (1, s2)"
      using release_schedule [OF k Cons nq, of n] by metis
    then have "kthreads_schedule (Suc n) s2 = Inr s1" using w(1) by (simp add: wake_one_def del: kthreads_schedule.simps)
    then show ?thesis using e Cons d by (simp add: sys__device_unlock_def k_device_unlock_def del: kthreads_schedule.simps)
  qed
  moreover have "kinv ?s' A' i" using w(2) kinv_dev [OF w(2)] by simp
  moreover have "abs_lock ?s' A' d = spec_unlock (abs_lock s A d)" using w(4) dev by (cases "A ?q") (simp_all add: abs_lock_def)
  ultimately show ?thesis using w(4,5) dev by (intro exI [of _ ?s'] exI [of _ A']) auto
qed

text \<open>\<^bold>\<open>C14\<close> \<open>sys__device_lock\<close> and \<open>sys__device_unlock\<close> implement a lock with a queue of waiting threads that is handed to the first of them: a free device is
  taken at once, a caller that may wait becomes the last of the queue of a locked one, another caller gets \<open>-1\<close> and nothing
  changes; releasing passes the lock to the first waiting thread, which is ready or active then, or frees it. The calls return and keep
  the kernel's invariant, and no other device or waiting queue changes.\<close>

theorem device_lock_refines:
  assumes k: "kinv s A i" and me: "active_thread s \<noteq> i"
  shows "(\<exists>s' A'. sys__device_lock (Suc n) p s = Inr (fst (spec_lock (int_at (p + 4) s \<noteq> 0) (active_thread s) (abs_lock s A (ptr_at p s))), s') \<and>
      kinv s' A' i \<and> abs_lock s' A' (ptr_at p s) = snd (spec_lock (int_at (p + 4) s \<noteq> 0) (active_thread s) (abs_lock s A (ptr_at p s))) \<and>
      (\<forall>r. r \<noteq> QDev (ptr_at p s) \<and> \<not> is_ready_q r \<longrightarrow> A' r = A r) \<and> (\<forall>j. j \<noteq> ptr_at p s \<longrightarrow> kdev s' j = kdev s j)) \<and>
    (\<exists>s' A'. sys__device_unlock (Suc n) p s = Inr (0, s') \<and> kinv s' A' i \<and> abs_lock s' A' (ptr_at p s) = spec_unlock (abs_lock s A (ptr_at p s)) \<and>
      (\<forall>r. r \<noteq> QDev (ptr_at p s) \<and> \<not> is_ready_q r \<longrightarrow> A' r = A r) \<and> (\<forall>j. j \<noteq> ptr_at p s \<longrightarrow> kdev s' j = kdev s j) \<and>
      (\<forall>t ts. A (QDev (ptr_at p s)) = t # ts \<longrightarrow> t = active_thread s' \<or> (\<exists>r. t \<in> set (A' (QReady r)))))"
  using device_lock_ok [OF k me refl refl] device_unlock_ok [OF k refl] by (rule conjI)

theorem device_lock_refines_witness:
  "\<exists>s' A'. sys__device_unlock 1 70000 (demo (words_at [(70000, 900)]) (QDev 900)) = Inr (0, s') \<and> kinv s' A' 1000 \<and>
     A' (QDev 900) = [] \<and> (3000 = active_thread s' \<or> (\<exists>r. 3000 \<in> set (A' (QReady r))))"
proof -
  let ?d = "demo (words_at [(70000, 900)]) (QDev 900)" and ?D = "demo_queues (QDev 900)"
  have k: "kinv ?d ?D 1000" by (rule demo_kinv) simp
  have me: "active_thread ?d \<noteq> 1000" by simp
  have p: "ptr_at 70000 ?d = 900" by (simp add: ptr_at_def words_at_def ld32_st32_same)
  have q: "?D (QDev 900) = [3000]" by simp
  obtain s' A' where 1: "sys__device_unlock (Suc 0) 70000 ?d = Inr (0, s')" "kinv s' A' 1000" "abs_lock s' A' 900 = spec_unlock (abs_lock ?d ?D 900)"
    "\<forall>t ts. ?D (QDev 900) = t # ts \<longrightarrow> t = active_thread s' \<or> (\<exists>r. t \<in> set (A' (QReady r)))"
    using conjunct2 [OF device_lock_refines [OF k me, of 0 70000, unfolded p]] by blast
  have "A' (QDev 900) = []" using 1(3) q by (simp add: abs_lock_def)
  with 1 q show ?thesis by (intro exI [of _ s'] exI [of _ A']) simp
qed

end
