(* ===== verification/Os_Memory.thy ===== *)
theory Os_Memory
  imports Os_Devices
begin

text \<open>
  Output of the kernel (\<^verbatim>\<open>kernel/kprint.c\<close>), the memory layout that is set up at start (\<^verbatim>\<open>kernel/memory.c\<close>), and the
  system call that reports on the system. Character strings are bytes in memory, so the string
  constants of the kernel have addresses; they are parameters (record \<open>lits\<close>). \<open>stk\<close> is the
  place of the local arrays of \<^verbatim>\<open>kprint\<close> on the kernel's stack.
\<close>

section \<open>Printing\<close>

abbreviation (input) KERNEL_FONT :: int where "KERNEL_FONT \<equiv> 1"

definition k_print_char :: "'p io \<Rightarrow> nat \<Rightarrow> int \<Rightarrow> int \<Rightarrow> 'p mach \<Rightarrow> (int \<times> 'p mach) res" where
  "k_print_char io stk c attr w =
     (let s = put_at (stk + 4) (word_of_int attr) (put_at stk (word_of_int c) (ks w))
      in k_device_send io stk 8 (int PRINTCHAR) (k_stdout s) (w\<lparr>ks := s\<rparr>))"

fun print_all :: "'p io \<Rightarrow> nat \<Rightarrow> int list \<Rightarrow> 'p mach \<Rightarrow> 'p mach res" where
  "print_all io stk [] w = Inr w"
| "print_all io stk (c # cs) w = rbind (k_print_char io stk c KERNEL_FONT w) (\<lambda>(r, w). print_all io stk cs w)"

text \<open>\<^verbatim>\<open>while ( *p ) k_print_char ( (int) *p++, KERNEL_FONT );\<close>\<close>

fun print_string :: "nat \<Rightarrow> 'p io \<Rightarrow> nat \<Rightarrow> nat \<Rightarrow> 'p mach \<Rightarrow> 'p mach res" where
  "print_string 0 io stk a w = Inl Out_of_fuel"
| "print_string (Suc f) io stk a w =
     (let c = umem (ks w) a
      in if c = 0 then Inr w
         else rbind (k_print_char io stk (sint c) KERNEL_FONT w) (\<lambda>(r, w). print_string f io stk (a + 1) w))"

text \<open>The format is the string constant given by the caller, the arguments are the words on the stack.\<close>

fun kprint_loop :: "'p io \<Rightarrow> nat \<Rightarrow> int list \<Rightarrow> u32 list \<Rightarrow> 'p mach \<Rightarrow> 'p mach res" where
  "kprint_loop io stk [] args w = Inr w"
| "kprint_loop io stk (c # fmt) args w =
     (if c \<noteq> 37 then rbind (k_print_char io stk c KERNEL_FONT w) (\<lambda>(r, w). kprint_loop io stk fmt args w)
      else case (fmt, args) of
        (d # fmt, a # args) \<Rightarrow>
          rbind
            (if d \<in> {100, 117, 120, 88} then
               let w = w\<lparr>ks := (ks w)\<lparr>umem := itoa (stk + 8) d (sint a) (umem (ks w))\<rparr>\<rparr>
               in print_string adr_space io stk (stk + 8) w
             else if d = 115 then
               if a = 0 then print_all io stk (map of_char ''(null)'') w else print_string adr_space io stk (unat a) w
             else rbind (k_print_char io stk (sint a) KERNEL_FONT w) (\<lambda>(r, w). Inr w)) (\<lambda>w.
          kprint_loop io stk fmt args w)
      | _ \<Rightarrow> Inl Out_of_bounds)"

definition kprint :: "'p io \<Rightarrow> nat \<Rightarrow> string \<Rightarrow> u32 list \<Rightarrow> 'p mach \<Rightarrow> 'p mach res" where
  "kprint io stk format args w = kprint_loop io stk (map of_char format) args w"

abbreviation (input) NL :: string where "NL \<equiv> [CHR 0x0A]"
abbreviation (input) TAB :: string where "TAB \<equiv> [CHR 0x09]"

definition thread_lines :: "'p io \<Rightarrow> nat \<Rightarrow> string \<Rightarrow> u32 list \<Rightarrow> nat \<Rightarrow> 'p mach \<Rightarrow> 'p mach res" where
  "thread_lines io stk tag nr t w =
     (let x = kt (ks w) t; p = kp (ks w) (t_proc x)
      in rbind (kprint io stk (tag @ TAB @ ''id=%d in process at %x, size=%d'' @ NL)
                  (nr @ [of_nat (t_id x), of_nat (p_start p), of_nat (p_size p)]) w) (\<lambda>w.
         kprint io stk (TAB @ ''prio=%d, state=%d, ret_val=%d'' @ NL)
           [word_of_int (t_prio x), word_of_int (t_state x), word_of_int (t_exit_status x)] w))"

fun thread_list :: "'p io \<Rightarrow> nat \<Rightarrow> nat list \<Rightarrow> nat \<Rightarrow> 'p mach \<Rightarrow> 'p mach res" where
  "thread_list io stk [] i w = Inr w"
| "thread_list io stk (t # ts) i w =
     rbind (thread_lines io stk ''[%d]'' [of_nat i] t w) (\<lambda>w. thread_list io stk ts (i + 1) w)"

definition kthread_info :: "'p io \<Rightarrow> nat \<Rightarrow> 'p mach \<Rightarrow> (int \<times> 'p mach) res" where
  "kthread_info io stk w =
     rbind (kprint io stk (''Threads info'' @ NL) [] w) (\<lambda>w.
     rbind (thread_lines io stk ''[this]'' [] (active_thread (ks w)) w) (\<lambda>w.
     rbind (thread_list io stk (all_threads (ks w)) 1 w) (\<lambda>w. Inr (0, w))))"

section \<open>Memory layout\<close>

text \<open>Addresses of string constants.\<close>

record lits =
  l_pname :: nat
  l_hdr :: nat
  l_space :: nat
  l_usage :: nat
  l_look_console :: nat
  l_system_info :: nat
  l_programs :: nat
  l_memory :: nat
  l_threads :: nat
  l_k_stdout :: nat
  l_u_stdin :: nat
  l_u_stdout :: nat
  l_init_prog :: nat

text \<open>\<^verbatim>\<open>k_kernel\<close>, \<^verbatim>\<open>k_heap\<close> and \<^verbatim>\<open>multiboot\<close>.\<close>

record layout_t =
  kernel_start :: nat
  kernel_size :: nat
  heap_start :: nat
  heap_size :: nat
  multiboot :: nat

abbreviation (input) MULTIBOOT_BOOTLOADER_MAGIC :: nat where "MULTIBOOT_BOOTLOADER_MAGIC \<equiv> 0x2BADB002"
abbreviation (input) ALIGN_TO :: nat where "ALIGN_TO \<equiv> 4096"

text \<open>The fields of \<^verbatim>\<open>multiboot_info_t\<close>, and of a module.\<close>

abbreviation mb_flags :: "nat \<Rightarrow> kst \<Rightarrow> nat" where "mb_flags a s \<equiv> ptr_at a s"
abbreviation mb_lower :: "nat \<Rightarrow> kst \<Rightarrow> nat" where "mb_lower a s \<equiv> ptr_at (a + 4) s"
abbreviation mb_upper :: "nat \<Rightarrow> kst \<Rightarrow> nat" where "mb_upper a s \<equiv> ptr_at (a + 8) s"
abbreviation mb_cmdline :: "nat \<Rightarrow> kst \<Rightarrow> nat" where "mb_cmdline a s \<equiv> ptr_at (a + 16) s"
abbreviation mb_mods_count :: "nat \<Rightarrow> kst \<Rightarrow> nat" where "mb_mods_count a s \<equiv> ptr_at (a + 20) s"
abbreviation mb_mods_addr :: "nat \<Rightarrow> kst \<Rightarrow> nat" where "mb_mods_addr a s \<equiv> ptr_at (a + 24) s"
abbreviation mb_mmap_length :: "nat \<Rightarrow> kst \<Rightarrow> nat" where "mb_mmap_length a s \<equiv> ptr_at (a + 44) s"
abbreviation mb_mmap_addr :: "nat \<Rightarrow> kst \<Rightarrow> nat" where "mb_mmap_addr a s \<equiv> ptr_at (a + 48) s"
abbreviation mod_start :: "nat \<Rightarrow> kst \<Rightarrow> nat" where "mod_start a s \<equiv> ptr_at a s"
abbreviation mod_end :: "nat \<Rightarrow> kst \<Rightarrow> nat" where "mod_end a s \<equiv> ptr_at (a + 4) s"
abbreviation mod_cmdline :: "nat \<Rightarrow> kst \<Rightarrow> nat" where "mod_cmdline a s \<equiv> ptr_at (a + 8) s"

definition has_flag :: "nat \<Rightarrow> nat \<Rightarrow> bool" where
  "has_flag v b \<longleftrightarrow> v AND b \<noteq> 0"

text \<open>The end of the modules; \<open>n\<close> of them are left.\<close>

fun modules_end :: "nat \<Rightarrow> nat \<Rightarrow> nat \<Rightarrow> kst \<Rightarrow> nat" where
  "modules_end 0 md mx s = mx"
| "modules_end (Suc n) md mx s = modules_end n (md + 16) (if mx < mod_end md s then (mod_end md s + 1) mod 2 ^ 32 else mx) s"

definition align_up :: "nat \<Rightarrow> nat" where
  "align_up mx = (if mx mod ALIGN_TO \<noteq> 0 then (mx + (ALIGN_TO - mx mod ALIGN_TO)) mod 2 ^ 32 else mx)"

text \<open>Cutting the name of a program out of the command line of its module.\<close>

definition prog_name_of :: "nat \<Rightarrow> nat \<Rightarrow> kst \<Rightarrow> (nat \<times> kst) res" where
  "prog_name_of pname cmdline s =
     rbind (strstr cmdline pname (umem s)) (\<lambda>name.
     if name = 0 then Inr (0, s)
     else
       rbind (strlen pname (umem s)) (\<lambda>l.
       let name = name + l
       in rbind (strchr name 32 (umem s)) (\<lambda>pos.
          Inr (name, if pos \<noteq> 0 then s\<lparr>umem := (umem s)(pos := 0)\<rparr> else s))))"

fun load_modules :: "nat \<Rightarrow> nat \<Rightarrow> nat \<Rightarrow> kst \<Rightarrow> kst res" where
  "load_modules 0 md pname s = Inr s"
| "load_modules (Suc n) md pname s =
     rbind (prog_name_of pname (mod_cmdline md s) s) (\<lambda>(name, s).
     rbind (if name \<noteq> 0 then
              rbind (kmalloc 28 s) (\<lambda>(g, s).
              let pi = mod_start md s;
                  sz = nat ((int (pi_end_adr (kpi s pi)) - int (pi_start_adr (kpi s pi))) mod 2 ^ 32);
                  s = s\<lparr>kg := (kg s)(g := \<lparr>prog_name = name, g_pi = pi, g_start = pi, g_size = sz\<rparr>)\<rparr>
              in Inr (s\<lparr>progs := progs s @ [g]\<rparr>))
            else Inr s) (\<lambda>s.
     load_modules n (md + 16) pname s))"

definition k_memory_init :: "lits \<Rightarrow> nat \<Rightarrow> nat \<Rightarrow> nat \<Rightarrow> nat \<Rightarrow> kst \<Rightarrow> (layout_t \<times> kst) res" where
  "k_memory_init li kernel_code k_kernel_end magic addr s =
     (if magic \<noteq> MULTIBOOT_BOOTLOADER_MAGIC then Inl Halt
      else
        let s = s\<lparr>progs := []\<rparr>;
            mods = has_flag (mb_flags addr s) 8;
            mx = (if mods then modules_end (mb_mods_count addr s) (mb_mods_addr addr s) k_kernel_end s else k_kernel_end);
            mx = align_up mx;
            hs = nat (((int (mb_upper addr s) - 1024) * 1024 - int mx) mod 2 ^ 32);
            l = \<lparr>kernel_start = kernel_code, kernel_size = nat ((int k_kernel_end - int kernel_code) mod 2 ^ 32),
                 heap_start = mx, heap_size = hs, multiboot = addr\<rparr>
        in rbind (ffs_init mx hs (ffm s)) (\<lambda>(pool, m).
           let s = s\<lparr>k_mpool := pool, ffm := m\<rparr>
           in rbind (if mods then load_modules (mb_mods_count addr s) (mb_mods_addr addr s) (l_pname li) s else Inr s) (\<lambda>s.
              Inr (l, s))))"

section \<open>Memory report\<close>

fun module_lines :: "nat \<Rightarrow> 'p io \<Rightarrow> nat \<Rightarrow> nat \<Rightarrow> nat \<Rightarrow> nat \<Rightarrow> 'p mach \<Rightarrow> 'p mach res" where
  "module_lines 0 io stk pname i md w = Inr w"
| "module_lines (Suc n) io stk pname i md w =
     rbind (lift_k (prog_name_of pname (mod_cmdline md (ks w))) w) (\<lambda>(name, w).
     rbind (kprint io stk (''* module %d: cmd=%s'' @ NL) [of_nat i, of_nat (mod_cmdline md (ks w))] w) (\<lambda>w.
     module_lines n io stk pname (i + 1) (md + 16) w))"

text \<open>An entry of the memory map has its size (without the field itself), a 64-bit address and length, a type.\<close>

fun segment_lines :: "nat \<Rightarrow> 'p io \<Rightarrow> nat \<Rightarrow> nat \<Rightarrow> nat \<Rightarrow> nat \<Rightarrow> 'p mach \<Rightarrow> 'p mach res" where
  "segment_lines 0 io stk mbi i mm w = Inl Out_of_fuel"
| "segment_lines (Suc f) io stk mbi i mm w =
     (let s = ks w
      in if mm < (mb_mmap_addr mbi s + mb_mmap_length mbi s) mod 2 ^ 32 then
           let ad = ld32 (umem s) (mm + 4); ln = ld32 (umem s) (mm + 12)
           in rbind (kprint io stk (''* segment %d size=%x [%x - %x], flags= %d'' @ NL)
                       [of_nat i, ln, ad, ad + ln - 1, ld32 (umem s) (mm + 20)] w) (\<lambda>w.
              segment_lines f io stk mbi (i + 1) ((mm + ptr_at mm (ks w) + 4) mod 2 ^ 32) w)
         else Inr w)"

definition k_memory_info :: "lits \<Rightarrow> layout_t \<Rightarrow> 'p io \<Rightarrow> nat \<Rightarrow> 'p mach \<Rightarrow> 'p mach res" where
  "k_memory_info li l io stk w =
     (let mbi = multiboot l; fl = mb_flags mbi (ks w)
      in rbind (kprint io stk (''MOOLTIBOOT info at %x flags=%x'' @ NL) [of_nat mbi, of_nat fl] w) (\<lambda>w.
         rbind (if has_flag fl 1 then
                  kprint io stk (''Available memory: low = %d kB, high = %d kB'' @ NL)
                    [of_nat (mb_lower mbi (ks w)), of_nat (mb_upper mbi (ks w))] w
                else Inr w) (\<lambda>w.
         rbind (if has_flag fl 4 then kprint io stk (''Command line: %s'' @ NL) [of_nat (mb_cmdline mbi (ks w))] w else Inr w) (\<lambda>w.
         rbind (if has_flag fl 8 then
                  rbind (kprint io stk (''Modules: count %d, at %x'' @ NL)
                           [of_nat (mb_mods_count mbi (ks w)), of_nat (mb_mods_addr mbi (ks w))] w) (\<lambda>w.
                  module_lines (mb_mods_count mbi (ks w)) io stk (l_pname li) 0 (mb_mods_addr mbi (ks w)) w)
                else Inr w) (\<lambda>w.
         rbind (if has_flag fl 64 then
                  rbind (kprint io stk (''Memory map at %x (size=%d)'' @ NL)
                           [of_nat (mb_mmap_addr mbi (ks w)), of_nat (mb_mmap_length mbi (ks w))] w) (\<lambda>w.
                  segment_lines adr_space io stk mbi 0 (mb_mmap_addr mbi (ks w)) w)
                else Inr w) (\<lambda>w.
         rbind (kprint io stk (''MEMORY MAP (mmap):'' @ NL) [] w) (\<lambda>w.
         rbind (kprint io stk (''* Kernel code&data:  %x, size=%x'' @ NL) [of_nat (kernel_start l), of_nat (kernel_size l)] w) (\<lambda>w.
         kprint io stk (''* Kernel heap:       %x, size=%x'' @ NL) [of_nat (heap_start l), of_nat (heap_size l)] w))))))))"

section \<open>System information\<close>

fun list_programs_loop :: "nat list \<Rightarrow> nat \<Rightarrow> nat \<Rightarrow> nat \<Rightarrow> nat \<Rightarrow> kst \<Rightarrow> (int \<times> kst) res" where
  "list_programs_loop [] buffer bsize cur_size space s = Inr (- SUCCESS, s)"
| "list_programs_loop (g # gs) buffer bsize cur_size space s =
     rbind (strlen (prog_name (kg s g)) (umem s)) (\<lambda>l.
     let cur_size = cur_size + l
     in if cur_size > bsize then Inr (- E_TOO_BIG, s)
        else
          rbind (strcat buffer (prog_name (kg s g)) (umem s)) (\<lambda>m.
          rbind (strcat buffer space m) (\<lambda>m.
          list_programs_loop gs buffer bsize cur_size space (s\<lparr>umem := m\<rparr>))))"

definition k_list_programs :: "lits \<Rightarrow> nat \<Rightarrow> nat \<Rightarrow> kst \<Rightarrow> (int \<times> kst) res" where
  "k_list_programs li buffer bsize s =
     (let s = s\<lparr>umem := (umem s)(buffer := 0)\<rparr>
      in rbind (strlen (l_hdr li) (umem s)) (\<lambda>l.
         if l > bsize then Inr (- E_TOO_BIG, s)
         else
           rbind (strcpy buffer (l_hdr li) (umem s)) (\<lambda>m.
           list_programs_loop (progs s) buffer bsize 0 (l_space li) (s\<lparr>umem := m\<rparr>))))"

text \<open>\<^verbatim>\<open>if ( strlen ( text ) > buf_size ) EXIT ( E_TOO_BIG ); strcpy ( buffer, text ); EXIT ( e );\<close>\<close>

definition answer :: "nat \<Rightarrow> nat \<Rightarrow> nat \<Rightarrow> int \<Rightarrow> kst \<Rightarrow> (int \<times> kst) res" where
  "answer txt buffer bsize e s =
     rbind (strlen txt (umem s)) (\<lambda>l.
     if l > bsize then EXIT E_TOO_BIG s
     else rbind (strcpy buffer txt (umem s)) (\<lambda>m. EXIT e (s\<lparr>umem := m\<rparr>)))"

text \<open>\<^verbatim>\<open>EXIT ( k_list_programs ( buffer, buf_size ) )\<close> makes the list twice and changes the sign of an error number
  that is negative already.\<close>

definition sys__sysinfo :: "lits \<Rightarrow> layout_t \<Rightarrow> 'p io \<Rightarrow> nat \<Rightarrow> nat \<Rightarrow> 'p mach \<Rightarrow> (int \<times> 'p mach) res" where
  "sys__sysinfo li l io stk p w =
     (let s = ks w; buffer = ptr_at p s
      in if buffer = 0 then lift_k (EXIT E_PARAM_NULL) w
         else
           rbind (user_ptr p s) (\<lambda>buffer.
           let bsize = ptr_at (p + 4) s
           in rbind (user_ptr (p + 8) s) (\<lambda>prm.
              rbind (user_ptr prm s) (\<lambda>param0.
              if ptr_at (prm + 4) s = 0 then lift_k (answer (l_system_info li) buffer bsize SUCCESS) w
              else
                rbind (user_ptr (prm + 4) s) (\<lambda>param1.
                rbind (strcmp (l_programs li) param1 (umem s)) (\<lambda>c.
                if c = 0 then
                  lift_k (\<lambda>s.
                    rbind (k_list_programs li buffer bsize s) (\<lambda>(r, s).
                    rbind (k_list_programs li buffer bsize (SET_ERRNO r s)) (\<lambda>(r, s). Inr (- r, s)))) w
                else
                  rbind (strcmp (l_memory li) param1 (umem s)) (\<lambda>c.
                  if c = 0 then
                    rbind (k_memory_info li l io stk w) (lift_k (answer (l_look_console li) buffer bsize SUCCESS))
                  else
                    rbind (strcmp (l_threads li) param1 (umem s)) (\<lambda>c.
                    if c = 0 then
                      rbind (kthread_info io stk w) (\<lambda>(r, w). lift_k (answer (l_look_console li) buffer bsize SUCCESS) w)
                    else lift_k (answer (l_usage li) buffer bsize E_DONT_EXIST) w))))))))"

end
