(* ===== verification/Os_Sem.thy ===== *)
theory Os_Sem
  imports Os_Demo
begin

text \<open>
  Counting semaphores, \<^verbatim>\<open>kernel/semaphore.c\<close>. A system call gets the (kernel) address of its parameters on
  the caller's stack; the user level semaphore is one word that holds the kernel's object. The first
  argument of a call that may schedule is the bound of the scheduler.
\<close>

section \<open>The system calls\<close>

definition sys__sem_init :: "nat \<Rightarrow> kst \<Rightarrow> (int \<times> kst) res" where
  "sys__sem_init p s =
     rbind (user_ptr p s) (\<lambda>sem.
     let initial_value = int_at (p + 4) s
     in assert_errno_exit (sem \<noteq> 0) E_INVALID_HANDLE s (
        rbind (kmalloc 12 s) (\<lambda>(k, s).
        rbind (ASSERT (k \<noteq> 0)) (\<lambda>_.
        let s = s\<lparr>ksem := (ksem s)(k := initial_value)\<rparr>;
            s = kthreadq_init (QSem k) s;
            s = put_at sem (of_nat k) s
        in EXIT SUCCESS s))))"

definition sys__sem_destroy :: "nat \<Rightarrow> nat \<Rightarrow> kst \<Rightarrow> (int \<times> kst) res" where
  "sys__sem_destroy n p s =
     rbind (user_ptr p s) (\<lambda>sem.
     assert_errno_exit (sem \<noteq> 0 \<and> ptr_at sem s \<noteq> 0) E_INVALID_HANDLE s (
     let k = ptr_at sem s
     in rbind (rbind (kthreadq_release_all (QSem k) s) (\<lambda>(r, s). if r \<noteq> 0 then kthreads_schedule n s else Inr s)) (\<lambda>s.
        rbind (kfree k s) (\<lambda>s.
        EXIT SUCCESS (put_at sem 0 s)))))"

definition sys__sem_post :: "nat \<Rightarrow> nat \<Rightarrow> kst \<Rightarrow> (int \<times> kst) res" where
  "sys__sem_post n p s =
     rbind (user_ptr p s) (\<lambda>sem.
     assert_errno_exit (sem \<noteq> 0 \<and> ptr_at sem s \<noteq> 0) E_INVALID_HANDLE s (
     let k = ptr_at sem s;
         s = SET_ERRNO SUCCESS s
     in rbind (kthreadq_release (QSem k) s) (\<lambda>(r, s).
        if r = 0 then Inr (- SUCCESS, s\<lparr>ksem := (ksem s)(k := int32 (ksem s k + 1))\<rparr>)
        else rbind (kthreads_schedule n s) (\<lambda>s. Inr (- SUCCESS, s)))))"

definition sys__sem_wait :: "nat \<Rightarrow> nat \<Rightarrow> kst \<Rightarrow> (int \<times> kst) res" where
  "sys__sem_wait n p s =
     rbind (user_ptr p s) (\<lambda>sem.
     assert_errno_exit (sem \<noteq> 0 \<and> ptr_at sem s \<noteq> 0) E_INVALID_HANDLE s (
     let k = ptr_at sem s;
         s = SET_ERRNO SUCCESS s
     in if ksem s k > 0 then Inr (- SUCCESS, s\<lparr>ksem := (ksem s)(k := int32 (ksem s k - 1))\<rparr>)
        else rbind (kthread_enqueue 0 (QSem k) s) (\<lambda>s.
             rbind (kthreads_schedule n s) (\<lambda>s. Inr (- SUCCESS, s)))))"

section \<open>The abstract semaphore\<close>

text \<open>A value and the queue of waiting threads.\<close>

type_synonym asem = "int \<times> nat list"

definition abs_sem :: "kst \<Rightarrow> (qid \<Rightarrow> nat list) \<Rightarrow> nat \<Rightarrow> asem" where
  "abs_sem s A k = (ksem s k, A (QSem k))"

fun spec_post :: "asem \<Rightarrow> asem" where
  "spec_post (v, []) = (v + 1, [])"
| "spec_post (v, t # ts) = (v, ts)"

fun spec_wait :: "nat \<Rightarrow> asem \<Rightarrow> asem" where
  "spec_wait me (v, ts) = (if v > 0 then (v - 1, ts) else (v, ts @ [me]))"

text \<open>Nobody waits while the value is positive, and the value is never negative.\<close>

definition sem_inv :: "asem \<Rightarrow> bool" where
  "sem_inv a \<longleftrightarrow> 0 \<le> fst a \<and> (fst a > 0 \<longrightarrow> snd a = [])"

section \<open>Refinement\<close>

text \<open>A concrete call: the parameter at 70000 points to user address 256, where the handle of object 5000 is.\<close>

definition sem_demo :: "qid \<Rightarrow> kst" where
  "sem_demo q = demo (words_at [(70000, 256), (65792, 5000), (70004, 3)]) q"

lemma sem_demo_handle: "handle_at 70000 65792 5000 (sem_demo q)"
  by (simp add: handle_at_def sem_demo_def user_ptr_def k_u2k_adr_def kthread_get_process_def or_active_def ptr_at_def words_at_def
      ld32_st32_same ld32_st32_other)

lemma sem_demo_kinv: "\<not> is_ready_q q \<Longrightarrow> kinv (sem_demo q) (demo_queues q) 1000"
  by (simp add: sem_demo_def demo_kinv)

lemma sem_post_ok:
  assumes k: "kinv s A i" and h: "handle_at p h k s" and v: "- (2 ^ 31) \<le> ksem s k" "ksem s k < 2 ^ 31 - 1"
  shows "\<exists>s' A'. sys__sem_post (Suc n) p s = Inr (0, s') \<and> kinv s' A' i \<and> abs_sem s' A' k = spec_post (abs_sem s A k) \<and>
    (sem_inv (abs_sem s A k) \<longrightarrow> sem_inv (abs_sem s' A' k)) \<and>
    (\<forall>r. r \<noteq> QSem k \<and> \<not> is_ready_q r \<longrightarrow> A' r = A r) \<and> (\<forall>j. j \<noteq> k \<longrightarrow> ksem s' j = ksem s j) \<and> kmon s' = kmon s \<and>
    (\<forall>t ts. A (QSem k) = t # ts \<longrightarrow> t = active_thread s' \<or> (\<exists>r. t \<in> set (A' (QReady r))))"
proof (cases "A (QSem k)")
  case Nil
  let ?s = "SET_ERRNO SUCCESS s"
  have k1: "kinv ?s A i" using k by (rule kinv_errno)
  let ?s' = "?s\<lparr>ksem := (ksem ?s)(k := int32 (ksem ?s k + 1))\<rparr>"
  have ex: "sys__sem_post (Suc n) p s = Inr (0, ?s')"
    using handle_cases [OF h] kthreadq_release_empty [OF kinvD(1) [OF k1] Nil]
    by (simp add: sys__sem_post_def assert_errno_exit_def Let_def)
  have "kinv ?s' A i" using k1 by (rule kinv_cong) simp_all
  with ex show ?thesis using Nil v
    by (intro exI [of _ ?s'] exI [of _ A]) (simp add: abs_sem_def int32_id sem_inv_def)
next
  case (Cons t ts)
  let ?s = "SET_ERRNO SUCCESS s"
  have k1: "kinv ?s A i" using k by (rule kinv_errno)
  obtain s1 s' A' where r: "kthreadq_release (QSem k) ?s = Inr (1, s1)" "kthreads_schedule (Suc n) s1 = Inr s'" "kinv s' A' i"
    "\<And>r. \<not> is_ready_q r \<Longrightarrow> A' r = (A(QSem k := ts)) r" "sched_frame ?s s'"
    "t = active_thread s' \<or> t \<in> set (A' (QReady (nat (t_prio (kt ?s t)))))"
    using release_schedule [OF k1 Cons, of n] by (metis is_ready_q_simps(1))
  have "sys__sem_post (Suc n) p s = Inr (0, s')"
    using handle_cases [OF h] r(1,2) by (simp add: sys__sem_post_def assert_errno_exit_def Let_def)
  moreover have "ksem s' = ksem s" "kmon s' = kmon s" using sched_frameD(5,6) [OF r(5)] by simp_all
  ultimately show ?thesis using r Cons by (intro exI [of _ s'] exI [of _ A']) (auto simp: abs_sem_def sem_inv_def)
qed

text \<open>\<^bold>\<open>C1\<close> \<open>sys__sem_post\<close> implements the post of the abstract semaphore: without waiting threads the value grows by
  one, otherwise the first waiting thread leaves the queue and is ready or active afterwards. The call
  returns, the kernel's invariant holds after it, no other semaphore or waiting queue changes, and the
  semaphore's own invariant is kept.\<close>

theorem sem_post_refines:
  assumes k: "kinv s A i" and h: "handle_at p h k s" and v: "- (2 ^ 31) \<le> ksem s k" "ksem s k < 2 ^ 31 - 1"
  shows "\<exists>s' A'. sys__sem_post (Suc n) p s = Inr (0, s') \<and> kinv s' A' i \<and> abs_sem s' A' k = spec_post (abs_sem s A k) \<and>
    (sem_inv (abs_sem s A k) \<longrightarrow> sem_inv (abs_sem s' A' k)) \<and>
    (\<forall>r. r \<noteq> QSem k \<and> \<not> is_ready_q r \<longrightarrow> A' r = A r) \<and> (\<forall>j. j \<noteq> k \<longrightarrow> ksem s' j = ksem s j) \<and> kmon s' = kmon s \<and>
    (\<forall>t ts. A (QSem k) = t # ts \<longrightarrow> t = active_thread s' \<or> (\<exists>r. t \<in> set (A' (QReady r))))"
  by (rule sem_post_ok [OF assms])

theorem sem_post_refines_witness:
  "\<exists>s' A'. sys__sem_post 1 70000 (sem_demo (QSem 5000)) = Inr (0, s') \<and> abs_sem s' A' 5000 = (0, []) \<and>
     (3000 = active_thread s' \<or> (\<exists>r. 3000 \<in> set (A' (QReady r))))"
  using sem_post_refines [OF sem_demo_kinv sem_demo_handle, of "QSem 5000" 0] by (auto simp: sem_demo_def abs_sem_def)

lemma sem_wait_ok:
  assumes k: "kinv s A i" and h: "handle_at p h k s" and me: "active_thread s \<noteq> i" and v: "ksem s k < 2 ^ 31"
  shows "\<exists>s' A'. sys__sem_wait (Suc n) p s = Inr (0, s') \<and> kinv s' A' i \<and>
    abs_sem s' A' k = spec_wait (active_thread s) (abs_sem s A k) \<and>
    (sem_inv (abs_sem s A k) \<longrightarrow> sem_inv (abs_sem s' A' k)) \<and>
    (\<forall>r. r \<noteq> QSem k \<and> \<not> is_ready_q r \<longrightarrow> A' r = A r) \<and> (\<forall>j. j \<noteq> k \<longrightarrow> ksem s' j = ksem s j) \<and> kmon s' = kmon s \<and>
    (ksem s k > 0 \<longleftrightarrow> active_thread s' = active_thread s)"
proof (cases "ksem s k > 0")
  case True
  let ?s = "SET_ERRNO SUCCESS s"
  let ?s' = "?s\<lparr>ksem := (ksem ?s)(k := int32 (ksem ?s k - 1))\<rparr>"
  have ex: "sys__sem_wait (Suc n) p s = Inr (0, ?s')"
    using handle_cases [OF h] True by (simp add: sys__sem_wait_def assert_errno_exit_def Let_def)
  have "kinv ?s' A i" using kinv_errno [OF k, of SUCCESS] by (rule kinv_cong) simp_all
  with ex show ?thesis using True v
    by (intro exI [of _ ?s'] exI [of _ A]) (simp add: abs_sem_def int32_id sem_inv_def)
next
  case False
  let ?s = "SET_ERRNO SUCCESS s"
  have k1: "kinv ?s A i" using k by (rule kinv_errno)
  have me1: "active_thread ?s \<noteq> i" using me by simp
  obtain s1 s' A' where r: "kthread_enqueue 0 (QSem k) ?s = Inr s1" "kthreads_schedule (Suc n) s1 = Inr s'" "kinv s' A' i"
    "\<And>r. \<not> is_ready_q r \<Longrightarrow> A' r = (A(QSem k := A (QSem k) @ [active_thread ?s])) r" "sched_frame ?s s'"
    using block_schedule [OF k1 me1, of "QSem k" n] by (metis is_ready_q_simps(1))
  have "sys__sem_wait (Suc n) p s = Inr (0, s')"
    using handle_cases [OF h] r(1,2) False by (simp add: sys__sem_wait_def assert_errno_exit_def Let_def)
  moreover have "ksem s' = ksem s" "kmon s' = kmon s" using sched_frameD(5,6) [OF r(5)] by simp_all
  ultimately show ?thesis using r False kinvD(7) [OF r(3), of "QSem k"] by (intro exI [of _ s'] exI [of _ A']) (auto simp: abs_sem_def sem_inv_def)
qed

text \<open>\<^bold>\<open>C2\<close> \<open>sys__sem_wait\<close>, called by any thread but the idle one, implements the wait of the abstract
  semaphore: a positive value is decremented and the caller stays active, otherwise the caller
  becomes the last thread of the queue and another thread is active. The call
  returns, the kernel's invariant and the semaphore's are kept and no other semaphore or waiting queue changes.\<close>

theorem sem_wait_refines:
  assumes k: "kinv s A i" and h: "handle_at p h k s" and me: "active_thread s \<noteq> i" and v: "ksem s k < 2 ^ 31"
  shows "\<exists>s' A'. sys__sem_wait (Suc n) p s = Inr (0, s') \<and> kinv s' A' i \<and>
    abs_sem s' A' k = spec_wait (active_thread s) (abs_sem s A k) \<and>
    (sem_inv (abs_sem s A k) \<longrightarrow> sem_inv (abs_sem s' A' k)) \<and>
    (\<forall>r. r \<noteq> QSem k \<and> \<not> is_ready_q r \<longrightarrow> A' r = A r) \<and> (\<forall>j. j \<noteq> k \<longrightarrow> ksem s' j = ksem s j) \<and> kmon s' = kmon s \<and>
    (ksem s k > 0 \<longleftrightarrow> active_thread s' = active_thread s)"
  by (rule sem_wait_ok [OF assms])


theorem sem_wait_refines_witness:
  "\<exists>s' A'. sys__sem_wait 1 70000 (sem_demo (QSem 5000)) = Inr (0, s') \<and> abs_sem s' A' 5000 = (0, [3000, 2000]) \<and>
     active_thread s' \<noteq> 2000"
  using sem_wait_refines [OF sem_demo_kinv sem_demo_handle, of "QSem 5000" 0] by (auto simp: sem_demo_def abs_sem_def)

section \<open>Creation and removal\<close>

text \<open>\<^bold>\<open>C16\<close> \<open>sys__sem_init\<close> makes a new semaphore with the given value and no waiting thread, on a block of the kernel heap that was
  not in use, and stores its handle for the caller; all other semaphores and all queues stay as they are. When
  the heap has no room the machine halts.\<close>

theorem sem_init_creates:
  assumes k: "kinv s A i" and hp: "heap_ok s A" and u: "user_ptr p s = Inr h" "h \<noteq> 0"
  shows "\<exists>k m. kmalloc 12 s = Inr (k, s\<lparr>ffm := m\<rparr>) \<and>
    (if k = 0 then sys__sem_init p s = Inl Halt
     else \<exists>s'. sys__sem_init p s = Inr (0, s') \<and> kinv s' A i \<and> heap_ok s' A \<and> ptr_at h s' = k \<and>
       abs_sem s' A k = (int_at (p + 4) s, []) \<and> (\<forall>j. j \<noteq> k \<longrightarrow> ksem s' j = ksem s j) \<and>
       (\<exists>l\<ge>12. (k, l) \<notin> ffs_blocks (k_mpool s) (ffm s) \<and>
         ffs_blocks (k_mpool s') (ffm s') = insert (k, l) (ffs_blocks (k_mpool s) (ffm s))))"
proof -
  have sz: "(12::nat) < 2 ^ 32 - 11" by simp
  obtain k m where a: "kmalloc 12 s = Inr (k, s\<lparr>ffm := m\<rparr>)" "heap_ok (s\<lparr>ffm := m\<rparr>) A" "k \<noteq> 0 \<longrightarrow> no_waiters A k"
    "k \<noteq> 0 \<longrightarrow> (\<exists>l\<ge>12. (k, l) \<notin> ffs_blocks (k_mpool s) (ffm s) \<and> ffs_blocks (k_mpool s) m = insert (k, l) (ffs_blocks (k_mpool s) (ffm s)))"
    "k = 0 \<longrightarrow> m = ffm s"
    by (rule kmalloc_ok [OF hp sz])
  show ?thesis
  proof (cases "k = 0")
    case True
    then have "sys__sem_init p s = Inl Halt" using u a(1) by (simp add: sys__sem_init_def assert_errno_exit_def Let_def)
    then show ?thesis using a(1) True by auto
  next
    case False
    let ?v = "s\<lparr>ffm := m, ksem := (ksem s)(k := int_at (p + 4) s)\<rparr>"
    let ?w = "SET_ERRNO SUCCESS (put_at h (of_nat k) ?v)"
    have q: "A (QSem k) = []" using a(3) False by (simp add: no_waiters_def)
    have k1: "kinv ?v A i" using k by (rule kinv_cong) simp_all
    have ex: "sys__sem_init p s = Inr (0, ?w)"
      using u a(1) False kthreadq_init_same [OF k1 q]
      by (simp add: sys__sem_init_def assert_errno_exit_def EXIT_def int_at_def Let_def)
    obtain l where l: "12 \<le> l" "(k, l) \<notin> ffs_blocks (k_mpool s) (ffm s)" "ffs_blocks (k_mpool s) m = insert (k, l) (ffs_blocks (k_mpool s) (ffm s))"
      using a(4) False by blast
    have "ffs_ok (k_mpool s) m" using a(2) by (simp add: heap_ok_def)
    then have "k < 2 ^ 32" using ffs_block_bound [of "k_mpool s" m k l] l(3) by simp
    then have ptr: "ptr_at h ?w = k" by (simp add: unat_of_nat take_bit_nat_eq_self)
    have "kinv ?w A i" using k1 by (intro kinv_errno kinv_put)
    moreover have "heap_ok ?w A" using a(2) by (rule heap_ok_cong) simp_all
    ultimately show ?thesis using ex a(1) False ptr q l
      by (intro exI [of _ k] exI [of _ m]) (auto simp: abs_sem_def intro!: exI [of _ ?w])
  qed
qed

theorem sem_init_creates_witness:
  "\<exists>m s' k. sys__sem_init 70000 ((sem_demo (QDev 7))\<lparr>ffm := m, k_mpool := 4096\<rparr>) = Inr (0, s') \<and> k \<noteq> 0 \<and>
     abs_sem s' (demo_queues (QDev 7)) k = (3, [])"
proof -
  let ?D = "demo_queues (QDev 7)"
  obtain m k m' where m: "ffs_init 4096 8192 (\<lambda>a. 0) = Inr (4096, m)" "ffs_ok 4096 m" "ffs_blocks 4096 m = {}"
    "ffs_alloc 4096 12 m = Inr (k, m')" "k \<noteq> 0" by (rule demo_heap [of 12]) (simp, blast)
  let ?s = "(sem_demo (QDev 7))\<lparr>ffm := m, k_mpool := 4096\<rparr>"
  have nw: "no_waiters ?D j" for j by (simp add: no_waiters_def)
  have k: "kinv ?s ?D 1000" by (rule kinv_cong [OF sem_demo_kinv]) simp_all
  have hp: "heap_ok ?s ?D" using demo_heap_ok [OF m(2) nw] by (simp add: sem_demo_def)
  have u: "user_ptr 70000 ?s = Inr 65792" "65792 \<noteq> (0::nat)" using handle_cases(1) [OF sem_demo_handle [of "QDev 7"]]
    by (simp_all add: user_ptr_def k_u2k_adr_def kthread_get_process_def or_active_def ptr_at_def)
  have al: "kmalloc 12 ?s = Inr (k, ?s\<lparr>ffm := m'\<rparr>)" using m(4) by (simp add: kmalloc_def)
  have v: "int_at (70000 + 4) ?s = 3" by (simp add: int_at_def sem_demo_def words_at_def ld32_st32_same ld32_st32_other)
  obtain j m'' where "kmalloc 12 ?s = Inr (j, ?s\<lparr>ffm := m''\<rparr>)" and
    r: "if j = 0 then sys__sem_init 70000 ?s = Inl Halt
     else \<exists>s'. sys__sem_init 70000 ?s = Inr (0, s') \<and> kinv s' ?D 1000 \<and> heap_ok s' ?D \<and> ptr_at 65792 s' = j \<and>
       abs_sem s' ?D j = (int_at (70000 + 4) ?s, []) \<and> (\<forall>i. i \<noteq> j \<longrightarrow> ksem s' i = ksem ?s i) \<and>
       (\<exists>l\<ge>12. (j, l) \<notin> ffs_blocks (k_mpool ?s) (ffm ?s) \<and>
         ffs_blocks (k_mpool s') (ffm s') = insert (j, l) (ffs_blocks (k_mpool ?s) (ffm ?s)))"
    using sem_init_creates [OF k hp u] by blast
  then have "j = k" using al by simp
  with r m(5) v show ?thesis by auto
qed

text \<open>\<^bold>\<open>C17\<close> \<open>sys__sem_destroy\<close> makes all threads that wait for the semaphore ready, gives exactly its block back to the kernel heap and clears the
  caller's handle; the invariants hold afterwards and no other semaphore or waiting queue changes.\<close>

theorem sem_destroy_releases:
  assumes k: "kinv s A i" and hp: "heap_ok s A" and h: "handle_at p h k s" and b: "(k, l) \<in> ffs_blocks (k_mpool s) (ffm s)"
    and nw: "no_waiters (A(QSem k := [])) k"
  shows "\<exists>s' A'. sys__sem_destroy (Suc n) p s = Inr (0, s') \<and> kinv s' A' i \<and> heap_ok s' A' \<and> ptr_at h s' = 0 \<and>
    ffs_blocks (k_mpool s') (ffm s') = ffs_blocks (k_mpool s) (ffm s) - {(k, l)} \<and> ksem s' = ksem s \<and>
    (\<forall>r. \<not> is_ready_q r \<longrightarrow> A' r = (A(QSem k := [])) r) \<and>
    (\<forall>t\<in>set (A (QSem k)). t = active_thread s' \<or> (\<exists>r. t \<in> set (A' (QReady r))))"
proof -
  have e: "sys__sem_destroy (Suc n) p s =
    rbind (rbind (kthreadq_release_all (QSem k) s) (\<lambda>(r, s). if r \<noteq> 0 then kthreads_schedule (Suc n) s else Inr s)) (\<lambda>s.
     rbind (kfree k s) (\<lambda>s. EXIT SUCCESS (put_at h 0 s)))"
    using handle_cases [OF h] by (simp add: sys__sem_destroy_def assert_errno_exit_def Let_def)
  have nq: "\<not> is_ready_q (QSem k)" by simp
  show ?thesis unfolding e
  proof (rule drop_object [OF k hp b nq nw, of n h])
    fix s' A'
    assume "rbind (rbind (kthreadq_release_all (QSem k) s) (\<lambda>(r, s). if r \<noteq> 0 then kthreads_schedule (Suc n) s else Inr s)) (\<lambda>s.
        rbind (kfree k s) (\<lambda>s. EXIT SUCCESS (put_at h 0 s))) = Inr (0, s')"
      "kinv s' A' i" "heap_ok s' A'" "ptr_at h s' = 0" "ksem s' = ksem s"
      "ffs_blocks (k_mpool s') (ffm s') = ffs_blocks (k_mpool s) (ffm s) - {(k, l)}"
      "\<And>r. \<not> is_ready_q r \<Longrightarrow> A' r = (A(QSem k := [])) r"
      "\<And>t. t \<in> set (A (QSem k)) \<Longrightarrow> t = active_thread s' \<or> (\<exists>p. t \<in> set (A' (QReady p)))"
    then show "\<exists>s' A'. rbind (rbind (kthreadq_release_all (QSem k) s) (\<lambda>(r, s). if r \<noteq> 0 then kthreads_schedule (Suc n) s else Inr s)) (\<lambda>s.
        rbind (kfree k s) (\<lambda>s. EXIT SUCCESS (put_at h 0 s))) = Inr (0, s') \<and> kinv s' A' i \<and> heap_ok s' A' \<and> ptr_at h s' = 0 \<and>
      ffs_blocks (k_mpool s') (ffm s') = ffs_blocks (k_mpool s) (ffm s) - {(k, l)} \<and> ksem s' = ksem s \<and>
      (\<forall>r. \<not> is_ready_q r \<longrightarrow> A' r = (A(QSem k := [])) r) \<and>
      (\<forall>t\<in>set (A (QSem k)). t = active_thread s' \<or> (\<exists>r. t \<in> set (A' (QReady r))))" by blast
  qed
qed

theorem sem_destroy_releases_witness:
  "\<exists>m k s' A'. sys__sem_destroy 1 70000 ((demo (words_at [(70000, 256), (65792, of_nat k)]) (QSem k))\<lparr>ffm := m, k_mpool := 4096\<rparr>) = Inr (0, s') \<and>
     ffs_blocks (k_mpool s') (ffm s') = {} \<and> ptr_at 65792 s' = 0 \<and> kinv s' A' 1000 \<and> (3000 = active_thread s' \<or> (\<exists>r. 3000 \<in> set (A' (QReady r))))"
proof -
  obtain m0 k m where m: "ffs_init 4096 8192 (\<lambda>a. 0) = Inr (4096, m0)" "ffs_ok 4096 m0" "ffs_blocks 4096 m0 = {}"
    "ffs_alloc 4096 12 m0 = Inr (k, m)" "k \<noteq> 0" "ffs_ok 4096 m" "\<exists>l. ffs_blocks 4096 m = {(k, l)}" "k < 2 ^ 32" by (rule demo_heap [of 12]) simp
  then obtain l where l: "ffs_blocks 4096 m = {(k, l)}" by blast
  let ?s = "(demo (words_at [(70000, 256), (65792, of_nat k)]) (QSem k))\<lparr>ffm := m, k_mpool := 4096\<rparr>" and ?D = "demo_queues (QSem k)"
  have k: "kinv ?s ?D 1000" by (rule kinv_cong [OF demo_kinv]) simp_all
  have hp: "heap_ok ?s ?D" by (rule demo_heap_ok [OF m(6)]) (simp add: no_waiters_def l)
  have h: "handle_at 70000 65792 k ?s" using m(5,8)
    by (simp add: handle_at_def user_ptr_def k_u2k_adr_def kthread_get_process_def or_active_def ptr_at_def words_at_def
      ld32_st32_same ld32_st32_other unat_of_nat take_bit_nat_eq_self)
  have b: "(k, l) \<in> ffs_blocks (k_mpool ?s) (ffm ?s)" using l by simp
  have nw: "no_waiters (?D(QSem k := [])) k" by (simp add: no_waiters_def)
  have q: "3000 \<in> set (?D (QSem k))" by simp
  obtain s' A' where "sys__sem_destroy (Suc 0) 70000 ?s = Inr (0, s')" "kinv s' A' 1000" "ptr_at 65792 s' = 0"
    "ffs_blocks (k_mpool s') (ffm s') = ffs_blocks (k_mpool ?s) (ffm ?s) - {(k, l)}"
    "3000 = active_thread s' \<or> (\<exists>r. 3000 \<in> set (A' (QReady r)))"
    using sem_destroy_releases [OF k hp h b nw, of 0] q by blast
  then show ?thesis using l
    by (intro exI [of _ m] exI [of _ k] exI [of _ s'] exI [of _ A']) simp
qed

end
