(* ===== verification/Os_Monitor.thy ===== *)
theory Os_Monitor
  imports Os_Demo
begin

text \<open>
  Monitors and their condition queues, \<^verbatim>\<open>kernel/monitor.c\<close>. A monitor has an owner and an entry queue; a
  thread that waits on a condition queue keeps its monitor in \<^verbatim>\<open>qdata\<close>, and gets it back when it is
  signalled: at once when the monitor is free, otherwise through the entry queue.
\<close>

section \<open>The system calls\<close>

definition sys__monitor_init :: "nat \<Rightarrow> kst \<Rightarrow> (int \<times> kst) res" where
  "sys__monitor_init p s =
     rbind (user_ptr p s) (\<lambda>monitor.
     assert_errno_exit (monitor \<noteq> 0) E_INVALID_HANDLE s (
     rbind (kmalloc 16 s) (\<lambda>(k, s).
     assert_errno_exit (k \<noteq> 0) E_NO_MEMORY s (
     let s = s\<lparr>kmon := (kmon s)(k := \<lparr>lock = 0, owner = 0\<rparr>)\<rparr>;
         s = kthreadq_init (QMon k) s;
         s = put_at monitor (of_nat k) s
     in EXIT SUCCESS s))))"

definition sys__monitor_destroy :: "nat \<Rightarrow> nat \<Rightarrow> kst \<Rightarrow> (int \<times> kst) res" where
  "sys__monitor_destroy n p s =
     rbind (user_ptr p s) (\<lambda>monitor.
     assert_errno_exit (monitor \<noteq> 0 \<and> ptr_at monitor s \<noteq> 0) E_INVALID_HANDLE s (
     let k = ptr_at monitor s
     in rbind (rbind (kthreadq_release_all (QMon k) s) (\<lambda>(r, s). if r \<noteq> 0 then kthreads_schedule n s else Inr s)) (\<lambda>s.
        rbind (kfree k s) (\<lambda>s.
        EXIT SUCCESS (put_at monitor 0 s)))))"

definition sys__monitor_queue_init :: "nat \<Rightarrow> kst \<Rightarrow> (int \<times> kst) res" where
  "sys__monitor_queue_init p s =
     rbind (user_ptr p s) (\<lambda>queue.
     assert_errno_exit (queue \<noteq> 0) E_INVALID_HANDLE s (
     rbind (kmalloc 8 s) (\<lambda>(k, s).
     assert_errno_exit (k \<noteq> 0) E_NO_MEMORY s (
     let s = kthreadq_init (QMonq k) s;
         s = put_at queue (of_nat k) s
     in EXIT SUCCESS s))))"

definition sys__monitor_queue_destroy :: "nat \<Rightarrow> nat \<Rightarrow> kst \<Rightarrow> (int \<times> kst) res" where
  "sys__monitor_queue_destroy n p s =
     rbind (user_ptr p s) (\<lambda>queue.
     assert_errno_exit (queue \<noteq> 0 \<and> ptr_at queue s \<noteq> 0) E_INVALID_HANDLE s (
     let k = ptr_at queue s
     in rbind (rbind (kthreadq_release_all (QMonq k) s) (\<lambda>(r, s). if r \<noteq> 0 then kthreads_schedule n s else Inr s)) (\<lambda>s.
        rbind (kfree k s) (\<lambda>s.
        EXIT SUCCESS (put_at queue 0 s)))))"

definition sys__monitor_lock :: "nat \<Rightarrow> nat \<Rightarrow> kst \<Rightarrow> (int \<times> kst) res" where
  "sys__monitor_lock n p s =
     rbind (user_ptr p s) (\<lambda>monitor.
     assert_errno_exit (monitor \<noteq> 0 \<and> ptr_at monitor s \<noteq> 0) E_INVALID_HANDLE s (
     let k = ptr_at monitor s;
         s = SET_ERRNO SUCCESS s
     in if lock (kmon s k) = 0
        then Inr (- SUCCESS, s\<lparr>kmon := (kmon s)(k := (kmon s k)\<lparr>lock := 1, owner := kthread_get_active s\<rparr>)\<rparr>)
        else rbind (kthread_enqueue 0 (QMon k) s) (\<lambda>s.
             rbind (kthreads_schedule n s) (\<lambda>s. Inr (- SUCCESS, s)))))"

text \<open>The end of a monitor section, common to unlock and wait: the first thread of the entry queue gets the
  monitor. The result says whether a thread was released.\<close>

definition pass_on :: "nat \<Rightarrow> kst \<Rightarrow> (int \<times> kst) res" where
  "pass_on k s =
     (let s = s\<lparr>kmon := (kmon s)(k := (kmon s k)\<lparr>owner := kthreadq_get (QMon k) s\<rparr>)\<rparr>
      in rbind (kthreadq_release (QMon k) s) (\<lambda>(r, s).
         Inr (r, if r = 0 then s\<lparr>kmon := (kmon s)(k := (kmon s k)\<lparr>lock := 0\<rparr>)\<rparr> else s)))"

definition sys__monitor_unlock :: "nat \<Rightarrow> nat \<Rightarrow> kst \<Rightarrow> (int \<times> kst) res" where
  "sys__monitor_unlock n p s =
     rbind (user_ptr p s) (\<lambda>monitor.
     assert_errno_exit (monitor \<noteq> 0 \<and> ptr_at monitor s \<noteq> 0) E_INVALID_HANDLE s (
     let k = ptr_at monitor s
     in assert_errno_exit (owner (kmon s k) = kthread_get_active s) E_NOT_OWNER s (
        let s = SET_ERRNO SUCCESS s
        in rbind (pass_on k s) (\<lambda>(r, s).
           if r = 0 then Inr (- SUCCESS, s)
           else rbind (kthreads_schedule n s) (\<lambda>s. Inr (- SUCCESS, s))))))"

definition sys__monitor_wait :: "nat \<Rightarrow> nat \<Rightarrow> kst \<Rightarrow> (int \<times> kst) res" where
  "sys__monitor_wait n p s =
     rbind (user_ptr p s) (\<lambda>monitor.
     assert_errno_exit (monitor \<noteq> 0 \<and> ptr_at monitor s \<noteq> 0) E_INVALID_HANDLE s (
     rbind (user_ptr (p + 4) s) (\<lambda>queue.
     assert_errno_exit (queue \<noteq> 0 \<and> ptr_at queue s \<noteq> 0) E_INVALID_HANDLE s (
     let k = ptr_at monitor s;
         q = ptr_at queue s
     in assert_errno_exit (owner (kmon s k) = kthread_get_active s) E_NOT_OWNER s (
        let s = SET_ERRNO SUCCESS s;
            s = kthread_set_qdata 0 k s
        in rbind (kthread_enqueue 0 (QMonq q) s) (\<lambda>s.
           rbind (pass_on k s) (\<lambda>(r, s).
           rbind (kthreads_schedule n s) (\<lambda>s. Inr (- SUCCESS, s)))))))))"

text \<open>The loop of \<^verbatim>\<open>k_monitor_release\<close>, and its body for the first thread of the condition queue; a condition queue
  holds fewer threads than there are addresses.\<close>

definition notify_one :: "nat \<Rightarrow> nat \<Rightarrow> int \<Rightarrow> kst \<Rightarrow> (nat \<times> int \<times> kst) res" where
  "notify_one q kthr reschedule s =
     (let k = kthread_get_qdata kthr s
      in if lock (kmon s k) = 0 then
           let s = s\<lparr>kmon := (kmon s)(k := (kmon s k)\<lparr>lock := 1, owner := kthr\<rparr>)\<rparr>
           in rbind (kthreadq_release (QMonq q) s) (\<lambda>(r, s). Inr (kthr, reschedule + 1, s))
         else
           let (kthr, s) = kthreadq_remove (QMonq q) 0 s
           in rbind (kthread_enqueue kthr (QMon k) s) (\<lambda>s. Inr (kthr, reschedule, s)))"

fun monitor_release_loop :: "nat \<Rightarrow> nat \<Rightarrow> bool \<Rightarrow> int \<Rightarrow> kst \<Rightarrow> (int \<times> kst) res" where
  "monitor_release_loop 0 q broadcast reschedule s = Inl Out_of_fuel"
| "monitor_release_loop (Suc f) q broadcast reschedule s =
     (let kthr = kthreadq_get (QMonq q) s
      in if kthr = 0 then Inr (reschedule, s)
         else rbind (notify_one q kthr reschedule s) (\<lambda>(kthr, reschedule, s).
           if kthr \<noteq> 0 \<and> broadcast then monitor_release_loop f q broadcast reschedule s else Inr (reschedule, s)))"

definition k_monitor_release :: "nat \<Rightarrow> nat \<Rightarrow> bool \<Rightarrow> kst \<Rightarrow> (int \<times> kst) res" where
  "k_monitor_release n p broadcast s =
     rbind (user_ptr p s) (\<lambda>queue.
     assert_errno_exit (queue \<noteq> 0 \<and> ptr_at queue s \<noteq> 0) E_INVALID_HANDLE s (
     rbind (monitor_release_loop adr_space (ptr_at queue s) broadcast 0 s) (\<lambda>(reschedule, s).
     let s = SET_ERRNO SUCCESS s
     in if reschedule \<noteq> 0 then rbind (kthreads_schedule n s) (\<lambda>s. Inr (- SUCCESS, s)) else Inr (- SUCCESS, s))))"

definition sys__monitor_signal :: "nat \<Rightarrow> nat \<Rightarrow> kst \<Rightarrow> (int \<times> kst) res" where
  "sys__monitor_signal n p s = k_monitor_release n p False s"

definition sys__monitor_broadcast :: "nat \<Rightarrow> nat \<Rightarrow> kst \<Rightarrow> (int \<times> kst) res" where
  "sys__monitor_broadcast n p s = k_monitor_release n p True s"

section \<open>The abstract monitor\<close>

text \<open>A monitor is its owner, if any, and the queue of threads that want to enter; a condition is the queue of
  threads that wait for it. \<open>mon_of\<close> gives the monitor a waiting thread goes back to.\<close>

type_synonym amon = "nat option \<times> nat list"
type_synonym amons = "(nat \<Rightarrow> amon) \<times> (nat \<Rightarrow> nat list)"

fun spec_enter :: "nat \<Rightarrow> amon \<Rightarrow> amon" where
  "spec_enter t (None, ts) = (Some t, ts)"
| "spec_enter t (Some u, ts) = (Some u, ts @ [t])"

fun spec_leave :: "amon \<Rightarrow> amon" where
  "spec_leave (u, []) = (None, [])"
| "spec_leave (u, t # ts) = (Some t, ts)"

definition spec_wait_on :: "nat \<Rightarrow> nat \<Rightarrow> nat \<Rightarrow> amons \<Rightarrow> amons" where
  "spec_wait_on me k q = (\<lambda>(M, C). (M(k := spec_leave (M k)), C(q := C q @ [me])))"

text \<open>A signalled thread enters its monitor again, as if it had just asked for it.\<close>

definition reenter :: "(nat \<Rightarrow> nat) \<Rightarrow> nat \<Rightarrow> (nat \<Rightarrow> amon) \<Rightarrow> nat \<Rightarrow> amon" where
  "reenter mon_of t M = M(mon_of t := spec_enter t (M (mon_of t)))"

definition spec_notify :: "bool \<Rightarrow> (nat \<Rightarrow> nat) \<Rightarrow> nat \<Rightarrow> amons \<Rightarrow> amons" where
  "spec_notify broadcast mon_of q = (\<lambda>(M, C).
     let n = (if broadcast then length (C q) else 1)
     in (fold (reenter mon_of) (take n (C q)) M, C(q := drop n (C q))))"

definition abs_mons :: "kst \<Rightarrow> (qid \<Rightarrow> nat list) \<Rightarrow> amons" where
  "abs_mons s A = (\<lambda>k. (if lock (kmon s k) = 0 then None else Some (owner (kmon s k)), A (QMon k)), \<lambda>q. A (QMonq q))"

text \<open>A free monitor has no owner and nobody waits for it.\<close>

definition mon_ok :: "kst \<Rightarrow> (qid \<Rightarrow> nat list) \<Rightarrow> nat \<Rightarrow> bool" where
  "mon_ok s A k \<longleftrightarrow> (lock (kmon s k) = 0 \<longleftrightarrow> owner (kmon s k) = 0) \<and> (lock (kmon s k) = 0 \<longrightarrow> A (QMon k) = [])"

text \<open>Queues that have nothing to do with monitors or the ready list.\<close>

definition other_q :: "qid \<Rightarrow> bool" where
  "other_q q = (case q of QReady p \<Rightarrow> False | QMon k \<Rightarrow> False | QMonq k \<Rightarrow> False | _ \<Rightarrow> True)"

lemma other_q_simps [simp]:
  "\<not> other_q (QReady p)" "\<not> other_q (QMon k)" "\<not> other_q (QMonq k)" "other_q q \<Longrightarrow> \<not> is_ready_q q"
  by (auto simp: other_q_def is_ready_q_def split: qid.splits)

section \<open>Handing the monitor over\<close>

definition passed :: "nat list \<Rightarrow> kmonitor_t \<Rightarrow> kmonitor_t" where
  "passed ts m = (case ts of [] \<Rightarrow> m\<lparr>owner := 0, lock := 0\<rparr> | t # _ \<Rightarrow> m\<lparr>owner := t\<rparr>)"

lemma pass_on_ok:
  assumes pre: "sched_pre s A i"
  obtains r s1 A1 where "pass_on k s = Inr (r, s1)" and "sched_pre s1 A1 i" and "active_thread s1 = active_thread s"
    and "kmon s1 = (kmon s)(k := passed (A (QMon k)) (kmon s k))" and "sched_frame (s\<lparr>kmon := kmon s1\<rparr>) s1"
    and "\<And>q. \<not> is_ready_q q \<Longrightarrow> A1 q = (A(QMon k := tl (A (QMon k)))) q"
    and "r = 0 \<longleftrightarrow> A (QMon k) = []" and "r = 0 \<Longrightarrow> A1 = A \<and> s1 = s\<lparr>kmon := kmon s1\<rparr>"
    and "\<And>t ts. A (QMon k) = t # ts \<Longrightarrow> t \<in> set (A1 (QReady (nat (t_prio (kt s t)))))"
proof (cases "A (QMon k)")
  case Nil
  let ?s = "s\<lparr>kmon := (kmon s)(k := (kmon s k)\<lparr>owner := 0, lock := 0\<rparr>)\<rparr>" and ?u = "s\<lparr>kmon := (kmon s)(k := (kmon s k)\<lparr>owner := 0\<rparr>)\<rparr>"
  have p0: "sched_pre ?u A i" using pre by (rule sched_pre_cong) simp_all
  have "kthreadq_get (QMon k) s = 0" using kthreadq_get_eq [OF sched_preD(1) [OF pre]] Nil by simp
  then have ex: "pass_on k s = Inr (0, ?s)"
    using kthreadq_release_empty [OF sched_preD(1) [OF p0] Nil] by (simp add: pass_on_def Let_def)
  have p1: "sched_pre ?s A i" using pre by (rule sched_pre_cong) simp_all
  show thesis by (rule that [OF ex p1]) (use Nil in \<open>auto simp: passed_def fun_upd_idem\<close>)
next
  case (Cons t ts)
  let ?u = "s\<lparr>kmon := (kmon s)(k := (kmon s k)\<lparr>owner := t\<rparr>)\<rparr>"
  have p0: "sched_pre ?u A i" using pre by (rule sched_pre_cong) simp_all
  let ?p = "nat (t_prio (kt s t))" let ?A = "A(QMon k := ts, QReady ?p := A (QReady ?p) @ [t])"
  have pe: "?p = nat (t_prio (kt ?u t))" by simp
  obtain s1 where 1: "kthreadq_release (QMon k) ?u = Inr (1, s1)" "sched_pre s1 ?A i" "sched_frame ?u s1"
    "active_thread s1 = active_thread ?u"
    by (rule release_pre [OF p0 Cons _ pe]) simp_all
  have "kthreadq_get (QMon k) s = t" using kthreadq_get_eq [OF sched_preD(1) [OF pre]] Cons by simp
  then have ex: "pass_on k s = Inr (1, s1)" using 1(1) by (simp add: pass_on_def Let_def)
  have km: "kmon s1 = (kmon s)(k := (kmon s k)\<lparr>owner := t\<rparr>)" using sched_frameD(6) [OF 1(3)] by simp
  show thesis by (rule that [OF ex 1(2)]) (use Cons 1 km in \<open>auto simp: passed_def is_ready_q_def\<close>)
qed

section \<open>Entering and leaving\<close>

text \<open>A concrete state: the parameters at 70000 point to the handles of monitor 5000, owned by thread \<open>t\<close>, and of condition 6000.\<close>

definition mon_demo :: "nat \<Rightarrow> qid \<Rightarrow> kst" where
  "mon_demo t q = (demo (words_at [(70000, 256), (70004, 260), (65792, 5000), (65796, 6000)]) q)
     \<lparr>kmon := (\<lambda>_. \<lparr>lock = 0, owner = 0\<rparr>)(5000 := \<lparr>lock = 1, owner = t\<rparr>)\<rparr>"

lemma mon_demo_sel [simp]:
  "kmon (mon_demo t q) = (\<lambda>_. \<lparr>lock = 0, owner = 0\<rparr>)(5000 := \<lparr>lock = 1, owner = t\<rparr>)" "active_thread (mon_demo t q) = 2000"
  by (simp_all add: mon_demo_def)

lemma mon_demo_handles: "handle_at 70000 65792 5000 (mon_demo t q)" "handle_at 70004 65796 6000 (mon_demo t q)"
  by (simp_all add: handle_at_def mon_demo_def user_ptr_def k_u2k_adr_def kthread_get_process_def or_active_def ptr_at_def words_at_def
      ld32_st32_same ld32_st32_other)

lemma mon_demo_kinv: "\<not> is_ready_q q \<Longrightarrow> kinv (mon_demo t q) (demo_queues q) 1000"
  by (rule kinv_cong [OF demo_kinv]) (simp_all add: mon_demo_def)

lemma monitor_lock_ok:
  assumes k: "kinv s A i" and h: "handle_at p h k s" and me: "active_thread s \<noteq> i"
  shows "\<exists>s' A'. sys__monitor_lock (Suc n) p s = Inr (0, s') \<and> kinv s' A' i \<and>
    fst (abs_mons s' A') = (fst (abs_mons s A))(k := spec_enter (active_thread s) (fst (abs_mons s A) k)) \<and>
    snd (abs_mons s' A') = snd (abs_mons s A) \<and> (\<forall>j. mon_ok s A j \<longrightarrow> mon_ok s' A' j) \<and> (\<forall>r. other_q r \<longrightarrow> A' r = A r) \<and> ksem s' = ksem s \<and>
    (active_thread s' = active_thread s \<longleftrightarrow> lock (kmon s k) = 0)"
proof (cases "lock (kmon s k) = 0")
  case True
  let ?u = "SET_ERRNO SUCCESS s"
  let ?v = "?u\<lparr>kmon := (kmon s)(k := (kmon s k)\<lparr>lock := 1, owner := active_thread s\<rparr>)\<rparr>"
  have ex: "sys__monitor_lock (Suc n) p s = Inr (0, ?v)"
    using handle_cases [OF h] True by (simp add: sys__monitor_lock_def assert_errno_exit_def kthread_get_active_def Let_def)
  have "kinv ?v A i" using kinv_errno [OF k, of SUCCESS] by (rule kinv_cong) simp_all
  with ex show ?thesis using True kinvD(6) [OF k]
    by (intro exI [of _ ?v] exI [of _ A]) (auto simp: abs_mons_def mon_ok_def)
next
  case False
  let ?u = "SET_ERRNO SUCCESS s"
  have k1: "kinv ?u A i" and me1: "active_thread ?u \<noteq> i" using k me by (simp_all add: kinv_errno)
  obtain s1 s' A' where r: "kthread_enqueue 0 (QMon k) ?u = Inr s1" "kthreads_schedule (Suc n) s1 = Inr s'" "kinv s' A' i"
    "\<And>r. \<not> is_ready_q r \<Longrightarrow> A' r = (A(QMon k := A (QMon k) @ [active_thread ?u])) r" "sched_frame ?u s'"
    using block_schedule [OF k1 me1, of "QMon k" n] by (metis is_ready_q_simps(2))
  have ex: "sys__monitor_lock (Suc n) p s = Inr (0, s')"
    using handle_cases [OF h] r(1,2) False by (simp add: sys__monitor_lock_def assert_errno_exit_def Let_def)
  have km: "kmon s' = kmon s" "ksem s' = ksem s" using sched_frameD(5,6) [OF r(5)] by simp_all
  have "active_thread s \<noteq> active_thread s'" using kinvD(7) [OF r(3), of "QMon k"] r(4) [of "QMon k"] by auto
  then show ?thesis using ex r False km
    by (intro exI [of _ s'] exI [of _ A']) (auto simp: abs_mons_def mon_ok_def other_q_def)
qed

text \<open>\<^bold>\<open>C7\<close> \<open>sys__monitor_lock\<close>, called by any thread but the idle one, implements entering the abstract monitor: the caller owns
  a monitor that was free, otherwise it is the last of the entry queue and another thread is active. The call returns, the
  kernel's invariant and that of all monitors are kept, and no condition or other queue changes.\<close>

theorem monitor_lock_refines:
  assumes k: "kinv s A i" and h: "handle_at p h k s" and me: "active_thread s \<noteq> i"
  shows "\<exists>s' A'. sys__monitor_lock (Suc n) p s = Inr (0, s') \<and> kinv s' A' i \<and>
    fst (abs_mons s' A') = (fst (abs_mons s A))(k := spec_enter (active_thread s) (fst (abs_mons s A) k)) \<and>
    snd (abs_mons s' A') = snd (abs_mons s A) \<and> (\<forall>j. mon_ok s A j \<longrightarrow> mon_ok s' A' j) \<and> (\<forall>r. other_q r \<longrightarrow> A' r = A r) \<and> ksem s' = ksem s \<and>
    (active_thread s' = active_thread s \<longleftrightarrow> lock (kmon s k) = 0)"
  by (rule monitor_lock_ok [OF assms])

lemma abs_mons_at:
  "fst (abs_mons s A) k = (if lock (kmon s k) = 0 then None else Some (owner (kmon s k)), A (QMon k))" "snd (abs_mons s A) q = A (QMonq q)"
  by (simp_all add: abs_mons_def)

theorem monitor_lock_refines_witness:
  "\<exists>s' A'. sys__monitor_lock 1 70000 (mon_demo 3000 (QDev 7)) = Inr (0, s') \<and> fst (abs_mons s' A') 5000 = (Some 3000, [2000]) \<and>
     active_thread s' \<noteq> 2000"
proof -
  let ?d = "mon_demo 3000 (QDev 7)" let ?D = "demo_queues (QDev 7)"
  have "\<not> is_ready_q (QDev 7)" and "active_thread ?d \<noteq> 1000" by simp_all
  then obtain s' A' where e: "sys__monitor_lock (Suc 0) 70000 ?d = Inr (0, s')"
    and f: "fst (abs_mons s' A') = (fst (abs_mons ?d ?D))(5000 := spec_enter (active_thread ?d) (fst (abs_mons ?d ?D) 5000))"
    and a: "active_thread s' = active_thread ?d \<longleftrightarrow> lock (kmon ?d 5000) = 0"
    using monitor_lock_refines [OF mon_demo_kinv mon_demo_handles(1)] by blast
  show ?thesis using e a by (intro exI [of _ s'] exI [of _ A']) (simp add: f abs_mons_at(1) [of ?d])
qed

lemma passed_abs:
  assumes "kmon s' = (kmon s)(k := passed (A (QMon k)) (kmon s k))" and "A' (QMon k) = tl (A (QMon k))"
    and "\<And>j. j \<noteq> k \<Longrightarrow> A' (QMon j) = A (QMon j)" and "lock (kmon s k) \<noteq> 0"
  shows "fst (abs_mons s' A') = (fst (abs_mons s A))(k := spec_leave (fst (abs_mons s A) k))"
  using assms by (cases "A (QMon k)") (auto simp: abs_mons_def passed_def fun_eq_iff)

lemma passed_ok:
  assumes "kmon s' = (kmon s)(k := passed (A (QMon k)) (kmon s k))" and "A' (QMon k) = tl (A (QMon k))"
    and "\<And>j. j \<noteq> k \<Longrightarrow> A' (QMon j) = A (QMon j)" and "lock (kmon s k) \<noteq> 0" and "0 \<notin> set (A (QMon k))" and "mon_ok s A j"
  shows "mon_ok s' A' j"
  using assms by (cases "A (QMon k)") (auto simp: mon_ok_def passed_def)

lemma monitor_unlock_ok:
  assumes k: "kinv s A i" and h: "handle_at p h k s" and m: "mon_ok s A k"
  shows "if owner (kmon s k) = active_thread s
    then \<exists>s' A'. sys__monitor_unlock (Suc n) p s = Inr (0, s') \<and> kinv s' A' i \<and>
      fst (abs_mons s' A') = (fst (abs_mons s A))(k := spec_leave (fst (abs_mons s A) k)) \<and>
      snd (abs_mons s' A') = snd (abs_mons s A) \<and> (\<forall>j. mon_ok s A j \<longrightarrow> mon_ok s' A' j) \<and> (\<forall>r. other_q r \<longrightarrow> A' r = A r) \<and> ksem s' = ksem s \<and>
      (\<forall>t ts. A (QMon k) = t # ts \<longrightarrow> t = active_thread s' \<or> (\<exists>r. t \<in> set (A' (QReady r))))
    else sys__monitor_unlock (Suc n) p s = Inr (- E_NOT_OWNER, SET_ERRNO E_NOT_OWNER s)"
proof (cases "owner (kmon s k) = active_thread s")
  case False
  then show ?thesis
    using handle_cases [OF h] by (simp add: sys__monitor_unlock_def assert_errno_exit_def kthread_get_active_def EXIT_def Let_def)
next
  case own: True
  let ?u = "SET_ERRNO SUCCESS s"
  have k1: "kinv ?u A i" using k by (rule kinv_errno)
  have l: "lock (kmon s k) \<noteq> 0" using m own kinvD(6) [OF k] by (auto simp: mon_ok_def)
  obtain r s1 A1 where 1: "pass_on k ?u = Inr (r, s1)" "sched_pre s1 A1 i" "active_thread s1 = active_thread ?u"
    "kmon s1 = (kmon ?u)(k := passed (A (QMon k)) (kmon ?u k))" "sched_frame (?u\<lparr>kmon := kmon s1\<rparr>) s1"
    "\<And>q. \<not> is_ready_q q \<Longrightarrow> A1 q = (A(QMon k := tl (A (QMon k)))) q" "r = 0 \<longleftrightarrow> A (QMon k) = []"
    "r = 0 \<Longrightarrow> A1 = A \<and> s1 = ?u\<lparr>kmon := kmon s1\<rparr>"
    "\<And>t ts. A (QMon k) = t # ts \<Longrightarrow> t \<in> set (A1 (QReady (nat (t_prio (kt ?u t)))))"
    by (rule pass_on_ok [OF kinv_sched_pre [OF k1], of k]) blast
  have "\<exists>s' A'. sys__monitor_unlock (Suc n) p s = Inr (0, s') \<and> kinv s' A' i \<and> kmon s' = kmon s1 \<and> ksem s' = ksem s1 \<and>
    (\<forall>q. \<not> is_ready_q q \<longrightarrow> A' q = A1 q) \<and> (\<forall>p x. x \<in> set (A1 (QReady p)) \<longrightarrow> x = active_thread s' \<or> x \<in> set (A' (QReady p)))"
  proof (cases "r = 0")
    case True
    have "kinv (?u\<lparr>kmon := kmon s1\<rparr>) A i" using k1 by (rule kinv_cong) simp_all
    then have "kinv s1 A1 i" using 1(8) [OF True] by metis
    then show ?thesis using handle_cases [OF h] own 1(1) True
      by (intro exI [of _ s1] exI [of _ A1]) (simp add: sys__monitor_unlock_def assert_errno_exit_def kthread_get_active_def Let_def)
  next
    case False
    obtain s' A' where 2: "kthreads_schedule (Suc n) s1 = Inr s'" "kinv s' A' i" "sched_result s1 A1 s' A'"
      using schedule_ok [OF 1(2)] by blast
    have "sys__monitor_unlock (Suc n) p s = Inr (0, s')"
      using handle_cases [OF h] own 1(1) False 2(1)
      by (simp add: sys__monitor_unlock_def assert_errno_exit_def kthread_get_active_def Let_def)
    then show ?thesis
      using 2(2) sched_frameD(5,6) [OF sched_result_frame [OF 2(3)]] sched_result_queues [OF 2(3)] sched_result_ready [OF 2(3)] by blast
  qed
  then obtain s' A' where 3: "sys__monitor_unlock (Suc n) p s = Inr (0, s')" "kinv s' A' i" "kmon s' = kmon s1"
    "\<And>q. \<not> is_ready_q q \<Longrightarrow> A' q = A1 q" "\<And>p x. x \<in> set (A1 (QReady p)) \<Longrightarrow> x = active_thread s' \<or> x \<in> set (A' (QReady p))"
    "ksem s' = ksem s1"
    by blast
  have "ksem s1 = ksem ?u" using sched_frameD(5) [OF 1(5)] by simp
  then have se: "ksem s' = ksem s" using 3(6) by simp
  have q: "A' q = (A(QMon k := tl (A (QMon k)))) q" if "\<not> is_ready_q q" for q using 3(4) 1(6) that by simp
  have km: "kmon s' = (kmon s)(k := passed (A (QMon k)) (kmon s k))" using 3(3) 1(4) by simp
  have z: "0 \<notin> set (A (QMon k))" using queues_ok_0 [OF kinvD(1) [OF k]] .
  have f: "fst (abs_mons s' A') = (fst (abs_mons s A))(k := spec_leave (fst (abs_mons s A) k))"
    by (rule passed_abs [where A = A and A' = A' and s = s and k = k]) (use km l q in auto)
  have mo: "mon_ok s' A' j" if "mon_ok s A j" for j by (rule passed_ok [where A = A and A' = A' and s = s and k = k]) (use km l z that q in auto)
  have "t = active_thread s' \<or> (\<exists>r. t \<in> set (A' (QReady r)))" if "A (QMon k) = t # ts" for t ts
    using 1(9) [OF that] 3(5) by blast
  moreover have "snd (abs_mons s' A') = snd (abs_mons s A)" using q by (simp add: abs_mons_def)
  moreover have "A' r = A r" if "other_q r" for r using q [of r] that by (auto simp: other_q_def)
  ultimately show ?thesis unfolding if_P [OF own] using 3(1,2) f mo se by blast
qed

text \<open>\<^bold>\<open>C8\<close> \<open>sys__monitor_unlock\<close> implements leaving the abstract monitor: the first thread of the entry queue becomes the owner and is
  ready or active, or the monitor is free; and a thread that is not the owner is refused with \<^verbatim>\<open>E_NOT_OWNER\<close> and nothing but its
  error number changes.\<close>

theorem monitor_unlock_refines:
  assumes k: "kinv s A i" and h: "handle_at p h k s" and m: "mon_ok s A k"
  shows "if owner (kmon s k) = active_thread s
    then \<exists>s' A'. sys__monitor_unlock (Suc n) p s = Inr (0, s') \<and> kinv s' A' i \<and>
      fst (abs_mons s' A') = (fst (abs_mons s A))(k := spec_leave (fst (abs_mons s A) k)) \<and>
      snd (abs_mons s' A') = snd (abs_mons s A) \<and> (\<forall>j. mon_ok s A j \<longrightarrow> mon_ok s' A' j) \<and> (\<forall>r. other_q r \<longrightarrow> A' r = A r) \<and> ksem s' = ksem s \<and>
      (\<forall>t ts. A (QMon k) = t # ts \<longrightarrow> t = active_thread s' \<or> (\<exists>r. t \<in> set (A' (QReady r))))
    else sys__monitor_unlock (Suc n) p s = Inr (- E_NOT_OWNER, SET_ERRNO E_NOT_OWNER s)"
  by (rule monitor_unlock_ok [OF assms])

theorem monitor_unlock_refines_witness:
  "\<exists>s' A'. sys__monitor_unlock 1 70000 (mon_demo 2000 (QMon 5000)) = Inr (0, s') \<and> fst (abs_mons s' A') 5000 = (Some 3000, []) \<and>
     (3000 = active_thread s' \<or> (\<exists>r. 3000 \<in> set (A' (QReady r))))"
proof -
  let ?d = "mon_demo 2000 (QMon 5000)" let ?D = "demo_queues (QMon 5000)"
  have "\<not> is_ready_q (QMon 5000)" and "mon_ok ?d ?D 5000" and o: "owner (kmon ?d 5000) = active_thread ?d" and "?D (QMon 5000) = [3000]"
    by (simp_all add: mon_ok_def)
  then obtain s' A' where e: "sys__monitor_unlock (Suc 0) 70000 ?d = Inr (0, s')"
    and f: "fst (abs_mons s' A') = (fst (abs_mons ?d ?D))(5000 := spec_leave (fst (abs_mons ?d ?D) 5000))"
    and a: "3000 = active_thread s' \<or> (\<exists>r. 3000 \<in> set (A' (QReady r)))"
    using monitor_unlock_refines [OF mon_demo_kinv mon_demo_handles(1), of "QMon 5000" 2000 0, unfolded if_P [OF o]] by blast
  show ?thesis using e a by (intro exI [of _ s'] exI [of _ A']) (simp add: f abs_mons_at(1) [of ?d])
qed

section \<open>Waiting for a condition\<close>

lemma monitor_wait_ok:
  assumes k: "kinv s A i" and h: "handle_at p h k s" "handle_at (p + 4) h' q s" and m: "mon_ok s A k" and me: "active_thread s \<noteq> i"
  shows "if owner (kmon s k) = active_thread s
    then \<exists>s' A'. sys__monitor_wait (Suc n) p s = Inr (0, s') \<and> kinv s' A' i \<and>
      abs_mons s' A' = spec_wait_on (active_thread s) k q (abs_mons s A) \<and> (\<forall>j. mon_ok s A j \<longrightarrow> mon_ok s' A' j) \<and>
      (\<forall>r. other_q r \<longrightarrow> A' r = A r) \<and> ksem s' = ksem s \<and> active_thread s' \<noteq> active_thread s \<and> t_qdata (kt s' (active_thread s)) = k \<and>
      (\<forall>t ts. A (QMon k) = t # ts \<longrightarrow> t = active_thread s' \<or> (\<exists>r. t \<in> set (A' (QReady r))))
    else sys__monitor_wait (Suc n) p s = Inr (- E_NOT_OWNER, SET_ERRNO E_NOT_OWNER s)"
proof (cases "owner (kmon s k) = active_thread s")
  case False
  then show ?thesis using handle_cases [OF h(1)] handle_cases [OF h(2)]
    by (simp add: sys__monitor_wait_def assert_errno_exit_def kthread_get_active_def EXIT_def Let_def)
next
  case own: True
  let ?c = "active_thread s" let ?u = "kthread_set_qdata 0 k (SET_ERRNO SUCCESS s)" let ?B = "A(QMonq q := A (QMonq q) @ [active_thread s])"
  have u: "kinv ?u A i" "active_thread ?u = ?c" "kmon ?u = kmon s" "t_qdata (kt ?u ?c) = k" "t_prio (kt ?u x) = t_prio (kt s x)" for x
    by (rule kinv_cong [OF kinv_errno [OF k, of SUCCESS]]) (simp_all add: kthread_set_qdata_def or_active_def)
  have l: "lock (kmon s k) \<noteq> 0" using m own kinvD(6) [OF k] by (auto simp: mon_ok_def)
  obtain s0 where 0: "kthread_enqueue 0 (QMonq q) ?u = Inr s0" "sched_pre s0 ?B i" "sched_frame ?u s0" "active_thread s0 = ?c"
    by (rule block_ok [OF u(1), of "QMonq q"]) (use me u(2) in simp_all)
  have B: "?B (QMon k) = A (QMon k)" by simp
  obtain r s1 A1 where 1: "pass_on k s0 = Inr (r, s1)" "sched_pre s1 A1 i" "active_thread s1 = active_thread s0"
    "kmon s1 = (kmon s0)(k := passed (?B (QMon k)) (kmon s0 k))" "sched_frame (s0\<lparr>kmon := kmon s1\<rparr>) s1"
    "\<And>q'. \<not> is_ready_q q' \<Longrightarrow> A1 q' = (?B(QMon k := tl (?B (QMon k)))) q'"
    "\<And>t ts. ?B (QMon k) = t # ts \<Longrightarrow> t \<in> set (A1 (QReady (nat (t_prio (kt s0 t)))))"
    by (rule pass_on_ok [OF 0(2), of k]) blast
  obtain s' A' where 2: "kthreads_schedule (Suc n) s1 = Inr s'" "kinv s' A' i" "sched_result s1 A1 s' A'"
    using schedule_ok [OF 1(2)] by blast
  have ex: "sys__monitor_wait (Suc n) p s = Inr (0, s')"
    using handle_cases [OF h(1)] handle_cases [OF h(2)] own 0(1) 1(1) 2(1)
    by (simp add: sys__monitor_wait_def assert_errno_exit_def kthread_get_active_def Let_def)
  have q: "A' r = (A(QMonq q := A (QMonq q) @ [?c], QMon k := tl (A (QMon k)))) r" if "\<not> is_ready_q r" for r
    using sched_result_queues [OF 2(3) that] 1(6) [OF that] by simp
  have km: "kmon s' = (kmon s)(k := passed (A (QMon k)) (kmon s k))"
    using 1(4) sched_frameD(6) [OF 0(3)] u(3) sched_frameD(6) [OF sched_result_frame [OF 2(3)]] by simp
  have se: "ksem s' = ksem s"
    using sched_frameD(5) [OF 0(3)] sched_frameD(5) [OF 1(5)] sched_frameD(5) [OF sched_result_frame [OF 2(3)]]
    by (simp add: kthread_set_qdata_def)
  have z: "0 \<notin> set (A (QMon k))" using queues_ok_0 [OF kinvD(1) [OF k]] .
  have "fst (abs_mons s' A') = (fst (abs_mons s A))(k := spec_leave (fst (abs_mons s A) k))"
    by (rule passed_abs [where A = A and A' = A' and s = s and k = k]) (use km l q in auto)
  moreover have "snd (abs_mons s' A') = (snd (abs_mons s A))(q := A (QMonq q) @ [?c])" using q by (auto simp: abs_mons_def fun_eq_iff)
  ultimately have ab: "abs_mons s' A' = spec_wait_on ?c k q (abs_mons s A)"
    by (simp add: spec_wait_on_def abs_mons_at prod_eq_iff case_prod_beta)
  have mo: "mon_ok s' A' j" if "mon_ok s A j" for j
    by (rule passed_ok [where A = A and A' = A' and s = s and k = k]) (use km l z that q in auto)
  have ac: "active_thread s' \<noteq> ?c" using kinvD(7) [OF 2(2), of "QMonq q"] q [of "QMonq q"] by auto
  have "t_qdata (kt s0 ?c) = k" "t_qdata (kt s1 ?c) = t_qdata (kt s0 ?c)" "t_qdata (kt s' ?c) = t_qdata (kt s1 ?c)"
    using u(4) same_thrD(5) [OF sched_frameD(23) [OF 0(3)]] same_thrD(5) [OF sched_frameD(23) [OF 1(5)], of ?c]
      same_thrD(5) [OF sched_frameD(23) [OF sched_result_frame [OF 2(3)]], of ?c] by simp_all
  then have qd: "t_qdata (kt s' ?c) = k" by simp
  have "t = active_thread s' \<or> (\<exists>r. t \<in> set (A' (QReady r)))" if "A (QMon k) = t # ts" for t ts
    using 1(7) [unfolded B, OF that] sched_result_ready [OF 2(3)] by blast
  moreover have "A' r = A r" if "other_q r" for r using q [of r] that by (auto simp: other_q_def)
  ultimately show ?thesis unfolding if_P [OF own] using ex 2(2) ab mo ac qd se by blast
qed

text \<open>\<^bold>\<open>C9\<close> \<open>sys__monitor_wait\<close>, called by the owner of the monitor, leaves the monitor and puts the caller at the end of the condition
  queue in one step: another thread is active afterwards, the next owner is ready or active, and the caller's
  descriptor remembers the monitor. A thread that is not the owner is refused.\<close>

theorem monitor_wait_refines:
  assumes k: "kinv s A i" and h: "handle_at p h k s" "handle_at (p + 4) h' q s" and m: "mon_ok s A k" and me: "active_thread s \<noteq> i"
  shows "if owner (kmon s k) = active_thread s
    then \<exists>s' A'. sys__monitor_wait (Suc n) p s = Inr (0, s') \<and> kinv s' A' i \<and>
      abs_mons s' A' = spec_wait_on (active_thread s) k q (abs_mons s A) \<and> (\<forall>j. mon_ok s A j \<longrightarrow> mon_ok s' A' j) \<and>
      (\<forall>r. other_q r \<longrightarrow> A' r = A r) \<and> ksem s' = ksem s \<and> active_thread s' \<noteq> active_thread s \<and> t_qdata (kt s' (active_thread s)) = k \<and>
      (\<forall>t ts. A (QMon k) = t # ts \<longrightarrow> t = active_thread s' \<or> (\<exists>r. t \<in> set (A' (QReady r))))
    else sys__monitor_wait (Suc n) p s = Inr (- E_NOT_OWNER, SET_ERRNO E_NOT_OWNER s)"
  by (rule monitor_wait_ok [OF assms])

theorem monitor_wait_refines_witness:
  "\<exists>s' A'. sys__monitor_wait 1 70000 (mon_demo 2000 (QMon 5000)) = Inr (0, s') \<and> fst (abs_mons s' A') 5000 = (Some 3000, []) \<and>
     snd (abs_mons s' A') 6000 = [2000] \<and> active_thread s' \<noteq> 2000 \<and> t_qdata (kt s' 2000) = 5000"
proof -
  let ?d = "mon_demo 2000 (QMon 5000)" let ?D = "demo_queues (QMon 5000)"
  have h: "handle_at (70000 + 4) 65796 6000 ?d" using mon_demo_handles(2) by simp
  have "\<not> is_ready_q (QMon 5000)" and "mon_ok ?d ?D 5000" and o: "owner (kmon ?d 5000) = active_thread ?d" and "active_thread ?d \<noteq> 1000"
    by (simp_all add: mon_ok_def)
  then obtain s' A' where e: "sys__monitor_wait (Suc 0) 70000 ?d = Inr (0, s')"
    and f: "abs_mons s' A' = spec_wait_on (active_thread ?d) 5000 6000 (abs_mons ?d ?D)"
    and a: "active_thread s' \<noteq> active_thread ?d" "t_qdata (kt s' (active_thread ?d)) = 5000"
    using monitor_wait_refines [OF mon_demo_kinv mon_demo_handles(1) h, where n = 0, unfolded if_P [OF o]] by blast
  show ?thesis using e a
    by (intro exI [of _ s'] exI [of _ A']) (simp add: f spec_wait_on_def case_prod_beta abs_mons_at [of ?d])
qed

section \<open>Signal and broadcast\<close>

text \<open>What one round does; \<open>d\<close> is 1 when the thread has become ready. The threads keep their \<^verbatim>\<open>qdata\<close>.\<close>

definition notified :: "nat \<Rightarrow> nat \<Rightarrow> kst \<Rightarrow> (qid \<Rightarrow> nat list) \<Rightarrow> nat list \<Rightarrow> kst \<Rightarrow> (qid \<Rightarrow> nat list) \<Rightarrow> bool" where
  "notified i q s A ts s' A' \<longleftrightarrow> sched_pre s' A' i \<and> active_thread s' = active_thread s \<and>
     (\<forall>t. t_qdata (kt s' t) = t_qdata (kt s t)) \<and>
     fst (abs_mons s' A') = fold (reenter (\<lambda>t. t_qdata (kt s t))) ts (fst (abs_mons s A)) \<and>
     snd (abs_mons s' A') = (snd (abs_mons s A))(q := drop (length ts) (A (QMonq q))) \<and>
     (\<forall>j. mon_ok s A j \<longrightarrow> mon_ok s' A' j) \<and> (\<forall>r. other_q r \<longrightarrow> A' r = A r) \<and> ksem s' = ksem s"

lemma notify_one_ok:
  assumes pre: "sched_pre s A i" and q: "A (QMonq q) = t # ts"
  obtains d s' A' where "notify_one q t r s = Inr (t, r + d, s')" and "notified i q s A [t] s' A'" and "0 \<le> d"
    and "d = 0 \<Longrightarrow> kinv s A i \<Longrightarrow> kinv s' A' i"
proof (cases "lock (kmon s (t_qdata (kt s t))) = 0")
  case True
  let ?k = "t_qdata (kt s t)" and ?p = "nat (t_prio (kt s t))"
  let ?u = "s\<lparr>kmon := (kmon s)(?k := (kmon s ?k)\<lparr>lock := 1, owner := t\<rparr>)\<rparr>" let ?A = "A(QMonq q := ts, QReady ?p := A (QReady ?p) @ [t])"
  have t0: "t \<noteq> 0" using queues_ok_0 [OF sched_preD(1) [OF pre], of "QMonq q"] q by auto
  have u: "sched_pre ?u A i" using pre by (rule sched_pre_cong) simp_all
  have pe: "?p = nat (t_prio (kt ?u t))" by simp
  obtain s1 where 1: "kthreadq_release (QMonq q) ?u = Inr (1, s1)" "sched_pre s1 ?A i" "sched_frame ?u s1" "active_thread s1 = active_thread ?u"
    by (rule release_pre [OF u q _ pe]) simp_all
  have km: "kmon s1 = kmon ?u" "ksem s1 = ksem s" using sched_frameD(5,6) [OF 1(3)] by simp_all
  have qd: "t_qdata (kt s1 x) = t_qdata (kt s x)" for x using same_thrD(5) [OF sched_frameD(23) [OF 1(3)], of x] by simp
  have "notify_one q t r s = Inr (t, r + 1, s1)"
    using True 1(1) t0 by (simp add: notify_one_def kthread_get_qdata_def or_active_def Let_def)
  moreover have "notified i q s A [t] s1 ?A"
    using 1 km qd True q t0 by (auto simp: notified_def abs_mons_def reenter_def mon_ok_def other_q_def fun_eq_iff)
  ultimately show thesis using that [of 1] by simp
next
  case False
  let ?k = "t_qdata (kt s t)" let ?A = "A(QMonq q := ts, QMon ?k := A (QMon ?k) @ [t])"
  have t0: "t \<noteq> 0" using queues_ok_0 [OF sched_preD(1) [OF pre], of "QMonq q"] q by auto
  obtain s0 s1 where 1: "kthreadq_remove (QMonq q) 0 s = (t, s0)" "kthread_enqueue t (QMon ?k) s0 = Inr s1" "sched_pre s1 ?A i"
    "sched_frame s s1" "active_thread s1 = active_thread s" "\<And>x. x \<noteq> t \<Longrightarrow> kt s1 x = kt s x"
    by (rule move_pre [OF pre q, of "QMon ?k"]) auto
  have km: "kmon s1 = kmon s" "ksem s1 = ksem s" using sched_frameD(5,6) [OF 1(4)] by simp_all
  have qd: "t_qdata (kt s1 x) = t_qdata (kt s x)" for x using same_thrD(5) [OF sched_frameD(23) [OF 1(4)], of x] by simp
  have ex: "notify_one q t r s = Inr (t, r + 0, s1)"
    using False 1(1,2) t0 by (simp add: notify_one_def kthread_get_qdata_def or_active_def Let_def)
  have no: "notified i q s A [t] s1 ?A"
    using 1 km qd False q by (auto simp: notified_def abs_mons_def reenter_def mon_ok_def other_q_def fun_eq_iff)
  have "kinv s1 ?A i" if k: "kinv s A i"
  proof (rule kinv_from_pre [OF k 1(3,5)])
    have "active_thread s \<noteq> t" using kinvD(7) [OF k, of "QMonq q"] q by auto
    then show "kt s1 (active_thread s) = kt s (active_thread s)" using 1(6) by simp
  qed simp
  then show thesis using that [OF ex no] by simp
qed

lemma notified_trans:
  assumes "notified i q s A [t] s1 A1" and "notified i q s1 A1 ts s' A'" and "A (QMonq q) = t # us"
  shows "notified i q s A (t # ts) s' A'"
proof -
  have "A1 (QMonq q) = us" using assms(1,3) abs_mons_at(2) [of s1 A1 q] by (simp add: notified_def)
  then show ?thesis using assms by (simp add: notified_def)
qed

lemma notify_loop_broadcast:
  assumes "sched_pre s A i" and "A (QMonq q) = ts" and "length ts < f"
  shows "\<exists>d s' A'. monitor_release_loop f q True r s = Inr (r + d, s') \<and> notified i q s A ts s' A' \<and> 0 \<le> d \<and>
    (d = 0 \<longrightarrow> kinv s A i \<longrightarrow> kinv s' A' i)"
  using assms
proof (induction ts arbitrary: s A f r)
  case Nil
  then obtain g where g: "f = Suc g" by (cases f) auto
  have "kthreadq_get (QMonq q) s = 0" using kthreadq_get_eq [OF sched_preD(1) [OF Nil(1)]] Nil(2) by simp
  then show ?case using Nil g by (intro exI [of _ 0] exI [of _ s] exI [of _ A]) (simp add: notified_def abs_mons_at fun_upd_idem)
next
  case (Cons t ts)
  then obtain g where g: "f = Suc g" "length ts < g" by (cases f) auto
  have z: "0 \<notin> set (A (QMonq q))" using queues_ok_0 [OF sched_preD(1) [OF Cons.prems(1)]] .
  have get: "kthreadq_get (QMonq q) s = t" "t \<noteq> 0"
    using kthreadq_get_eq [OF sched_preD(1) [OF Cons.prems(1)]] Cons.prems(2) z by auto
  obtain d1 s1 A1 where 1: "notify_one q t r s = Inr (t, r + d1, s1)" "notified i q s A [t] s1 A1" "0 \<le> d1"
    "d1 = 0 \<Longrightarrow> kinv s A i \<Longrightarrow> kinv s1 A1 i"
    by (rule notify_one_ok [OF Cons.prems(1,2)]) blast
  have p1: "sched_pre s1 A1 i" "A1 (QMonq q) = ts"
    using 1(2) Cons.prems(2) abs_mons_at(2) [of s1 A1 q] by (simp_all add: notified_def)
  obtain d2 s' A' where 2: "monitor_release_loop g q True (r + d1) s1 = Inr (r + d1 + d2, s')" "notified i q s1 A1 ts s' A'" "0 \<le> d2"
    "d2 = 0 \<longrightarrow> kinv s1 A1 i \<longrightarrow> kinv s' A' i"
    using Cons.IH [OF p1 g(2)] by blast
  have "monitor_release_loop f q True r s = Inr (r + (d1 + d2), s')"
    using g get 1(1) 2(1) by (simp add: add.assoc)
  moreover have "notified i q s A (t # ts) s' A'" using 1(2) 2(2) Cons.prems(2) by (rule notified_trans)
  ultimately show ?case using 1(3,4) 2(3,4) by (intro exI [of _ "d1 + d2"] exI [of _ s'] exI [of _ A']) auto
qed

lemma notify_loop_ok:
  assumes k: "kinv s A i" and f: "length (A (QMonq q)) < f"
  obtains d s' A' where "monitor_release_loop f q b 0 s = Inr (d, s')" and "sched_pre s' A' i" and "d = 0 \<Longrightarrow> kinv s' A' i"
    and "notified i q s A (if b then A (QMonq q) else take 1 (A (QMonq q))) s' A'"
proof (cases b)
  case True
  obtain d s' A' where "monitor_release_loop f q True 0 s = Inr (0 + d, s')" "notified i q s A (A (QMonq q)) s' A'"
    "d = 0 \<longrightarrow> kinv s A i \<longrightarrow> kinv s' A' i"
    using notify_loop_broadcast [OF kinv_sched_pre [OF k] refl f] by blast
  then show thesis using True k by (intro that [of d s' A']) (auto simp: notified_def)
next
  case False
  obtain g where g: "f = Suc g" using f by (cases f) auto
  have get: "kthreadq_get (QMonq q) s = hd0 (A (QMonq q))" using kthreadq_get_eq [OF kinvD(1) [OF k]] .
  show thesis
  proof (cases "A (QMonq q)")
    case Nil
    then show thesis using False g get k
      by (intro that [of 0 s A]) (simp_all add: notified_def kinv_sched_pre abs_mons_at fun_upd_idem)
  next
    case (Cons t ts)
    have t0: "t \<noteq> 0" using queues_ok_0 [OF kinvD(1) [OF k], of "QMonq q"] Cons by auto
    obtain d s' A' where 1: "notify_one q t 0 s = Inr (t, 0 + d, s')" "notified i q s A [t] s' A'" "d = 0 \<Longrightarrow> kinv s A i \<Longrightarrow> kinv s' A' i"
      by (rule notify_one_ok [OF kinv_sched_pre [OF k] Cons]) blast
    show thesis using 1 False g get t0 Cons k by (intro that [of d s' A']) (auto simp: notified_def)
  qed
qed

lemma monitor_notify_ok:
  assumes k: "kinv s A i" and h: "handle_at p h q s"
  shows "\<exists>s' A'. (if b then sys__monitor_broadcast else sys__monitor_signal) (Suc n) p s = Inr (0, s') \<and> kinv s' A' i \<and>
    abs_mons s' A' = spec_notify b (\<lambda>t. t_qdata (kt s t)) q (abs_mons s A) \<and>
    (\<forall>j. mon_ok s A j \<longrightarrow> mon_ok s' A' j) \<and> (\<forall>r. other_q r \<longrightarrow> A' r = A r) \<and> ksem s' = ksem s"
proof -
  let ?ts = "if b then A (QMonq q) else take 1 (A (QMonq q))"
  have len: "length (A (QMonq q)) < adr_space" using queue_length [OF kinvD(1) [OF k]] kinvD(11) [OF k] by blast
  obtain d s1 A1 where 1: "monitor_release_loop adr_space q b 0 s = Inr (d, s1)" "sched_pre s1 A1 i" "d = 0 \<Longrightarrow> kinv s1 A1 i"
    "notified i q s A ?ts s1 A1"
    by (rule notify_loop_ok [OF k len]) blast
  let ?u = "SET_ERRNO SUCCESS s1"
  have body: "(if b then sys__monitor_broadcast else sys__monitor_signal) (Suc n) p s =
      (if d \<noteq> 0 then rbind (kthreads_schedule (Suc n) ?u) (\<lambda>s. Inr (0, s)) else Inr (0, ?u))"
    using handle_cases [OF h] 1(1)
    by (cases b) (simp_all add: sys__monitor_broadcast_def sys__monitor_signal_def k_monitor_release_def assert_errno_exit_def Let_def
        del: monitor_release_loop.simps kthreads_schedule.simps)
  have u: "sched_pre ?u A1 i" using 1(2) by (rule sched_pre_cong) simp_all
  have "\<exists>s' A'. (if d \<noteq> 0 then rbind (kthreads_schedule (Suc n) ?u) (\<lambda>s. Inr (0, s)) else Inr (0, ?u)) = Inr (0::int, s') \<and>
    kinv s' A' i \<and> kmon s' = kmon s1 \<and> ksem s' = ksem s1 \<and> (\<forall>r. \<not> is_ready_q r \<longrightarrow> A' r = A1 r)"
  proof (cases "d = 0")
    case True
    then show ?thesis using kinv_errno [OF 1(3)] by (intro exI [of _ ?u] exI [of _ A1]) simp
  next
    case False
    obtain s' A' where 2: "kthreads_schedule (Suc n) ?u = Inr s'" "kinv s' A' i" "sched_result ?u A1 s' A'"
      using schedule_ok [OF u] by blast
    then show ?thesis using False sched_frameD(5,6) [OF sched_result_frame [OF 2(3)]] sched_result_queues [OF 2(3)]
      by (intro exI [of _ s'] exI [of _ A']) (simp del: kthreads_schedule.simps)
  qed
  then obtain s' A' where 2: "(if b then sys__monitor_broadcast else sys__monitor_signal) (Suc n) p s = Inr (0, s')" "kinv s' A' i"
    "kmon s' = kmon s1" "\<And>r. \<not> is_ready_q r \<Longrightarrow> A' r = A1 r" "ksem s' = ksem s1" unfolding body by blast
  have e: "abs_mons s' A' = abs_mons s1 A1" "mon_ok s' A' j = mon_ok s1 A1 j" for j using 2(3,4) by (auto simp: abs_mons_def mon_ok_def fun_eq_iff)
  have "abs_mons s1 A1 = spec_notify b (\<lambda>t. t_qdata (kt s t)) q (abs_mons s A)"
    using 1(4) by (auto simp: notified_def spec_notify_def prod_eq_iff case_prod_beta abs_mons_at Let_def)
       (cases "A (QMonq q)"; simp)+
  then show ?thesis using 1(4) 2 e by (intro exI [of _ s'] exI [of _ A']) (auto simp: notified_def)
qed



end
