(* ===== verification/Os_Steps.thy ===== *)
theory Os_Steps
  imports Os_Sem Os_Monitor Os_Fair
begin

text \<open>
  Threads that synchronise: the histories of programs that use semaphores and monitors, as a step relation. A step is anything a program does to
  the memory of processes, or a system call of the active thread. The invariant of all reachable states is that the thread queues are sound, the
  thread with the highest priority is active, nobody waits for a semaphore with a positive value or for a free monitor.
\<close>

section \<open>Calls\<close>

datatype call =
    Sem_post nat | Sem_wait nat | Monitor_lock nat | Monitor_unlock nat | Monitor_wait nat | Monitor_signal nat | Monitor_broadcast nat

fun do_call :: "nat \<Rightarrow> call \<Rightarrow> kst \<Rightarrow> (int \<times> kst) res" where
  "do_call n (Sem_post p) s = sys__sem_post n p s"
| "do_call n (Sem_wait p) s = sys__sem_wait n p s"
| "do_call n (Monitor_lock p) s = sys__monitor_lock n p s"
| "do_call n (Monitor_unlock p) s = sys__monitor_unlock n p s"
| "do_call n (Monitor_wait p) s = sys__monitor_wait n p s"
| "do_call n (Monitor_signal p) s = sys__monitor_signal n p s"
| "do_call n (Monitor_broadcast p) s = sys__monitor_broadcast n p s"

text \<open>The handles are handles of the semaphores \<open>S\<close> and the monitors \<open>M\<close>, a semaphore does not overflow, and the idle thread \<open>i\<close> does not block.\<close>

fun legal_call :: "nat \<Rightarrow> nat set \<Rightarrow> nat set \<Rightarrow> call \<Rightarrow> kst \<Rightarrow> bool" where
  "legal_call i S M (Sem_post p) s = (\<exists>h k. handle_at p h k s \<and> k \<in> S \<and> ksem s k < 2 ^ 31 - 1)"
| "legal_call i S M (Sem_wait p) s = (active_thread s \<noteq> i \<and> (\<exists>h k. handle_at p h k s \<and> k \<in> S))"
| "legal_call i S M (Monitor_lock p) s = (active_thread s \<noteq> i \<and> (\<exists>h k. handle_at p h k s \<and> k \<in> M))"
| "legal_call i S M (Monitor_unlock p) s = (\<exists>h k. handle_at p h k s \<and> k \<in> M)"
| "legal_call i S M (Monitor_wait p) s = (active_thread s \<noteq> i \<and> (\<exists>h k h' q. handle_at p h k s \<and> k \<in> M \<and> handle_at (p + 4) h' q s))"
| "legal_call i S M (Monitor_signal p) s = (\<exists>h q. handle_at p h q s)"
| "legal_call i S M (Monitor_broadcast p) s = (\<exists>h q. handle_at p h q s)"

definition sync_inv :: "nat \<Rightarrow> nat set \<Rightarrow> nat set \<Rightarrow> kst \<Rightarrow> (qid \<Rightarrow> nat list) \<Rightarrow> bool" where
  "sync_inv i S M s A \<longleftrightarrow> kinv s A i \<and> (\<forall>k\<in>S. sem_inv (abs_sem s A k) \<and> ksem s k < 2 ^ 31) \<and> (\<forall>k\<in>M. mon_ok s A k)"

inductive sync_step :: "nat \<Rightarrow> nat \<Rightarrow> nat set \<Rightarrow> nat set \<Rightarrow> kst \<Rightarrow> kst \<Rightarrow> bool" for i n S M where
  program: "sync_step i n S M s (s\<lparr>umem := m\<rparr>)"
| call: "legal_call i S M c s \<Longrightarrow> do_call (Suc n) c s = Inr (r, s') \<Longrightarrow> sync_step i n S M s s'"

section \<open>Every legal call returns and keeps the invariant\<close>

lemma sem_call_inv:
  assumes "sync_inv i S M s A" and "kinv s' A' i" and "sem_inv (abs_sem s A k) \<longrightarrow> sem_inv (abs_sem s' A' k)" and "ksem s' k < 2 ^ 31"
    and "\<forall>r. r \<noteq> QSem k \<and> \<not> is_ready_q r \<longrightarrow> A' r = A r" and "\<forall>j. j \<noteq> k \<longrightarrow> ksem s' j = ksem s j" and "kmon s' = kmon s"
  shows "sync_inv i S M s' A'"
proof -
  have "abs_sem s' A' j = abs_sem s A j" if "j \<noteq> k" for j using assms(5,6) that by (simp add: abs_sem_def)
  then have "sem_inv (abs_sem s' A' j) \<and> ksem s' j < 2 ^ 31" if "j \<in> S" for j using assms(1,3,4,6) that by (cases "j = k") (auto simp: sync_inv_def)
  moreover have "mon_ok s' A' j" if "j \<in> M" for j using assms(1,5,7) that by (simp add: sync_inv_def mon_ok_def)
  ultimately show ?thesis using assms(2) by (simp add: sync_inv_def)
qed

lemma mon_call_inv:
  assumes "sync_inv i S M s A" and "kinv s' A' i" and "\<forall>j. mon_ok s A j \<longrightarrow> mon_ok s' A' j" and "\<forall>r. other_q r \<longrightarrow> A' r = A r"
    and "ksem s' = ksem s"
  shows "sync_inv i S M s' A'"
proof -
  have "other_q (QSem k)" for k by (simp add: other_q_def)
  then have "abs_sem s' A' = abs_sem s A" using assms(4,5) by (simp add: abs_sem_def fun_eq_iff)
  then show ?thesis using assms by (simp add: sync_inv_def)
qed

lemma errno_inv: "sync_inv i S M s A \<Longrightarrow> sync_inv i S M (SET_ERRNO e s) A"
  using kinv_errno by (simp add: sync_inv_def abs_sem_def mon_ok_def)

lemma sem_post_returns:
  assumes I: "sync_inv i S M s A" and l: "legal_call i S M (Sem_post p) s"
  shows "\<exists>r s' A'. do_call (Suc n) (Sem_post p) s = Inr (r, s') \<and> sync_inv i S M s' A'"
proof -
  have k: "kinv s A i" using I by (simp add: sync_inv_def)
  have se: "sem_inv (abs_sem s A j)" "ksem s j < 2 ^ 31" if "j \<in> S" for j using I that by (auto simp: sync_inv_def)
  obtain h j where j: "handle_at p h j s" "j \<in> S" "ksem s j < 2 ^ 31 - 1" using l by auto
  have lo: "- (2 ^ 31) \<le> ksem s j" using se(1) [OF j(2)] by (simp add: sem_inv_def abs_sem_def)
  obtain s' A' where 1: "sys__sem_post (Suc n) p s = Inr (0, s')" "kinv s' A' i" "abs_sem s' A' j = spec_post (abs_sem s A j)"
    "sem_inv (abs_sem s A j) \<longrightarrow> sem_inv (abs_sem s' A' j)" "\<forall>r. r \<noteq> QSem j \<and> \<not> is_ready_q r \<longrightarrow> A' r = A r"
    "\<forall>x. x \<noteq> j \<longrightarrow> ksem s' x = ksem s x" "kmon s' = kmon s" using sem_post_ok [OF k j(1) lo j(3)] by blast
  have "fst (spec_post a) \<le> fst a + 1" for a by (cases a rule: spec_post.cases) simp_all
  then have "ksem s' j \<le> ksem s j + 1" using 1(3) by (metis abs_sem_def fst_conv)
  then have "ksem s' j < 2 ^ 31" using j(3) by simp
  from sem_call_inv [OF I 1(2,4) this 1(5-7)] show ?thesis using 1(1) by auto
qed

lemma sem_wait_returns:
  assumes I: "sync_inv i S M s A" and l: "legal_call i S M (Sem_wait p) s"
  shows "\<exists>r s' A'. do_call (Suc n) (Sem_wait p) s = Inr (r, s') \<and> sync_inv i S M s' A'"
proof -
  have k: "kinv s A i" using I by (simp add: sync_inv_def)
  have se: "sem_inv (abs_sem s A j)" "ksem s j < 2 ^ 31" if "j \<in> S" for j using I that by (auto simp: sync_inv_def)
  obtain h j where j: "handle_at p h j s" "j \<in> S" "active_thread s \<noteq> i" using l by auto
  obtain s' A' where 1: "sys__sem_wait (Suc n) p s = Inr (0, s')" "kinv s' A' i" "abs_sem s' A' j = spec_wait (active_thread s) (abs_sem s A j)"
    "sem_inv (abs_sem s A j) \<longrightarrow> sem_inv (abs_sem s' A' j)" "\<forall>r. r \<noteq> QSem j \<and> \<not> is_ready_q r \<longrightarrow> A' r = A r"
    "\<forall>x. x \<noteq> j \<longrightarrow> ksem s' x = ksem s x" "kmon s' = kmon s" using sem_wait_ok [OF k j(1,3) se(2) [OF j(2)]] by blast
  have "fst (spec_wait t a) \<le> fst a" for t a by (cases a) simp
  then have "ksem s' j \<le> ksem s j" using 1(3) by (metis abs_sem_def fst_conv)
  then have "ksem s' j < 2 ^ 31" using se(2) [OF j(2)] by simp
  from sem_call_inv [OF I 1(2,4) this 1(5-7)] show ?thesis using 1(1) by auto
qed

lemma monitor_lock_returns:
  assumes I: "sync_inv i S M s A" and l: "legal_call i S M (Monitor_lock p) s"
  shows "\<exists>r s' A'. do_call (Suc n) (Monitor_lock p) s = Inr (r, s') \<and> sync_inv i S M s' A'"
proof -
  have k: "kinv s A i" using I by (simp add: sync_inv_def)
  obtain h j where j: "handle_at p h j s" "active_thread s \<noteq> i" using l by auto
  obtain s' A' where 1: "sys__monitor_lock (Suc n) p s = Inr (0, s')" "kinv s' A' i" "\<forall>j. mon_ok s A j \<longrightarrow> mon_ok s' A' j"
    "\<forall>r. other_q r \<longrightarrow> A' r = A r" "ksem s' = ksem s" using monitor_lock_ok [OF k j] by blast
  from mon_call_inv [OF I 1(2-5)] show ?thesis using 1(1) by auto
qed

lemma monitor_unlock_returns:
  assumes I: "sync_inv i S M s A" and l: "legal_call i S M (Monitor_unlock p) s"
  shows "\<exists>r s' A'. do_call (Suc n) (Monitor_unlock p) s = Inr (r, s') \<and> sync_inv i S M s' A'"
proof -
  have k: "kinv s A i" using I by (simp add: sync_inv_def)
  have mo: "mon_ok s A j" if "j \<in> M" for j using I that by (simp add: sync_inv_def)
  obtain h j where j: "handle_at p h j s" "j \<in> M" using l by auto
  show ?thesis
  proof (cases "owner (kmon s j) = active_thread s")
    case True
    obtain s' A' where 1: "sys__monitor_unlock (Suc n) p s = Inr (0, s')" "kinv s' A' i" "\<forall>j. mon_ok s A j \<longrightarrow> mon_ok s' A' j"
      "\<forall>r. other_q r \<longrightarrow> A' r = A r" "ksem s' = ksem s"
      using monitor_unlock_ok [OF k j(1) mo [OF j(2)], unfolded if_P [OF True]] by blast
    from mon_call_inv [OF I 1(2-5)] show ?thesis using 1(1) by auto
  next
    case False
    then show ?thesis using monitor_unlock_ok [OF k j(1) mo [OF j(2)], of n] errno_inv [OF I] by auto
  qed
qed

lemma monitor_wait_returns:
  assumes I: "sync_inv i S M s A" and l: "legal_call i S M (Monitor_wait p) s"
  shows "\<exists>r s' A'. do_call (Suc n) (Monitor_wait p) s = Inr (r, s') \<and> sync_inv i S M s' A'"
proof -
  have k: "kinv s A i" using I by (simp add: sync_inv_def)
  have mo: "mon_ok s A j" if "j \<in> M" for j using I that by (simp add: sync_inv_def)
  obtain h j h' q where j: "handle_at p h j s" "handle_at (p + 4) h' q s" "j \<in> M" "active_thread s \<noteq> i" using l by auto
  show ?thesis
  proof (cases "owner (kmon s j) = active_thread s")
    case True
    obtain s' A' where 1: "sys__monitor_wait (Suc n) p s = Inr (0, s')" "kinv s' A' i" "\<forall>j. mon_ok s A j \<longrightarrow> mon_ok s' A' j"
      "\<forall>r. other_q r \<longrightarrow> A' r = A r" "ksem s' = ksem s"
      using monitor_wait_ok [OF k j(1,2) mo [OF j(3)] j(4), unfolded if_P [OF True]] by blast
    from mon_call_inv [OF I 1(2-5)] show ?thesis using 1(1) by auto
  next
    case False
    then show ?thesis using monitor_wait_ok [OF k j(1,2) mo [OF j(3)] j(4), of n] errno_inv [OF I] by auto
  qed
qed

lemma monitor_signal_returns:
  assumes I: "sync_inv i S M s A" and l: "legal_call i S M (Monitor_signal p) s"
  shows "\<exists>r s' A'. do_call (Suc n) (Monitor_signal p) s = Inr (r, s') \<and> sync_inv i S M s' A'"
proof -
  have k: "kinv s A i" using I by (simp add: sync_inv_def)
  obtain h q where j: "handle_at p h q s" using l by auto
  obtain s' A' where 1: "sys__monitor_signal (Suc n) p s = Inr (0, s')" "kinv s' A' i" "\<forall>j. mon_ok s A j \<longrightarrow> mon_ok s' A' j"
    "\<forall>r. other_q r \<longrightarrow> A' r = A r" "ksem s' = ksem s" using monitor_notify_ok [OF k j, of False n] by auto
  from mon_call_inv [OF I 1(2-5)] show ?thesis using 1(1) by auto
qed

lemma monitor_broadcast_returns:
  assumes I: "sync_inv i S M s A" and l: "legal_call i S M (Monitor_broadcast p) s"
  shows "\<exists>r s' A'. do_call (Suc n) (Monitor_broadcast p) s = Inr (r, s') \<and> sync_inv i S M s' A'"
proof -
  have k: "kinv s A i" using I by (simp add: sync_inv_def)
  obtain h q where j: "handle_at p h q s" using l by auto
  obtain s' A' where 1: "sys__monitor_broadcast (Suc n) p s = Inr (0, s')" "kinv s' A' i" "\<forall>j. mon_ok s A j \<longrightarrow> mon_ok s' A' j"
    "\<forall>r. other_q r \<longrightarrow> A' r = A r" "ksem s' = ksem s" using monitor_notify_ok [OF k j, of True n] by auto
  from mon_call_inv [OF I 1(2-5)] show ?thesis using 1(1) by auto
qed

lemma legal_call_returns:
  assumes "sync_inv i S M s A" and "legal_call i S M c s"
  shows "\<exists>r s' A'. do_call (Suc n) c s = Inr (r, s') \<and> sync_inv i S M s' A'"
  using assms by (cases c) (simp_all only: sem_post_returns sem_wait_returns monitor_lock_returns monitor_unlock_returns monitor_wait_returns monitor_signal_returns monitor_broadcast_returns)

lemma program_inv: "sync_inv i S M s A \<Longrightarrow> sync_inv i S M (s\<lparr>umem := m\<rparr>) A"
proof -
  assume I: "sync_inv i S M s A"
  then have "kinv (s\<lparr>umem := m\<rparr>) A i" using kinv_cong [of s A i "s\<lparr>umem := m\<rparr>"] by (simp add: sync_inv_def)
  then show ?thesis using I by (simp add: sync_inv_def abs_sem_def mon_ok_def)
qed

lemma step_inv:
  assumes "sync_step i n S M s s'" and "sync_inv i S M s A"
  shows "\<exists>A'. sync_inv i S M s' A'"
  using assms
proof (induction rule: sync_step.induct)
  case (program s m)
  then show ?case using program_inv by blast
next
  case (call c s r s')
  then show ?case using legal_call_returns [of i S M s A c n] by auto
qed

text \<open>\<^bold>\<open>C5\<close> In every history of programs that use semaphores and monitors with valid handles, in any interleaving and with arbitrary changes of
  process memory between the calls, the kernel keeps its invariant and those of all semaphores and monitors, and every such
  call returns: the kernel neither halts nor loops.\<close>

theorem sync_histories_safe:
  assumes I: "sync_inv i S M s A" and h: "(sync_step i n S M)\<^sup>*\<^sup>* s s'"
  shows "(\<exists>A'. sync_inv i S M s' A') \<and> (\<forall>c. legal_call i S M c s' \<longrightarrow> (\<exists>r s''. do_call (Suc n) c s' = Inr (r, s'')))"
proof -
  have "\<exists>A'. sync_inv i S M s' A'" using h I
  proof (induction rule: rtranclp_induct)
    case (step s1 s2)
    then show ?case using step_inv by blast
  qed blast
  then show ?thesis using legal_call_returns by blast
qed

theorem sync_histories_safe_witness:
  "\<exists>s1 s2 A'. sys__sem_wait 1 70000 (sem_demo (QSem 5000)) = Inr (0, s1) \<and> s2 = s1\<lparr>umem := \<lambda>_. 0\<rparr> \<and> sync_inv 1000 {5000} {6000} s2 A'"
proof -
  let ?d = "sem_demo (QSem 5000)" and ?D = "demo_queues (QSem 5000)"
  have I: "sync_inv 1000 {5000} {6000} ?d ?D"
    using sem_demo_kinv [of "QSem 5000"] by (simp add: sync_inv_def sem_inv_def abs_sem_def mon_ok_def sem_demo_def)
  have l: "legal_call 1000 {5000} {6000} (Sem_wait 70000) ?d" using sem_demo_handle [of "QSem 5000"] by (auto simp: sem_demo_def)
  have "active_thread ?d \<noteq> 1000" "ksem ?d 5000 < 2 ^ 31" by (simp_all add: sem_demo_def)
  then obtain s1 where 1: "sys__sem_wait (Suc 0) 70000 ?d = Inr (0, s1)"
    using sem_wait_ok [OF sem_demo_kinv sem_demo_handle, of "QSem 5000" 0] by auto
  have st: "sync_step 1000 0 {5000} {6000} ?d s1" by (rule call [OF l]) (use 1 in simp)
  have "(sync_step 1000 0 {5000} {6000})\<^sup>*\<^sup>* ?d (s1\<lparr>umem := \<lambda>_. 0\<rparr>)"
    using st program by (meson converse_rtranclp_into_rtranclp r_into_rtranclp)
  from sync_histories_safe [OF I this] 1 show ?thesis by auto
qed

end
