(* ===== verification/Os_Syscall.thy ===== *)
theory Os_Syscall
  imports Os_Memory Os_Steps
begin

text \<open>
  Entry into the kernel: the table of system calls and its dispatcher (\<^verbatim>\<open>kernel/syscall.c\<close>, \<^verbatim>\<open>arch/i386/arch/syscall.h\<close>), the
  common interrupt handler (\<^verbatim>\<open>arch/i386/arch/interrupts.c\<close>), and the start of the system
  (\<^verbatim>\<open>kernel/startup.c\<close>). Every entry is a function on the state of the machine, so a history of
  the system is a sequence of interrupts, with whatever programs do to their own memory between
  them.
\<close>

section \<open>Parameters of an entry\<close>

text \<open>The ports, the bound for loops and for scheduling, and addresses that the linker determines.\<close>

record 'p env =
  e_io :: "'p io"
  e_n :: nat
  e_stk :: nat
  e_lits :: lits
  e_layout :: layout_t
  e_rr_timer :: nat

section \<open>System calls\<close>

definition arch_syscall_get_id :: "context_t \<Rightarrow> kst \<Rightarrow> int res" where
  "arch_syscall_get_id c s = rbind (k_u2k_adr ((c_esp c + 4) mod 2 ^ 32) (c_proc c) s) (\<lambda>a. Inr (int_at a s))"

definition arch_syscall_get_params :: "context_t \<Rightarrow> kst \<Rightarrow> nat res" where
  "arch_syscall_get_params c s = k_u2k_adr ((c_esp c + 8) mod 2 ^ 32) (c_proc c) s"

definition arch_syscall_set_retval :: "nat \<Rightarrow> int \<Rightarrow> kst \<Rightarrow> kst" where
  "arch_syscall_set_retval t retval s = upd_t t (\<lambda>x. x\<lparr>t_context := (t_context x)\<lparr>c_eax := retval\<rparr>\<rparr>) s"

text \<open>Interrupts are enabled and the processor waits for the next one, which is another entry.\<close>

definition sys__suspend :: "nat \<Rightarrow> kst \<Rightarrow> (int \<times> kst) res" where
  "sys__suspend p s = Inr (0, s)"

definition k_sysfunc :: "'p env \<Rightarrow> (nat \<Rightarrow> 'p mach \<Rightarrow> (int \<times> 'p mach) res) list" where
  "k_sysfunc e =
     [\<lambda>p w. Inl Wild_jump,
      \<lambda>p. lift_k (sys__create_thread (e_n e) p),
      \<lambda>p. lift_k (sys__thread_exit (e_n e) p),
      \<lambda>p. lift_k (sys__wait_for_thread (e_n e) p),
      \<lambda>p. lift_k (sys__cancel_thread (e_n e) p),
      \<lambda>p. lift_k (sys__thread_self p),
      \<lambda>p. lift_k (sys__start_program (e_n e) p),
      \<lambda>p. lift_k (sys__set_sched_params p),
      \<lambda>p. lift_k (sys__get_sched_params p),
      \<lambda>p. lift_k (sys__set_thread_sched_params (e_n e) p),
      \<lambda>p. lift_k (sys__get_thread_sched_params p),
      \<lambda>p. lift_k (sys__set_errno p),
      \<lambda>p. lift_k (sys__get_errno p),
      \<lambda>p. lift_k (sys__get_time p),
      \<lambda>p. lift_k (sys__alarm_new (e_n e) p),
      \<lambda>p. lift_k (sys__alarm_set (e_n e) p),
      \<lambda>p. lift_k (sys__alarm_get (e_rr_timer e) p),
      \<lambda>p. lift_k (sys__wait_for_alarm (e_n e) p),
      \<lambda>p. lift_k (sys__alarm_remove (e_n e) p),
      \<lambda>p. lift_k (sys__sem_init p),
      \<lambda>p. lift_k (sys__sem_destroy (e_n e) p),
      \<lambda>p. lift_k (sys__sem_post (e_n e) p),
      \<lambda>p. lift_k (sys__sem_wait (e_n e) p),
      \<lambda>p. lift_k (sys__monitor_init p),
      \<lambda>p. lift_k (sys__monitor_destroy (e_n e) p),
      \<lambda>p. lift_k (sys__monitor_queue_init p),
      \<lambda>p. lift_k (sys__monitor_queue_destroy (e_n e) p),
      \<lambda>p. lift_k (sys__monitor_lock (e_n e) p),
      \<lambda>p. lift_k (sys__monitor_unlock (e_n e) p),
      \<lambda>p. lift_k (sys__monitor_wait (e_n e) p),
      \<lambda>p. lift_k (sys__monitor_signal (e_n e) p),
      \<lambda>p. lift_k (sys__monitor_broadcast (e_n e) p),
      \<lambda>p. sys__device_send (e_io e) p,
      \<lambda>p. sys__device_recv (e_n e) (e_io e) p,
      \<lambda>p. lift_k (sys__device_lock (e_n e) p),
      \<lambda>p. lift_k (sys__device_unlock (e_n e) p),
      \<lambda>p. lift_k (sys__thread_msg_set p),
      \<lambda>p. lift_k (sys__create_msg_queue p),
      \<lambda>p. lift_k (sys__delete_msg_queue p),
      \<lambda>p. lift_k (sys__msg_post (e_n e) p),
      \<lambda>p. lift_k (sys__msg_recv (e_n e) p),
      \<lambda>p. sys__sysinfo (e_lits e) (e_layout e) (e_io e) (e_stk e) p,
      \<lambda>p. lift_k (sys__suspend p)]"

abbreviation (input) SYSFUNCS :: int where "SYSFUNCS \<equiv> 43"
abbreviation (input) THREAD_EXIT :: int where "THREAD_EXIT \<equiv> 2"

text \<open>The result is stored in the context of the thread that made the call, which need not be active any more.\<close>

definition k_syscall :: "'p env \<Rightarrow> nat \<Rightarrow> 'p mach \<Rightarrow> 'p mach res" where
  "k_syscall e irqn w =
     rbind (ASSERT (irqn = SOFTWARE_INTERRUPT)) (\<lambda>_.
     let t = active_thread (ks w);
         c = t_context (kt (ks w) t)
     in rbind (arch_syscall_get_id c (ks w)) (\<lambda>i.
        rbind (ASSERT (i \<ge> 0 \<and> i < SYSFUNCS)) (\<lambda>_.
        rbind (arch_syscall_get_params c (ks w)) (\<lambda>params.
        rbind ((k_sysfunc e ! nat i) params w) (\<lambda>(retval, w).
        Inr (if i \<noteq> THREAD_EXIT then w\<lparr>ks := arch_syscall_set_retval t retval (ks w)\<rparr> else w))))))"

section \<open>Interrupts\<close>

text \<open>A fault of a program ends its active thread; the log messages are left out.\<close>

definition k_memory_fault :: "nat \<Rightarrow> kst \<Rightarrow> kst res" where
  "k_memory_fault n s =
     (if prev_mode s = KERNEL_MODE then Inl Halt
      else rbind (sys__thread_exit n 0 s) (\<lambda>(r, s). Inr s))"

text \<open>The drivers' handlers; a call back to the kernel from the keyboard driver is never registered.\<close>

definition call_irq :: "nat \<Rightarrow> 'p io \<Rightarrow> nat \<Rightarrow> 'p mach \<Rightarrow> 'p mach res" where
  "call_irq n io d w =
     (if d = IRQ_uart then
        rbind (uart_interrupt_handler n io False False False (uart_st w) (prt w)) (\<lambda>(u, p). Inr (w\<lparr>uart_st := u, prt := p\<rparr>))
      else if d = IRQ_i8042 then
        rbind (i8042_interrupt_handler n io (kbd_st w) (prt w)) (\<lambda>(cb, k, p).
        if cb then Inl Wild_jump else Inr (w\<lparr>kbd_st := k, prt := p\<rparr>))
      else Inl Wild_jump)"

definition call_handler :: "'p env \<Rightarrow> nat \<Rightarrow> irq_fn \<Rightarrow> 'p mach \<Rightarrow> 'p mach res" where
  "call_handler e inum h w =
     (case h of
        K_syscall \<Rightarrow> k_syscall e inum w
      | K_memory_fault \<Rightarrow> upd_k (k_memory_fault (e_n e)) w
      | Arch_timer_handler \<Rightarrow> upd_k (timer_interrupt (e_n e)) w
      | Driver_irq d \<Rightarrow> call_irq (e_n e) (e_io e) d w)"

text \<open>The loop over the registered handlers; no handler changes the list.\<close>

fun handlers_loop :: "'p env \<Rightarrow> nat \<Rightarrow> nat list \<Rightarrow> 'p mach \<Rightarrow> 'p mach res" where
  "handlers_loop e inum [] w = Inr w"
| "handlers_loop e inum (ih # ihs) w =
     rbind (call_handler e inum (ihandler (kih (ks w) ih)) w) (handlers_loop e inum ihs)"

definition arch_interrupt_handler :: "'p env \<Rightarrow> nat \<Rightarrow> 'p mach \<Rightarrow> 'p mach res" where
  "arch_interrupt_handler e inum w =
     (let s = ks w;
          w = w\<lparr>ks := s\<lparr>prev_mode := new_mode s, new_mode := KERNEL_MODE\<rparr>\<rparr>
      in if inum < INTERRUPTS \<and> ihandlers s inum \<noteq> [] then
           rbind (handlers_loop e inum (ihandlers s inum) w) (\<lambda>w.
           let w = w\<lparr>prt := i8259_at_exit (e_io e) inum (prt w)\<rparr>
           in Inr (w\<lparr>ks := (ks w)\<lparr>prev_mode := new_mode (ks w), new_mode := USER_MODE\<rparr>\<rparr>))
         else Inl Halt)"

section \<open>Start\<close>

text \<open>\<open>ADR_i8253\<close> is the address of the timer's table.\<close>

definition k_time_init :: "'p io \<Rightarrow> nat \<Rightarrow> 'p mach \<Rightarrow> 'p mach res" where
  "k_time_init io ADR_i8253 w =
     (let s = (ks w)\<lparr>kalarms := []\<rparr>
      in rbind (i8253_init (hw (tim s))) (\<lambda>(timer, h).
         rbind (arch_timer_init timer h) (\<lambda>tm.
         rbind (arch_register_interrupt_handler IRQ_TIMER Arch_timer_handler ADR_i8253 (s\<lparr>tim := tm\<rparr>)) (\<lambda>s.
         Inr (w\<lparr>prt := i8259_irq_enable io IRQ_TIMER (prt w),
                ks := s\<lparr>k_threshold := half_interval (min_interval timer)\<rparr>\<rparr>)))))"

fun add_devices :: "nat \<Rightarrow> 'p io \<Rightarrow> device_t list \<Rightarrow> 'p mach \<Rightarrow> 'p mach res" where
  "add_devices n io [] w = Inr w"
| "add_devices n io (d # ds) w =
     rbind (lift_k (k_device_add d) w) (\<lambda>(k, w).
     rbind (k_device_init n io k 0 0 0 w) (\<lambda>(r, w). add_devices n io ds w))"

definition k_devices_init :: "nat \<Rightarrow> 'p io \<Rightarrow> 'p mach \<Rightarrow> (int \<times> 'p mach) res" where
  "k_devices_init n io w =
     rbind (add_devices n io [vga_text_dev, uart_com1, i8042_dev] (w\<lparr>ks := (ks w)\<lparr>devices := []\<rparr>\<rparr>)) (\<lambda>w. Inr (0, w))"

text \<open>Addresses of the kernel's own objects.\<close>

record boot =
  b_initial_stdout :: nat
  b_kernel_code :: nat
  b_kernel_end :: nat
  b_kernel_proc :: nat
  b_idle_thread :: nat
  b_i8253 :: nat

definition k_startup :: "'p env \<Rightarrow> boot \<Rightarrow> nat \<Rightarrow> nat \<Rightarrow> 'p mach \<Rightarrow> (layout_t \<times> 'p mach) res" where
  "k_startup e b magic addr w =
     (let n = e_n e; io = e_io e; li = e_lits e;
          w = w\<lparr>ks := upd_d (b_initial_stdout b) (\<lambda>x. x\<lparr>dev := vga_text_dev\<rparr>) (ks w)\<rparr>
      in rbind (call_init n io (d_init vga_text_dev) 0 0 vga_text_dev w) (\<lambda>(r, w).
         let w = w\<lparr>ks := (ks w)\<lparr>k_stdout := b_initial_stdout b\<rparr>\<rparr>
         in rbind (lift_k (k_memory_init li (b_kernel_code b) (b_kernel_end b) magic addr) w) (\<lambda>(l, w).
            let w = arch_init_interrupts io w
            in rbind (upd_k (arch_register_interrupt_handler SOFTWARE_INTERRUPT K_syscall 0) w) (\<lambda>w.
               rbind (upd_k (arch_register_interrupt_handler INT_STF K_memory_fault 0) w) (\<lambda>w.
               rbind (upd_k (arch_register_interrupt_handler INT_GPF K_memory_fault 0) w) (\<lambda>w.
               rbind (k_time_init io (b_i8253 b) w) (\<lambda>w.
               rbind (k_devices_init n io w) (\<lambda>(r, w).
               let (k, s) = k_device_open (l_k_stdout li) (ks w);
                   s = s\<lparr>k_stdout := k\<rparr>;
                   (k, s) = k_device_open (l_u_stdin li) s;
                   s = s\<lparr>u_stdin := k\<rparr>;
                   (k, s) = k_device_open (l_u_stdout li) s;
                   s = s\<lparr>u_stdout := k\<rparr>
               in rbind (kprint io (e_stk e) (''%s'' @ NL) [of_nat (l_system_info li)] (w\<lparr>ks := s\<rparr>)) (\<lambda>w.
                  rbind (upd_k (kthreads_init n (b_kernel_proc b) (b_idle_thread b)) w) (\<lambda>w.
                  rbind (lift_k (kthread_start_process n (l_init_prog li) 0 0) w) (\<lambda>(t, w).
                  if t = 0 then Inl Halt else Inr (l, w))))))))))))"

end
