(* ===== verification/Os_Descriptors.thy ===== *)
theory Os_Descriptors
  imports Os_Segments
begin

text \<open>
  The descriptor tables as they are built at start, \<^verbatim>\<open>arch/i386/arch/descriptors.c\<close>: the rows of the GDT, and the
  interrupt gates. Loading the processor registers (\<^verbatim>\<open>lgdt\<close>, \<^verbatim>\<open>ltr\<close>, \<^verbatim>\<open>lidt\<close>) is not part of the
  model; the addresses of the entry points in \<^verbatim>\<open>interrupts.S\<close> and of the TSS are parameters.
\<close>

abbreviation (input) SEGM_TSS :: nat where "SEGM_TSS \<equiv> 5"
abbreviation (input) IDT_ROWS :: nat where "IDT_ROWS \<equiv> 49"
abbreviation (input) IDT_SOFTWARE :: nat where "IDT_SOFTWARE \<equiv> 48"

definition GDT_0 :: GDT_t where
  "GDT_0 = \<lparr>segm_limit0 = 0, base_addr0 = 0, base_addr1 = 0, seg_type = 0, gdt_S = 0, gdt_DPL = 0, gdt_P = 0,
     segm_limit1 = 0, gdt_AVL = 0, gdt_L = 0, gdt_DB = 0, gdt_G = 0, base_addr2 = 0\<rparr>"

definition GDT_K_CODE :: GDT_t where
  "GDT_K_CODE = \<lparr>segm_limit0 = 0xffff, base_addr0 = 0, base_addr1 = 0, seg_type = 0x0a, gdt_S = 1, gdt_DPL = 0, gdt_P = 1,
     segm_limit1 = 0x0f, gdt_AVL = 0, gdt_L = 0, gdt_DB = 1, gdt_G = 1, base_addr2 = 0\<rparr>"

definition GDT_K_DATA :: GDT_t where
  "GDT_K_DATA = \<lparr>segm_limit0 = 0xffff, base_addr0 = 0, base_addr1 = 0, seg_type = 0x02, gdt_S = 1, gdt_DPL = 0, gdt_P = 1,
     segm_limit1 = 0x0f, gdt_AVL = 0, gdt_L = 0, gdt_DB = 1, gdt_G = 1, base_addr2 = 0\<rparr>"

definition GDT_T_CODE :: GDT_t where
  "GDT_T_CODE = \<lparr>segm_limit0 = 0xffff, base_addr0 = 0, base_addr1 = 0, seg_type = 0x0a, gdt_S = 1, gdt_DPL = 3, gdt_P = 1,
     segm_limit1 = 0x0f, gdt_AVL = 0, gdt_L = 0, gdt_DB = 1, gdt_G = 1, base_addr2 = 0\<rparr>"

text \<open>\<^verbatim>\<open>sizeof(tss_t)\<close> is 104.\<close>

definition GDT_TSS :: GDT_t where
  "GDT_TSS = \<lparr>segm_limit0 = 104, base_addr0 = 0, base_addr1 = 0, seg_type = 0x09, gdt_S = 0, gdt_DPL = 0, gdt_P = 1,
     segm_limit1 = 0, gdt_AVL = 0, gdt_L = 0, gdt_DB = 0, gdt_G = 0, base_addr2 = 0\<rparr>"

text \<open>The static array \<^verbatim>\<open>gdt\<close>; the row of the user data segment starts as a copy of the kernel's.\<close>

definition gdt_table :: "nat \<Rightarrow> GDT_t" where
  "gdt_table i = (if i = 1 then GDT_K_CODE else if i = 2 then GDT_K_DATA else if i = 3 then GDT_T_CODE
     else if i = 4 then GDT_K_DATA else if i = 5 then GDT_TSS else GDT_0)"

definition GDT_init :: "nat \<Rightarrow> (nat \<Rightarrow> GDT_t) \<Rightarrow> (nat \<Rightarrow> GDT_t) res" where
  "GDT_init tss gdt =
     rbind (arch_update_kernel_segments 0 0xffffffff gdt) (\<lambda>gdt.
     rbind (arch_update_user_segments 0 0xffffffff gdt) (\<lambda>gdt.
     arch_upd_segm_descr SEGM_TSS tss (104 - 1) PRIV_KERNEL gdt))"

record IDT_t =
  offset_lo :: nat
  seg_sel :: nat
  idt_zero :: nat
  idt_type :: nat
  idt_DPL :: nat
  present :: nat
  offset_hi :: nat

fun IDT_fill :: "nat \<Rightarrow> (nat \<Rightarrow> nat) \<Rightarrow> (nat \<Rightarrow> IDT_t) \<Rightarrow> nat \<Rightarrow> IDT_t" where
  "IDT_fill 0 handlers idt = idt"
| "IDT_fill (Suc i) handlers idt =
     (let idt = IDT_fill i handlers idt; off = handlers i
      in idt(i := \<lparr>offset_lo = off mod 2 ^ 16, seg_sel = GDT_DESCRIPTOR SEGM_K_CODE 0 PRIV_KERNEL, idt_zero = 0,
           idt_type = 0x0e, idt_DPL = PRIV_KERNEL, present = 1, offset_hi = off div 2 ^ 16 mod 2 ^ 16\<rparr>))"

definition IDT_init :: "(nat \<Rightarrow> nat) \<Rightarrow> (nat \<Rightarrow> IDT_t) \<Rightarrow> nat \<Rightarrow> IDT_t" where
  "IDT_init handlers idt =
     (let idt = IDT_fill IDT_ROWS handlers idt
      in idt(IDT_SOFTWARE := (idt IDT_SOFTWARE)\<lparr>idt_DPL := PRIV_USER\<rparr>))"

definition arch_descriptors_init ::
  "nat \<Rightarrow> (nat \<Rightarrow> nat) \<Rightarrow> (nat \<Rightarrow> IDT_t) \<Rightarrow> ((nat \<Rightarrow> GDT_t) \<times> (nat \<Rightarrow> IDT_t)) res" where
  "arch_descriptors_init tss handlers idt =
     rbind (GDT_init tss gdt_table) (\<lambda>g. Inr (g, IDT_init handlers idt))"

section \<open>Properties\<close>

lemma IDT_fill_row: "IDT_fill n handlers idt i = (if i < n
   then \<lparr>offset_lo = handlers i mod 2 ^ 16, seg_sel = GDT_DESCRIPTOR SEGM_K_CODE 0 PRIV_KERNEL, idt_zero = 0,
         idt_type = 0x0e, idt_DPL = PRIV_KERNEL, present = 1, offset_hi = handlers i div 2 ^ 16 mod 2 ^ 16\<rparr> else idt i)"
  by (induction n) (auto simp: Let_def less_Suc_eq)

text \<open>The processor's reading of a gate: where it jumps, and whether code at privilege level 3 may raise it.\<close>

definition gate_target :: "IDT_t \<Rightarrow> nat \<times> nat" where
  "gate_target g = (seg_sel g, offset_lo g + 2 ^ 16 * offset_hi g)"

definition user_can_raise :: "IDT_t \<Rightarrow> bool" where
  "user_can_raise g \<longleftrightarrow> present g = 1 \<and> idt_DPL g \<ge> 3"

lemma half_words: "a < 2 ^ 32 \<Longrightarrow> a mod 65536 + 65536 * (a div 65536 mod 65536) = (a::nat)"
proof -
  assume "a < 2 ^ 32"
  then have "a div 65536 mod 65536 = a div 65536" by (intro mod_less) (simp add: less_mult_imp_div_less)
  then show ?thesis by simp
qed

text \<open>C30. The tables that \<^verbatim>\<open>arch_descriptors_init\<close> builds: every one of the 49 gates leads to its entry point in the
  kernel's code segment at privilege level 0, and a program can raise exactly one of them, the software
  interrupt of the system calls; the kernel segments are at level 0 and the user segments at level 3.\<close>

theorem descriptors_protect:
  assumes "tss < 2 ^ 32" and "\<forall>i. handlers i < 2 ^ 32"
  shows "\<exists>g t. arch_descriptors_init tss handlers idt = Inr (g, t) \<and>
    (\<forall>i<IDT_ROWS. gate_target (t i) = (GDT_DESCRIPTOR SEGM_K_CODE 0 PRIV_KERNEL, handlers i) \<and> present (t i) = 1 \<and>
       (user_can_raise (t i) \<longleftrightarrow> i = IDT_SOFTWARE)) \<and>
    (\<forall>i\<in>{SEGM_K_CODE, SEGM_K_DATA, SEGM_TSS}. gdt_DPL (g i) = PRIV_KERNEL) \<and>
    (\<forall>i\<in>{SEGM_T_CODE, SEGM_T_DATA}. gdt_DPL (g i) = PRIV_USER) \<and> seg_base (g SEGM_TSS) = tss"
proof -
  obtain k1 where k1: "arch_upd_segm_descr 1 0 0xffffffff 0 gdt_table = Inr (gdt_table(1 := k1))" "gdt_DPL k1 = 0"
    using arch_upd_segm_descr_ok [where i = 1 and addr = 0 and sz = "0xffffffff" and pl = 0 and gdt = gdt_table] by auto
  obtain k2 where k2: "arch_upd_segm_descr 2 0 0xffffffff 0 (gdt_table(1 := k1)) = Inr (gdt_table(1 := k1, 2 := k2))" "gdt_DPL k2 = 0"
    using arch_upd_segm_descr_ok [where i = 2 and addr = 0 and sz = "0xffffffff" and pl = 0 and gdt = "gdt_table(1 := k1)"] by auto
  obtain g1 where g1: "arch_update_user_segments 0 0xffffffff (gdt_table(1 := k1, 2 := k2)) = Inr g1"
    "\<forall>i\<in>{3, 4}. gdt_DPL (g1 i) = 3" "\<forall>i. i \<notin> {3, 4} \<longrightarrow> g1 i = (gdt_table(1 := k1, 2 := k2)) i"
    using arch_update_user_segments_ok [where start = 0 and sz = "0xffffffff" and gdt = "gdt_table(1 := k1, 2 := k2)"] by auto
  obtain r where r: "arch_upd_segm_descr 5 tss (104 - 1) 0 g1 = Inr (g1(5 := r))" "gdt_DPL r = 0" "seg_base r = tss"
    using arch_upd_segm_descr_ok [where i = 5 and addr = tss and sz = "104 - 1" and pl = 0 and gdt = g1] assms(1) by auto
  have gi: "GDT_init tss gdt_table = Inr (g1(5 := r))"
    using k1 k2 g1 r by (simp add: GDT_init_def arch_update_kernel_segments_def)
  have hw: "handlers i mod 65536 + 65536 * (handlers i div 65536 mod 65536) = handlers i" for i
    using assms(2) by (intro half_words) simp
  have t: "gate_target (IDT_init handlers idt i) = (GDT_DESCRIPTOR 1 0 0, handlers i) \<and> present (IDT_init handlers idt i) = 1 \<and>
      (user_can_raise (IDT_init handlers idt i) \<longleftrightarrow> i = 48)" if "i < 49" for i
    using that hw [of i] by (auto simp: IDT_init_def IDT_fill_row gate_target_def user_can_raise_def Let_def)
  show ?thesis
    unfolding arch_descriptors_init_def gi
    using t g1 k1 k2 r by (intro exI [of _ "g1(5 := r)"] exI [of _ "IDT_init handlers idt"]) simp
qed

theorem descriptors_protect_witness:
  "\<forall>idt. \<exists>g t. arch_descriptors_init 4096 (\<lambda>i. 1048576 + 16 * (i mod 64)) idt = Inr (g, t) \<and> user_can_raise (t 48) \<and>
     \<not> user_can_raise (t 13) \<and> gate_target (t 32) = (8, 1049088)"
proof
  fix idt
  have b: "\<forall>i. 1048576 + 16 * (i mod 64) < (2 ^ 32 :: nat)"
  proof
    fix i :: nat
    have "i mod 64 < 64" by simp
    then show "1048576 + 16 * (i mod 64) < (2 ^ 32 :: nat)" by simp
  qed
  obtain g t where *: "arch_descriptors_init 4096 (\<lambda>i. 1048576 + 16 * (i mod 64)) idt = Inr (g, t)"
    "\<forall>i<IDT_ROWS. gate_target (t i) = (GDT_DESCRIPTOR SEGM_K_CODE 0 PRIV_KERNEL, 1048576 + 16 * (i mod 64)) \<and> present (t i) = 1 \<and>
       (user_can_raise (t i) \<longleftrightarrow> i = IDT_SOFTWARE)"
    using descriptors_protect [OF _ b, of 4096 idt] by auto
  then show "\<exists>g t. arch_descriptors_init 4096 (\<lambda>i. 1048576 + 16 * (i mod 64)) idt = Inr (g, t) \<and> user_can_raise (t 48) \<and>
      \<not> user_can_raise (t 13) \<and> gate_target (t 32) = (8, 1049088)"
    by (intro exI [of _ g] exI [of _ t]) (simp add: GDT_DESCRIPTOR_def)
qed

end
