(* ===== verification/Os_Format.thy ===== *)
theory Os_Format
  imports Os_String
begin

text \<open>
  What \<^verbatim>\<open>itoa\<close> of \<^verbatim>\<open>lib/string.c\<close> writes: the usual notation of a number, from which the number can be read
  back. The routine produces digits from the least significant one on and then reverses them in place; the text it is compared with
  (\<open>number_text\<close>) is defined without memory.
\<close>

section \<open>Notation of numbers\<close>

text \<open>Digits, least significant first, and their value.\<close>

function digits_of :: "nat \<Rightarrow> nat \<Rightarrow> nat list" where
  "digits_of b n = n mod b # (if b < 2 \<or> n div b = 0 then [] else digits_of b (n div b))"
  by pat_completeness auto
termination
proof (relation "measure snd")
  fix b n :: nat
  assume "\<not> (b < 2 \<or> n div b = 0)"
  then show "((b, n div b), b, n) \<in> measure snd" using div_less_dividend [of b n] by (cases n) auto
qed simp

declare digits_of.simps [simp del]

fun digits_value :: "nat \<Rightarrow> nat list \<Rightarrow> nat" where
  "digits_value b [] = 0"
| "digits_value b (d # ds) = d + b * digits_value b ds"

lemma digits_of_value: "2 \<le> b \<Longrightarrow> digits_value b (digits_of b n) = n"
proof (induction b n rule: digits_of.induct)
  case (1 b n)
  show ?case
  proof (cases "n div b = 0")
    case True
    then show ?thesis using mod_mult_div_eq [of n b] by (simp add: digits_of.simps [of b n])
  next
    case False
    then show ?thesis using 1 mod_mult_div_eq [of n b] by (simp add: digits_of.simps [of b n])
  qed
qed

lemma digits_of_less: "2 \<le> b \<Longrightarrow> d \<in> set (digits_of b n) \<Longrightarrow> d < b"
proof (induction b n rule: digits_of.induct)
  case (1 b n)
  then show ?case by (subst (asm) digits_of.simps) (auto split: if_splits)
qed

lemma digits_of_length: "2 \<le> b \<Longrightarrow> n < b ^ k \<Longrightarrow> 0 < k \<Longrightarrow> length (digits_of b n) \<le> k"
proof (induction b n arbitrary: k rule: digits_of.induct)
  case (1 b n)
  obtain j where k: "k = Suc j" using 1(4) by (cases k) auto
  show ?case
  proof (cases "n div b = 0")
    case True
    then show ?thesis using k by (subst digits_of.simps) simp
  next
    case False
    have lt: "n div b < b ^ j" using 1(3) by (simp add: k less_mult_imp_div_less mult.commute)
    then have "0 < j" using False by (cases j) auto
    then show ?thesis using 1(1) [OF _ 1(2) lt] 1(2) False k by (subst digits_of.simps) simp
  qed
qed

lemma digits_value_append: "digits_value b (xs @ replicate k 0) = digits_value b xs"
proof -
  have "digits_value b (replicate k 0) = 0" by (induction k) simp_all
  then show ?thesis by (induction xs) simp_all
qed

text \<open>The text for a number, by the letter of the format; \<^verbatim>\<open>%d\<close> is signed, \<^verbatim>\<open>%x\<close> and \<^verbatim>\<open>%X\<close> have eight digits.\<close>

definition number_digits :: "int \<Rightarrow> int \<Rightarrow> nat list" where
  "number_digits base d =
     (if base = 100 then digits_of 10 (nat \<bar>d\<bar>)
      else if base \<in> {120, 88} then let ds = digits_of 16 (nat (d mod 2 ^ 32)) in ds @ replicate (8 - length ds) 0
      else digits_of 10 (nat (d mod 2 ^ 32)))"

definition number_text :: "int \<Rightarrow> int \<Rightarrow> u8 list" where
  "number_text base d =
     (if base = 100 \<and> d < 0 then [45] else if base \<in> {120, 88} then [48, 120] else [])
       @ rev (map (\<lambda>r. digit_char r base) (number_digits base d))"

text \<open>Reading such a text.\<close>

definition char_digit :: "u8 \<Rightarrow> nat" where
  "char_digit c = (if c < 58 then unat c - 48 else if c < 97 then unat c - 55 else unat c - 87)"

definition read_digits :: "nat \<Rightarrow> u8 list \<Rightarrow> nat" where
  "read_digits b xs = digits_value b (rev (map char_digit xs))"

definition read_number :: "u8 list \<Rightarrow> int" where
  "read_number xs =
     (case xs of
        c # ys \<Rightarrow>
          if c = 45 then - int (read_digits 10 ys)
          else if take 2 xs = [48, 120] then int (read_digits 16 (drop 2 xs))
          else int (read_digits 10 xs)
      | [] \<Rightarrow> 0)"

lemma all_less_16: "(r :: nat) < 16 \<longleftrightarrow> r \<in> {0,1,2,3,4,5,6,7,8,9,10,11,12,13,14,15}"
  unfolding insert_iff empty_iff by presburger

lemma char_digit_char: "r < 16 \<Longrightarrow> char_digit (digit_char r base) = r"
  unfolding all_less_16 by (elim insertE emptyE) (simp_all add: digit_char_def char_digit_def)

lemma digit_char_nz: "r < 16 \<Longrightarrow> digit_char r base \<noteq> 0 \<and> digit_char r base \<noteq> 45 \<and> digit_char r base \<noteq> 120"
  unfolding all_less_16 by (elim insertE emptyE) (simp_all add: digit_char_def)

lemma number_digits_less: "r \<in> set (number_digits base d) \<Longrightarrow> r < 16"
  using digits_of_less [of 10 r] digits_of_less [of 16 r]
  by (force simp: number_digits_def Let_def split: if_splits)

lemma read_digits_chars:
  assumes "\<forall>r\<in>set ds. r < 16"
  shows "read_digits b (rev (map (\<lambda>r. digit_char r base) ds)) = digits_value b ds"
proof -
  have "map char_digit (map (\<lambda>r. digit_char r base) ds) = ds" using assms by (induction ds) (simp_all add: char_digit_char)
  then show ?thesis by (simp only: read_digits_def rev_map [symmetric] rev_rev_ident)
qed

lemma number_value:
  "digits_value (if base \<in> {120, 88} then 16 else 10) (number_digits base d) =
     (if base = 100 then nat \<bar>d\<bar> else nat (d mod 2 ^ 32))"
  by (auto simp: number_digits_def Let_def digits_of_value digits_value_append)

lemma number_digits_nonempty: "number_digits base d \<noteq> []"
proof -
  have "digits_of b n \<noteq> []" for b n by (subst digits_of.simps) simp
  then show ?thesis by (simp add: number_digits_def Let_def)
qed

lemma number_chars: "c \<in> set (map (\<lambda>r. digit_char r base) (number_digits base d)) \<Longrightarrow> c \<noteq> 0 \<and> c \<noteq> 45 \<and> c \<noteq> 120"
  using number_digits_less [of _ base d] digit_char_nz [of _ base] by auto

lemma number_text_nz: "0 \<notin> set (number_text base d)"
  using number_chars [of 0 base d] by (auto simp: number_text_def)

lemma read_number_text: "read_number (number_text base d) = (if base = 100 then d else d mod 2 ^ 32)"
proof -
  let ?xs = "rev (map (\<lambda>r. digit_char r base) (number_digits base d))"
  have ne: "?xs \<noteq> []" by (simp add: number_digits_nonempty)
  have chars: "\<forall>c\<in>set ?xs. c \<noteq> 45 \<and> c \<noteq> 120" using number_chars [of _ base d] by simp
  have v: "read_digits b ?xs = digits_value b (number_digits base d)" for b
    by (rule read_digits_chars) (use number_digits_less in blast)
  obtain c ys where cys: "?xs = c # ys" using ne by (cases ?xs) auto
  then have c: "c \<noteq> 45" "take 2 (c # ys) \<noteq> [48, 120]" using chars by (cases ys; auto)+
  have plain: "read_number ?xs = int (read_digits 10 ?xs)" unfolding cys read_number_def using c by (simp only: list.case if_False)
  consider "base = 100" "d < 0" | "base = 100" "0 \<le> d" | "base \<in> {120, 88}" | "base \<noteq> 100" "base \<notin> {120, 88}" by linarith
  then show ?thesis
  proof cases
    case 1
    then show ?thesis using v [of 10] number_value [of base d] by (simp add: number_text_def read_number_def)
  next
    case 2
    then show ?thesis using v [of 10] number_value [of base d] plain by (simp add: number_text_def)
  next
    case 3
    then show ?thesis using v [of 16] number_value [of base d] by (auto simp: number_text_def read_number_def)
  next
    case 4
    then show ?thesis using v [of 10] number_value [of base d] plain by (simp add: number_text_def)
  qed
qed

lemma number_text_length:
  assumes d: "- (2 ^ 31) \<le> d" "d < 2 ^ 31"
  shows "length (number_text base d) \<le> 11"
proof -
  have u: "nat (d mod 2 ^ 32) < 2 ^ 32" by simp
  have 1: "length (digits_of 10 (nat \<bar>d\<bar>)) \<le> 10" by (rule digits_of_length) (use d in \<open>simp_all\<close>)
  have 2: "length (digits_of 10 (nat (d mod 2 ^ 32))) \<le> 10" by (rule digits_of_length) (use u in \<open>simp_all\<close>)
  have 3: "length (digits_of 16 (nat (d mod 2 ^ 32))) \<le> 8" by (rule digits_of_length) (use u in \<open>simp_all\<close>)
  show ?thesis using 1 2 3 by (auto simp: number_text_def number_digits_def Let_def)
qed

section \<open>Writing a number\<close>

text \<open>Memory with a sequence of bytes at \<open>a\<close>.\<close>

definition put :: "nat \<Rightarrow> u8 list \<Rightarrow> bmem \<Rightarrow> bmem" where
  "put a xs m = (\<lambda>x. if a \<le> x \<and> x < a + length xs then xs ! (x - a) else m x)"

lemma put_Nil [simp]: "put a [] m = m"
  by (auto simp: put_def fun_eq_iff)

lemma put_Cons: "put (a + 1) xs (m(a := c)) = put a (c # xs) m"
  by (auto simp: put_def fun_eq_iff nth_Cons')

lemma put_snoc: "(put a xs m)(a + length xs := c) = put a (xs @ [c]) m"
  by (auto simp: put_def fun_eq_iff nth_append)

lemma put_append: "put (a + length xs) ys (put a xs m) = put a (xs @ ys) m"
  by (auto simp: put_def fun_eq_iff nth_append)

lemma memset_put: "memset_loop k a c m = put a (replicate k c) m"
  by (auto simp: memset_loop_eq put_def fun_eq_iff)

lemma put_outside: "x < a \<or> a + length xs \<le> x \<Longrightarrow> put a xs m x = m x"
  by (auto simp: put_def)

lemma cstr_put: "0 \<notin> set xs \<Longrightarrow> cstr (put a (xs @ [0]) m) a xs"
  by (auto simp: cstr_def put_def nth_append)

lemma itoa_digits_put:
  "2 \<le> b \<Longrightarrow> itoa_digits ud b base p k m =
     (p + length (digits_of b ud), k + length (digits_of b ud), put p (map (\<lambda>r. digit_char r base) (digits_of b ud)) m)"
proof (induction ud b base p k m rule: itoa_digits.induct)
  case (1 ud b base p k m)
  let ?c = "digit_char (ud mod b) base"
  show ?case
  proof (cases "ud div b = 0")
    case True
    then have d: "digits_of b ud = [ud mod b]" by (subst digits_of.simps) simp
    show ?thesis unfolding d using True 1(2) put_Cons [of p "[]" m ?c] by (subst itoa_digits.simps) (simp add: Let_def)
  next
    case False
    have d: "digits_of b ud = ud mod b # digits_of b (ud div b)" using False 1(2) by (subst digits_of.simps) simp
    have "itoa_digits ud b base p k m = itoa_digits (ud div b) b base (p + 1) (k + 1) (m(p := ?c))"
      using False 1(2) by (subst itoa_digits.simps) (simp add: Let_def)
    also have "\<dots> = (p + 1 + length (digits_of b (ud div b)), k + 1 + length (digits_of b (ud div b)),
        put (p + 1) (map (\<lambda>r. digit_char r base) (digits_of b (ud div b))) (m(p := ?c)))"
      by (rule 1(1)) (use 1(2) False in auto)
    finally show ?thesis unfolding put_Cons d by simp
  qed
qed

lemma reverse_loop_eq: "p2 \<le> p1 + n \<Longrightarrow> reverse_loop n p1 p2 m = (\<lambda>x. if p1 \<le> x \<and> x \<le> p2 then m (p1 + p2 - x) else m x)"
proof (induction n p1 p2 m rule: reverse_loop.induct)
  case (1 p1 p2 m)
  then have "p1 + p2 - x = x" if "p1 \<le> x" "x \<le> p2" for x using that by simp
  then show ?case by (auto simp: fun_eq_iff)
next
  case (2 n p1 p2 m)
  show ?case
  proof (cases "p1 < p2")
    case True
    let ?m = "m(p1 := m p2, p2 := m p1)"
    have "reverse_loop (Suc n) p1 p2 m = reverse_loop n (p1 + 1) (p2 - 1) ?m" using True by (simp only: reverse_loop.simps if_True)
    also have "\<dots> = (\<lambda>x. if p1 + 1 \<le> x \<and> x \<le> p2 - 1 then ?m (p1 + 1 + (p2 - 1) - x) else ?m x)"
      by (rule 2(1) [OF True]) (use 2(2) in linarith)
    finally have "reverse_loop (Suc n) p1 p2 m = (\<lambda>x. if p1 + 1 \<le> x \<and> x \<le> p2 - 1 then ?m (p1 + 1 + (p2 - 1) - x) else ?m x)" .
    then show ?thesis using True by (auto simp: fun_eq_iff)
  next
    case False
    then have "p1 + p2 - x = x" if "p1 \<le> x" "x \<le> p2" for x using that by simp
    then show ?thesis using False by (auto simp: fun_eq_iff)
  qed
qed

lemma reverse_put:
  assumes "xs \<noteq> []"
  shows "reverse_loop (length xs) a (a + length xs - 1) (put a (xs @ [z]) m) = put a (rev xs @ [z]) m"
proof
  fix x
  have l: "0 < length xs" using assms by simp
  have in_xs: "x < a + length xs \<longleftrightarrow> x \<le> a + length xs - 1" using l by linarith
  have "(rev xs) ! (x - a) = xs ! (length xs - 1 - (x - a))" if "a \<le> x" "x < a + length xs" using that by (simp add: rev_nth)
  moreover have "a + (a + length xs - 1) - x - a = length xs - 1 - (x - a)" "a \<le> a + (a + length xs - 1) - x" "a + (a + length xs - 1) - x < a + length xs"
    if "a \<le> x" "x < a + length xs" using that by linarith+
  ultimately show "reverse_loop (length xs) a (a + length xs - 1) (put a (xs @ [z]) m) x = put a (rev xs @ [z]) m x"
    unfolding reverse_loop_eq [of "a + length xs - 1" a "length xs", OF diff_le_self] put_def in_xs [symmetric]
    by (auto simp: nth_append)
qed

lemma itoa_put:
  assumes base: "base \<in> {100, 117, 120, 88}" and d: "- (2 ^ 31) \<le> d" "d < 2 ^ 31"
  shows "itoa buf base d m = put buf (number_text base d @ [0]) m"
proof -
  let ?c = "\<lambda>r. digit_char r base"
  let ?t = "map ?c (number_digits base d)"
  have ne: "?t \<noteq> []" by (simp add: number_digits_nonempty)
  consider "base = 100" "d < 0" | "base = 120 \<or> base = 88" | "base = 117 \<or> base = 100 \<and> 0 \<le> d" using base by (cases "d < 0") auto
  then show ?thesis
  proof cases
    case 1
    have a: "nat ((- d) mod 2 ^ 32) = nat \<bar>d\<bar>" using 1(2) d(1) by (simp add: mod_pos_pos_trivial)
    have "itoa buf base d m = reverse_loop (length ?t) (buf + 1) (buf + 1 + length ?t - 1) (put (buf + 1) (?t @ [0]) (m(buf := 45)))"
      using 1 unfolding itoa_def Let_def a
      by (simp add: itoa_digits_put number_digits_def put_snoc [of "buf + 1", simplified, symmetric])
    also have "\<dots> = put buf (45 # rev ?t @ [0]) m" unfolding reverse_put [OF ne] by (rule put_Cons)
    finally show ?thesis using 1 by (simp add: number_text_def)
  next
    case 2
    define ds where "ds = digits_of 16 (nat (d mod 2 ^ 32))"
    define k where "k = 8 - length ds"
    have t: "?t = map ?c ds @ replicate k 48" using 2 by (auto simp: number_digits_def Let_def digit_char_def ds_def k_def)
    have l: "length ?t = length ds + k" unfolding t by simp
    have e: "itoa_digits (nat (d mod 2 ^ 32)) 16 base buf 0 m = (buf + length ds, length ds, put buf (map ?c ds) m)"
      using itoa_digits_put [of 16 "nat (d mod 2 ^ 32)" base buf 0 m] by (simp add: ds_def)
    have z: "memset_loop k (buf + length ds) 48 (put buf (map ?c ds) m) = put buf ?t m"
      unfolding memset_put t using put_append [of buf "map ?c ds"] by simp
    have b: "\<not> (base = 100 \<and> d < 0)" using 2 by auto
    have "itoa buf base d m = reverse_loop (buf + length ds + k + 2 - buf) buf (buf + length ds + k + 2 - 1)
        ((put buf ?t m)(buf + length ds + k := 120, buf + length ds + k + 1 := 48, buf + length ds + k + 2 := 0))"
      unfolding itoa_def Let_def if_not_P [OF b] if_P [OF 2] prod.case e k_def [symmetric] z using b 2 e z by (simp add: k_def [symmetric] del: reverse_loop.simps)
    also have "(put buf ?t m)(buf + length ds + k := 120, buf + length ds + k + 1 := 48, buf + length ds + k + 2 := 0) = put buf ((?t @ [120, 48]) @ [0]) m"
      using put_snoc [of buf ?t m 120] put_snoc [of buf "?t @ [120]" m 48] put_snoc [of buf "?t @ [120, 48]" m 0] l by (simp add: add.assoc)
    also have "buf + length ds + k + 2 - buf = length (?t @ [120, 48])" using l by simp
    also have "buf + length ds + k + 2 - 1 = buf + length (?t @ [120, 48]) - 1" using l by simp
    finally have "itoa buf base d m = reverse_loop (length (?t @ [120, 48])) buf (buf + length (?t @ [120, 48]) - 1) (put buf ((?t @ [120, 48]) @ [0]) m)" .
    then show ?thesis using 2 reverse_put [of "?t @ [120, 48]" buf 0 m] by (auto simp: number_text_def rev_map)
  next
    case 3
    define ds where "ds = digits_of 10 (nat (d mod 2 ^ 32))"
    have "base = 100 \<Longrightarrow> nat (d mod 2 ^ 32) = nat \<bar>d\<bar>" using 3 d(2) by (simp add: mod_pos_pos_trivial)
    then have t: "number_digits base d = ds" using 3 by (auto simp: number_digits_def ds_def)
    have e: "itoa_digits (nat (d mod 2 ^ 32)) 10 base buf 0 m = (buf + length ds, length ds, put buf (map ?c ds) m)"
      using itoa_digits_put [of 10 "nat (d mod 2 ^ 32)" base buf 0 m] by (simp add: ds_def)
    have b: "\<not> (base = 100 \<and> d < 0)" "\<not> (base = 120 \<or> base = 88)" using 3 by auto
    have "itoa buf base d m = reverse_loop (length ?t) buf (buf + length ?t - 1) ((put buf ?t m)(buf + length ds := 0))"
      unfolding itoa_def Let_def t if_not_P [OF b(1)] if_not_P [OF b(2)] using b e by (simp del: reverse_loop.simps)
    also have "(put buf ?t m)(buf + length ds := 0) = put buf (?t @ [0]) m" using put_snoc [of buf ?t m 0] by (simp add: t)
    finally have "itoa buf base d m = reverse_loop (length ?t) buf (buf + length ?t - 1) (put buf (?t @ [0]) m)" .
    then show ?thesis using 3 unfolding reverse_put [OF ne] by (auto simp: number_text_def rev_map)
  qed
qed

text \<open>C24. \<^verbatim>\<open>itoa\<close> writes the number as a terminated text of at most 11 characters and nothing beyond it; the number can be read back from
  the text, signed for \<^verbatim>\<open>%d\<close> (the smallest integer included), modulo \<open>2 ^ 32\<close> for the other formats.\<close>

theorem itoa_roundtrip:
  assumes "base \<in> {100, 117, 120, 88}" and "- (2 ^ 31) \<le> d" "d < 2 ^ 31"
  shows "\<exists>xs. cstr (itoa buf base d m) buf xs \<and> length xs \<le> 11 \<and> read_number xs = (if base = 100 then d else d mod 2 ^ 32) \<and>
    (\<forall>x. x < buf \<or> buf + length xs < x \<longrightarrow> itoa buf base d m x = m x)"
proof (intro exI conjI allI impI)
  let ?xs = "number_text base d"
  note i = itoa_put [OF assms, of buf m]
  show "cstr (itoa buf base d m) buf ?xs" unfolding i by (rule cstr_put [OF number_text_nz])
  show "length ?xs \<le> 11" by (rule number_text_length [OF assms(2,3)])
  show "read_number ?xs = (if base = 100 then d else d mod 2 ^ 32)" by (rule read_number_text)
  show "itoa buf base d m x = m x" if "x < buf \<or> buf + length ?xs < x" for x
    unfolding i by (rule put_outside) (use that in auto)
qed

theorem itoa_roundtrip_witness:
  "\<exists>xs. cstr (itoa 100 100 (- 2147483648) (\<lambda>a. 7)) 100 xs \<and> length xs \<le> 11 \<and> read_number xs = - 2147483648"
  using itoa_roundtrip [of 100 "- 2147483648" 100 "\<lambda>a. 7"] by auto

end
