(* ===== verification/Os_Api.thy ===== *)
theory Os_Api
  imports Os_Format Os_Sched Os_Vga Os_Keyboard
begin

text \<open>
  The library of the programs, \<^verbatim>\<open>programs/api/\<close>: functions that put parameters on the stack and raise the software interrupt, loops that
  repeat a call, and printing. What a program sees of the machine is the record \<open>process\<close>, a parameter of every function: the system call (the
  instructions of \<^verbatim>\<open>syscall.S\<close> and what the kernel does until it returns to the thread), access to the memory of the process,
  and the device handles of its \<^verbatim>\<open>prog_info_t\<close>. Arguments are words; \<open>stk\<close> is the place of the local variables of a function whose address is
  taken. Programs are compiled without \<^verbatim>\<open>DEBUG\<close>, so that \<^verbatim>\<open>ASSERT_ERRNO_AND_RETURN\<close> is empty (\<^verbatim>\<open>api/errno.h\<close>).
  The locale \<open>console\<close> states what \<^verbatim>\<open>print\<close> expects of locking, sending to and unlocking a terminal; \<open>Os_Link\<close> interprets it on the kernel.
\<close>

section \<open>Processes\<close>

record 'w process =
  syscall :: "nat \<Rightarrow> u32 list \<Rightarrow> 'w \<Rightarrow> (int \<times> 'w) res"
  mem :: "'w \<Rightarrow> bmem"
  set_mem :: "bmem \<Rightarrow> 'w \<Rightarrow> 'w"
  std_in :: u32
  std_out :: u32

text \<open>The numbers of the system calls (\<^verbatim>\<open>kernel/syscall.h\<close>).\<close>

abbreviation (input) ID_CREATE_THREAD :: nat where "ID_CREATE_THREAD \<equiv> 1"
abbreviation (input) ID_THREAD_EXIT :: nat where "ID_THREAD_EXIT \<equiv> 2"
abbreviation (input) ID_WAIT_FOR_THREAD :: nat where "ID_WAIT_FOR_THREAD \<equiv> 3"
abbreviation (input) ID_CANCEL_THREAD :: nat where "ID_CANCEL_THREAD \<equiv> 4"
abbreviation (input) ID_THREAD_SELF :: nat where "ID_THREAD_SELF \<equiv> 5"
abbreviation (input) ID_START_PROGRAM :: nat where "ID_START_PROGRAM \<equiv> 6"
abbreviation (input) ID_SET_SCHED_PARAMS :: nat where "ID_SET_SCHED_PARAMS \<equiv> 7"
abbreviation (input) ID_GET_SCHED_PARAMS :: nat where "ID_GET_SCHED_PARAMS \<equiv> 8"
abbreviation (input) ID_SET_ERRNO :: nat where "ID_SET_ERRNO \<equiv> 11"
abbreviation (input) ID_GET_ERRNO :: nat where "ID_GET_ERRNO \<equiv> 12"
abbreviation (input) ID_GET_TIME :: nat where "ID_GET_TIME \<equiv> 13"
abbreviation (input) ID_ALARM_NEW :: nat where "ID_ALARM_NEW \<equiv> 14"
abbreviation (input) ID_ALARM_SET :: nat where "ID_ALARM_SET \<equiv> 15"
abbreviation (input) ID_ALARM_GET :: nat where "ID_ALARM_GET \<equiv> 16"
abbreviation (input) ID_WAIT_FOR_ALARM :: nat where "ID_WAIT_FOR_ALARM \<equiv> 17"
abbreviation (input) ID_ALARM_REMOVE :: nat where "ID_ALARM_REMOVE \<equiv> 18"
abbreviation (input) ID_SEM_INIT :: nat where "ID_SEM_INIT \<equiv> 19"
abbreviation (input) ID_SEM_DESTROY :: nat where "ID_SEM_DESTROY \<equiv> 20"
abbreviation (input) ID_SEM_POST :: nat where "ID_SEM_POST \<equiv> 21"
abbreviation (input) ID_SEM_WAIT :: nat where "ID_SEM_WAIT \<equiv> 22"
abbreviation (input) ID_MONITOR_INIT :: nat where "ID_MONITOR_INIT \<equiv> 23"
abbreviation (input) ID_MONITOR_DESTROY :: nat where "ID_MONITOR_DESTROY \<equiv> 24"
abbreviation (input) ID_MONITOR_QUEUE_INIT :: nat where "ID_MONITOR_QUEUE_INIT \<equiv> 25"
abbreviation (input) ID_MONITOR_QUEUE_DESTROY :: nat where "ID_MONITOR_QUEUE_DESTROY \<equiv> 26"
abbreviation (input) ID_MONITOR_LOCK :: nat where "ID_MONITOR_LOCK \<equiv> 27"
abbreviation (input) ID_MONITOR_UNLOCK :: nat where "ID_MONITOR_UNLOCK \<equiv> 28"
abbreviation (input) ID_MONITOR_WAIT :: nat where "ID_MONITOR_WAIT \<equiv> 29"
abbreviation (input) ID_MONITOR_SIGNAL :: nat where "ID_MONITOR_SIGNAL \<equiv> 30"
abbreviation (input) ID_MONITOR_BROADCAST :: nat where "ID_MONITOR_BROADCAST \<equiv> 31"
abbreviation (input) ID_DEVICE_SEND :: nat where "ID_DEVICE_SEND \<equiv> 32"
abbreviation (input) ID_DEVICE_RECV :: nat where "ID_DEVICE_RECV \<equiv> 33"
abbreviation (input) ID_DEVICE_LOCK :: nat where "ID_DEVICE_LOCK \<equiv> 34"
abbreviation (input) ID_DEVICE_UNLOCK :: nat where "ID_DEVICE_UNLOCK \<equiv> 35"
abbreviation (input) ID_THREAD_MESG_SET :: nat where "ID_THREAD_MESG_SET \<equiv> 36"
abbreviation (input) ID_CREATE_MESG_Q :: nat where "ID_CREATE_MESG_Q \<equiv> 37"
abbreviation (input) ID_DELETE_MESG_Q :: nat where "ID_DELETE_MESG_Q \<equiv> 38"
abbreviation (input) ID_SEND_MESG :: nat where "ID_SEND_MESG \<equiv> 39"
abbreviation (input) ID_RECV_MESG :: nat where "ID_RECV_MESG \<equiv> 40"
abbreviation (input) ID_SYSINFO :: nat where "ID_SYSINFO \<equiv> 41"

text \<open>\<^verbatim>\<open>do retval = call; while ( retval == -E_RETRY && wait );\<close> with a bound on the number of rounds.\<close>

fun retry :: "nat \<Rightarrow> bool \<Rightarrow> ('w \<Rightarrow> (int \<times> 'w) res) \<Rightarrow> 'w \<Rightarrow> (int \<times> 'w) res" where
  "retry 0 wait call w = Inl Out_of_fuel"
| "retry (Suc n) wait call w =
     rbind (call w) (\<lambda>(r, w). if r = - E_RETRY \<and> wait then retry n wait call w else Inr (r, w))"

section \<open>Threads\<close>

definition create_thread :: "'w process \<Rightarrow> u32 \<Rightarrow> u32 \<Rightarrow> u32 \<Rightarrow> u32 \<Rightarrow> u32 \<Rightarrow> 'w \<Rightarrow> (int \<times> 'w) res" where
  "create_thread u start_func prm sched prio handle = syscall u ID_CREATE_THREAD [start_func, prm, sched, prio, handle]"

definition thread_exit :: "'w process \<Rightarrow> u32 \<Rightarrow> 'w \<Rightarrow> (int \<times> 'w) res" where
  "thread_exit u status = syscall u ID_THREAD_EXIT [status]"

definition wait_for_thread :: "nat \<Rightarrow> 'w process \<Rightarrow> u32 \<Rightarrow> u32 \<Rightarrow> 'w \<Rightarrow> (int \<times> 'w) res" where
  "wait_for_thread n u thread wait = retry n (wait \<noteq> 0) (syscall u ID_WAIT_FOR_THREAD [thread, wait])"

definition cancel_thread :: "'w process \<Rightarrow> u32 \<Rightarrow> 'w \<Rightarrow> (int \<times> 'w) res" where
  "cancel_thread u thread = syscall u ID_CANCEL_THREAD [thread]"

definition thread_self :: "'w process \<Rightarrow> u32 \<Rightarrow> 'w \<Rightarrow> (int \<times> 'w) res" where
  "thread_self u thread = syscall u ID_THREAD_SELF [thread]"

definition start_program :: "'w process \<Rightarrow> u32 \<Rightarrow> u32 \<Rightarrow> u32 \<Rightarrow> u32 \<Rightarrow> u32 \<Rightarrow> 'w \<Rightarrow> (int \<times> 'w) res" where
  "start_program u prog handle prm sched prio = syscall u ID_START_PROGRAM [prog, handle, prm, sched, prio]"

definition set_sched_params :: "'w process \<Rightarrow> u32 \<Rightarrow> u32 \<Rightarrow> u32 \<Rightarrow> u32 \<Rightarrow> 'w \<Rightarrow> (int \<times> 'w) res" where
  "set_sched_params u thread sched_policy prio params = syscall u ID_SET_SCHED_PARAMS [thread, sched_policy, prio, params]"

definition get_sched_params :: "'w process \<Rightarrow> u32 \<Rightarrow> u32 \<Rightarrow> u32 \<Rightarrow> u32 \<Rightarrow> 'w \<Rightarrow> (int \<times> 'w) res" where
  "get_sched_params u thread sched_policy prio params = syscall u ID_GET_SCHED_PARAMS [thread, sched_policy, prio, params]"

definition set_errno :: "'w process \<Rightarrow> u32 \<Rightarrow> 'w \<Rightarrow> (int \<times> 'w) res" where
  "set_errno u error_number = syscall u ID_SET_ERRNO [error_number]"

definition get_errno :: "'w process \<Rightarrow> 'w \<Rightarrow> (int \<times> 'w) res" where
  "get_errno u = syscall u ID_GET_ERRNO []"

section \<open>Semaphores and monitors\<close>

definition sem_init :: "'w process \<Rightarrow> u32 \<Rightarrow> u32 \<Rightarrow> 'w \<Rightarrow> (int \<times> 'w) res" where
  "sem_init u sem initial_value = syscall u ID_SEM_INIT [sem, initial_value]"

definition sem_destroy :: "'w process \<Rightarrow> u32 \<Rightarrow> 'w \<Rightarrow> (int \<times> 'w) res" where
  "sem_destroy u sem = syscall u ID_SEM_DESTROY [sem]"

definition sem_post :: "'w process \<Rightarrow> u32 \<Rightarrow> 'w \<Rightarrow> (int \<times> 'w) res" where
  "sem_post u sem = syscall u ID_SEM_POST [sem]"

definition sem_wait :: "'w process \<Rightarrow> u32 \<Rightarrow> 'w \<Rightarrow> (int \<times> 'w) res" where
  "sem_wait u sem = syscall u ID_SEM_WAIT [sem]"

definition monitor_init :: "'w process \<Rightarrow> u32 \<Rightarrow> 'w \<Rightarrow> (int \<times> 'w) res" where
  "monitor_init u monitor = syscall u ID_MONITOR_INIT [monitor]"

definition monitor_destroy :: "'w process \<Rightarrow> u32 \<Rightarrow> 'w \<Rightarrow> (int \<times> 'w) res" where
  "monitor_destroy u monitor = syscall u ID_MONITOR_DESTROY [monitor]"

definition monitor_queue_init :: "'w process \<Rightarrow> u32 \<Rightarrow> 'w \<Rightarrow> (int \<times> 'w) res" where
  "monitor_queue_init u queue = syscall u ID_MONITOR_QUEUE_INIT [queue]"

definition monitor_queue_destroy :: "'w process \<Rightarrow> u32 \<Rightarrow> 'w \<Rightarrow> (int \<times> 'w) res" where
  "monitor_queue_destroy u queue = syscall u ID_MONITOR_QUEUE_DESTROY [queue]"

definition monitor_lock :: "'w process \<Rightarrow> u32 \<Rightarrow> 'w \<Rightarrow> (int \<times> 'w) res" where
  "monitor_lock u monitor = syscall u ID_MONITOR_LOCK [monitor]"

definition monitor_unlock :: "'w process \<Rightarrow> u32 \<Rightarrow> 'w \<Rightarrow> (int \<times> 'w) res" where
  "monitor_unlock u monitor = syscall u ID_MONITOR_UNLOCK [monitor]"

definition monitor_wait :: "'w process \<Rightarrow> u32 \<Rightarrow> u32 \<Rightarrow> 'w \<Rightarrow> (int \<times> 'w) res" where
  "monitor_wait u monitor queue = syscall u ID_MONITOR_WAIT [monitor, queue]"

definition monitor_signal :: "'w process \<Rightarrow> u32 \<Rightarrow> 'w \<Rightarrow> (int \<times> 'w) res" where
  "monitor_signal u queue = syscall u ID_MONITOR_SIGNAL [queue]"

definition monitor_broadcast :: "'w process \<Rightarrow> u32 \<Rightarrow> 'w \<Rightarrow> (int \<times> 'w) res" where
  "monitor_broadcast u queue = syscall u ID_MONITOR_BROADCAST [queue]"

section \<open>Messages\<close>

definition thread_msg_set :: "'w process \<Rightarrow> u32 \<Rightarrow> u32 \<Rightarrow> u32 \<Rightarrow> 'w \<Rightarrow> (int \<times> 'w) res" where
  "thread_msg_set u min_msg_prio min_sig_prio sig_handler = syscall u ID_THREAD_MESG_SET [min_msg_prio, min_sig_prio, sig_handler]"

definition create_message_queue :: "'w process \<Rightarrow> u32 \<Rightarrow> u32 \<Rightarrow> 'w \<Rightarrow> (int \<times> 'w) res" where
  "create_message_queue u queue min_prio = syscall u ID_CREATE_MESG_Q [queue, min_prio]"

definition delete_message_queue :: "'w process \<Rightarrow> u32 \<Rightarrow> 'w \<Rightarrow> (int \<times> 'w) res" where
  "delete_message_queue u queue = syscall u ID_DELETE_MESG_Q [queue]"

definition send_message :: "nat \<Rightarrow> 'w process \<Rightarrow> u32 \<Rightarrow> u32 \<Rightarrow> u32 \<Rightarrow> u32 \<Rightarrow> 'w \<Rightarrow> (int \<times> 'w) res" where
  "send_message n u dest_type dest msg flgs =
     retry n (bit flgs 0) (syscall u ID_SEND_MESG [dest_type, dest, msg, flgs])"

definition receive_message :: "nat \<Rightarrow> 'w process \<Rightarrow> u32 \<Rightarrow> u32 \<Rightarrow> u32 \<Rightarrow> u32 \<Rightarrow> u32 \<Rightarrow> u32 \<Rightarrow> 'w \<Rightarrow> (int \<times> 'w) res" where
  "receive_message n u src_type src msg mtype sz flgs =
     retry n (bit flgs 0) (syscall u ID_RECV_MESG [src_type, src, msg, mtype, sz, flgs])"

section \<open>Time\<close>

fun put_words :: "nat \<Rightarrow> u32 list \<Rightarrow> bmem \<Rightarrow> bmem" where
  "put_words a [] m = m"
| "put_words a (x # xs) m = put_words (a + 4) xs (st32 m a x)"

definition time_get :: "'w process \<Rightarrow> u32 \<Rightarrow> 'w \<Rightarrow> (int \<times> 'w) res" where
  "time_get u t = syscall u ID_GET_TIME [t]"

text \<open>\<^verbatim>\<open>t && t->sec + t->nsec > 0\<close>\<close>

definition time_given :: "u32 \<Rightarrow> bmem \<Rightarrow> bool" where
  "time_given t m \<longleftrightarrow> t \<noteq> 0 \<and> sint (ld32 m (unat t) + ld32 m (unat t + 4)) > 0"

definition alarm_set :: "'w process \<Rightarrow> nat \<Rightarrow> u32 \<Rightarrow> u32 \<Rightarrow> u32 \<Rightarrow> u32 \<Rightarrow> u32 \<Rightarrow> u32 \<Rightarrow> 'w \<Rightarrow> (u32 \<times> 'w) res" where
  "alarm_set u stk aid expiration func prm prd flgs w =
     (let m = mem u w;
          exp_time = (if time_given expiration m then [ld32 m (unat expiration), ld32 m (unat expiration + 4)] else [0, 0]);
          (per, flgs) = (if time_given prd m then ([ld32 m (unat prd), ld32 m (unat prd + 4)], or flgs (of_nat ALARM_PERIODIC))
                          else ([0, 0], flgs));
          m = put_words stk (exp_time @ [func, prm, flgs] @ per) m;
          w = set_mem u (st32 m (stk + 28) aid) w
      in rbind (if aid = 0 then syscall u ID_ALARM_NEW [of_nat (stk + 28), of_nat stk] w
                else syscall u ID_ALARM_SET [aid, of_nat stk] w) (\<lambda>(ret_val, w).
         Inr (if ret_val = 0 then ld32 (mem u w) (stk + 28) else 0, w)))"

definition alarm_get :: "'w process \<Rightarrow> u32 \<Rightarrow> u32 \<Rightarrow> 'w \<Rightarrow> (int \<times> 'w) res" where
  "alarm_get u aid alm = syscall u ID_ALARM_GET [aid, alm]"

definition alarm_remove :: "'w process \<Rightarrow> u32 \<Rightarrow> 'w \<Rightarrow> (int \<times> 'w) res" where
  "alarm_remove u aid = syscall u ID_ALARM_REMOVE [aid]"

definition wait_for_alarm :: "'w process \<Rightarrow> u32 \<Rightarrow> u32 \<Rightarrow> 'w \<Rightarrow> (int \<times> 'w) res" where
  "wait_for_alarm u aid wait = syscall u ID_WAIT_FOR_ALARM [aid, wait]"

definition delay_until :: "'w process \<Rightarrow> nat \<Rightarrow> u32 \<Rightarrow> 'w \<Rightarrow> (int \<times> 'w) res" where
  "delay_until u stk t w =
     rbind (alarm_set u stk 0 t 0 0 0 (of_nat IPC_WAIT) w) (\<lambda>(aid, w).
     rbind (alarm_remove u aid w) (\<lambda>(r, w). Inr (0, w)))"

definition delay :: "'w process \<Rightarrow> nat \<Rightarrow> u32 \<Rightarrow> 'w \<Rightarrow> (int \<times> 'w) res" where
  "delay u stk t w =
     rbind (time_get u (of_nat stk) w) (\<lambda>(r, w).
     let m = mem u w;
         s = ld32 m stk + ld32 m (unat t);
         ns = ld32 m (stk + 4) + ld32 m (unat t + 4);
         (s, ns) = (if sint ns > 1000000000 then (s + 1, ns - 1000000000) else (s, ns))
     in delay_until u (stk + 8) (of_nat stk) (set_mem u (put_words stk [s, ns] m) w))"

section \<open>Standard input and output\<close>

abbreviation (input) USER_FONT :: int where "USER_FONT \<equiv> 2"

definition get_char :: "'w process \<Rightarrow> nat \<Rightarrow> 'w \<Rightarrow> (int \<times> 'w) res" where
  "get_char u stk w =
     (let w = set_mem u (st32 (mem u w) stk 0) w
      in rbind (syscall u ID_DEVICE_RECV [of_nat stk, 1, of_nat ONLY_ASCII, std_in u] w) (\<lambda>(r, w).
         Inr (sint (ld32 (mem u w) stk), w)))"

definition clear_screen :: "'w process \<Rightarrow> 'w \<Rightarrow> (int \<times> 'w) res" where
  "clear_screen u w = syscall u ID_DEVICE_SEND [0, 0, of_nat CLEAR, std_out u] w"

definition goto_xy :: "'w process \<Rightarrow> nat \<Rightarrow> u32 \<Rightarrow> u32 \<Rightarrow> 'w \<Rightarrow> (int \<times> 'w) res" where
  "goto_xy u stk x y w = syscall u ID_DEVICE_SEND [of_nat stk, 8, of_nat GOTOXY, std_out u] (set_mem u (put_words stk [x, y] (mem u w)) w)"

definition print_char :: "'w process \<Rightarrow> nat \<Rightarrow> int \<Rightarrow> int \<Rightarrow> 'w \<Rightarrow> (int \<times> 'w) res" where
  "print_char u stk c attr w =
     syscall u ID_DEVICE_SEND [of_nat stk, 8, of_nat PRINTCHAR, std_out u]
       (set_mem u (put_words stk [word_of_int c, word_of_int attr] (mem u w)) w)"

text \<open>\<^verbatim>\<open>while ( *p ) print_char ( (int) *p++, USER_FONT );\<close>\<close>

fun print_str :: "nat \<Rightarrow> 'w process \<Rightarrow> nat \<Rightarrow> nat \<Rightarrow> 'w \<Rightarrow> 'w res" where
  "print_str 0 u stk p w = Inl Out_of_fuel"
| "print_str (Suc n) u stk p w =
     (if mem u w p = 0 then Inr w
      else rbind (print_char u stk (sint (mem u w p)) USER_FONT w) (\<lambda>(r, w). print_str n u stk (p + 1) w))"

text \<open>The loop over the format at \<open>format\<close>; \<open>args\<close> are the words behind it on the stack, \<open>null\<close> is the address of the constant \<^verbatim>\<open>"(null)"\<close>, and
  the buffer for numbers is at \<open>stk + 8\<close>.\<close>

fun print_loop :: "nat \<Rightarrow> 'w process \<Rightarrow> nat \<Rightarrow> nat \<Rightarrow> nat \<Rightarrow> u32 list \<Rightarrow> 'w \<Rightarrow> 'w res" where
  "print_loop 0 u null stk format args w = Inl Out_of_fuel"
| "print_loop (Suc n) u null stk format args w =
     (let c = mem u w format
      in if c = 0 then Inr w
         else if c \<noteq> 37 then
           rbind (print_char u stk (sint c) USER_FONT w) (\<lambda>(r, w). print_loop n u null stk (format + 1) args w)
         else
           let c = sint (mem u w (format + 1))
           in case args of
             [] \<Rightarrow> Inl Out_of_bounds
           | arg # args \<Rightarrow>
               rbind
                 (if c \<in> {100, 117, 120, 88} then
                    print_str adr_space u stk (stk + 8) (set_mem u (itoa (stk + 8) c (sint arg) (mem u w)) w)
                  else if c = 115 then print_str adr_space u stk (if arg = 0 then null else unat arg) w
                  else rbind (print_char u stk (sint arg) USER_FONT w) (\<lambda>(r, w). Inr w)) (\<lambda>w.
               print_loop n u null stk (format + 2) args w))"

definition print :: "'w process \<Rightarrow> nat \<Rightarrow> nat \<Rightarrow> u32 \<Rightarrow> u32 list \<Rightarrow> 'w \<Rightarrow> (int \<times> 'w) res" where
  "print u null stk format args w =
     (if format = 0 then Inr (0, w)
      else
        rbind (syscall u ID_DEVICE_LOCK [std_out u, 1] w) (\<lambda>(r, w).
        rbind (print_loop adr_space u null stk (unat format) args w) (\<lambda>w.
        rbind (syscall u ID_DEVICE_UNLOCK [std_out u] w) (\<lambda>(r, w). Inr (0, w)))))"

section \<open>Repeated calls\<close>

text \<open>A call that is refused \<open>k\<close> times, in the successive states \<open>ws\<close>.\<close>

definition refused :: "('w \<Rightarrow> (int \<times> 'w) res) \<Rightarrow> (nat \<Rightarrow> 'w) \<Rightarrow> nat \<Rightarrow> bool" where
  "refused call ws k \<longleftrightarrow> (\<forall>i<k. call (ws i) = Inr (- E_RETRY, ws (Suc i)))"

lemma retry_refused:
  assumes "refused call ws k" and "call (ws k) = Inr (r, w')" and "r \<noteq> - E_RETRY" and "k < n"
  shows "retry n True call (ws 0) = Inr (r, w')"
  using assms
proof (induction k arbitrary: ws n)
  case 0
  then show ?case by (cases n) simp_all
next
  case (Suc k)
  obtain n' where n: "n = Suc n'" "k < n'" using Suc.prems(4) by (cases n) auto
  have "refused call (\<lambda>i. ws (Suc i)) k" using Suc.prems(1) by (auto simp: refused_def)
  from Suc.IH [OF this _ Suc.prems(3) n(2)] have "retry n' True call (ws 1) = Inr (r, w')" using Suc.prems(2) by simp
  moreover have "call (ws 0) = Inr (- E_RETRY, ws 1)" using Suc.prems(1) by (auto simp: refused_def)
  ultimately show ?case by (simp add: n)
qed

lemma retry_result: "retry n True call w = Inr (r, w') \<Longrightarrow> r \<noteq> - E_RETRY"
  by (induction n arbitrary: w) (auto simp: rbind_eq_Inr split: if_splits)

section \<open>What is printed\<close>

text \<open>Arguments as the format describes them, and the text for a format.\<close>

datatype farg = Num int | Str "u8 list"

fun fmt_ok :: "u8 list \<Rightarrow> farg list \<Rightarrow> bool" where
  "fmt_ok [] as \<longleftrightarrow> True"
| "fmt_ok (c # f) as \<longleftrightarrow>
     (if c \<noteq> 37 then fmt_ok f as
      else case (f, as) of
        (d # f, a # as) \<Rightarrow> (case a of Str xs \<Rightarrow> d = 115 | Num v \<Rightarrow> d \<noteq> 115) \<and> fmt_ok f as
      | _ \<Rightarrow> False)"

definition arg_text :: "u8 \<Rightarrow> farg \<Rightarrow> int list" where
  "arg_text d a =
     (case a of
        Str xs \<Rightarrow> map sint xs
      | Num v \<Rightarrow> if sint d \<in> {100, 117, 120, 88} then map sint (number_text (sint d) v) else [v])"

fun format_text :: "u8 list \<Rightarrow> farg list \<Rightarrow> int list" where
  "format_text [] as = []"
| "format_text (c # f) as =
     (if c \<noteq> 37 then sint c # format_text f as
      else case (f, as) of (d # f, a # as) \<Rightarrow> arg_text d a @ format_text f as | _ \<Rightarrow> [])"

text \<open>Memory is only changed in the local variables of \<open>print\<close>, \<open>k\<close> bytes from \<open>stk\<close> on, and where the parameters of a system call are put, 16 bytes from \<open>prm\<close> on.
  Texts lie outside of both.\<close>

definition kept_outside :: "nat \<Rightarrow> nat \<Rightarrow> nat \<Rightarrow> bmem \<Rightarrow> bmem \<Rightarrow> bool" where
  "kept_outside stk k prm m m' \<longleftrightarrow> (\<forall>x. (x < stk \<or> stk + k \<le> x) \<and> (x < prm \<or> prm + 16 \<le> x) \<longrightarrow> m' x = m x)"

definition text_at :: "bmem \<Rightarrow> nat \<Rightarrow> nat \<Rightarrow> nat \<Rightarrow> u8 list \<Rightarrow> bool" where
  "text_at m stk prm a xs \<longleftrightarrow> cstr m a xs \<and> (a + length xs < stk \<or> stk + 28 \<le> a) \<and> (a + length xs < prm \<or> prm + 16 \<le> a) \<and> length xs < adr_space"

definition arg_at :: "bmem \<Rightarrow> nat \<Rightarrow> nat \<Rightarrow> nat \<Rightarrow> u32 \<Rightarrow> farg \<Rightarrow> bool" where
  "arg_at m null stk prm arg a \<longleftrightarrow>
     (case a of Num v \<Rightarrow> v = sint arg | Str xs \<Rightarrow> text_at m stk prm (if arg = 0 then null else unat arg) xs)"

lemma kept_outside_trans: "kept_outside stk k prm m m' \<Longrightarrow> kept_outside stk k prm m' m'' \<Longrightarrow> kept_outside stk k prm m m''"
  by (simp add: kept_outside_def)

lemma kept_outside_mono: "kept_outside stk j prm m m' \<Longrightarrow> j \<le> k \<Longrightarrow> kept_outside stk k prm m m'"
  by (auto simp: kept_outside_def)

lemma text_at_same: "text_at m stk prm a xs \<Longrightarrow> kept_outside stk 28 prm m m' \<Longrightarrow> text_at m' stk prm a xs"
  using cstr_frame [of a xs m' m] by (auto simp: text_at_def kept_outside_def)

lemma arg_at_same: "arg_at m null stk prm arg a \<Longrightarrow> kept_outside stk 28 prm m m' \<Longrightarrow> arg_at m' null stk prm arg a"
  by (auto simp: arg_at_def text_at_same split: farg.splits)

lemma put_words_two: "ld32 (put_words stk [a, b] m) stk = a" "ld32 (put_words stk [a, b] m) (stk + 4) = b" "kept_outside stk 8 prm m (put_words stk [a, b] m)"
  by (simp_all add: ld32_st32_other ld32_st32_same) (simp add: kept_outside_def st32_def)

lemma sint_char: "sint (word_of_int (sint (c :: u8)) :: u32) = sint c"
  using sint_greater_eq [of c] sint_less [of c] unfolding sint_sbintrunc' by (intro signed_take_bit_int_eq_self) simp_all

text \<open>What a process asks of a terminal, for observing it: \<open>traced\<close> is the same process with a log of its system calls. A character that is sent is recorded with its attribute.\<close>

datatype event = Locked u32 | Shown u32 int int | Unlocked u32 | Other nat "u32 list"

definition event_of :: "nat \<Rightarrow> u32 list \<Rightarrow> bmem \<Rightarrow> event" where
  "event_of i args m =
     (if i = ID_DEVICE_LOCK \<and> length args = 2 then Locked (args ! 0)
      else if i = ID_DEVICE_UNLOCK \<and> length args = 1 then Unlocked (args ! 0)
      else if i = ID_DEVICE_SEND \<and> length args = 4 \<and> args ! 2 = of_nat PRINTCHAR
        then Shown (args ! 3) (sint (ld32 m (unat (args ! 0)))) (sint (ld32 m (unat (args ! 0) + 4)))
      else Other i args)"

definition traced :: "'w process \<Rightarrow> ('w \<times> event list) process" where
  "traced u =
     \<lparr>syscall = (\<lambda>i args (w, l). rbind (syscall u i args w) (\<lambda>(r, w'). Inr (r, w', l @ [event_of i args (mem u w)]))),
      mem = (\<lambda>(w, l). mem u w), set_mem = (\<lambda>m (w, l). (set_mem u m w, l)), std_in = std_in u, std_out = std_out u\<rparr>"

text \<open>Observing does not change what a process does.\<close>

lemma traced_sel [simp]:
  "mem (traced u) (w, l) = mem u w" "set_mem (traced u) m (w, l) = (set_mem u m w, l)" "std_out (traced u) = std_out u"
  "syscall (traced u) i args (w, l) = rbind (syscall u i args w) (\<lambda>(r, w'). Inr (r, w', l @ [event_of i args (mem u w)]))"
  by (simp_all add: traced_def)

lemma traced_char: "print_char u stk c attr w = rbind (print_char (traced u) stk c attr (w, l)) (\<lambda>(r, w', l'). Inr (r, w'))"
  by (simp add: print_char_def rbind_assoc case_prod_unfold del: put_words.simps) (simp add: rbind_def split: sum.splits)

lemma traced_str: "print_str n u stk p w = rbind (print_str n (traced u) stk p (w, l)) (\<lambda>(w', l'). Inr w')"
proof (induction n arbitrary: p w l)
  case (Suc n)
  show ?case
  proof (cases "print_char (traced u) stk (sint (mem u w p)) USER_FONT (w, l)")
    case (Inr x)
    then obtain r w' l' where "print_char (traced u) stk (sint (mem u w p)) USER_FONT (w, l) = Inr (r, w', l')" by (cases x) auto
    then show ?thesis using traced_char [of u stk "sint (mem u w p)" USER_FONT w l] Suc [of "p + 1" w' l'] by simp
  qed (use traced_char [of u stk "sint (mem u w p)" USER_FONT w l] in simp)
qed simp

lemma print_loop_char:
  "mem u w p \<noteq> 0 \<Longrightarrow> mem u w p \<noteq> 37 \<Longrightarrow>
    print_loop (Suc n) u null stk p args w = rbind (rbind (print_char u stk (sint (mem u w p)) USER_FONT w) (\<lambda>(r, w). Inr w)) (print_loop n u null stk (p + 1) args)"
  by (simp add: Let_def rbind_assoc case_prod_unfold)

text \<open>One conversion of the format.\<close>

abbreviation print_conv :: "'w process \<Rightarrow> nat \<Rightarrow> nat \<Rightarrow> int \<Rightarrow> u32 \<Rightarrow> 'w \<Rightarrow> 'w res" where
  "print_conv u null stk c arg w \<equiv>
     if c \<in> {100, 117, 120, 88} then print_str adr_space u stk (stk + 8) (set_mem u (itoa (stk + 8) c (sint arg) (mem u w)) w)
     else if c = 115 then print_str adr_space u stk (if arg = 0 then null else unat arg) w
     else rbind (print_char u stk (sint arg) USER_FONT w) (\<lambda>(r, w). Inr w)"

lemma print_loop_arg:
  "mem u w p = 37 \<Longrightarrow> print_loop (Suc n) u null stk p (arg # args) w =
     rbind (print_conv u null stk (sint (mem u w (p + 1))) arg w) (print_loop n u null stk (p + 2) args)"
  unfolding print_loop.simps Let_def list.case by (simp split del: if_split)

lemma traced_char_w:
  "rbind (print_char u stk c USER_FONT w) (\<lambda>(r, w). Inr w) =
    rbind (rbind (print_char (traced u) stk c USER_FONT (w, l)) (\<lambda>(r, w). Inr w)) (\<lambda>(w', l'). Inr w')"
  using traced_char [of u stk c USER_FONT w l] by (cases "print_char (traced u) stk c USER_FONT (w, l)") auto

lemma traced_conv: "print_conv u null stk c arg w = rbind (print_conv (traced u) null stk c arg (w, l)) (\<lambda>(w', l'). Inr w')"
  unfolding traced_sel by (auto simp: traced_char_w [of u stk "sint arg" w l] simp del: print_str.simps intro: traced_str)

lemma traced_loop: "print_loop n u null stk p args w = rbind (print_loop n (traced u) null stk p args (w, l)) (\<lambda>(w', l'). Inr w')"
proof (induction n arbitrary: p args w l)
  case (Suc n)
  have step: "rbind x (print_loop n u null stk q as) = rbind (rbind y (print_loop n (traced u) null stk q as)) (\<lambda>(w', l'). Inr w')"
    if "x = rbind y (\<lambda>(w', l'). Inr w')" for x y q as
    using that Suc by (cases y) auto
  consider "mem u w p = 0" | "mem u w p \<noteq> 0" "mem u w p \<noteq> 37" | "mem u w p = 37" "args = []" | arg args' where "mem u w p = 37" "args = arg # args'"
    by (cases args) auto
  then show ?case
  proof cases
    case 2
    then have m: "mem (traced u) (w, l) p \<noteq> 0" "mem (traced u) (w, l) p \<noteq> 37" by simp_all
    show ?thesis unfolding print_loop_char [OF 2] print_loop_char [OF m] unfolding traced_sel by (rule step [OF traced_char_w])
  next
    case (4 arg args')
    then have m: "mem (traced u) (w, l) p = 37" by simp
    show ?thesis unfolding 4(2) print_loop_arg [OF 4(1)] print_loop_arg [OF m] unfolding traced_sel(1) by (rule step [OF traced_conv [unfolded traced_sel(1)]])
  qed simp_all
qed simp

lemma traced_print: "print u null stk format args w = rbind (print (traced u) null stk format args (w, l)) (\<lambda>(r, w', l'). Inr (r, w'))"
proof (cases "format = 0")
  case False
  show ?thesis
  proof (cases "syscall u ID_DEVICE_LOCK [std_out u, 1] w")
    case (Inr x)
    obtain r w1 where w1: "syscall u ID_DEVICE_LOCK [std_out u, 1] w = Inr (r, w1)" using Inr by (cases x) auto
    obtain l1 where l1: "syscall (traced u) ID_DEVICE_LOCK [std_out u, 1] (w, l) = Inr (r, w1, l1)" using w1 by simp
    show ?thesis
    proof (cases "print_loop adr_space (traced u) null stk (unat format) args (w1, l1)")
      case (Inr y)
      obtain w2 l2 where w2: "print_loop adr_space (traced u) null stk (unat format) args (w1, l1) = Inr (w2, l2)" using Inr by (cases y) auto
      have "print_loop adr_space u null stk (unat format) args w1 = Inr w2" using traced_loop [of adr_space u null stk "unat format" args w1 l1] w2 by simp
      then show ?thesis using w1 l1 w2 False
        by (cases "syscall u ID_DEVICE_UNLOCK [std_out u] w2") (auto simp: print_def simp del: print_loop.simps traced_sel(4), simp_all)
    qed (use traced_loop [of adr_space u null stk "unat format" args w1 l1] w1 l1 False in \<open>simp add: print_def del: print_loop.simps traced_sel(4)\<close>)
  qed (use False in \<open>simp add: print_def\<close>)
qed (simp add: print_def)

text \<open>What printing expects of the system: a terminal that is \<open>free\<close> or \<open>held\<close> by the program, with a log of what happened to it. A free terminal can be locked,
  a held one shows the character that a program sends to it and can be unlocked. The local variables of \<open>print\<close> are apart from the
  parameters of system calls, which are the only memory that a call changes.\<close>

locale console =
  fixes u :: "'w process" and free :: "'w \<Rightarrow> bool" and held :: "'w \<Rightarrow> bool" and log :: "'w \<Rightarrow> event list" and prm :: nat and room :: nat
  assumes mem_set: "mem u (set_mem u m w) = m"
    and state_set: "held w \<Longrightarrow> held (set_mem u m w)" "log (set_mem u m w) = log w"
    and lock_law: "free w \<Longrightarrow> \<exists>r w'. syscall u ID_DEVICE_LOCK [std_out u, 1] w = Inr (r, w') \<and> held w' \<and>
      log w' = log w @ [Locked (std_out u)] \<and> kept_outside 0 0 prm (mem u w) (mem u w')"
    and send_law: "held w \<Longrightarrow> a + 8 \<le> room \<Longrightarrow> a + 8 \<le> prm \<or> prm + 16 \<le> a \<Longrightarrow> sint (ld32 (mem u w) (a + 4)) = USER_FONT \<Longrightarrow>
      \<exists>r w'. syscall u ID_DEVICE_SEND [of_nat a, 8, of_nat PRINTCHAR, std_out u] w = Inr (r, w') \<and> held w' \<and>
        log w' = log w @ [Shown (std_out u) (sint (ld32 (mem u w) a)) USER_FONT] \<and> kept_outside 0 0 prm (mem u w) (mem u w')"
    and unlock_law: "held w \<Longrightarrow> \<exists>r w'. syscall u ID_DEVICE_UNLOCK [std_out u] w = Inr (r, w') \<and> free w' \<and>
      log w' = log w @ [Unlocked (std_out u)] \<and> kept_outside 0 0 prm (mem u w) (mem u w')"
begin

definition shown :: "int list \<Rightarrow> event list" where
  "shown cs = map (\<lambda>c. Shown (std_out u) c USER_FONT) cs"

lemma shown_simps [simp]: "shown [] = []" "shown (c # cs) = Shown (std_out u) c USER_FONT # shown cs" "shown (cs @ ds) = shown cs @ shown ds"
  by (simp_all add: shown_def)

lemma call_kept: "kept_outside 0 0 prm m m' \<Longrightarrow> kept_outside stk k prm m m'"
  by (auto simp: kept_outside_def)

definition stack_ok :: "nat \<Rightarrow> bool" where
  "stack_ok stk \<longleftrightarrow> stk + 28 \<le> room \<and> (stk + 28 \<le> prm \<or> prm + 16 \<le> stk)"

lemma char_shown:
  assumes h: "held w" and stk: "stack_ok stk"
  shows "\<exists>r w'. print_char u stk c USER_FONT w = Inr (r, w') \<and> held w' \<and> log w' = log w @ shown [sint (word_of_int c :: u32)] \<and>
    kept_outside stk 8 prm (mem u w) (mem u w')"
proof -
  let ?m = "put_words stk [word_of_int c, word_of_int USER_FONT] (mem u w)" let ?w = "set_mem u ?m w"
  have m: "ld32 ?m stk = word_of_int c" "ld32 ?m (stk + 4) = word_of_int USER_FONT" "kept_outside stk 8 prm (mem u w) ?m" by (rule put_words_two)+
  have f: "sint (ld32 (mem u ?w) (stk + 4)) = USER_FONT" "ld32 (mem u ?w) stk = word_of_int c" unfolding mem_set using m(1,2) by simp_all
  have s: "stk + 8 \<le> room" "stk + 8 \<le> prm \<or> prm + 16 \<le> stk" using stk by (auto simp: stack_ok_def)
  obtain r w' where 1: "syscall u ID_DEVICE_SEND [of_nat stk, 8, of_nat PRINTCHAR, std_out u] ?w = Inr (r, w')" "held w'"
    "log w' = log ?w @ [Shown (std_out u) (sint (ld32 (mem u ?w) stk)) USER_FONT]" "kept_outside 0 0 prm (mem u ?w) (mem u w')"
    using send_law [OF state_set(1) [OF h] s f(1)] by blast
  have "kept_outside stk 8 prm (mem u w) (mem u w')"
    using kept_outside_trans [OF m(3)] call_kept [OF 1(4), of stk 8] unfolding mem_set by blast
  then show ?thesis using 1(1-3) f(2) state_set(2) by (intro exI [of _ r] exI [of _ w']) (simp add: print_char_def del: put_words.simps)
qed

lemma str_shown:
  assumes stk: "stack_ok stk"
  shows "held w \<Longrightarrow> cstr (mem u w) p xs \<Longrightarrow> p + length xs < stk \<or> stk + 8 \<le> p \<Longrightarrow> p + length xs < prm \<or> prm + 16 \<le> p \<Longrightarrow> length xs < n \<Longrightarrow>
    \<exists>w'. print_str n u stk p w = Inr w' \<and> held w' \<and> log w' = log w @ shown (map sint xs) \<and> kept_outside stk 8 prm (mem u w) (mem u w')"
proof (induction xs arbitrary: p w n)
  case Nil
  then show ?case by (cases n) (auto simp: kept_outside_def)
next
  case (Cons c xs)
  obtain n' where n: "n = Suc n'" "length xs < n'" using Cons.prems(5) by (cases n) auto
  have c: "mem u w p = c" "c \<noteq> 0" "cstr (mem u w) (p + 1) xs" using Cons.prems(2) by auto
  obtain r w1 where 1: "print_char u stk (sint c) USER_FONT w = Inr (r, w1)" "held w1" "log w1 = log w @ shown [sint c]"
    "kept_outside stk 8 prm (mem u w) (mem u w1)" using char_shown [OF Cons.prems(1) stk, of "sint c"] unfolding sint_char by blast
  have "cstr (mem u w1) (p + 1) xs"
    using c(3) cstr_frame [of "p + 1" xs "mem u w1" "mem u w"] 1(4) Cons.prems(3,4) by (auto simp: kept_outside_def)
  moreover have "p + 1 + length xs < stk \<or> stk + 8 \<le> p + 1" "p + 1 + length xs < prm \<or> prm + 16 \<le> p + 1" using Cons.prems(3,4) by auto
  ultimately obtain w2 where "print_str n' u stk (p + 1) w1 = Inr w2" "held w2" "log w2 = log w1 @ shown (map sint xs)"
    "kept_outside stk 8 prm (mem u w1) (mem u w2)" using Cons.IH [of w1 "p + 1" n'] 1(2) n(2) by blast
  then show ?case using 1 c n(1) kept_outside_trans by auto
qed

text \<open>One conversion of the format.\<close>

lemma arg_shown:
  assumes h: "held w" and stk: "stack_ok stk" and a: "arg_at (mem u w) null stk prm arg a"
    and ok: "case a of Str xs \<Rightarrow> d = (115 :: u8) | Num v \<Rightarrow> d \<noteq> 115"
  shows "\<exists>w'. print_conv u null stk (sint d) arg w = Inr w' \<and>
    held w' \<and> log w' = log w @ shown (arg_text d a) \<and> kept_outside stk 28 prm (mem u w) (mem u w')"
proof (cases a)
  case (Str xs)
  then have d: "sint d = 115" using ok by simp
  have t: "text_at (mem u w) stk prm (if arg = 0 then null else unat arg) xs" using a Str by (simp add: arg_at_def)
  obtain w' where "print_str adr_space u stk (if arg = 0 then null else unat arg) w = Inr w'" "held w'" "log w' = log w @ shown (map sint xs)"
    "kept_outside stk 8 prm (mem u w) (mem u w')"
    using str_shown [OF stk h, of "if arg = 0 then null else unat arg" xs adr_space] t by (auto simp: text_at_def)
  then show ?thesis using kept_outside_mono [of stk 8 prm "mem u w" "mem u w'" 28] d Str by (simp add: arg_text_def)
next
  case (Num v)
  have v: "v = sint arg" using a Num by (simp add: arg_at_def)
  have d: "sint d \<noteq> 115" using ok Num sint_eq [of d 115] by simp
  have r: "- (2 ^ 31) \<le> sint arg" "sint arg < 2 ^ 31" using sint_greater_eq [of arg] sint_less [of arg] by simp_all
  show ?thesis
  proof (cases "sint d \<in> {100, 117, 120, 88}")
    case True
    let ?t = "number_text (sint d) v" let ?m = "itoa (stk + 8) (sint d) (sint arg) (mem u w)" let ?w = "set_mem u ?m w"
    note i = itoa_put [OF True r, of "stk + 8" "mem u w"]
    have l: "length ?t \<le> 11" using number_text_length [OF r] v by simp
    have c: "cstr (mem u ?w) (stk + 8) ?t" unfolding mem_set unfolding i v by (rule cstr_put [OF number_text_nz])
    have k: "kept_outside stk 28 prm (mem u w) (mem u ?w)" unfolding mem_set unfolding i v using l v by (auto simp: kept_outside_def put_def)
    have ap: "stk + 8 + length ?t < stk \<or> stk + 8 \<le> stk + 8" "stk + 8 + length ?t < prm \<or> prm + 16 \<le> stk + 8" "length ?t < adr_space"
      using l stk by (auto simp: stack_ok_def)
    obtain w' where "print_str adr_space u stk (stk + 8) ?w = Inr w'" "held w'" "log w' = log ?w @ shown (map sint ?t)" "kept_outside stk 8 prm (mem u ?w) (mem u w')"
      using str_shown [OF stk state_set(1) [OF h] c ap] by blast
    then show ?thesis using True Num state_set(2) kept_outside_trans [OF k] kept_outside_mono [of stk 8 prm "mem u ?w" "mem u w'" 28]
      by (intro exI [of _ w']) (simp add: arg_text_def)
  next
    case False
    obtain r' w' where "print_char u stk (sint arg) USER_FONT w = Inr (r', w')" "held w'" "log w' = log w @ shown [sint arg]" "kept_outside stk 8 prm (mem u w) (mem u w')"
      using char_shown [OF h stk, of "sint arg"] by auto
    then show ?thesis using False d Num v kept_outside_mono [of stk 8 prm "mem u w" "mem u w'" 28] by (auto simp: arg_text_def)
  qed
qed

lemma loop_shown:
  assumes stk: "stack_ok stk"
  shows "held w \<Longrightarrow> text_at (mem u w) stk prm p f \<Longrightarrow> fmt_ok f as \<Longrightarrow> list_all2 (arg_at (mem u w) null stk prm) args as \<Longrightarrow> length f < n \<Longrightarrow>
    \<exists>w'. print_loop n u null stk p args w = Inr w' \<and> held w' \<and> log w' = log w @ shown (format_text f as) \<and> kept_outside stk 28 prm (mem u w) (mem u w')"
proof (induction f as arbitrary: p args w n rule: fmt_ok.induct)
  case (1 as)
  then show ?case by (cases n) (auto simp: text_at_def kept_outside_def)
next
  case (2 c f as)
  obtain n' where n: "n = Suc n'" "length f < n'" using 2(7) by (cases n) auto
  have c: "mem u w p = c" "c \<noteq> 0" using 2(4) by (auto simp: text_at_def)
  show ?case
  proof (cases "c = 37")
    case False
    obtain r w1 where 1: "print_char u stk (sint c) USER_FONT w = Inr (r, w1)" "held w1" "log w1 = log w @ shown [sint c]"
      "kept_outside stk 8 prm (mem u w) (mem u w1)" using char_shown [OF 2(3) stk, of "sint c"] unfolding sint_char by blast
    have k: "kept_outside stk 28 prm (mem u w) (mem u w1)" using kept_outside_mono [OF 1(4)] by simp
    have "text_at (mem u w) stk prm (p + 1) f" using 2(4) by (auto simp: text_at_def)
    then have t: "text_at (mem u w1) stk prm (p + 1) f" using text_at_same k by blast
    have l: "list_all2 (arg_at (mem u w1) null stk prm) args as" using 2(6) arg_at_same [OF _ k] by (blast intro: list_all2_mono)
    have "fmt_ok f as" using 2(5) False by simp
    then obtain w2 where "print_loop n' u null stk (p + 1) args w1 = Inr w2" "held w2" "log w2 = log w1 @ shown (format_text f as)"
      "kept_outside stk 28 prm (mem u w1) (mem u w2)" using 2(1) [OF False 1(2) t _ l n(2)] by blast
    then show ?thesis using 1 c False n(1) kept_outside_trans [OF k] by (auto simp: Let_def)
  next
    case True
    obtain d f' a as' where f: "f = d # f'" "as = a # as'" "case a of Str xs \<Rightarrow> d = 115 | Num v \<Rightarrow> d \<noteq> 115" "fmt_ok f' as'"
      using 2(5) True by (auto split: list.splits)
    obtain arg args' where ar: "args = arg # args'" "arg_at (mem u w) null stk prm arg a" "list_all2 (arg_at (mem u w) null stk prm) args' as'"
      using 2(6) f(2) by (auto simp: list_all2_Cons2)
    have d: "mem u w (p + 1) = d" using 2(4) f(1) by (simp add: text_at_def)
    obtain w1 where 1: "print_conv u null stk (sint d) arg w = Inr w1" "held w1" "log w1 = log w @ shown (arg_text d a)"
      "kept_outside stk 28 prm (mem u w) (mem u w1)" using arg_shown [OF 2(3) stk ar(2) f(3)] by blast
    have "text_at (mem u w) stk prm (p + 2) f'" using 2(4) f(1) by (auto simp: text_at_def)
    then have t: "text_at (mem u w1) stk prm (p + 2) f'" using text_at_same 1(4) by blast
    have l: "list_all2 (arg_at (mem u w1) null stk prm) args' as'" using ar(3) arg_at_same [OF _ 1(4)] by (blast intro: list_all2_mono)
    have n2: "length f' < n'" using n(2) f(1) by simp
    obtain w2 where "print_loop n' u null stk (p + 2) args' w1 = Inr w2" "held w2" "log w2 = log w1 @ shown (format_text f' as')"
      "kept_outside stk 28 prm (mem u w1) (mem u w2)" using 2(2) [OF _ refl f(1,2) 1(2) t f(4) l n2] True by blast
    then show ?thesis unfolding n(1) print_loop.simps ar(1) Let_def c(1) d using True 1 f(1,2) kept_outside_trans [OF 1(4)] by auto
  qed
qed

lemma print_shown:
  assumes "free w" and stk: "stack_ok stk" and "format \<noteq> 0" and t: "text_at (mem u w) stk prm (unat format) f" and "fmt_ok f as"
    and a: "list_all2 (arg_at (mem u w) null stk prm) args as"
  shows "\<exists>w'. print u null stk format args w = Inr (0, w') \<and> free w' \<and>
    log w' = log w @ Locked (std_out u) # shown (format_text f as) @ [Unlocked (std_out u)] \<and> kept_outside stk 28 prm (mem u w) (mem u w')"
proof -
  obtain r w1 where 1: "syscall u ID_DEVICE_LOCK [std_out u, 1] w = Inr (r, w1)" "held w1" "log w1 = log w @ [Locked (std_out u)]"
    "kept_outside 0 0 prm (mem u w) (mem u w1)" using lock_law [OF assms(1)] by blast
  note k = call_kept [OF 1(4), of stk 28]
  have l: "list_all2 (arg_at (mem u w1) null stk prm) args as" using a arg_at_same [OF _ k] by (blast intro: list_all2_mono)
  have "length f < adr_space" using t by (simp add: text_at_def)
  then obtain w2 where 2: "print_loop adr_space u null stk (unat format) args w1 = Inr w2" "held w2" "log w2 = log w1 @ shown (format_text f as)"
    "kept_outside stk 28 prm (mem u w1) (mem u w2)" using loop_shown [OF stk 1(2) text_at_same [OF t k] assms(5) l] by blast
  obtain r' w3 where 3: "syscall u ID_DEVICE_UNLOCK [std_out u] w2 = Inr (r', w3)" "free w3" "log w3 = log w2 @ [Unlocked (std_out u)]"
    "kept_outside 0 0 prm (mem u w2) (mem u w3)" using unlock_law [OF 2(2)] by blast
  have "kept_outside stk 28 prm (mem u w) (mem u w3)"
    using kept_outside_trans [OF kept_outside_trans [OF k 2(4)] call_kept [OF 3(4)]] .
  then show ?thesis using 1 2 3 assms(3) by (intro exI [of _ w3]) (simp add: print_def)
qed

end

section \<open>Properties\<close>

text \<open>The functions that wait repeat a call as long as the kernel answers \<^verbatim>\<open>E_RETRY\<close>: after \<open>k\<close> refusals they return the first other answer, and
  they never return \<^verbatim>\<open>-E_RETRY\<close> to a program that waits.\<close>

theorem waiting_retries:
  assumes "wait \<noteq> 0" "bit flgs 0"
    and "c \<in> {(wait_for_thread n u thr wait, syscall u ID_WAIT_FOR_THREAD [thr, wait]),
      (send_message n u typ thr msg flgs, syscall u ID_SEND_MESG [typ, thr, msg, flgs]),
      (receive_message n u typ thr msg ty sz flgs, syscall u ID_RECV_MESG [typ, thr, msg, ty, sz, flgs])}"
  shows "(refused (snd c) ws k \<and> snd c (ws k) = Inr (r, w') \<and> r \<noteq> - E_RETRY \<and> k < n \<longrightarrow> fst c (ws 0) = Inr (r, w')) \<and>
    (fst c w = Inr (x, w'') \<longrightarrow> x \<noteq> - E_RETRY)"
proof -
  have "fst c = retry n True (snd c)"
    using assms by (auto simp: wait_for_thread_def send_message_def receive_message_def)
  then show ?thesis using retry_refused [of "snd c" ws k r w' n] retry_result [of n "snd c" w x w''] by auto
qed

text \<open>A kernel that refuses twice: the world counts the calls.\<close>

definition busy_process :: "nat process" where
  "busy_process = \<lparr>syscall = (\<lambda>i args w. Inr (if w < 2 then - E_RETRY else 7, Suc w)), mem = (\<lambda>w a. 0), set_mem = (\<lambda>m w. w), std_in = 1, std_out = 2\<rparr>"

theorem waiting_retries_witness: "wait_for_thread 5 busy_process 9 1 0 = Inr (7, 3)"
  using waiting_retries [of 1 1 "(wait_for_thread 5 busy_process 9 1, syscall busy_process ID_WAIT_FOR_THREAD [9, 1])" 5 busy_process 9 0 0 0 0
      "\<lambda>i. i" 2 7 3 0 0 0]
  by (auto simp: refused_def busy_process_def)

text \<open>Reading a time and an alarm that a program has stored.\<close>

definition time_at_adr :: "bmem \<Rightarrow> nat \<Rightarrow> time_t" where
  "time_at_adr m a = Time (sint (ld32 m a)) (sint (ld32 m (a + 4)))"

definition words_from :: "bmem \<Rightarrow> nat \<Rightarrow> nat \<Rightarrow> u32 list" where
  "words_from m a n = map (\<lambda>i. ld32 m (a + 4 * i)) [0..<n]"

lemma put_words_outside: "a + 4 \<le> p \<or> p + 4 * length xs \<le> a \<Longrightarrow> ld32 (put_words p xs m) a = ld32 m a"
  by (induction xs arbitrary: p m) (auto simp: ld32_st32_other)

lemma words_from_put: "words_from (put_words a xs m) a (length xs) = xs"
proof (induction xs arbitrary: a m)
  case (Cons x xs)
  have "ld32 (put_words (a + 4) xs (st32 m a x)) a = x" by (simp add: put_words_outside ld32_st32_same)
  moreover have "map (\<lambda>i. ld32 (put_words (a + 4) xs (st32 m a x)) (a + 4 * i)) [1..<Suc (length xs)] =
      words_from (put_words (a + 4) xs (st32 m a x)) (a + 4) (length xs)"
    by (simp add: words_from_def map_Suc_upt [symmetric] del: upt_Suc) (simp add: algebra_simps)
  ultimately show ?case using Cons [of "a + 4" "st32 m a x"] by (simp add: words_from_def upt_conv_Cons del: upt_Suc)
qed (simp add: words_from_def)

lemma int_of_sum:
  fixes a b :: u32
  assumes "0 \<le> sint a + sint b" "sint a + sint b < 2 ^ 31"
  shows "sint (a + b) = sint a + sint b"
  using assms by (simp add: sint_word_ariths signed_take_bit_int_eq_self)

lemma delay_sum:
  fixes s1 s2 n1 n2 :: u32
  assumes e: "e = time_add (Time (sint s1) (sint n1)) (Time (sint s2) (sint n2))"
    and r: "sint n1 \<in> {0..NSEC}" "sint n2 \<in> {0..NSEC}"
  shows "(if sint (n1 + n2) > NSEC then (s1 + s2 + 1, n1 + n2 - 1000000000) else (s1 + s2, n1 + n2)) = (of_int (sec e), of_int (nsec e))"
proof -
  have "sint (n1 + n2) = sint n1 + sint n2" by (rule int_of_sum) (use r in auto)
  moreover have "int32 (sint n1 + sint n2) = sint n1 + sint n2" "int32 (sint n1 + sint n2 - NSEC) = sint n1 + sint n2 - NSEC"
    using r by (simp_all add: int32_id)
  moreover have "(of_int (int32 v) :: u32) = of_int v" for v by (simp add: int32_def)
  ultimately show ?thesis by (auto simp: e time_add_def Let_def)
qed

text \<open>\<^verbatim>\<open>delay\<close> asks the kernel for an alarm that expires after the delay from now, as \<^verbatim>\<open>time_add\<close> computes it, waits for it, and removes it.\<close>

theorem delay_sets_alarm:
  assumes law: "\<forall>m w. mem u (set_mem u m w) = m" and get: "syscall u ID_GET_TIME [of_nat stk] w = Inr (r, w1)" and stk: "0 < stk" "stk < 2 ^ 32"
    and e: "e = time_add (time_at_adr (mem u w1) stk) (time_at_adr (mem u w1) (unat t))"
    and r: "nsec (time_at_adr (mem u w1) stk) \<in> {0..NSEC}" "nsec (time_at_adr (mem u w1) (unat t)) \<in> {0..NSEC}"
    and b: "0 < sec e + nsec e" "sec e + nsec e < 2 ^ 31"
  shows "\<exists>w2. words_from (mem u w2) (stk + 8) 8 = [of_int (sec e), of_int (nsec e), 0, 0, of_nat IPC_WAIT, 0, 0, 0] \<and>
    delay u stk t w = rbind (syscall u ID_ALARM_NEW [of_nat (stk + 36), of_nat (stk + 8)] w2) (\<lambda>(r, w3).
      rbind (alarm_remove u (if r = 0 then ld32 (mem u w3) (stk + 36) else 0) w3) (\<lambda>(r, w4). Inr (0, w4)))"
proof -
  let ?m = "mem u w1" let ?s = "of_int (sec e) :: u32" let ?n = "of_int (nsec e) :: u32"
  let ?m1 = "put_words stk [?s, ?n] ?m" let ?m2 = "put_words (stk + 8) [?s, ?n, 0, 0, of_nat IPC_WAIT, 0, 0] ?m1"
  let ?m3 = "st32 ?m2 (stk + 36) 0"
  have sum: "(if sint (ld32 ?m (stk + 4) + ld32 ?m (unat t + 4)) > NSEC
      then (ld32 ?m stk + ld32 ?m (unat t) + 1, ld32 ?m (stk + 4) + ld32 ?m (unat t + 4) - 1000000000)
      else (ld32 ?m stk + ld32 ?m (unat t), ld32 ?m (stk + 4) + ld32 ?m (unat t + 4))) = (?s, ?n)"
    by (rule delay_sum) (use e r b in \<open>simp_all add: time_at_adr_def\<close>)
  have at: "unat (of_nat stk :: u32) = stk" using stk by (simp add: unat_of_nat take_bit_nat_eq_self)
  then have nz: "(of_nat stk :: u32) \<noteq> 0" using stk(1) by (metis unat_0 less_irrefl)
  have ld: "ld32 ?m1 stk = ?s" "ld32 ?m1 (stk + 4) = ?n" by (simp_all add: ld32_st32_other ld32_st32_same)
  have "sint (word_of_int (sec e + nsec e) :: u32) = sec e + nsec e"
    unfolding sint_sbintrunc' using b by (intro signed_take_bit_int_eq_self) simp_all
  moreover have "?s + ?n = word_of_int (sec e + nsec e)" by (rule of_int_add [symmetric])
  ultimately have "sint (?s + ?n) > 0" using b(1) by presburger
  then have given: "time_given (of_nat stk) ?m1" unfolding time_given_def at ld using nz by blast
  have "put_words (stk + 8) [?s, ?n, 0, 0, of_nat IPC_WAIT, 0, 0, 0] ?m1 = ?m3" by (simp add: add.assoc)
  moreover have "length [?s, ?n, 0, 0, of_nat IPC_WAIT, 0, 0, 0] = 8" by simp
  ultimately have words: "words_from ?m3 (stk + 8) 8 = [?s, ?n, 0, 0, of_nat IPC_WAIT, 0, 0, 0]"
    using words_from_put [of "stk + 8" "[?s, ?n, 0, 0, of_nat IPC_WAIT, 0, 0, 0]" ?m1] by argo
  have a36: "stk + 8 + 28 = stk + 36" by simp
  let ?w2 = "set_mem u ?m3 (set_mem u ?m1 w1)"
  have "delay u stk t w = delay_until u (stk + 8) (of_nat stk) (set_mem u ?m1 w1)"
    unfolding delay_def time_get_def get rbind_Inr prod.case Let_def sum ..
  also have "\<dots> = rbind (syscall u ID_ALARM_NEW [of_nat (stk + 36), of_nat (stk + 8)] ?w2) (\<lambda>(r, w3).
      rbind (alarm_remove u (if r = 0 then ld32 (mem u w3) (stk + 36) else 0) w3) (\<lambda>(r, w4). Inr (0, w4)))"
    unfolding delay_until_def alarm_set_def Let_def law [rule_format] a36
    using given by (simp add: time_given_def ld at rbind_assoc case_prod_unfold add.assoc del: put_words.simps)
  finally show ?thesis using words law by (intro exI [of _ ?w2]) simp
qed

text \<open>A kernel whose clock shows 5.9 s; the program waits 0.1 s. Every call but that for the time is ignored.\<close>

definition clock_process :: "bmem process" where
  "clock_process =
     \<lparr>syscall = (\<lambda>i args m. Inr (0, if i = ID_GET_TIME then put_words (unat (hd args)) [5, 900000000] m else m)),
      mem = (\<lambda>m. m), set_mem = (\<lambda>m w. m), std_in = 1, std_out = 2\<rparr>"

theorem delay_sets_alarm_witness:
  "\<exists>w2. words_from (mem clock_process w2) 4104 8 = [5, 1000000000, 0, 0, 1, 0, 0, 0] \<and>
    delay clock_process 4096 100 (st32 (\<lambda>a. 0) 104 100000000) = Inr (0, w2)"
proof -
  let ?m = "st32 (\<lambda>a. 0) 104 100000000" let ?w1 = "put_words 4096 [5, 900000000] ?m"
  have get: "syscall clock_process ID_GET_TIME [of_nat 4096] ?m = Inr (0, ?w1)" by (simp add: clock_process_def)
  have z: "ld32 (\<lambda>a. 0 :: u8) 100 = 0" by (simp add: ld32_def)
  have t: "time_at_adr (mem clock_process ?w1) 4096 = Time 5 900000000" "time_at_adr (mem clock_process ?w1) (unat (100 :: u32)) = Time 0 100000000"
    by (simp_all add: time_at_adr_def clock_process_def ld32_st32_other ld32_st32_same z)
  have e: "Time 5 1000000000 = time_add (time_at_adr (mem clock_process ?w1) 4096) (time_at_adr (mem clock_process ?w1) (unat (100 :: u32)))"
    unfolding t by (simp add: time_add_def int32_def)
  obtain w2 where 2: "words_from (mem clock_process w2) (4096 + 8) 8 = [of_int 5, of_int 1000000000, 0, 0, of_nat IPC_WAIT, 0, 0, 0]"
    "delay clock_process 4096 100 ?m = rbind (syscall clock_process ID_ALARM_NEW [of_nat (4096 + 36), of_nat (4096 + 8)] w2) (\<lambda>(r, w3).
      rbind (alarm_remove clock_process (if r = 0 then ld32 (mem clock_process w3) (4096 + 36) else 0) w3) (\<lambda>(r, w4). Inr (0, w4)))"
    using delay_sets_alarm [of clock_process 4096 ?m 0 ?w1 "Time 5 1000000000" 100, OF _ get _ _ e] unfolding t by (auto simp: clock_process_def)
  then show ?thesis by (intro exI [of _ w2]) (simp add: clock_process_def alarm_remove_def)
qed

end
