(* ===== verification/Os_Link.thy ===== *)
theory Os_Link
  imports Os_Api Os_Syscall
begin

text \<open>
  The library of the programs on the kernel: a system call as the table of \<^verbatim>\<open>kernel/syscall.c\<close> serves it, with its parameters in the memory that
  the kernel reads them from. The description is right for calls that return to the thread that made them at once; \<open>Os_Syscall\<close> has the
  way through the interrupt. The second part gives the process a terminal of the display driver, interprets the locale \<open>console\<close> on the kernel's locking, sending and unlocking, and
  shows what \<^verbatim>\<open>print\<close> does there.
\<close>

text \<open>\<open>start\<close> is the start of the process in memory, \<open>params\<close> the address of the parameters in the kernel's address space.\<close>

definition kernel_process :: "'p env \<Rightarrow> nat \<Rightarrow> nat \<Rightarrow> 'p mach process" where
  "kernel_process e start params =
     \<lparr>syscall = (\<lambda>i args w. (k_sysfunc e ! i) params (w\<lparr>ks := (ks w)\<lparr>umem := put_words params args (umem (ks w))\<rparr>\<rparr>)),
      mem = (\<lambda>w a. umem (ks w) (start + a)),
      set_mem = (\<lambda>m w. w\<lparr>ks := (ks w)\<lparr>umem := (\<lambda>x. if start \<le> x then m (x - start) else umem (ks w) x)\<rparr>\<rparr>),
      std_in = 0, std_out = 0\<rparr>"

lemma kernel_process_mem: "mem (kernel_process e start params) (set_mem (kernel_process e start params) m w) = m"
  by (simp add: kernel_process_def)

text \<open>The library and the table of the kernel use the same numbers, so that the functions of the library reach the routines of the same name.\<close>

lemma library_reaches_kernel:
  assumes "u = kernel_process e start params" and "W = (\<lambda>args. w\<lparr>ks := (ks w)\<lparr>umem := put_words params args (umem (ks w))\<rparr>\<rparr>)"
  shows "create_thread u f x sc pr h w = lift_k (sys__create_thread (e_n e) params) (W [f, x, sc, pr, h])"
    and "start_program u nm h x sc pr w = lift_k (sys__start_program (e_n e) params) (W [nm, h, x, sc, pr])"
    and "time_get u t w = lift_k (sys__get_time params) (W [t])"
    and "alarm_remove u al w = lift_k (sys__alarm_remove (e_n e) params) (W [al])"
    and "sem_post u sm w = lift_k (sys__sem_post (e_n e) params) (W [sm])"
    and "sem_wait u sm w = lift_k (sys__sem_wait (e_n e) params) (W [sm])"
    and "monitor_lock u mo w = lift_k (sys__monitor_lock (e_n e) params) (W [mo])"
    and "monitor_wait u mo q w = lift_k (sys__monitor_wait (e_n e) params) (W [mo, q])"
    and "monitor_broadcast u q w = lift_k (sys__monitor_broadcast (e_n e) params) (W [q])"
    and "clear_screen u w = sys__device_send (e_io e) params (W [0, 0, of_nat CLEAR, std_out u])"
    and "create_message_queue u q mp w = lift_k (sys__create_msg_queue params) (W [q, mp])"
  by (simp_all only: assms)
    (simp_all add: kernel_process_def k_sysfunc_def create_thread_def start_program_def time_get_def alarm_remove_def sem_post_def sem_wait_def
      monitor_lock_def monitor_wait_def monitor_broadcast_def clear_screen_def create_message_queue_def del: put_words.simps)

text \<open>C39. \<^verbatim>\<open>set_sched_params\<close> of the library passes a thread first, but calls the routine of the kernel that expects the policy there: given the address of
  any thread handle, the kernel refuses the call with \<^verbatim>\<open>E_INVALID_HANDLE\<close> and sets no parameter, whatever policy and priority are asked for.\<close>

theorem set_sched_params_refused:
  assumes "thr \<ge> 2"
  shows "\<exists>w'. set_sched_params (kernel_process e start params) thr policy prio prm w = Inr (- E_INVALID_HANDLE, w') \<and>
    (\<exists>m. ks w' = SET_ERRNO E_INVALID_HANDLE ((ks w)\<lparr>umem := m\<rparr>))"
proof -
  let ?m = "put_words params [thr, policy, prio, prm] (umem (ks w))"
  let ?s = "(ks w)\<lparr>umem := ?m\<rparr>"
  have ld: "int_at params ?s = sint thr" by (simp add: int_at_def ld32_st32_other ld32_st32_same)
  have "\<not> (0 < sint thr \<and> sint thr < 2)"
  proof
    assume a: "0 < sint thr \<and> sint thr < 2"
    then have "sint thr = sint (1 :: u32)" by simp
    then have "thr = 1" by (simp only: signed_word_eqI)
    then show False using assms by (simp add: word_le_nat_alt)
  qed
  then have bad: "\<not> (0 < int_at params ?s \<and> int_at params ?s < SCHED_NUM)" unfolding ld .
  have "sys__set_sched_params params ?s = Inr (- E_INVALID_HANDLE, SET_ERRNO E_INVALID_HANDLE ?s)"
    unfolding sys__set_sched_params_def Let_def assert_errno_exit_def EXIT_def using bad by (rule if_not_P)
  then have "set_sched_params (kernel_process e start params) thr policy prio prm w = Inr (- E_INVALID_HANDLE, w\<lparr>ks := SET_ERRNO E_INVALID_HANDLE ?s\<rparr>)"
    by (simp add: set_sched_params_def kernel_process_def k_sysfunc_def lift_k_def del: put_words.simps)
  then show ?thesis by auto
qed

definition link_demo :: "unit mach" where
  "link_demo = \<lparr>ks = demo (\<lambda>a. 0) (QSem 5000), kbd_st = kbd_start, uart_st = com1_params, vga_st = undefined, prt = ()\<rparr>"

theorem set_sched_params_refused_witness:
  "\<exists>w'. set_sched_params (kernel_process (undefined\<lparr>e_n := 1\<rparr>) 65536 65792) 4096 1 20 0 link_demo = Inr (- E_INVALID_HANDLE, w') \<and>
    t_errno (kt (ks w') 2000) = - E_INVALID_HANDLE \<and> t_policy (kt (ks w') 2000) = t_policy (kt (ks link_demo) 2000)"
proof -
  have "active_thread (ks link_demo) = 2000" by (simp add: link_demo_def)
  then show ?thesis using set_sched_params_refused [of 4096 "undefined\<lparr>e_n := 1\<rparr>" 65536 65792 1 20 0 link_demo]
    by (force simp: word_le_nat_alt SET_ERRNO_def kthread_set_errno_def)
qed

section \<open>The terminal of a program\<close>

text \<open>A process whose standard output is the device with descriptor \<open>k\<close>, a terminal driven by \<open>vga_text\<close>. \<open>show_text\<close> is what the driver does with the characters of a text, one
  after the other.\<close>

definition kernel_terminal :: "'p env \<Rightarrow> nat \<Rightarrow> nat \<Rightarrow> nat \<Rightarrow> 'p mach process" where
  "kernel_terminal e start params k = (kernel_process e start params)\<lparr>std_out := of_nat k\<rparr>"

fun show_text :: "'p io \<Rightarrow> int list \<Rightarrow> vga \<Rightarrow> 'p \<Rightarrow> (vga \<times> 'p) res" where
  "show_text io [] v p = Inr (v, p)"
| "show_text io (c # cs) v p = rbind (vga_text_print_char io c USER_FONT v p) (\<lambda>(r, v, p). show_text io cs v p)"

fun text_of :: "event list \<Rightarrow> int list" where
  "text_of [] = []"
| "text_of (Shown k c attr # es) = c # text_of es"
| "text_of (e # es) = text_of es"

lemma show_text_snoc: "show_text io cs v p = Inr (v', p') \<Longrightarrow> show_text io (cs @ [c]) v p = rbind (vga_text_print_char io c USER_FONT v' p') (\<lambda>(r, v, p). Inr (v, p))"
proof (induction cs arbitrary: v p)
  case (Cons d cs)
  then show ?case by (auto simp: rbind_eq_Inr)
qed (simp add: case_prod_unfold)

lemma text_of_append: "text_of (es @ fs) = text_of es @ text_of fs"
  by (induction es rule: text_of.induct) simp_all

text \<open>The state in which \<open>print\<close> is called: nobody holds the terminal or waits for it, the cursor is on the screen, the active thread belongs to the process
  with \<open>room\<close> bytes at \<open>start\<close>, and the parameters of calls are in its memory.\<close>

definition terminal_ready :: "nat \<Rightarrow> nat \<Rightarrow> nat \<Rightarrow> nat \<Rightarrow> (qid \<Rightarrow> nat list) \<Rightarrow> 'p mach \<Rightarrow> bool" where
  "terminal_ready start room params k A w \<longleftrightarrow>
     queues_ok (ks w) A \<and> A (QDev k) = [] \<and> \<not> locked (kdev (ks w) k) \<and> d_send (dev (kdev (ks w) k)) = FN_vga_text_send \<and> k < 2 ^ 32 \<and>
     p_start (kp (ks w) (kthread_get_process 0 (ks w))) = start \<and> p_size (kp (ks w) (kthread_get_process 0 (ks w))) = room \<and>
     start + room \<le> 2 ^ 32 \<and> start \<le> params \<and> vga_ok (vga_st w)"

text \<open>The states that printing goes through from \<open>w0\<close> on: only memory, the lock, the screen and the ports have changed, and on the screen is what the log says.\<close>

definition terminal :: "'p env \<Rightarrow> nat \<Rightarrow> nat \<Rightarrow> nat \<Rightarrow> nat \<Rightarrow> (qid \<Rightarrow> nat list) \<Rightarrow> 'p mach \<Rightarrow> bool \<Rightarrow> 'p mach \<times> event list \<Rightarrow> bool" where
  "terminal e start room params k A w0 b = (\<lambda>(w, l). terminal_ready start room params k A w0 \<and>
     (\<exists>m v p. w = w0\<lparr>ks := (upd_d k (\<lambda>x. x\<lparr>locked := b\<rparr>) (ks w0))\<lparr>umem := m\<rparr>, vga_st := v, prt := p\<rparr> \<and>
        vga_ok v \<and> show_text (e_io e) (text_of l) (vga_st w0) (prt w0) = Inr (v, p)))"

lemma terminalE:
  assumes "terminal e start room params k A w0 b (w, l)"
  obtains m v p where "terminal_ready start room params k A w0"
    and "w = w0\<lparr>ks := (upd_d k (\<lambda>x. x\<lparr>locked := b\<rparr>) (ks w0))\<lparr>umem := m\<rparr>, vga_st := v, prt := p\<rparr>" and "vga_ok v"
    and "show_text (e_io e) (text_of l) (vga_st w0) (prt w0) = Inr (v, p)"
  using assms unfolding terminal_def by blast

text \<open>Parameters in memory.\<close>

lemma put_words_kept: "x < p \<or> p + 4 * length ws \<le> x \<Longrightarrow> put_words p ws m x = m x"
  by (induction ws arbitrary: p m) (auto simp: st32_def)

lemma ld32_shift: "ld32 (\<lambda>a. m (start + a)) x = ld32 m (start + x)"
  by (simp add: ld32_def add.assoc)

lemma params_kept:
  assumes "start \<le> params" and "length ws \<le> 4"
  shows "kept_outside 0 0 (params - start) (\<lambda>a. m (start + a)) (\<lambda>a. put_words params ws m (start + a))"
  unfolding kept_outside_def using assms by (auto intro!: put_words_kept)

text \<open>The three calls on the kernel's side.\<close>

lemma mach_ks: "(w\<lparr>ks := s, vga_st := v, prt := p\<rparr>)\<lparr>ks := s'\<rparr> = w\<lparr>ks := s', vga_st := v, prt := p\<rparr>" for w :: "'p mach"
  by (cases w) simp

lemma terminal_call:
  "syscall (kernel_terminal e start params k) i args (w\<lparr>ks := s, vga_st := v, prt := p\<rparr>) =
    (k_sysfunc e ! i) params (w\<lparr>ks := s\<lparr>umem := put_words params args (umem s)\<rparr>, vga_st := v, prt := p\<rparr>)" for w :: "'p mach"
  by (simp add: kernel_terminal_def kernel_process_def mach_ks del: put_words.simps)

lemma kernel_lock:
  assumes "terminal e start room params k A w0 False (w, l)"
  shows "\<exists>w'. syscall (kernel_terminal e start params k) ID_DEVICE_LOCK [of_nat k, 1] w = Inr (0, w') \<and>
    (\<forall>l'. text_of l' = text_of l \<longrightarrow> terminal e start room params k A w0 True (w', l')) \<and> umem (ks w') = put_words params [of_nat k, 1] (umem (ks w))"
proof -
  obtain m v p where t: "terminal_ready start room params k A w0" "w = w0\<lparr>ks := (upd_d k (\<lambda>x. x\<lparr>locked := False\<rparr>) (ks w0))\<lparr>umem := m\<rparr>, vga_st := v, prt := p\<rparr>"
    "vga_ok v" "show_text (e_io e) (text_of l) (vga_st w0) (prt w0) = Inr (v, p)" by (rule terminalE [OF assms])
  let ?m = "put_words params [of_nat k, 1] m"
  let ?s = "(upd_d k (\<lambda>x. x\<lparr>locked := False\<rparr>) (ks w0))\<lparr>umem := ?m\<rparr>" and ?s' = "(upd_d k (\<lambda>x. x\<lparr>locked := True\<rparr>) (ks w0))\<lparr>umem := ?m\<rparr>"
  have "k < 2 ^ 32" using t(1) by (simp add: terminal_ready_def)
  then have "ptr_at params ?s = k" by (simp add: ptr_at_def ld32_st32_other ld32_st32_same unat_of_nat take_bit_nat_eq_self)
  then have "sys__device_lock (e_n e) params ?s = Inr (0, ?s')" by (simp add: sys__device_lock_def k_device_lock_def)
  then have "syscall (kernel_terminal e start params k) ID_DEVICE_LOCK [of_nat k, 1] w = Inr (0, w0\<lparr>ks := ?s', vga_st := v, prt := p\<rparr>)"
    unfolding t(2) terminal_call by (simp add: k_sysfunc_def lift_k_def mach_ks del: put_words.simps)
  then show ?thesis using t by (intro exI [of _ "w0\<lparr>ks := ?s', vga_st := v, prt := p\<rparr>"]) (auto simp: terminal_def simp del: put_words.simps)
qed

lemma kernel_unlock:
  assumes "terminal e start room params k A w0 True (w, l)"
  shows "\<exists>w'. syscall (kernel_terminal e start params k) ID_DEVICE_UNLOCK [of_nat k] w = Inr (0, w') \<and>
    (\<forall>l'. text_of l' = text_of l \<longrightarrow> terminal e start room params k A w0 False (w', l')) \<and> umem (ks w') = put_words params [of_nat k] (umem (ks w))"
proof -
  obtain m v p where t: "terminal_ready start room params k A w0" "w = w0\<lparr>ks := (upd_d k (\<lambda>x. x\<lparr>locked := True\<rparr>) (ks w0))\<lparr>umem := m\<rparr>, vga_st := v, prt := p\<rparr>"
    "vga_ok v" "show_text (e_io e) (text_of l) (vga_st w0) (prt w0) = Inr (v, p)" by (rule terminalE [OF assms])
  let ?m = "put_words params [of_nat k] m"
  let ?s = "(upd_d k (\<lambda>x. x\<lparr>locked := True\<rparr>) (ks w0))\<lparr>umem := ?m\<rparr>" and ?s' = "(upd_d k (\<lambda>x. x\<lparr>locked := False\<rparr>) (ks w0))\<lparr>umem := ?m\<rparr>"
  have "k < 2 ^ 32" using t(1) by (simp add: terminal_ready_def)
  then have p: "ptr_at params ?s = k" by (simp add: ptr_at_def ld32_st32_other ld32_st32_same unat_of_nat take_bit_nat_eq_self)
  have "queues_ok ?s A" "A (QDev k) = []" using t(1) by (simp_all add: terminal_ready_def queues_ok_def)
  then have "kthreadq_release (QDev k) ?s = Inr (0, ?s)" by (rule kthreadq_release_empty)
  then have "sys__device_unlock (e_n e) params ?s = Inr (0, ?s')" using p by (simp add: sys__device_unlock_def k_device_unlock_def)
  then have "syscall (kernel_terminal e start params k) ID_DEVICE_UNLOCK [of_nat k] w = Inr (0, w0\<lparr>ks := ?s', vga_st := v, prt := p\<rparr>)"
    unfolding t(2) terminal_call by (simp add: k_sysfunc_def lift_k_def mach_ks del: put_words.simps)
  then show ?thesis using t by (intro exI [of _ "w0\<lparr>ks := ?s', vga_st := v, prt := p\<rparr>"]) (auto simp: terminal_def simp del: put_words.simps)
qed

lemma kernel_send:
  assumes tm: "terminal e start room params k A w0 True (w, l)" and a: "a + 8 \<le> room" "a + 8 \<le> params - start \<or> params - start + 16 \<le> a"
    and f: "sint (ld32 (umem (ks w)) (start + a + 4)) = USER_FONT"
  shows "\<exists>w'. syscall (kernel_terminal e start params k) ID_DEVICE_SEND [of_nat a, 8, of_nat PRINTCHAR, of_nat k] w = Inr (0, w') \<and>
    (\<forall>l'. text_of l' = text_of l @ [sint (ld32 (umem (ks w)) (start + a))] \<longrightarrow> terminal e start room params k A w0 True (w', l')) \<and>
    umem (ks w') = put_words params [of_nat a, 8, of_nat PRINTCHAR, of_nat k] (umem (ks w))"
proof -
  obtain m v p where t: "terminal_ready start room params k A w0" "w = w0\<lparr>ks := (upd_d k (\<lambda>x. x\<lparr>locked := True\<rparr>) (ks w0))\<lparr>umem := m\<rparr>, vga_st := v, prt := p\<rparr>"
    "vga_ok v" "show_text (e_io e) (text_of l) (vga_st w0) (prt w0) = Inr (v, p)" by (rule terminalE [OF tm])
  let ?m = "put_words params [of_nat a, 8, of_nat PRINTCHAR, of_nat k] m" and ?c = "sint (ld32 m (start + a))"
  let ?s = "(upd_d k (\<lambda>x. x\<lparr>locked := True\<rparr>) (ks w0))\<lparr>umem := ?m\<rparr>" let ?w = "w0\<lparr>ks := ?s, vga_st := v, prt := p\<rparr>"
  have r: "k < 2 ^ 32" "start + room \<le> 2 ^ 32" "start \<le> params" "d_send (dev (kdev (ks w0) k)) = FN_vga_text_send"
    "p_start (kp (ks w0) (kthread_get_process 0 (ks w0))) = start" "p_size (kp (ks w0) (kthread_get_process 0 (ks w0))) = room"
    using t(1) by (simp_all add: terminal_ready_def)
  have u: "unat (of_nat a :: u32) = a" "unat (of_nat k :: u32) = k" using r a by (simp_all add: unat_of_nat take_bit_nat_eq_self)
  have ld: "ld32 ?m params = of_nat a" "ld32 ?m (params + 4) = 8" "ld32 ?m (params + 8) = of_nat PRINTCHAR" "ld32 ?m (params + 12) = of_nat k"
    using words_from_put [of params "[of_nat a, 8, of_nat PRINTCHAR, of_nat k]" m] by (simp_all add: words_from_def upt_rec del: put_words.simps)
  have buf: "ld32 ?m (start + a) = ld32 m (start + a)" "ld32 ?m (start + a + 4) = ld32 m (start + a + 4)"
    using a r(3) by (auto intro!: put_words_outside simp del: put_words.simps)
  have up: "user_ptr params ?s = Inr (start + a)"
    using a r(2,5,6) u(1) ld(1) by (simp add: user_ptr_def k_u2k_adr_def ptr_at_def kthread_get_process_def or_active_def add.commute del: put_words.simps)
  have ar: "ptr_at (params + 4) ?s = 8" "int_at (params + 8) ?s = int PRINTCHAR" "ptr_at (params + 12) ?s = k"
    using ld u(2) by (simp_all add: ptr_at_def int_at_def del: put_words.simps)
  obtain v' p' where c: "vga_text_print_char (e_io e) ?c USER_FONT v p = Inr (0, v', p')" "vga_ok v'"
    using vga_print_ok [OF t(3), of USER_FONT "e_io e" ?c p] by auto
  have "uint32 (int PRINTCHAR) = PRINTCHAR" by (simp add: uint32_def)
  moreover have "int_at (start + a) ?s = ?c" "int_at (start + a + 4) ?s = USER_FONT" using buf f t(2) by (simp_all add: int_at_def del: put_words.simps)
  ultimately have "sys__device_send (e_io e) params ?w = Inr (0, ?w\<lparr>vga_st := v', prt := p'\<rparr>)"
    using up ar r(4) c(1) by (simp add: sys__device_send_def k_device_send_def call_send_def vga_text_send_def del: put_words.simps)
  then have sy: "syscall (kernel_terminal e start params k) ID_DEVICE_SEND [of_nat a, 8, of_nat PRINTCHAR, of_nat k] w = Inr (0, ?w\<lparr>vga_st := v', prt := p'\<rparr>)"
    unfolding t(2) terminal_call by (simp add: k_sysfunc_def del: put_words.simps)
  have "show_text (e_io e) (text_of l @ [?c]) (vga_st w0) (prt w0) = Inr (v', p')" unfolding show_text_snoc [OF t(4)] c(1) by simp
  then show ?thesis using sy t c(2) by (intro exI [of _ "?w\<lparr>vga_st := v', prt := p'\<rparr>"]) (auto simp: terminal_def simp del: put_words.simps)
qed

text \<open>The kernel is a console for its programs.\<close>

interpretation kcon: console "traced (kernel_terminal e start params k)" "terminal e start room params k A w0 False" "terminal e start room params k A w0 True"
  snd "params - start" room for e :: "'p env" and start room params k A w0
proof
  let ?u = "kernel_terminal e start params k"
  have mu: "mem ?u = (\<lambda>w a. umem (ks w) (start + a))" "std_out ?u = of_nat k" by (simp_all add: kernel_terminal_def kernel_process_def)
  fix m :: bmem and w :: "'p mach \<times> event list" and a :: nat
  obtain x l where w: "w = (x, l)" by (cases w)
  show "mem (traced ?u) (set_mem (traced ?u) m w) = m" by (simp add: w kernel_terminal_def kernel_process_def)
  show "snd (set_mem (traced ?u) m w) = snd w" by (simp add: w)
  show "terminal e start room params k A w0 True (set_mem (traced ?u) m w)" if f: "terminal e start room params k A w0 True w"
  proof -
    obtain m' v p where t: "terminal_ready start room params k A w0" "x = w0\<lparr>ks := (upd_d k (\<lambda>x. x\<lparr>locked := True\<rparr>) (ks w0))\<lparr>umem := m'\<rparr>, vga_st := v, prt := p\<rparr>"
      "vga_ok v" "show_text (e_io e) (text_of l) (vga_st w0) (prt w0) = Inr (v, p)" using terminalE [OF f [unfolded w]] by blast
    have "set_mem ?u m x = w0\<lparr>ks := (upd_d k (\<lambda>x. x\<lparr>locked := True\<rparr>) (ks w0))\<lparr>umem := \<lambda>y. if start \<le> y then m (y - start) else m' y\<rparr>, vga_st := v, prt := p\<rparr>"
      unfolding t(2) by (simp add: kernel_terminal_def kernel_process_def mach_ks cong: if_cong)
    then show ?thesis using t(1,3,4) unfolding w traced_sel terminal_def by blast
  qed
  show "\<exists>r w'. syscall (traced ?u) ID_DEVICE_LOCK [std_out (traced ?u), 1] w = Inr (r, w') \<and> terminal e start room params k A w0 True w' \<and>
      snd w' = snd w @ [Locked (std_out (traced ?u))] \<and> kept_outside 0 0 (params - start) (mem (traced ?u) w) (mem (traced ?u) w')"
    if f: "terminal e start room params k A w0 False w"
  proof -
    have sp: "start \<le> params" using f by (auto simp: w terminal_def terminal_ready_def)
    obtain x' where x': "syscall ?u ID_DEVICE_LOCK [of_nat k, 1] x = Inr (0, x')"
      "\<forall>l'. text_of l' = text_of l \<longrightarrow> terminal e start room params k A w0 True (x', l')" "umem (ks x') = put_words params [of_nat k, 1] (umem (ks x))"
      using kernel_lock [OF f [unfolded w]] by blast
    then show ?thesis using params_kept [OF sp, of "[of_nat k, 1]" "umem (ks x)"]
      by (intro exI [of _ 0] exI [of _ "(x', l @ [Locked (of_nat k)])"]) (simp add: w mu event_of_def text_of_append del: put_words.simps)
  qed
  show "\<exists>r w'. syscall (traced ?u) ID_DEVICE_UNLOCK [std_out (traced ?u)] w = Inr (r, w') \<and> terminal e start room params k A w0 False w' \<and>
      snd w' = snd w @ [Unlocked (std_out (traced ?u))] \<and> kept_outside 0 0 (params - start) (mem (traced ?u) w) (mem (traced ?u) w')"
    if f: "terminal e start room params k A w0 True w"
  proof -
    have sp: "start \<le> params" using f by (auto simp: w terminal_def terminal_ready_def)
    obtain x' where x': "syscall ?u ID_DEVICE_UNLOCK [of_nat k] x = Inr (0, x')"
      "\<forall>l'. text_of l' = text_of l \<longrightarrow> terminal e start room params k A w0 False (x', l')" "umem (ks x') = put_words params [of_nat k] (umem (ks x))"
      using kernel_unlock [OF f [unfolded w]] by blast
    then show ?thesis using params_kept [OF sp, of "[of_nat k]" "umem (ks x)"]
      by (intro exI [of _ 0] exI [of _ "(x', l @ [Unlocked (of_nat k)])"]) (simp add: w mu event_of_def text_of_append del: put_words.simps)
  qed
  show "\<exists>r w'. syscall (traced ?u) ID_DEVICE_SEND [of_nat a, 8, of_nat PRINTCHAR, std_out (traced ?u)] w = Inr (r, w') \<and> terminal e start room params k A w0 True w' \<and>
      snd w' = snd w @ [Shown (std_out (traced ?u)) (sint (ld32 (mem (traced ?u) w) a)) USER_FONT] \<and> kept_outside 0 0 (params - start) (mem (traced ?u) w) (mem (traced ?u) w')"
    if f: "terminal e start room params k A w0 True w" and a: "a + 8 \<le> room" "a + 8 \<le> params - start \<or> params - start + 16 \<le> a"
      and at: "sint (ld32 (mem (traced ?u) w) (a + 4)) = USER_FONT"
  proof -
    have sp: "start \<le> params" "start + room \<le> 2 ^ 32" using f by (auto simp: w terminal_def terminal_ready_def)
    have ua: "unat (of_nat a :: u32) = a" using a(1) sp(2) by (simp add: unat_of_nat take_bit_nat_eq_self)
    have ld: "ld32 (mem ?u x) a = ld32 (umem (ks x)) (start + a)" "ld32 (mem ?u x) (a + 4) = ld32 (umem (ks x)) (start + a + 4)"
      unfolding mu using ld32_shift [of "umem (ks x)" start] by (simp_all add: add.assoc)
    have at': "sint (ld32 (umem (ks x)) (start + a + 4)) = USER_FONT" using at ld(2) by (simp add: w)
    obtain x' where x': "syscall ?u ID_DEVICE_SEND [of_nat a, 8, of_nat PRINTCHAR, of_nat k] x = Inr (0, x')"
      "\<forall>l'. text_of l' = text_of l @ [sint (ld32 (umem (ks x)) (start + a))] \<longrightarrow> terminal e start room params k A w0 True (x', l')"
      "umem (ks x') = put_words params [of_nat a, 8, of_nat PRINTCHAR, of_nat k] (umem (ks x))"
      using kernel_send [OF f [unfolded w] a at'] by blast
    have ev: "event_of ID_DEVICE_SEND [of_nat a, 8, of_nat PRINTCHAR, of_nat k] (mem ?u x) = Shown (of_nat k) (sint (ld32 (umem (ks x)) (start + a))) USER_FONT"
      using at' ld ua by (simp add: event_of_def)
    show ?thesis using params_kept [OF sp(1), of "[of_nat a, 8, of_nat PRINTCHAR, of_nat k]" "umem (ks x)"] x' ev ld(1)
      by (intro exI [of _ 0] exI [of _ "(x', l @ [Shown (of_nat k) (sint (ld32 (umem (ks x)) (start + a))) USER_FONT])"])
        (simp add: w mu text_of_append del: put_words.simps)
  qed
qed

text \<open>C23. \<^verbatim>\<open>print\<close> on the kernel, for a terminal of \<open>vga_text\<close> that nobody holds or waits for: it returns, and its system calls are exactly locking the standard output, one
  \<open>PRINTCHAR\<close> for every character of the text that the format describes, in order and with the programs' attribute, and unlocking it. The screen is then what the
  driver makes of that text, the terminal is free again and the rest of the kernel's state is unchanged; of the memory of the process only the local
  variables of \<^verbatim>\<open>print\<close> and the parameters of its calls have changed. The format has to suit its arguments, and texts, local variables and parameters do not overlap.\<close>

theorem print_sends_text:
  assumes "terminal_ready start room params k A w" and u: "u = kernel_terminal e start params k" and prm: "prm = params - start"
    and "stk + 28 \<le> room" and "stk + 28 \<le> prm \<or> prm + 16 \<le> stk"
    and "format \<noteq> 0" and "text_at (mem u w) stk prm (unat format) f" and "fmt_ok f as" and "list_all2 (arg_at (mem u w) null stk prm) args as"
  shows "\<exists>w'. print u null stk format args w = Inr (0, w') \<and>
    print (traced u) null stk format args (w, []) =
      Inr (0, w', Locked (of_nat k) # map (\<lambda>c. Shown (of_nat k) c USER_FONT) (format_text f as) @ [Unlocked (of_nat k)]) \<and>
    show_text (e_io e) (format_text f as) (vga_st w) (prt w) = Inr (vga_st w', prt w') \<and>
    ks w' = (ks w)\<lparr>umem := umem (ks w')\<rparr> \<and> kept_outside stk 28 prm (mem u w) (mem u w')"
proof -
  have free: "terminal e start room params k A w False (w, [])"
  proof -
    have "(kdev (ks w) k)\<lparr>locked := False\<rparr> = kdev (ks w) k" using assms(1) by (cases "kdev (ks w) k") (simp add: terminal_ready_def)
    then have "w = w\<lparr>ks := (upd_d k (\<lambda>x. x\<lparr>locked := False\<rparr>) (ks w))\<lparr>umem := umem (ks w)\<rparr>, vga_st := vga_st w, prt := prt w\<rparr>" by simp
    moreover have "vga_ok (vga_st w)" using assms(1) by (simp add: terminal_ready_def)
    moreover have "show_text (e_io e) (text_of []) (vga_st w) (prt w) = Inr (vga_st w, prt w)" by simp
    ultimately show ?thesis using assms(1) unfolding terminal_def by blast
  qed
  have stk: "kcon.stack_ok params start room stk" using assms(4,5) by (simp add: kcon.stack_ok_def prm)
  have so: "std_out (traced u) = of_nat k" by (simp add: u kernel_terminal_def)
  obtain w' l where p: "print (traced u) null stk format args (w, []) = Inr (0, w', l)" "terminal e start room params k A w False (w', l)"
    "l = Locked (of_nat k) # map (\<lambda>c. Shown (of_nat k) c USER_FONT) (format_text f as) @ [Unlocked (of_nat k)]" "kept_outside stk 28 prm (mem u w) (mem u w')"
    using kcon.print_shown [OF free stk assms(6), of f as null args] assms(7-9) so unfolding kcon.shown_def u prm by auto
  have tx: "text_of l = format_text f as"
  proof -
    have "text_of (map (\<lambda>c. Shown (of_nat k) c USER_FONT) cs @ [Unlocked (of_nat k)]) = cs" for cs by (induction cs) simp_all
    then show ?thesis by (simp add: p(3))
  qed
  obtain m v q where t: "w' = w\<lparr>ks := (upd_d k (\<lambda>x. x\<lparr>locked := False\<rparr>) (ks w))\<lparr>umem := m\<rparr>, vga_st := v, prt := q\<rparr>"
    "show_text (e_io e) (format_text f as) (vga_st w) (prt w) = Inr (v, q)" using terminalE [OF p(2)] unfolding tx by metis
  have "(kdev (ks w) k)\<lparr>locked := False\<rparr> = kdev (ks w) k" using assms(1) by (cases "kdev (ks w) k") (simp add: terminal_ready_def)
  then have "ks w' = (ks w)\<lparr>umem := umem (ks w')\<rparr>" by (simp add: t(1))
  moreover have "print u null stk format args w = Inr (0, w')" using traced_print [of u null stk format args w "[]"] p(1) by simp
  ultimately show ?thesis using p(1,3,4) t by (intro exI [of _ w']) simp
qed

text \<open>The program at \<open>0x10000\<close> prints \<^verbatim>\<open>"n=%d"\<close> and 42 on the terminal with descriptor 900.\<close>

definition print_demo :: "unit mach" where
  "print_demo = link_demo\<lparr>
     ks := (demo (\<lambda>a. if 65636 \<le> a \<and> a < 65640 then [110, 61, 37, 100] ! (a - 65636) else 0) (QSem 5000))\<lparr>kdev := \<lambda>k. demo_device\<lparr>dev := vga_text_dev\<rparr>\<rparr>,
     vga_st := \<lparr>xpos = 0, ypos = 0, pmem = (\<lambda>a. 0)\<rparr>\<rparr>"

definition print_env :: "unit env" where
  "print_env = undefined\<lparr>e_io := \<lparr>inb = (\<lambda>a p. (0, p)), outb = (\<lambda>a v p. p)\<rparr>\<rparr>"

theorem print_sends_text_witness:
  "\<exists>w'. print (traced (kernel_terminal print_env 65536 69632 900)) 0 8192 100 [42] (print_demo, []) =
      Inr (0, w', [Locked 900, Shown 900 110 2, Shown 900 61 2, Shown 900 52 2, Shown 900 50 2, Unlocked 900]) \<and>
    xpos (vga_st w') = 4 \<and> \<not> locked (kdev (ks w') 900)"
proof -
  let ?u = "kernel_terminal print_env 65536 69632 900" and ?D = "demo_queues (QSem 5000)"
  have "kinv (demo m (QSem 5000)) ?D 1000" for m by (rule demo_kinv) simp
  then have "queues_ok (demo m (QSem 5000)) ?D" for m using kinvD(1) by blast
  then have r: "terminal_ready 65536 65536 69632 900 ?D print_demo"
    by (simp add: terminal_ready_def print_demo_def queues_ok_def vga_ok_def demo_device_def vga_text_dev_def kthread_get_process_def or_active_def)
  have mem: "mem ?u print_demo = (\<lambda>a. if 100 \<le> a \<and> a < 104 then [110, 61, 37, 100] ! (a - 100) else 0)"
    by (simp add: kernel_terminal_def kernel_process_def print_demo_def fun_eq_iff)
  have t: "text_at (mem ?u print_demo) 8192 4096 (unat (100 :: u32)) [110, 61, 37, 100]" unfolding mem by (simp add: text_at_def)
  have a: "list_all2 (arg_at (mem ?u print_demo) 0 8192 4096) [42] [Num 42]" by (simp add: arg_at_def)
  have "number_text 100 42 = [52, 50]" by (simp add: number_text_def number_digits_def digits_of.simps digit_char_def)
  then have f: "format_text [110, 61, 37, 100] [Num 42] = [110, 61, 52, 50]" by (simp add: arg_text_def)
  have ok: "fmt_ok [110, 61, 37, 100] [Num 42]" by simp
  have g: "(4096 :: nat) = 69632 - 65536" "(8192 :: nat) + 28 \<le> 65536" "(8192 :: nat) + 28 \<le> 4096 \<or> 4096 + 16 \<le> (8192 :: nat)" "(100 :: u32) \<noteq> 0" by simp_all
  from print_sends_text [OF r refl g t ok a] obtain w' where w': "print (traced ?u) 0 8192 100 [42] (print_demo, []) =
      Inr (0, w', Locked (of_nat 900) # map (\<lambda>c. Shown (of_nat 900) c USER_FONT) [110, 61, 52, 50] @ [Unlocked (of_nat 900)])"
    "show_text (e_io print_env) [110, 61, 52, 50] (vga_st print_demo) (prt print_demo) = Inr (vga_st w', prt w')"
    "ks w' = (ks print_demo)\<lparr>umem := umem (ks w')\<rparr>" unfolding f by blast
  have "xpos (vga_st w') = 4"
    using w'(2) by (simp add: print_env_def print_demo_def vga_text_print_char_def put_char_def color_at_def vga_text_gotoxy_def Let_def)
      (drule arg_cong [of _ _ xpos], simp)
  moreover have "\<not> locked (kdev (ks w') 900)" using r by (subst w'(3)) (simp add: terminal_ready_def)
  ultimately show ?thesis using w'(1) by auto
qed

end
