(* ===== verification/Os_Shell.thy ===== *)
theory Os_Shell
  imports Os_Api
begin

text \<open>
  The command shell, \<^verbatim>\<open>programs/shell/shell.c\<close>: reading a line with its editing, splitting it into words in place, and starting what the first
  word names. The local arrays \<^verbatim>\<open>cmd\<close> and \<^verbatim>\<open>argval\<close> and the string constants are at addresses that the compiler determines
  (record \<open>shell_env\<close>). Splitting is compared with a definition of words on lists of characters.
\<close>

section \<open>The shell\<close>

abbreviation (input) MAXCMDLEN :: nat where "MAXCMDLEN \<equiv> 72"
abbreviation (input) MAXARGS :: nat where "MAXARGS \<equiv> 10"
abbreviation (input) INFO_SIZE :: nat where "INFO_SIZE \<equiv> 1000"
abbreviation (input) THR_DEFAULT_PRIO :: u32 where "THR_DEFAULT_PRIO \<equiv> 20"

record shell_env =
  c_cmd :: nat
  c_argval :: nat
  c_t :: nat
  c_thr :: nat
  c_info :: nat
  c_stk :: nat
  l_null :: nat
  l_banner :: u32
  l_prompt :: u32
  l_char :: u32
  l_newline :: u32
  l_error :: u32
  l_invalid :: u32
  l_leave :: u32
  l_list :: u32
  l_item :: u32
  l_quit_exit :: u32
  l_line :: u32
  l_help :: nat
  l_clear :: nat
  l_sysinfo :: nat
  l_quit :: nat
  l_exit :: nat

definition say :: "'w process \<Rightarrow> shell_env \<Rightarrow> u32 \<Rightarrow> u32 list \<Rightarrow> 'w \<Rightarrow> 'w res" where
  "say u E format args w = rbind (print u (l_null E) (c_stk E) format args w) (\<lambda>(r, w). Inr w)"

definition poke_byte :: "'w process \<Rightarrow> nat \<Rightarrow> u8 \<Rightarrow> 'w \<Rightarrow> 'w" where
  "poke_byte u a v w = set_mem u ((mem u w)(a := v)) w"

text \<open>The loop that reads a line; the result says whether there is a command (otherwise \<^verbatim>\<open>goto new_cmd\<close>).\<close>

fun read_cmd :: "nat \<Rightarrow> 'w process \<Rightarrow> shell_env \<Rightarrow> nat \<Rightarrow> 'w \<Rightarrow> (bool \<times> 'w) res" where
  "read_cmd 0 u E i w = Inl Out_of_fuel"
| "read_cmd (Suc n) u E i w =
     (if \<not> i < MAXCMDLEN then Inr (True, w)
      else
        rbind (get_char u (c_stk E) w) (\<lambda>(key, w).
        if key = 0 then rbind (delay u (c_stk E) (of_nat (c_t E)) w) (\<lambda>(r, w). read_cmd n u E i w)
        else if key = 10 then Inr (i > 0, w)
        else if key = 8 then
          if i > 0 then rbind (say u E (l_char E) [word_of_int key] (poke_byte u (c_cmd E + (i - 1)) 0 w)) (read_cmd n u E (i - 1))
          else read_cmd n u E i w
        else
          rbind (say u E (l_char E) [word_of_int key] w) (\<lambda>w.
          read_cmd n u E (i + 1) (poke_byte u (c_cmd E + i) (word_of_int key) w))))"

definition blank :: "u8 \<Rightarrow> bool" where
  "blank c \<longleftrightarrow> c = 32 \<or> c = 9"

text \<open>\<^verbatim>\<open>while ( cmd[i] && cmd[i] != ' ' && cmd[i] != '\t' && i < MAXCMDLEN ) i++;\<close>\<close>

function skip_word :: "nat \<Rightarrow> nat \<Rightarrow> bmem \<Rightarrow> nat" where
  "skip_word cmd i m = (if m (cmd + i) \<noteq> 0 \<and> \<not> blank (m (cmd + i)) \<and> i < MAXCMDLEN then skip_word cmd (i + 1) m else i)"
  by pat_completeness auto
termination by (relation "measure (\<lambda>(cmd, i, m). MAXCMDLEN - i)") auto

declare skip_word.simps [simp del]

lemma skip_word_ge: "i \<le> skip_word cmd i m"
proof (induction cmd i m rule: skip_word.induct)
  case (1 cmd i m)
  then show ?case by (subst skip_word.simps) auto
qed

function parse_loop :: "nat \<Rightarrow> nat \<Rightarrow> nat list \<Rightarrow> bmem \<Rightarrow> nat list \<times> bmem" where
  "parse_loop cmd i argval m =
     (if i < MAXCMDLEN \<and> m (cmd + i) \<noteq> 0 \<and> length argval < MAXARGS then
        if blank (m (cmd + i)) then parse_loop cmd (i + 1) argval m
        else
          let j = skip_word cmd i m
          in parse_loop cmd (j + 1) (argval @ [cmd + i]) (m(cmd + j := 0))
      else (argval, m))"
  by pat_completeness auto
termination
proof (relation "measure (\<lambda>(cmd, i, argval, m). MAXCMDLEN - i)")
  fix cmd i :: nat and argval :: "nat list" and m :: bmem and x :: nat
  assume "i < MAXCMDLEN \<and> m (cmd + i) \<noteq> 0 \<and> length argval < MAXARGS" "x = skip_word cmd i m"
  then show "((cmd, x + 1, argval @ [cmd + i], m(cmd + x := 0)), cmd, i, argval, m) \<in> measure (\<lambda>(cmd, i, argval, m). MAXCMDLEN - i)"
    using skip_word_ge [of i cmd m] by auto
qed auto

declare parse_loop.simps [simp del]

definition parse_cmd :: "'w process \<Rightarrow> shell_env \<Rightarrow> 'w \<Rightarrow> nat list \<times> 'w" where
  "parse_cmd u E w =
     (let (argval, m) = parse_loop (c_cmd E) 0 [] (mem u w)
      in (argval, set_mem u (put_words (c_argval E) (map of_nat argval @ [0]) m) w))"

definition shell_help :: "'w process \<Rightarrow> shell_env \<Rightarrow> 'w \<Rightarrow> (int \<times> 'w) res" where
  "shell_help u E w =
     rbind (say u E (l_list E) [] w) (\<lambda>w.
     rbind (say u E (l_item E) [of_nat (l_help E)] w) (\<lambda>w.
     rbind (say u E (l_item E) [of_nat (l_clear E)] w) (\<lambda>w.
     rbind (say u E (l_item E) [of_nat (l_sysinfo E)] w) (\<lambda>w.
     rbind (say u E (l_quit_exit E) [] w) (\<lambda>w. Inr (0, w))))))"

definition shell_clear :: "'w process \<Rightarrow> 'w \<Rightarrow> (int \<times> 'w) res" where
  "shell_clear u w = clear_screen u w"

definition shell_sysinfo :: "'w process \<Rightarrow> shell_env \<Rightarrow> u32 \<Rightarrow> 'w \<Rightarrow> (int \<times> 'w) res" where
  "shell_sysinfo u E args w =
     rbind (syscall u ID_SYSINFO [of_nat (c_info E), of_nat INFO_SIZE, args] w) (\<lambda>(r, w).
     rbind (say u E (l_line E) [of_nat (c_info E)] w) (\<lambda>w. Inr (0, w)))"

text \<open>Comparing the first word with a name; without a word the first argument is \<^verbatim>\<open>NULL\<close>.\<close>

definition is_cmd :: "'w process \<Rightarrow> shell_env \<Rightarrow> nat \<Rightarrow> 'w \<Rightarrow> bool res" where
  "is_cmd u E name w = rbind (strcmp (unat (ld32 (mem u w) (c_argval E))) name (mem u w)) (\<lambda>r. Inr (r = 0))"

definition builtin :: "'w process \<Rightarrow> shell_env \<Rightarrow> ('w \<Rightarrow> (int \<times> 'w) res) \<Rightarrow> 'w \<Rightarrow> (bool \<times> 'w) res" where
  "builtin u E func w =
     rbind (func w) (\<lambda>(r, w). rbind (if r \<noteq> 0 then say u E (l_error E) [] w else Inr w) (\<lambda>w. Inr (True, w)))"

text \<open>The result is false when the shell is left.\<close>

definition run_cmd :: "nat \<Rightarrow> 'w process \<Rightarrow> shell_env \<Rightarrow> nat list \<Rightarrow> 'w \<Rightarrow> (bool \<times> 'w) res" where
  "run_cmd n u E argval w =
     (let arg0 = (\<lambda>w. ld32 (mem u w) (c_argval E))
      in rbind (is_cmd u E (l_help E) w) (\<lambda>b. if b then builtin u E (shell_help u E) w else
         rbind (is_cmd u E (l_clear E) w) (\<lambda>b. if b then builtin u E (shell_clear u) w else
         rbind (is_cmd u E (l_sysinfo E) w) (\<lambda>b. if b then builtin u E (shell_sysinfo u E (of_nat (c_argval E))) w else
         rbind (start_program u (arg0 w) (of_nat (c_thr E)) (of_nat (c_argval E)) 0 THR_DEFAULT_PRIO w) (\<lambda>(r, w).
         if r = 0 then
           if length argval < 2 \<or> mem u w (unat (ld32 (mem u w) (c_argval E + 4 * (length argval - 1)))) \<noteq> 38 then
             rbind (wait_for_thread n u (of_nat (c_thr E)) (of_nat IPC_WAIT) w) (\<lambda>(r, w). Inr (True, w))
           else Inr (True, w)
         else
           rbind (is_cmd u E (l_quit E) w) (\<lambda>b. if b then Inr (False, w) else
           rbind (is_cmd u E (l_exit E) w) (\<lambda>b. if b then Inr (False, w) else
           rbind (say u E (l_invalid E) [] w) (\<lambda>w. Inr (True, w)))))))))"

fun shell_loop :: "nat \<Rightarrow> 'w process \<Rightarrow> shell_env \<Rightarrow> 'w \<Rightarrow> 'w res" where
  "shell_loop 0 u E w = Inl Out_of_fuel"
| "shell_loop (Suc n) u E w =
     rbind (say u E (l_prompt E) [] w) (\<lambda>w.
     let w = set_mem u (memset (c_cmd E) 0 MAXCMDLEN (mem u w)) w
     in rbind (read_cmd n u E 0 w) (\<lambda>(b, w).
        if \<not> b then shell_loop n u E w
        else
          rbind (say u E (l_newline E) [] w) (\<lambda>w.
          let (argval, w) = parse_cmd u E w
          in rbind (run_cmd n u E argval w) (\<lambda>(b, w). if b then shell_loop n u E w else Inr w))))"

definition shell :: "nat \<Rightarrow> 'w process \<Rightarrow> shell_env \<Rightarrow> 'w \<Rightarrow> (int \<times> 'w) res" where
  "shell n u E w =
     rbind (say u E (l_banner E) [] w) (\<lambda>w.
     rbind (shell_help u E w) (\<lambda>(r, w).
     let w = set_mem u (put_words (c_t E) [0, 100000000] (mem u w)) w
     in rbind (shell_loop n u E w) (\<lambda>w.
        rbind (say u E (l_leave E) [] w) (\<lambda>w. Inr (0, w)))))"

section \<open>Words\<close>

function words :: "u8 list \<Rightarrow> u8 list list" where
  "words xs =
     (case dropWhile blank xs of
        [] \<Rightarrow> []
      | y # ys \<Rightarrow> takeWhile (\<lambda>c. \<not> blank c) (y # ys) # words (dropWhile (\<lambda>c. \<not> blank c) (y # ys)))"
  by pat_completeness auto
termination
proof (relation "measure length")
  fix xs :: "u8 list" and y ys
  assume "dropWhile blank xs = y # ys"
  then have "\<not> blank y" "length (y # ys) \<le> length xs" using hd_dropWhile [of blank xs] length_dropWhile_le [of blank xs] by auto
  then show "(dropWhile (\<lambda>c. \<not> blank c) (y # ys), xs) \<in> measure length" using length_dropWhile_le [of "\<lambda>c. \<not> blank c" ys] by simp
qed simp

declare words.simps [simp del]

lemma words_Nil [simp]: "words [] = []"
  by (subst words.simps) simp

lemma words_blank: "blank c \<Longrightarrow> words (c # xs) = words xs"
  by (subst words.simps, subst (2) words.simps) simp

lemma words_word: "\<not> blank c \<Longrightarrow> words (c # xs) = takeWhile (\<lambda>c. \<not> blank c) (c # xs) # words (tl (dropWhile (\<lambda>c. \<not> blank c) (c # xs)))"
proof -
  assume c: "\<not> blank c"
  have "words (dropWhile (\<lambda>c. \<not> blank c) zs) = words (tl (dropWhile (\<lambda>c. \<not> blank c) zs))" for zs
  proof (cases "dropWhile (\<lambda>c. \<not> blank c) zs")
    case (Cons d ds)
    then have "blank d" using hd_dropWhile [of "\<lambda>c. \<not> blank c" zs] by simp
    then show ?thesis by (simp add: Cons words_blank)
  next
    case Nil
    then show ?thesis by (simp only: list.sel)
  qed
  then show ?thesis using c by (subst words.simps) simp
qed

text \<open>The rest \<open>ys\<close> of a line from position \<open>i\<close> on; the remainder of the buffer is clear.\<close>

definition line_from :: "bmem \<Rightarrow> nat \<Rightarrow> nat \<Rightarrow> u8 list \<Rightarrow> bool" where
  "line_from m cmd i ys \<longleftrightarrow> 0 \<notin> set ys \<and> (ys \<noteq> [] \<longrightarrow> i + length ys \<le> MAXCMDLEN) \<and> (\<forall>k<length ys. m (cmd + i + k) = ys ! k) \<and>
     (\<forall>k. i + length ys \<le> k \<and> k < MAXCMDLEN \<longrightarrow> m (cmd + k) = 0)"

lemma line_from_Cons: "line_from m cmd i (y # ys) \<Longrightarrow> m (cmd + i) = y \<and> y \<noteq> 0 \<and> i < MAXCMDLEN \<and> line_from m cmd (i + 1) ys"
  unfolding line_from_def by (auto dest: spec [of _ 0] spec [of _ "Suc _"])

lemma skip_word_line: "line_from m cmd i ys \<Longrightarrow> i \<le> MAXCMDLEN \<Longrightarrow> skip_word cmd i m = i + length (takeWhile (\<lambda>c. \<not> blank c) ys)"
proof (induction ys arbitrary: i)
  case Nil
  then show ?case by (subst skip_word.simps) (auto simp: line_from_def)
next
  case (Cons y ys)
  note l = line_from_Cons [OF Cons.prems(1)]
  show ?case
  proof (cases "blank y")
    case True
    then show ?thesis using l by (subst skip_word.simps) simp
  next
    case False
    then show ?thesis using l Cons.IH [of "i + 1"] by (subst skip_word.simps) simp
  qed
qed

lemma line_from_drop: "line_from m cmd i (us @ vs) \<Longrightarrow> line_from m cmd (i + length us) vs"
proof (induction us arbitrary: i)
  case (Cons u us)
  then have "line_from m cmd (i + 1) (us @ vs)" using line_from_Cons [of m cmd i u "us @ vs"] by simp
  from Cons.IH [OF this] show ?case by simp
qed simp

lemma line_from_store:
  assumes "line_from m cmd i ys" and "j < i"
  shows "line_from (m(cmd + j := v)) cmd i ys"
  using assms unfolding line_from_def by auto

lemma line_from_tl: "line_from m cmd j ys \<Longrightarrow> line_from m cmd (j + 1) (tl ys)"
proof (cases ys)
  case Nil
  then show "line_from m cmd j ys \<Longrightarrow> ?thesis" by (simp add: line_from_def)
next
  case (Cons y zs)
  then show "line_from m cmd j ys \<Longrightarrow> ?thesis" using line_from_Cons [of m cmd j y zs] by simp
qed

text \<open>One word: the text that is cut off, and the rest of the line.\<close>

lemma cut_word:
  assumes l: "line_from m cmd i (y # ys)" and y: "\<not> blank y" and w: "w = takeWhile (\<lambda>c. \<not> blank c) (y # ys)" and j: "j = i + length w"
  shows "cstr (m(cmd + j := 0)) (cmd + i) w" and "line_from (m(cmd + j := 0)) cmd (j + 1) (tl (dropWhile (\<lambda>c. \<not> blank c) (y # ys)))"
    and "j \<le> MAXCMDLEN" and "i < j"
proof -
  let ?r = "dropWhile (\<lambda>c. \<not> blank c) (y # ys)"
  have s: "y # ys = w @ ?r" unfolding w by (rule takeWhile_dropWhile_id [symmetric])
  then have b: "length w \<le> length (y # ys)" by (metis length_append le_add1)
  have nz: "0 \<notin> set (y # ys)" and at: "\<forall>k<length (y # ys). m (cmd + i + k) = (y # ys) ! k" and len: "i + length (y # ys) \<le> MAXCMDLEN"
    using l by (auto simp: line_from_def)
  have wk: "m (cmd + i + k) = w ! k" if "k < length w" for k using at that b s by (metis nth_append order.strict_trans2)
  have "0 \<notin> set w" using nz set_takeWhileD unfolding w by fastforce
  then show "cstr (m(cmd + j := 0)) (cmd + i) w" using wk j by (auto simp: cstr_def)
  show "j \<le> MAXCMDLEN" "i < j" using b len j y by (auto simp: w)
  have "line_from m cmd j ?r" using line_from_drop [of m cmd i w ?r] l s j by simp
  then have "line_from m cmd (j + 1) (tl ?r)" by (rule line_from_tl)
  then show "line_from (m(cmd + j := 0)) cmd (j + 1) (tl ?r)" by (rule line_from_store) simp
qed

lemma parse_loop_line:
  "line_from m cmd i ys \<Longrightarrow> \<exists>new m'. parse_loop cmd i argval m = (argval @ new, m') \<and>
    list_all2 (cstr m') new (take (MAXARGS - length argval) (words ys)) \<and> (\<forall>x. x < cmd + i \<or> cmd + MAXCMDLEN < x \<longrightarrow> m' x = m x)"
proof (induction cmd i argval m arbitrary: ys rule: parse_loop.induct)
  case (1 cmd i argval m)
  show ?case
  proof (cases ys)
    case Nil
    then have "\<not> (i < MAXCMDLEN \<and> m (cmd + i) \<noteq> 0)" using 1(3) by (auto simp: line_from_def)
    then show ?thesis using Nil by (subst parse_loop.simps) auto
  next
    case (Cons y zs)
    have l: "line_from m cmd i (y # zs)" using 1(3) Cons by simp
    note c = line_from_Cons [OF l]
    show ?thesis
    proof (cases "length argval < MAXARGS")
      case False
      then show ?thesis by (subst parse_loop.simps) auto
    next
      case True
      then have go: "i < MAXCMDLEN \<and> m (cmd + i) \<noteq> 0 \<and> length argval < MAXARGS" using c by simp
      show ?thesis
      proof (cases "blank y")
        case True
        have "parse_loop cmd i argval m = parse_loop cmd (i + 1) argval m" using go c True by (subst parse_loop.simps) simp
        then show ?thesis using 1(1) [OF go, of zs] c True words_blank [OF True, of zs] unfolding Cons by fastforce
      next
        case False
        define w where "w = takeWhile (\<lambda>c. \<not> blank c) (y # zs)"
        define j where "j = i + length w"
        note cut = cut_word [OF l False w_def j_def]
        have sk: "skip_word cmd i m = j" using skip_word_line [OF l] c by (simp add: j_def w_def)
        have nb: "\<not> blank (m (cmd + i))" using False c by simp
        obtain new m' where r: "parse_loop cmd (j + 1) (argval @ [cmd + i]) (m(cmd + j := 0)) = ((argval @ [cmd + i]) @ new, m')"
            "list_all2 (cstr m') new (take (MAXARGS - length (argval @ [cmd + i])) (words (tl (dropWhile (\<lambda>c. \<not> blank c) (y # zs)))))"
            "\<forall>x. x < cmd + (j + 1) \<or> cmd + MAXCMDLEN < x \<longrightarrow> m' x = (m(cmd + j := 0)) x"
          using 1(2) [OF go nb sk [symmetric] cut(2)] by blast
        have "cstr m' (cmd + i) w" using cut(1) cstr_frame [of "cmd + i" w m' "m(cmd + j := 0)"] r(3) by (auto simp: j_def)
        moreover have "take (MAXARGS - length argval) (words (y # zs)) =
            w # take (MAXARGS - length (argval @ [cmd + i])) (words (tl (dropWhile (\<lambda>c. \<not> blank c) (y # zs))))"
          using words_word [OF False, of zs] True by (simp add: w_def take_Cons' Suc_diff_Suc)
        moreover have "parse_loop cmd i argval m = (argval @ (cmd + i) # new, m')"
          using go nb sk r(1) by (subst parse_loop.simps) (simp add: Let_def)
        moreover have "m' x = m x" if "x < cmd + i \<or> cmd + MAXCMDLEN < x" for x using r(3) that cut(3,4) by auto
        ultimately show ?thesis using r(2) unfolding Cons by (intro exI [of _ "(cmd + i) # new"] exI [of _ m']) simp
      qed
    qed
  qed
qed

text \<open>C27. The shell splits a command line into its words: the arguments are terminated strings inside the buffer that spell the first ten words of the line in their order, and no byte
  outside of the buffer is written, even when the line fills it.\<close>

theorem shell_splits_words:
  assumes "0 \<notin> set xs" and "length xs \<le> MAXCMDLEN" and "\<forall>k<MAXCMDLEN. m (cmd + k) = (if k < length xs then xs ! k else 0)"
  shows "\<exists>argval m'. parse_loop cmd 0 [] m = (argval, m') \<and> list_all2 (cstr m') argval (take MAXARGS (words xs)) \<and>
    (\<forall>x. x < cmd \<or> cmd + MAXCMDLEN < x \<longrightarrow> m' x = m x)"
proof -
  have "line_from m cmd 0 xs" using assms by (auto simp: line_from_def)
  from parse_loop_line [OF this, of "[]"] show ?thesis by auto
qed

theorem shell_splits_words_witness:
  "\<exists>a b m'. parse_loop 100 0 [] (\<lambda>x. if 100 \<le> x \<and> x < 106 then [32, 108, 115, 32, 45, 97] ! (x - 100) else 0) = ([a, b], m') \<and>
    cstr m' a [108, 115] \<and> cstr m' b [45, 97]"
proof -
  let ?xs = "[32, 108, 115, 32, 45, 97] :: u8 list" let ?m = "\<lambda>x :: nat. if 100 \<le> x \<and> x < 106 then ?xs ! (x - 100) else 0"
  have "words ?xs = [[108, 115], [45, 97]]" by (simp add: words.simps blank_def)
  moreover have "\<forall>k<MAXCMDLEN. ?m (100 + k) = (if k < length ?xs then ?xs ! k else 0)" by simp
  ultimately show ?thesis using shell_splits_words [of ?xs ?m 100] by (auto simp: list_all2_Cons2)
qed

end
