(* ===== verification/Os_Gma.thy ===== *)
theory Os_Gma
  imports Os_Chunks Os_Alloc Os_Bits
begin

text \<open>
  The grid memory allocator, \<^verbatim>\<open>lib/mm/gma.h\<close> and \<^verbatim>\<open>lib/mm/gma.c\<close>, which serves \<^verbatim>\<open>malloc\<close> and \<^verbatim>\<open>free\<close> in every
  process (\<^verbatim>\<open>Makefile.progs\<close> selects it). Free chunks are kept in lists, one for each range of sizes: 32 ranges
  for every power of two. Two levels of bitmaps say which lists have chunks, so that a request
  finds a list in a constant number of steps. Everything, the descriptor \<^verbatim>\<open>gma_t\<close>, the bitmaps and the heads of
  the lists, is in the memory of the process: a map from word addresses to 32-bit values, as naturals. A chunk
  \<open>c\<close> has its size and two flags at \<open>c + 4\<close>; a free one its links at \<open>c + 8\<close> and \<open>c + 12\<close>, and a copy of its size in
  its last word, which is the word \<open>bsize\<close> of the chunk after it. Sums that depend on the size of a request or of the segment
  are computed modulo \<open>2 ^ 32\<close>; other addresses are naturals, which is exact inside the address space. The checks of
  \<^verbatim>\<open>ASSERT\<close> are part of the model; the theorems show that none of them fails, so they hold for programs that
  are compiled without them.
\<close>

unbundle bit_operations_syntax

section \<open>Operations on chunks\<close>

abbreviation (input) L :: nat where "L \<equiv> 5"
abbreviation (input) SL_DIM :: nat where "SL_DIM \<equiv> 32"
abbreviation (input) MIN_CHUNK_SIZE :: nat where "MIN_CHUNK_SIZE \<equiv> 16"
abbreviation (input) DEF_MIN_CHUNK_SIZE :: nat where "DEF_MIN_CHUNK_SIZE \<equiv> 32"
abbreviation (input) MAX_CHUNK_SIZE :: nat where "MAX_CHUNK_SIZE \<equiv> 2 ^ 32 - 4"
abbreviation (input) MIN_POOL_SIZE :: nat where "MIN_POOL_SIZE \<equiv> 24 + 1 * 4 + 1 * SL_DIM * 4 + MIN_CHUNK_SIZE"
abbreviation (input) EXACT_LIMIT_SIZE :: nat where "EXACT_LIMIT_SIZE \<equiv> 2 ^ (2 * L - 2)"
abbreviation (input) BORDER_CHUNK_SIZE :: nat where "BORDER_CHUNK_SIZE \<equiv> 4"
abbreviation (input) NEW_MPOOL :: nat where "NEW_MPOOL \<equiv> 1"

definition CHUNK_ALIGN :: "nat \<Rightarrow> nat" where "CHUNK_ALIGN p = p - p mod 4"
definition CHUNK_ALIGN_FW :: "nat \<Rightarrow> nat" where "CHUNK_ALIGN_FW p = CHUNK_ALIGN ((p + 3) mod 2 ^ 32)"
definition CHUNK_IS_ALIGNED :: "nat \<Rightarrow> bool" where "CHUNK_IS_ALIGNED p \<longleftrightarrow> p mod 4 = 0"

definition GET_CHUNK_SIZE :: "nat \<Rightarrow> wmem \<Rightarrow> nat" where
  "GET_CHUNK_SIZE c m = CHUNK_ALIGN (m (c + 4))"

definition SET_CHUNK_SIZE :: "nat \<Rightarrow> nat \<Rightarrow> wmem \<Rightarrow> wmem" where
  "SET_CHUNK_SIZE c sz m = m(c + 4 := sz OR (m (c + 4) AND 3))"

definition GET_CHUNK_INUSE :: "nat \<Rightarrow> wmem \<Rightarrow> bool" where "GET_CHUNK_INUSE c m \<longleftrightarrow> bit (m (c + 4)) 1"
definition SET_CHUNK_INUSE :: "nat \<Rightarrow> wmem \<Rightarrow> wmem" where "SET_CHUNK_INUSE c m = m(c + 4 := set_bit 1 (m (c + 4)))"
definition CLEAR_CHUNK_INUSE :: "nat \<Rightarrow> wmem \<Rightarrow> wmem" where "CLEAR_CHUNK_INUSE c m = m(c + 4 := unset_bit 1 (m (c + 4)))"
definition GET_CHUNK_BINUSE :: "nat \<Rightarrow> wmem \<Rightarrow> bool" where "GET_CHUNK_BINUSE c m \<longleftrightarrow> bit (m (c + 4)) 0"
definition SET_CHUNK_BINUSE :: "nat \<Rightarrow> wmem \<Rightarrow> wmem" where "SET_CHUNK_BINUSE c m = m(c + 4 := set_bit 0 (m (c + 4)))"
definition CLEAR_CHUNK_BINUSE :: "nat \<Rightarrow> wmem \<Rightarrow> wmem" where "CLEAR_CHUNK_BINUSE c m = m(c + 4 := unset_bit 0 (m (c + 4)))"

definition GET_CHUNK_BEFORE :: "nat \<Rightarrow> wmem \<Rightarrow> nat" where
  "GET_CHUNK_BEFORE c m = (if GET_CHUNK_BINUSE c m then 0 else c - CHUNK_ALIGN (m c))"

definition GET_CHUNK_AFTER :: "nat \<Rightarrow> wmem \<Rightarrow> nat" where "GET_CHUNK_AFTER c m = c + GET_CHUNK_SIZE c m"

definition SET_CHUNK_IN_USE :: "nat \<Rightarrow> wmem \<Rightarrow> wmem" where
  "SET_CHUNK_IN_USE c m = (let m = SET_CHUNK_INUSE c m in SET_CHUNK_BINUSE (GET_CHUNK_AFTER c m) m)"

definition CLONE_CHUNK_SIZE :: "nat \<Rightarrow> wmem \<Rightarrow> wmem" where
  "CLONE_CHUNK_SIZE c m = m(GET_CHUNK_AFTER c m := m (c + 4))"

definition JOIN_CHUNKS :: "nat \<Rightarrow> nat \<Rightarrow> wmem \<Rightarrow> wmem" where
  "JOIN_CHUNKS c d m = SET_CHUNK_SIZE c (GET_CHUNK_SIZE c m + GET_CHUNK_SIZE d m) m"

definition IS_BORDER_CHUNK :: "nat \<Rightarrow> wmem \<Rightarrow> bool" where
  "IS_BORDER_CHUNK c m \<longleftrightarrow> GET_CHUNK_SIZE c m = BORDER_CHUNK_SIZE"

definition SET_BORDER_CHUNK :: "nat \<Rightarrow> wmem \<Rightarrow> wmem" where
  "SET_BORDER_CHUNK c m = (let m = m(c + 4 := BORDER_CHUNK_SIZE OR 2) in CLONE_CHUNK_SIZE c m)"

definition make_first_chunk :: "nat \<Rightarrow> nat \<Rightarrow> wmem \<Rightarrow> (nat \<times> wmem) res" where
  "make_first_chunk addr sz m =
     rbind (ASSERT (addr \<noteq> 0 \<and> sz > BORDER_CHUNK_SIZE * 2 + MIN_CHUNK_SIZE \<and> CHUNK_IS_ALIGNED addr)) (\<lambda>_.
       let border = addr - 4;
           m = SET_BORDER_CHUNK border m;
           chunk = addr + BORDER_CHUNK_SIZE - 4;
           m = SET_CHUNK_SIZE chunk (sz - 2 * BORDER_CHUNK_SIZE) m;
           m = SET_CHUNK_INUSE chunk m;
           m = SET_CHUNK_BINUSE chunk m;
           border = (addr + sz - BORDER_CHUNK_SIZE - 4) mod 2 ^ 32;
           m = SET_BORDER_CHUNK border m;
           m = SET_CHUNK_BINUSE border m
       in Inr (chunk + 8, m))"

definition insert_chunk_in_list :: "nat \<Rightarrow> nat \<Rightarrow> wmem \<Rightarrow> wmem" where
  "insert_chunk_in_list list chunk m =
     (let m = m(chunk + 12 := m list);
          m = (if m list \<noteq> 0 then m(m list + 8 := chunk) else m);
          m = m(list := chunk);
          m = m(chunk + 8 := list);
          m = m(chunk + 8 := m (chunk + 8) OR 1);
          m = CLEAR_CHUNK_INUSE chunk m;
          m = CLONE_CHUNK_SIZE chunk m;
          after = GET_CHUNK_AFTER chunk m
      in CLEAR_CHUNK_BINUSE after m)"

text \<open>The result is 1 when the list has become empty.\<close>

definition remove_chunk_from_list :: "nat \<Rightarrow> wmem \<Rightarrow> nat \<times> wmem" where
  "remove_chunk_from_list chunk m =
     (if bit (m (chunk + 8)) 0 then
        let list = unset_bit 0 (m (chunk + 8));
            m = m(list := m (chunk + 12))
        in if m list \<noteq> 0 then
             let m = m(m list + 8 := list);
                 m = m(m list + 8 := m (m list + 8) OR 1)
             in (0, m)
           else (1, m)
      else
        let m = m(m (chunk + 8) + 12 := m (chunk + 12));
            m = (if m (chunk + 12) \<noteq> 0 then m(m (chunk + 12) + 8 := m (chunk + 8)) else m)
        in (0, m))"

definition split_chunk_at :: "nat \<Rightarrow> nat \<Rightarrow> wmem \<Rightarrow> nat \<times> wmem" where
  "split_chunk_at chunk sz m =
     (let remainder = chunk + sz;
          m = m(remainder + 4 := 0);
          m = SET_CHUNK_SIZE remainder (GET_CHUNK_SIZE chunk m - sz) m;
          m = SET_CHUNK_SIZE chunk sz m
      in (remainder, m))"

section \<open>Lists by size\<close>

text \<open>The fields of \<^verbatim>\<open>gma_t\<close> at \<open>mp\<close>: the range of the first index, the size of the smallest chunk, the bitmap of the first level, and the addresses of
  the bitmaps of the second level and of the heads.\<close>

abbreviation (input) fl_min :: "nat \<Rightarrow> wmem \<Rightarrow> nat" where "fl_min mp m \<equiv> m mp"
abbreviation (input) fl_max :: "nat \<Rightarrow> wmem \<Rightarrow> nat" where "fl_max mp m \<equiv> m (mp + 4)"
abbreviation (input) min_chunk_size :: "nat \<Rightarrow> wmem \<Rightarrow> nat" where "min_chunk_size mp m \<equiv> m (mp + 8)"
abbreviation (input) FL_bitmap :: "nat \<Rightarrow> wmem \<Rightarrow> nat" where "FL_bitmap mp m \<equiv> m (mp + 12)"
abbreviation (input) SL_adr :: "nat \<Rightarrow> nat \<Rightarrow> wmem \<Rightarrow> nat" where "SL_adr mp fl m \<equiv> m (mp + 16) + 4 * fl"
abbreviation (input) list_adr :: "nat \<Rightarrow> nat \<Rightarrow> nat \<Rightarrow> wmem \<Rightarrow> nat" where "list_adr mp fl sl m \<equiv> m (mp + 20) + 4 * (SL_DIM * fl + sl)"

text \<open>The shift by \<open>fl - L\<close> has no meaning in C when \<open>fl < L\<close>. The results are the returned value and the two indices; when the size is too
  large, the second index keeps its value. (The caller's \<open>fl\<close> holds the first index without the offset then.)\<close>

definition get_indexes :: "nat \<Rightarrow> nat \<Rightarrow> nat \<Rightarrow> bool \<Rightarrow> wmem \<Rightarrow> (int \<times> nat \<times> nat) res" where
  "get_indexes mp sz sl ins m =
     (let sz = (if \<not> ins \<and> sz \<ge> EXACT_LIMIT_SIZE then (sz + 2 ^ (arch_msb_index sz - L) - 1) mod 2 ^ 32 else sz);
          fl = arch_msb_index sz
      in if fl > fl_max mp m then Inr (- 1, fl, sl)
         else if fl < L then Inl Out_of_bounds
         else
           let sl = drop_bit (fl - L) sz - 2 ^ L;
               fl = (fl + 2 ^ 32 - fl_min mp m) mod 2 ^ 32
           in if ins then Inr (0, fl, sl)
              else
                let bits = m (SL_adr mp fl m) AND take_bit 32 (push_bit sl (mask 32))
                in if bits \<noteq> 0 then Inr (0, fl, arch_lsb_index bits)
                   else
                     let bits = FL_bitmap mp m AND take_bit 32 (push_bit (fl + 1) (mask 32))
                     in if bits = 0 then Inr (- 1, fl, sl)
                        else let fl = arch_lsb_index bits in Inr (0, fl, arch_lsb_index (m (SL_adr mp fl m))))"

definition set_list_have_chunks :: "nat \<Rightarrow> nat \<Rightarrow> nat \<Rightarrow> wmem \<Rightarrow> wmem" where
  "set_list_have_chunks mp fl sl m =
     (let m = m(SL_adr mp fl m := m (SL_adr mp fl m) OR push_bit sl 1)
      in m(mp + 12 := FL_bitmap mp m OR push_bit fl 1))"

definition clear_list_have_chunks :: "nat \<Rightarrow> nat \<Rightarrow> nat \<Rightarrow> wmem \<Rightarrow> wmem" where
  "clear_list_have_chunks mp fl sl m =
     (let m = m(SL_adr mp fl m := unset_bit sl (m (SL_adr mp fl m)))
      in if m (SL_adr mp fl m) = 0 then m(mp + 12 := unset_bit fl (FL_bitmap mp m)) else m)"

definition insert_chunk_in_free_list :: "nat \<Rightarrow> nat \<Rightarrow> wmem \<Rightarrow> wmem res" where
  "insert_chunk_in_free_list mp chunk m =
     rbind (get_indexes mp (GET_CHUNK_SIZE chunk m) 0 True m) (\<lambda>(r, fl, sl).
       let m = insert_chunk_in_list (list_adr mp fl sl m) chunk m
       in Inr (set_list_have_chunks mp fl sl m))"

definition remove_chunk_from_free_list :: "nat \<Rightarrow> nat \<Rightarrow> wmem \<Rightarrow> wmem res" where
  "remove_chunk_from_free_list mp chunk m =
     (let (r, m) = remove_chunk_from_list chunk m
      in if r \<noteq> 0 then
           rbind (get_indexes mp (GET_CHUNK_SIZE chunk m) 0 True m) (\<lambda>(r, fl, sl).
             Inr (clear_list_have_chunks mp fl sl m))
         else Inr m)"

definition remove_first_chunk_from_free_list :: "nat \<Rightarrow> nat \<Rightarrow> nat \<Rightarrow> wmem \<Rightarrow> nat \<times> wmem" where
  "remove_first_chunk_from_free_list mp fl sl m =
     (let chunk = m (list_adr mp fl sl m);
          (r, m) = remove_chunk_from_list chunk m
      in (chunk, if r \<noteq> 0 then clear_list_have_chunks mp fl sl m else m))"

section \<open>The interface\<close>

text \<open>\<open>pool\<close> is the address of the static descriptor that is used when the caller names none.\<close>

definition gma_free :: "nat \<Rightarrow> nat \<Rightarrow> nat \<Rightarrow> wmem \<Rightarrow> (int \<times> wmem) res" where
  "gma_free pool mpool address m =
     (let chunk = address - 8
      in rbind (ASSERT (address \<noteq> 0)) (\<lambda>_.
         rbind (ASSERT (GET_CHUNK_INUSE chunk m)) (\<lambda>_.
         rbind (ASSERT (\<not> IS_BORDER_CHUNK chunk m)) (\<lambda>_.
         rbind (ASSERT (CHUNK_IS_ALIGNED chunk)) (\<lambda>_.
         let mpool = (if mpool = 0 then pool else mpool);
             m = CLEAR_CHUNK_INUSE chunk m;
             before = GET_CHUNK_BEFORE chunk m
         in rbind (if before \<noteq> 0 \<and> \<not> GET_CHUNK_INUSE before m
                   then rbind (remove_chunk_from_free_list mpool before m) (\<lambda>m. Inr (before, JOIN_CHUNKS before chunk m))
                   else Inr (chunk, m)) (\<lambda>(chunk, m).
            rbind (ASSERT (CHUNK_IS_ALIGNED chunk)) (\<lambda>_.
            let after = GET_CHUNK_AFTER chunk m
            in rbind (if after \<noteq> 0 \<and> \<not> GET_CHUNK_INUSE after m
                      then rbind (remove_chunk_from_free_list mpool after m) (\<lambda>m. Inr (JOIN_CHUNKS chunk after m))
                      else Inr m) (\<lambda>m.
               rbind (ASSERT (CHUNK_IS_ALIGNED chunk)) (\<lambda>_.
               rbind (insert_chunk_in_free_list mpool chunk m) (\<lambda>m. Inr (0, m)))))))))))"

definition gma_alloc :: "nat \<Rightarrow> nat \<Rightarrow> nat \<Rightarrow> wmem \<Rightarrow> (nat \<times> wmem) res" where
  "gma_alloc pool mpool sz m =
     rbind (ASSERT (sz > 0 \<and> sz < MAX_CHUNK_SIZE)) (\<lambda>_.
     let mpool = (if mpool = 0 then pool else mpool);
         sz = CHUNK_ALIGN_FW ((sz + 4) mod 2 ^ 32);
         sz = (if sz < min_chunk_size mpool m then min_chunk_size mpool m else sz)
     in rbind (get_indexes mpool sz 0 False m) (\<lambda>(r, fl, sl).
        if r \<noteq> 0 then Inr (0, m)
        else
          let (chunk, m) = remove_first_chunk_from_free_list mpool fl sl m
          in if chunk = 0 then Inr (0, m)
             else
               rbind (ASSERT (CHUNK_IS_ALIGNED chunk)) (\<lambda>_.
               rbind (if GET_CHUNK_SIZE chunk m \<ge> (sz + min_chunk_size mpool m) mod 2 ^ 32 then
                        let (remainder, m) = split_chunk_at chunk sz m
                        in rbind (ASSERT (CHUNK_IS_ALIGNED chunk)) (\<lambda>_.
                           rbind (ASSERT (CHUNK_IS_ALIGNED remainder)) (\<lambda>_.
                           insert_chunk_in_free_list mpool remainder m))
                      else Inr m) (\<lambda>m.
               let m = SET_CHUNK_IN_USE chunk m
               in rbind (ASSERT (CHUNK_IS_ALIGNED chunk)) (\<lambda>_. Inr (chunk + 8, m))))))"

text \<open>Writing zero to \<open>n\<close> words.\<close>

fun clear_words :: "nat \<Rightarrow> nat \<Rightarrow> wmem \<Rightarrow> wmem" where
  "clear_words 0 a m = m"
| "clear_words (Suc n) a m = (clear_words n a m)(a + 4 * n := 0)"

definition gma_init :: "nat \<Rightarrow> nat \<Rightarrow> nat \<Rightarrow> nat \<Rightarrow> nat \<Rightarrow> wmem \<Rightarrow> (nat \<times> wmem) res" where
  "gma_init pool memory_segment sz min_size flags m =
     rbind (ASSERT (memory_segment \<noteq> 0)) (\<lambda>_.
     let addr = CHUNK_ALIGN_FW memory_segment;
         end' = CHUNK_ALIGN ((memory_segment + sz) mod 2 ^ 32)
     in rbind (ASSERT ((end' + 2 ^ 32 - addr) mod 2 ^ 32 \<ge> MIN_POOL_SIZE)) (\<lambda>_.
        let (mpool, addr) = (if flags AND NEW_MPOOL \<noteq> 0 then (addr, CHUNK_ALIGN_FW (addr + 24)) else (pool, addr));
            min_size = (if min_size = 0 then DEF_MIN_CHUNK_SIZE else min_size);
            m = m(mpool + 8 := (if min_size \<ge> MIN_CHUNK_SIZE then min_size else MIN_CHUNK_SIZE));
            m = m(mpool := arch_msb_index (min_chunk_size mpool m));
            m = m(mpool + 4 := arch_msb_index sz);
            levels = (fl_max mpool m + 2 ^ 32 - fl_min mpool m + 1) mod 2 ^ 32;
            m = m(mpool + 16 := addr);
            addr = CHUNK_ALIGN_FW ((addr + 4 * levels) mod 2 ^ 32);
            m = clear_words levels (m (mpool + 16)) m;
            m = m(mpool + 20 := addr);
            addr = CHUNK_ALIGN_FW ((addr + 4 * SL_DIM * levels) mod 2 ^ 32);
            m = clear_words (levels * SL_DIM) (m (mpool + 20)) m
        in rbind (make_first_chunk addr ((end' + 2 ^ 32 - addr) mod 2 ^ 32) m) (\<lambda>(chunk, m).
           rbind (gma_free pool mpool chunk m) (\<lambda>(r, m).
           Inr (mpool, m)))))"

section \<open>Size words\<close>

text \<open>The word that holds a size: the size, a multiple of four, and the two flags.\<close>

definition sword :: "nat \<Rightarrow> bool \<Rightarrow> bool \<Rightarrow> nat" where
  "sword s u b = s + 2 * of_bool u + of_bool b"

lemma or_flags: "4 dvd s \<Longrightarrow> j < 4 \<Longrightarrow> s OR j = s + (j::nat)"
proof -
  assume "4 dvd s" and j: "j < 4"
  then obtain k where s: "s = push_bit 2 k" by (auto simp: push_bit_eq_mult dvd_def)
  have "\<not> bit j n" if "2 \<le> n" for n
    using j that bit_take_bit_iff [of 2 j n] take_bit_nat_eq_self [of j 2] by simp
  then have "\<not> bit s n \<or> \<not> bit j n" for n by (cases "2 \<le> n") (simp_all add: s bit_push_bit_iff)
  then show ?thesis by (simp add: disjunctive_add)
qed

lemma and_3: "v AND 3 = v mod (4::nat)"
  using take_bit_eq_mask [of 2 v] by (simp add: take_bit_eq_mod mask_eq_exp_minus_1)

lemma flag_bits:
  "bit (of_bool b + 2 * x) (Suc n) = bit (x::nat) n" "bit (of_bool b + 2 * x) 0 = b"
  "set_bit (Suc n) (of_bool b + 2 * x) = of_bool b + 2 * set_bit n x" "set_bit 0 (of_bool b + 2 * x) = 1 + 2 * x"
  "unset_bit (Suc n) (of_bool b + 2 * x) = of_bool b + 2 * unset_bit n x" "unset_bit 0 (of_bool b + 2 * x) = 2 * x"
  by (cases b; simp add: bit_Suc bit_0 set_bit_Suc unset_bit_Suc set_bit_0 unset_bit_0)+

lemma sword_simps [simp]:
  assumes "4 dvd s"
  shows "CHUNK_ALIGN (sword s u b) = s" "sword s u b mod 4 = 2 * of_bool u + of_bool b"
    "bit (sword s u b) (Suc 0) = u" "bit (sword s u b) 0 = b"
    "set_bit (Suc 0) (sword s u b) = sword s True b" "unset_bit (Suc 0) (sword s u b) = sword s False b"
    "set_bit 0 (sword s u b) = sword s u True" "unset_bit 0 (sword s u b) = sword s u False"
    "4 dvd t \<Longrightarrow> t OR (sword s u b AND 3) = sword t u b"
proof -
  obtain k where s: "s = 4 * k" using assms by (auto simp: dvd_def)
  have w: "sword s u b = of_bool b + 2 * (of_bool u + 2 * k)" for u b by (simp add: sword_def s)
  have m: "sword s u b mod 4 = 2 * of_bool u + of_bool b" by (cases u; cases b; simp add: sword_def s; presburger)
  then show "sword s u b mod 4 = 2 * of_bool u + of_bool b" .
  show "CHUNK_ALIGN (sword s u b) = s" using m by (simp add: CHUNK_ALIGN_def sword_def)
  show "4 dvd t \<Longrightarrow> t OR (sword s u b AND 3) = sword t u b"
    unfolding and_3 m by (subst or_flags) (auto simp: sword_def)
  show "bit (sword s u b) (Suc 0) = u" "bit (sword s u b) 0 = b" unfolding w flag_bits by (rule refl)+
  show "set_bit (Suc 0) (sword s u b) = sword s True b" "unset_bit (Suc 0) (sword s u b) = sword s False b"
    "set_bit 0 (sword s u b) = sword s u True" "unset_bit 0 (sword s u b) = sword s u False"
    unfolding w flag_bits by simp_all
qed

lemma first_flag: "even h \<Longrightarrow> h OR Suc 0 = Suc h" "even h \<Longrightarrow> bit (Suc h) 0" "even h \<Longrightarrow> unset_bit 0 (Suc h) = (h::nat)" "even h \<Longrightarrow> \<not> bit h 0"
  using or_one_eq [of h] by (simp_all add: bit_0 unset_bit_0)

lemma align_fw: "p + 3 < 2 ^ 32 \<Longrightarrow> 4 dvd CHUNK_ALIGN_FW p \<and> p \<le> CHUNK_ALIGN_FW p \<and> CHUNK_ALIGN_FW p < p + 4"
  unfolding CHUNK_ALIGN_FW_def CHUNK_ALIGN_def by (simp, presburger)

lemma align_fw_id: "4 dvd p \<Longrightarrow> p + 3 < 2 ^ 32 \<Longrightarrow> CHUNK_ALIGN_FW p = p"
  unfolding CHUNK_ALIGN_FW_def CHUNK_ALIGN_def by (simp, presburger)

section \<open>Classes of sizes\<close>

text \<open>The lists in the order of their sizes: the number of the list for chunks of size \<open>s\<close>, when the first index starts with \<open>lo\<close>.\<close>

definition cls :: "nat \<Rightarrow> nat \<Rightarrow> nat" where
  "cls lo s = 32 * (arch_msb_index s - lo) + (s div 2 ^ (arch_msb_index s - 5) - 32)"

definition round_up :: "nat \<Rightarrow> nat" where
  "round_up s = (if s \<ge> 256 then s + 2 ^ (arch_msb_index s - 5) - 1 else s)"

lemma round_up_ge: "s \<le> round_up s"
proof -
  have "(1::nat) \<le> 2 ^ (arch_msb_index s - 5)" by simp
  then show ?thesis unfolding round_up_def by (simp del: One_nat_def one_le_power one_le_numeral) linarith
qed

lemma msb_mono: "0 < s \<Longrightarrow> s \<le> t \<Longrightarrow> arch_msb_index s \<le> arch_msb_index t"
proof (rule ccontr)
  assume "0 < s" "s \<le> t" "\<not> arch_msb_index s \<le> arch_msb_index t"
  moreover from this have "2 ^ Suc (arch_msb_index t) \<le> (2::nat) ^ arch_msb_index s" by (intro power_increasing) auto
  ultimately show False using arch_msb_index_bounds [of s] arch_msb_index_bounds [of t] by linarith
qed

lemma msb_less: "0 < s \<Longrightarrow> s < 2 ^ n \<Longrightarrow> arch_msb_index s < n"
proof (rule ccontr)
  assume "0 < s" "s < 2 ^ n" "\<not> arch_msb_index s < n"
  moreover from this have "2 ^ n \<le> (2::nat) ^ arch_msb_index s" by (intro power_increasing) auto
  ultimately show False using arch_msb_index_bounds [of s] by linarith
qed

lemma msb_ge: "2 ^ n \<le> s \<Longrightarrow> n \<le> arch_msb_index s"
  using msb_mono [of "2 ^ n" s] arch_msb_index_unique [of n "2 ^ n"] by simp

lemma second_index:
  assumes "32 \<le> s"
  shows "32 \<le> s div 2 ^ (arch_msb_index s - 5)" "s div 2 ^ (arch_msb_index s - 5) < 64"
proof -
  have f: "5 \<le> arch_msb_index s" using msb_ge [of 5 s] assms by simp
  have b: "2 ^ arch_msb_index s \<le> s" "s < 2 ^ Suc (arch_msb_index s)" using arch_msb_index_bounds [of s] assms by auto
  have p: "(2::nat) ^ arch_msb_index s = 32 * 2 ^ (arch_msb_index s - 5)"
    using power_add [of "2::nat" 5 "arch_msb_index s - 5"] f by simp
  show "32 \<le> s div 2 ^ (arch_msb_index s - 5)" using b p by (simp add: less_eq_div_iff_mult_less_eq)
  show "s div 2 ^ (arch_msb_index s - 5) < 64" using b p by (simp add: div_less_iff_less_mult)
qed

lemma cls_parts:
  assumes "32 \<le> s"
  shows "cls lo s div 32 = arch_msb_index s - lo" "cls lo s mod 32 = s div 2 ^ (arch_msb_index s - 5) - 32"
proof -
  have "s div 2 ^ (arch_msb_index s - 5) - 32 < 32" using second_index [OF assms] by simp
  then show "cls lo s div 32 = arch_msb_index s - lo" "cls lo s mod 32 = s div 2 ^ (arch_msb_index s - 5) - 32"
    by (simp_all add: cls_def)
qed

lemma cls_msb_less:
  assumes "32 \<le> s" and "lo \<le> arch_msb_index s" and "arch_msb_index s < arch_msb_index t"
  shows "cls lo s < cls lo t"
proof -
  have "cls lo s < 32 * (arch_msb_index s - lo) + 32" using second_index [OF assms(1)] by (simp add: cls_def)
  also have "\<dots> \<le> 32 * (arch_msb_index t - lo)" using assms(2,3) by simp
  finally show ?thesis by (simp add: cls_def)
qed

lemma cls_mono:
  assumes "32 \<le> s" and "lo \<le> arch_msb_index s" and "s \<le> t"
  shows "cls lo s \<le> cls lo t"
proof (cases "arch_msb_index s = arch_msb_index t")
  case True
  then show ?thesis using assms(3) by (simp add: cls_def div_le_mono diff_le_mono)
next
  case False
  then have "arch_msb_index s < arch_msb_index t" using msb_mono [of s t] assms by simp
  then show ?thesis using cls_msb_less [OF assms(1,2), of t] by simp
qed

text \<open>Every chunk of a list that is not before the one for the rounded size is large enough.\<close>

lemma cls_fits:
  assumes s: "32 \<le> s" "4 dvd s" and t: "32 \<le> t" "4 dvd t" "lo \<le> arch_msb_index t" and c: "cls lo (round_up s) \<le> cls lo t"
  shows "s \<le> t"
proof (rule ccontr)
  assume "\<not> s \<le> t"
  then have ts: "t < s" by simp
  let ?f = "arch_msb_index s" and ?r = "round_up s"
  let ?st = "2 ^ (?f - 5) :: nat"
  have mt: "arch_msb_index t \<le> ?f" using msb_mono [of t s] t(1) ts by simp
  have sr: "s \<le> ?r" by (rule round_up_ge)
  then have mr: "?f \<le> arch_msb_index ?r" using msb_mono [of s ?r] s(1) by simp
  have "\<not> arch_msb_index t < arch_msb_index ?r" using cls_msb_less [OF t(1,3), of ?r] c by auto
  then have eq: "arch_msb_index t = ?f" "arch_msb_index ?r = ?f" using mt mr by simp_all
  have "t div ?st < ?r div ?st"
  proof (cases "256 \<le> s")
    case True
    have "t div ?st * ?st \<le> t" by simp
    moreover have "?r = s + ?st - 1" using True by (simp add: round_up_def)
    ultimately have "t div ?st * ?st + ?st \<le> ?r" using ts by linarith
    then have "(t div ?st + 1) * ?st \<le> ?r" by simp
    then have "t div ?st + 1 \<le> ?r div ?st" by (simp add: less_eq_div_iff_mult_less_eq)
    then show ?thesis by simp
  next
    case False
    then have "?f \<le> 7" using msb_less [of s 8] s(1) by simp
    then have "?st dvd 2 ^ 2" by (intro le_imp_power_dvd) simp
    then have d: "?st dvd s" "?st dvd t" using s(2) t(2) by (auto intro: dvd_trans)
    have "t div ?st * ?st < s div ?st * ?st" using ts d by simp
    then have "t div ?st < s div ?st" by (simp add: mult_less_cancel2)
    then show ?thesis using False by (simp add: round_up_def)
  qed
  moreover have "32 \<le> t div ?st" using second_index(1) [OF t(1)] eq by simp
  ultimately have "cls lo t < cls lo ?r" by (simp add: cls_def eq)
  then show False using c by simp
qed

lemma round_up_bound:
  assumes "32 \<le> s" "s \<le> 2 ^ 32 - 2 ^ 26"
  shows "round_up s < 2 ^ 32"
proof -
  have f: "arch_msb_index s < 32" using msb_less [of s 32] assms by simp
  have "(2::nat) ^ (arch_msb_index s - 5) \<le> 2 ^ 26" using f by (intro power_increasing) auto
  then show ?thesis using assms unfolding round_up_def by (auto simp del: One_nat_def)
qed

section \<open>Searching in bitmaps\<close>

lemma lsb_first: "n \<noteq> 0 \<Longrightarrow> bit n (arch_lsb_index n) \<and> (\<forall>j<arch_lsb_index n. \<not> bit n j)"
proof (induction n rule: arch_lsb_index.induct)
  case (1 n)
  show ?case
  proof (cases "odd n")
    case True
    then show ?thesis by (simp add: arch_lsb_index.simps [of n] bit_0)
  next
    case False
    then have l: "arch_lsb_index n = Suc (arch_lsb_index (n div 2))" using 1(2) by (simp add: arch_lsb_index.simps [of n])
    have "n div 2 \<noteq> 0" using 1(2) False by (auto elim: evenE)
    then have "bit (n div 2) (arch_lsb_index (n div 2))" "\<forall>j<arch_lsb_index (n div 2). \<not> bit (n div 2) j" using 1 False by auto
    moreover have "\<not> bit n 0" using False by (simp add: bit_0)
    ultimately show ?thesis unfolding l by (auto simp: bit_Suc less_Suc_eq_0_disj)
  qed
qed

lemma bit_small: "m < 2 ^ 32 \<Longrightarrow> bit m j \<Longrightarrow> j < (32::nat)" for m :: nat
  using bit_take_bit_iff [of 32 m j] take_bit_nat_eq_self [of m 32] by simp

lemma bit_from: "m < 2 ^ 32 \<Longrightarrow> bit (m AND take_bit 32 (push_bit k (mask 32))) j \<longleftrightarrow> bit (m::nat) j \<and> k \<le> j"
  using bit_small [of m j] by (auto simp: bit_and_iff bit_take_bit_iff bit_push_bit_iff bit_mask_iff)

lemma no_bits: "(\<And>j. \<not> bit n j) \<Longrightarrow> n = (0::nat)"
  by (intro bit_eqI) simp

text \<open>\<open>F i\<close> are the chunks of list \<open>i\<close>; the bitmaps say which lists are not empty.\<close>

definition bitmaps :: "wmem \<Rightarrow> nat \<Rightarrow> nat \<Rightarrow> (nat \<Rightarrow> nat list) \<Rightarrow> bool" where
  "bitmaps m mp lev F \<longleftrightarrow>
     (\<forall>f<lev. m (SL_adr mp f m) < 2 ^ 32 \<and> (\<forall>l<32. bit (m (SL_adr mp f m)) l \<longleftrightarrow> F (32 * f + l) \<noteq> [])) \<and>
     m (mp + 12) < 2 ^ 32 \<and> (\<forall>f. bit (m (mp + 12)) f \<longleftrightarrow> f < lev \<and> m (SL_adr mp f m) \<noteq> 0)"

lemma bitmapsD:
  assumes "bitmaps m mp lev F"
  shows "f < lev \<Longrightarrow> m (SL_adr mp f m) < 2 ^ 32" "f < lev \<Longrightarrow> l < 32 \<Longrightarrow> bit (m (SL_adr mp f m)) l \<longleftrightarrow> F (32 * f + l) \<noteq> []"
    "m (mp + 12) < 2 ^ 32" "bit (m (mp + 12)) f \<longleftrightarrow> f < lev \<and> m (SL_adr mp f m) \<noteq> 0"
  using assms by (auto simp: bitmaps_def)

lemma row_empty: "bitmaps m mp lev F \<Longrightarrow> f < lev \<Longrightarrow> m (SL_adr mp f m) = 0 \<Longrightarrow> l < 32 \<Longrightarrow> F (32 * f + l) = []"
  using bitmapsD(2) [of m mp lev F f l] by simp

lemma get_indexes_insert:
  assumes "32 \<le> s" and "s < 2 ^ 32" and "5 \<le> m mp" "m mp \<le> arch_msb_index s" "arch_msb_index s \<le> m (mp + 4)"
  shows "get_indexes mp s sl True m = Inr (0, cls (m mp) s div 32, cls (m mp) s mod 32)"
proof -
  have "arch_msb_index s < 2 ^ 32" using msb_less [of s 32] assms(1,2) by simp
  then have "(arch_msb_index s + 2 ^ 32 - m mp) mod 2 ^ 32 = arch_msb_index s - m mp"
    using assms(4) by (simp add: mod_if)
  then show ?thesis using assms by (simp add: get_indexes_def Let_def cls_parts drop_bit_eq_div)
qed

lemma index_parts:
  fixes i k l :: nat
  shows "i \<le> k \<Longrightarrow> k div 32 = i div 32 \<Longrightarrow> i mod 32 \<le> k mod 32" "k div 32 = x \<Longrightarrow> 32 * x + k mod 32 = k"
    "l < 32 \<Longrightarrow> i div 32 \<le> x \<Longrightarrow> i \<le> k \<Longrightarrow> k < 32 * x + l \<Longrightarrow> i div 32 \<le> k div 32 \<and> (k div 32 < x \<or> k div 32 = x \<and> k mod 32 < l)"
    "i mod 32 \<le> l \<Longrightarrow> i \<le> 32 * (i div 32) + l" "i div 32 < x \<Longrightarrow> i \<le> 32 * x + l" "i \<le> k \<Longrightarrow> i div 32 \<le> k div 32"
    "k < 32 * x \<Longrightarrow> k div 32 < x"
proof -
  have i: "i = 32 * (i div 32) + i mod 32" "i mod 32 < 32" and k: "k = 32 * (k div 32) + k mod 32" "k mod 32 < 32" by simp_all
  show "i \<le> k \<Longrightarrow> k div 32 = i div 32 \<Longrightarrow> i mod 32 \<le> k mod 32" "k div 32 = x \<Longrightarrow> 32 * x + k mod 32 = k"
    "i mod 32 \<le> l \<Longrightarrow> i \<le> 32 * (i div 32) + l" "i div 32 < x \<Longrightarrow> i \<le> 32 * x + l" "i \<le> k \<Longrightarrow> i div 32 \<le> k div 32"
    "k < 32 * x \<Longrightarrow> k div 32 < x"
    using i k by linarith+
  show "i div 32 \<le> k div 32 \<and> (k div 32 < x \<or> k div 32 = x \<and> k mod 32 < l)"
    if "l < 32" "i div 32 \<le> x" "i \<le> k" "k < 32 * x + l"
    using i k that by (cases "k div 32 < x") linarith+
qed

text \<open>The search finds the first list that is not empty, from the one of the rounded size on.\<close>

text \<open>The two words that a search looks at: the lists of row \<open>i div 32\<close> from column \<open>i mod 32\<close> on, and the rows behind it.\<close>

abbreviation (input) row_from :: "wmem \<Rightarrow> nat \<Rightarrow> nat \<Rightarrow> nat" where
  "row_from m mp i \<equiv> m (SL_adr mp (i div 32) m) AND take_bit 32 (push_bit (i mod 32) (mask 32))"

abbreviation (input) rows_behind :: "wmem \<Rightarrow> nat \<Rightarrow> nat \<Rightarrow> nat" where
  "rows_behind m mp i \<equiv> m (mp + 12) AND take_bit 32 (push_bit (i div 32 + 1) (mask 32))"

lemma row_from_bit:
  assumes "bitmaps m mp lev F" "i div 32 < lev"
  shows "bit (row_from m mp i) j \<longleftrightarrow> j < 32 \<and> F (32 * (i div 32) + j) \<noteq> [] \<and> i mod 32 \<le> j"
  using bit_from [OF bitmapsD(1) [OF assms], of "i mod 32" j] bitmapsD(2) [OF assms, of j] bit_small [OF bitmapsD(1) [OF assms]] by blast

lemma rows_behind_bit: "bitmaps m mp lev F \<Longrightarrow> bit (rows_behind m mp i) f \<longleftrightarrow> f < lev \<and> m (SL_adr mp f m) \<noteq> 0 \<and> i div 32 < f"
  using bit_from [OF bitmapsD(3), of m mp lev F "i div 32 + 1" f] bitmapsD(4) [of m mp lev F f] by auto

lemma row_from_zero:
  assumes "bitmaps m mp lev F" "i div 32 < lev" "row_from m mp i = 0" "i \<le> k" "k div 32 = i div 32"
  shows "F k = []"
proof -
  have "i mod 32 \<le> k mod 32" "32 * (i div 32) + k mod 32 = k" using index_parts(1) [OF assms(4,5)] index_parts(2) [OF assms(5)] by auto
  moreover have "\<not> bit (row_from m mp i) (k mod 32)" using assms(3) by simp
  ultimately show ?thesis using row_from_bit [OF assms(1,2), of "k mod 32"] by simp
qed

text \<open>Whether the search finds a list in the row, in a later row, or nowhere.\<close>

lemma search_row:
  assumes b: "bitmaps m mp lev F" "i div 32 < lev" and nz: "row_from m mp i \<noteq> 0" and j: "j = 32 * (i div 32) + arch_lsb_index (row_from m mp i)"
  shows "j < 32 * lev" "j div 32 = i div 32" "j mod 32 = arch_lsb_index (row_from m mp i)" "i \<le> j" "F j \<noteq> []" "i \<le> k \<Longrightarrow> k < j \<Longrightarrow> F k = []"
proof -
  let ?l = "arch_lsb_index (row_from m mp i)"
  have l: "?l < 32" "F j \<noteq> []" "i mod 32 \<le> ?l" "\<And>h. h < ?l \<Longrightarrow> \<not> bit (row_from m mp i) h"
    using lsb_first [OF nz] row_from_bit [OF b] by (auto simp: j)
  show "F j \<noteq> []" by (rule l(2))
  show "j < 32 * lev" "j div 32 = i div 32" "j mod 32 = ?l" using b(2) l(1) by (simp_all add: j)
  show "i \<le> j" unfolding j by (rule index_parts(4) [OF l(3)])
  show "F k = []" if "i \<le> k" "k < j"
  proof -
    have k: "k div 32 = i div 32" "k mod 32 < ?l" using index_parts(3) [OF l(1) le_refl that(1) that(2) [unfolded j]] by auto
    have "32 * (i div 32) + k mod 32 = k" "i mod 32 \<le> k mod 32" using index_parts(1) [OF that(1) k(1)] index_parts(2) [OF k(1)] by auto
    note this k
    then show ?thesis using l(4) [of "k mod 32"] row_from_bit [OF b, of "k mod 32"] by simp
  qed
qed

lemma search_none:
  assumes b: "bitmaps m mp lev F" "i div 32 < lev" and z: "row_from m mp i = 0" "rows_behind m mp i = 0" and k: "i \<le> k" "k < 32 * lev"
  shows "F k = []"
proof (cases "k div 32 = i div 32")
  case False
  then have x: "i div 32 < k div 32" "k div 32 < lev" using index_parts(6) [OF k(1)] index_parts(7) [OF k(2)] by auto
  then have "m (SL_adr mp (k div 32) m) = 0" using rows_behind_bit [OF b(1), of i "k div 32"] z(2) by simp
  then show ?thesis using row_empty [OF b(1) x(2), of "k mod 32"] by simp
qed (use row_from_zero [OF b z(1) k(1)] in simp)

lemma search_behind:
  assumes b: "bitmaps m mp lev F" "i div 32 < lev" and z: "row_from m mp i = 0" "rows_behind m mp i \<noteq> 0"
    and g: "g = arch_lsb_index (rows_behind m mp i)" and j: "j = 32 * g + arch_lsb_index (m (SL_adr mp g m))"
  shows "j < 32 * lev" "j div 32 = g" "j mod 32 = arch_lsb_index (m (SL_adr mp g m))" "i \<le> j" "F j \<noteq> []" "i \<le> k \<Longrightarrow> k < j \<Longrightarrow> F k = []"
proof -
  let ?S = "m (SL_adr mp g m)" let ?l = "arch_lsb_index ?S"
  have gl: "g < lev" "?S \<noteq> 0" "i div 32 < g" "\<And>h. h < g \<Longrightarrow> \<not> bit (rows_behind m mp i) h"
    using lsb_first [OF z(2)] rows_behind_bit [OF b(1)] by (auto simp: g)
  have l: "bit ?S ?l" "\<And>h. h < ?l \<Longrightarrow> \<not> bit ?S h" using lsb_first [OF gl(2)] by auto
  have l32: "?l < 32" using bit_small [OF bitmapsD(1) [OF b(1) gl(1)] l(1)] .
  show "F j \<noteq> []" unfolding j using bitmapsD(2) [OF b(1) gl(1) l32] l(1) by simp
  show "j < 32 * lev" "j div 32 = g" "j mod 32 = ?l" using gl(1) l32 by (simp_all add: j)
  show "i \<le> j" unfolding j by (rule index_parts(5) [OF gl(3)])
  show "F k = []" if ik: "i \<le> k" "k < j"
  proof -
    consider "k div 32 = i div 32" | "i div 32 < k div 32" "k div 32 < g" | "k div 32 = g" "k mod 32 < ?l"
      using index_parts(3) [OF l32 less_imp_le [OF gl(3)] ik(1) ik(2) [unfolded j]] by linarith
    then show ?thesis
    proof cases
      case 1
      then show ?thesis using row_from_zero [OF b z(1) ik(1)] by simp
    next
      case 2
      then have "k div 32 < lev" using gl(1) by simp
      moreover have "m (SL_adr mp (k div 32) m) = 0" using rows_behind_bit [OF b(1), of i "k div 32"] gl(4) [OF 2(2)] 2(1) calculation by simp
      ultimately show ?thesis using row_empty [OF b(1), of "k div 32" "k mod 32"] by simp
    next
      case 3
      then have "32 * g + k mod 32 = k" using index_parts(2) by blast
      then show ?thesis using l(2) [OF 3(2)] bitmapsD(2) [OF b(1) gl(1), of "k mod 32"] by simp
    qed
  qed
qed

lemma rounded_size:
  assumes "32 \<le> s" "s \<le> 2 ^ 32 - 2 ^ 26"
  shows "(if \<not> False \<and> s \<ge> EXACT_LIMIT_SIZE then (s + 2 ^ (arch_msb_index s - L) - 1) mod 2 ^ 32 else s) = round_up s"
proof (cases "256 \<le> s")
  case True
  then have "round_up s = s + 2 ^ (arch_msb_index s - 5) - 1" by (simp add: round_up_def)
  then show ?thesis using True round_up_bound [OF assms] by simp
qed (simp add: round_up_def)

lemma get_indexes_search:
  assumes b: "bitmaps m mp lev F" and s: "32 \<le> s" "s \<le> 2 ^ 32 - 2 ^ 26"
    and lo: "5 \<le> m mp" "m mp \<le> arch_msb_index s" and hi: "m mp \<le> m (mp + 4)" and lev: "lev = m (mp + 4) - m mp + 1"
  shows "(\<exists>r fl sl. get_indexes mp s 0 False m = Inr (r, fl, sl) \<and> r \<noteq> 0 \<and> (\<forall>k. cls (m mp) (round_up s) \<le> k \<and> k < 32 * lev \<longrightarrow> F k = [])) \<or>
    (\<exists>i<32 * lev. get_indexes mp s 0 False m = Inr (0, i div 32, i mod 32) \<and> cls (m mp) (round_up s) \<le> i \<and> F i \<noteq> [] \<and>
       (\<forall>k. cls (m mp) (round_up s) \<le> k \<and> k < i \<longrightarrow> F k = []))"
proof -
  let ?r = "round_up s" and ?n = "get_indexes mp s 0 False m"
  let ?f = "arch_msb_index ?r" and ?i = "cls (m mp) ?r"
  have r: "32 \<le> ?r" "?r < 2 ^ 32" using s(1) round_up_ge [of s] round_up_bound [OF s] by auto
  have fm: "m mp \<le> ?f" using lo(2) msb_mono [of s ?r] s(1) round_up_ge [of s] by simp
  show ?thesis
  proof (cases "?f > m (mp + 4)")
    case True
    have "?n = Inr (- 1, ?f, 0)" unfolding get_indexes_def Let_def rounded_size [OF s] using True by simp
    moreover have "32 * lev \<le> ?i" using True lev fm hi by (simp add: cls_def)
    ultimately show ?thesis by (intro disjI1) auto
  next
    case False
    have xl: "?i div 32 < lev" using False fm by (simp add: cls_parts [OF r(1)] lev)
    have fx: "(?f + 2 ^ 32 - m mp) mod 2 ^ 32 = ?i div 32"
      using fm msb_less [of ?r 32] r by (simp add: cls_parts [OF r(1)] mod_if)
    have sl: "drop_bit (?f - L) ?r - 2 ^ L = ?i mod 32" by (simp add: cls_parts [OF r(1)] drop_bit_eq_div)
    let ?B = "row_from m mp ?i" and ?C = "rows_behind m mp ?i"
    have n: "?n = (if ?B \<noteq> 0 then Inr (0, ?i div 32, arch_lsb_index ?B) else if ?C = 0 then Inr (- 1, ?i div 32, ?i mod 32)
        else Inr (0, arch_lsb_index ?C, arch_lsb_index (m (SL_adr mp (arch_lsb_index ?C) m))))"
      unfolding get_indexes_def Let_def rounded_size [OF s] fx sl using False fm lo(1) by simp
    consider "?B \<noteq> 0" | "?B = 0" "?C = 0" | "?B = 0" "?C \<noteq> 0" by blast
    then show ?thesis
    proof cases
      case 1
      let ?j = "32 * (?i div 32) + arch_lsb_index ?B"
      note f = search_row [OF b xl 1 refl]
      have "?n = Inr (0, ?j div 32, ?j mod 32)" using n 1 f(2,3) by simp
      then show ?thesis using f(1,4-6) by (intro disjI2 exI [of _ ?j] conjI) auto
    next
      case 2
      then have "?n = Inr (- 1, ?i div 32, ?i mod 32)" using n by simp
      then show ?thesis using search_none [OF b xl 2] by (intro disjI1) auto
    next
      case 3
      let ?j = "32 * arch_lsb_index ?C + arch_lsb_index (m (SL_adr mp (arch_lsb_index ?C) m))"
      note f = search_behind [OF b xl 3 refl refl]
      have "?n = Inr (0, ?j div 32, ?j mod 32)" using n 3 f(2,3) by simp
      then show ?thesis using f(1,4-6) by (intro disjI2 exI [of _ ?j] conjI) auto
    qed
  qed
qed

section \<open>Lists of free chunks\<close>

text \<open>A list from its head \<open>h\<close>: the first chunk points back to the head, with the lowest bit set.\<close>

fun gseg :: "wmem \<Rightarrow> nat \<Rightarrow> nat list \<Rightarrow> nat \<Rightarrow> bool" where
  "gseg m p [] e = True"
| "gseg m p (x # xs) e = (m (x + 8) = p \<and> m (x + 12) = hd (xs @ [e]) \<and> gseg m x xs e)"

definition glist :: "wmem \<Rightarrow> nat \<Rightarrow> nat list \<Rightarrow> bool" where
  "glist m h xs \<longleftrightarrow> m h = hd (xs @ [0]) \<and> gseg m (Suc h) xs 0 \<and> distinct xs"

text \<open>Heads and chunks are different words at even addresses.\<close>

definition gsep :: "nat \<Rightarrow> nat set \<Rightarrow> bool" where
  "gsep h X \<longleftrightarrow> even h \<and> (\<forall>x\<in>X. even x \<and> x \<noteq> 0 \<and> h \<noteq> x + 8 \<and> h \<noteq> x + 12) \<and> (\<forall>x\<in>X. \<forall>y\<in>X. x + 8 \<noteq> y + 12)"

lemma gsepD:
  assumes "gsep h X" and "x \<in> X"
  shows "even x" "x \<noteq> 0" "h \<noteq> x + 8" "h \<noteq> x + 12" "y \<in> X \<Longrightarrow> x + 8 \<noteq> y + 12" "y \<in> X \<Longrightarrow> y + 12 \<noteq> x + 8"
proof -
  show "even x" "x \<noteq> 0" "h \<noteq> x + 8" "h \<noteq> x + 12" using assms unfolding gsep_def by blast+
  have "\<forall>x\<in>X. \<forall>y\<in>X. x + 8 \<noteq> y + 12" using assms(1) unfolding gsep_def by blast
  then show "y \<in> X \<Longrightarrow> x + 8 \<noteq> y + 12" "y \<in> X \<Longrightarrow> y + 12 \<noteq> x + 8" using assms(2) by (metis, metis)
qed

lemma gsep_even: "gsep h X \<Longrightarrow> even h"
  by (simp add: gsep_def)

lemma gsep_mono: "gsep h X \<Longrightarrow> Y \<subseteq> X \<Longrightarrow> gsep h Y"
  unfolding gsep_def by (meson subsetD)

lemma gseg_append: "gseg m p (us @ vs) e \<longleftrightarrow> gseg m p us (hd (vs @ [e])) \<and> gseg m (last (p # us)) vs e"
  by (induction us arbitrary: p) (auto simp: hd_append)

lemma gseg_cong: "(\<And>x. x \<in> set xs \<Longrightarrow> m' (x + 8) = m (x + 8) \<and> m' (x + 12) = m (x + 12)) \<Longrightarrow> gseg m' p xs e = gseg m p xs e"
  by (induction xs arbitrary: p) auto

lemma glist_frame:
  "glist m h xs \<Longrightarrow> m' h = m h \<Longrightarrow> (\<And>x. x \<in> set xs \<Longrightarrow> m' (x + 8) = m (x + 8) \<and> m' (x + 12) = m (x + 12)) \<Longrightarrow> glist m' h xs"
  using gseg_cong [of xs m' m] by (simp add: glist_def)

lemma gseg_upd_last:
  assumes "gseg m p us e" and "us \<noteq> []" and "distinct us" and s: "gsep h (set us)"
  shows "gseg (m(last us + 12 := e')) p us e'"
proof -
  obtain vs z where u: "us = vs @ [z]" using assms(2) by (cases us rule: rev_cases) auto
  have "gseg (m(z + 12 := e')) p vs z = gseg m p vs z"
    using assms(3) gsepD(5) [OF s, of _ z] by (intro gseg_cong) (auto simp: u)
  then show ?thesis using assms(1) gsepD(5) [OF s, of z z] by (auto simp: u gseg_append)
qed

lemma gseg_upd_first:
  assumes "gseg m p us e" and "us \<noteq> []" and "distinct us" and s: "gsep h (set us)"
  shows "gseg (m(hd us + 8 := q)) q us e"
proof -
  obtain vs z where u: "us = z # vs" using assms(2) by (cases us) auto
  have "gseg (m(z + 8 := q)) z vs e = gseg m z vs e"
    using assms(3) gsepD(6) [OF s, of z] by (intro gseg_cong) (auto simp: u)
  then show ?thesis using assms(1) gsepD(5) [OF s, of z z] by (auto simp: u)
qed

text \<open>The links that \<open>insert_chunk_in_list\<close> sets before it turns to the sizes.\<close>

definition link_front :: "nat \<Rightarrow> nat \<Rightarrow> wmem \<Rightarrow> wmem" where
  "link_front h c m =
     (let m = m(c + 12 := m h);
          m = (if m h \<noteq> 0 then m(m h + 8 := c) else m);
          m = m(h := c);
          m = m(c + 8 := h)
      in m(c + 8 := m (c + 8) OR 1))"

lemma link_front_list:
  assumes g: "glist m h xs" and s: "gsep h (insert c (set xs))" and c: "c \<notin> set xs"
  shows "glist (link_front h c m) h (c # xs)"
    and "w \<noteq> h \<Longrightarrow> w \<notin> {c + 8, c + 12} \<Longrightarrow> (\<And>x. x \<in> set xs \<Longrightarrow> w \<noteq> x + 8) \<Longrightarrow> link_front h c m w = m w"
proof -
  note cc = gsepD [OF s, of c]
  have sx: "gsep h (set xs)" using gsep_mono [OF s] by blast
  have h: "m h = hd (xs @ [0])" "gseg m (Suc h) xs 0" "distinct xs" using g by (simp_all add: glist_def)
  have z: "hd (xs @ [0]) \<noteq> 0 \<longleftrightarrow> xs \<noteq> []" using gsepD(2) [OF sx, of "hd xs"] by (cases xs) auto
  define m1 where "m1 = m(c + 12 := m h)"
  define m2 where "m2 = (if xs \<noteq> [] then m1(hd xs + 8 := c) else m1)"
  have e: "link_front h c m = m2(h := c, c + 8 := Suc h)"
  proof -
    have "m1 h = m h" using cc by (simp add: m1_def)
    moreover have "hd (xs @ [0]) = hd xs" if "xs \<noteq> []" using that by simp
    ultimately have "(if m1 h \<noteq> 0 then m1(m1 h + 8 := c) else m1) = m2" unfolding m2_def h(1) using z by auto
    then show ?thesis using first_flag(1) [OF gsep_even [OF s]] by (simp add: link_front_def Let_def flip: m1_def)
  qed
  have "gseg m1 (Suc h) xs 0 = gseg m (Suc h) xs 0"
    unfolding m1_def using c gsepD(5) [OF s, of _ c] by (intro gseg_cong) auto
  then have "xs \<noteq> [] \<Longrightarrow> gseg m2 c xs 0" using gseg_upd_first [OF _ _ h(3) sx, of m1 "Suc h" 0 c] h(2) by (simp add: m2_def)
  moreover have "gseg (link_front h c m) c xs 0 = gseg m2 c xs 0"
    unfolding e using c cc(5) gsepD(3,4) [OF sx] by (intro gseg_cong) auto
  moreover have "link_front h c m (c + 12) = hd (xs @ [0])"
    using cc(3,4,5) gsepD(5) [OF s, of "hd xs" c] by (cases xs) (auto simp: e m2_def m1_def h(1))
  moreover have "link_front h c m (c + 8) = Suc h" "link_front h c m h = c" using cc(3) by (simp_all add: e)
  ultimately show "glist (link_front h c m) h (c # xs)" using h(3) c by (cases xs) (auto simp: glist_def)
  show "link_front h c m w = m w" if "w \<noteq> h" "w \<notin> {c + 8, c + 12}" "\<And>x. x \<in> set xs \<Longrightarrow> w \<noteq> x + 8"
    using that by (auto simp: e m2_def m1_def)
qed

lemma remove_from_list:
  assumes g: "glist m h (us @ c # vs)" and s: "gsep h (set (us @ c # vs))"
  shows "\<exists>m'. remove_chunk_from_list c m = (of_bool (us = [] \<and> vs = []), m') \<and> glist m' h (us @ vs) \<and>
    (\<forall>w. w \<noteq> h \<and> (\<forall>x\<in>set (us @ vs). w \<noteq> x + 8 \<and> w \<noteq> x + 12) \<longrightarrow> m' w = m w)"
proof -
  have h: "m h = hd (us @ [c])" "gseg m (Suc h) us c" "m (c + 8) = last (Suc h # us)" "m (c + 12) = hd (vs @ [0])"
    "gseg m c vs 0" "distinct (us @ c # vs)" using g by (auto simp: glist_def gseg_append hd_append)
  have dv: "distinct vs" "distinct us" using h(6) by auto
  have sv: "gsep h (set vs)" and su: "gsep h (set us)" and suv: "gsep h (set (us @ vs))" using s by (auto intro: gsep_mono)
  note cc = gsepD [OF s, of c]
  have z: "hd (vs @ [0]) \<noteq> 0 \<longleftrightarrow> vs \<noteq> []" using gsepD(2) [OF sv, of "hd vs"] by (cases vs) auto
  have hv: "vs \<noteq> [] \<Longrightarrow> hd (vs @ [0]) = hd vs \<and> hd vs \<in> set vs" by (cases vs) auto
  have even: "even h" using s by (rule gsep_even)
  show ?thesis
  proof (cases "us = []")
    case True
    then have f: "bit (m (c + 8)) 0" "unset_bit 0 (m (c + 8)) = h" using h(3) first_flag [OF even] by auto
    define m1 where "m1 = m(h := hd (vs @ [0]))"
    define m2 where "m2 = (if vs \<noteq> [] then m1(hd vs + 8 := Suc h) else m1)"
    have n: "vs \<noteq> [] \<Longrightarrow> h \<noteq> hd vs + 8" using gsepD(3) [OF sv] hv by blast
    have "remove_chunk_from_list c m = (of_bool (vs = []), m2)"
      using f h(4) z hv n first_flag(1) [OF even] by (auto simp: remove_chunk_from_list_def Let_def m1_def m2_def)
    moreover have "glist m2 h vs"
    proof -
      have "gseg m1 c vs 0" unfolding m1_def using h(5) gsepD(3,4) [OF sv] by (subst gseg_cong [of _ _ m]) auto
      then have "vs \<noteq> [] \<Longrightarrow> gseg m2 (Suc h) vs 0" using gseg_upd_first [OF _ _ dv(1) sv, of m1 c 0 "Suc h"] by (simp add: m2_def)
      moreover have "m2 h = hd (vs @ [0])" using n by (simp add: m2_def m1_def)
      ultimately show ?thesis using dv by (cases "vs = []") (auto simp: glist_def)
    qed
    moreover have "m2 w = m w" if "w \<noteq> h" "\<forall>x\<in>set vs. w \<noteq> x + 8 \<and> w \<noteq> x + 12" for w
      using that hv by (auto simp: m2_def m1_def)
    ultimately show ?thesis using True by auto
  next
    case False
    let ?l = "last us"
    have l: "?l \<in> set us" using False by simp
    then have "even ?l" using gsepD(1) [OF su] by blast
    then have f: "\<not> bit (m (c + 8)) 0" "m (c + 8) = ?l" using h(3) False first_flag(4) by auto
    define m1 where "m1 = m(?l + 12 := hd (vs @ [0]))"
    define m2 where "m2 = (if vs \<noteq> [] then m1(hd vs + 8 := ?l) else m1)"
    have n: "c + 8 \<noteq> ?l + 12" "c + 12 \<noteq> ?l + 12" using cc(5) [of ?l] l h(6) by auto
    have nv: "vs \<noteq> [] \<Longrightarrow> hd vs \<in> set vs" by simp
    have "remove_chunk_from_list c m = (0, m2)"
      using f h(4) z hv n by (auto simp: remove_chunk_from_list_def Let_def m1_def m2_def)
    moreover have "glist m2 h (us @ vs)"
    proof -
      have "gseg m1 (Suc h) us (hd (vs @ [0]))" unfolding m1_def using gseg_upd_last [OF h(2) False dv(2) su] .
      moreover have "gseg m2 (Suc h) us (hd (vs @ [0])) = gseg m1 (Suc h) us (hd (vs @ [0]))"
      proof (cases "vs = []")
        case vs: False
        then have "hd vs \<notin> set us" using nv h(6) by auto
        moreover have "x + 12 \<noteq> hd vs + 8" if "x \<in> set us" for x using gsepD(6) [OF suv, of "hd vs" x] nv vs that by simp
        ultimately show ?thesis using vs by (intro gseg_cong) (auto simp: m2_def)
      qed (simp add: m2_def)
      moreover have "gseg m1 c vs 0"
        unfolding m1_def using h(5,6) l gsepD(5) [OF suv, of _ ?l] by (subst gseg_cong [of _ _ m]) auto
      then have "gseg m2 ?l vs 0" using gseg_upd_first [OF _ _ dv(1) sv, of m1 c 0 ?l] by (cases "vs = []") (auto simp: m2_def)
      moreover have "m2 h = m h" using gsepD(3) [OF sv, of "hd vs"] gsepD(4) [OF su l] nv by (auto simp: m2_def m1_def)
      then have "m2 h = hd ((us @ vs) @ [0])" using h(1) False by (simp add: hd_append)
      ultimately show ?thesis using h(6) False unfolding glist_def gseg_append by auto
    qed
    moreover have "m2 w = m w" if "w \<noteq> h" "\<forall>x\<in>set (us @ vs). w \<noteq> x + 8 \<and> w \<noteq> x + 12" for w
      using that l nv by (auto simp: m2_def m1_def)
    ultimately show ?thesis using False by auto
  qed
qed

section \<open>Sizes and flags of a sequence of chunks\<close>

text \<open>The size word of the chunk at \<open>a\<close>. Its flag for the chunk before, of kind \<open>p\<close>, is determined when that is free or in use.\<close>

definition hdr :: "wmem \<Rightarrow> nat \<Rightarrow> mark \<Rightarrow> nat \<Rightarrow> bool \<Rightarrow> bool" where
  "hdr m a p s u \<longleftrightarrow> (\<exists>b. m (a + 4) = sword s u b \<and> (p = Used \<longrightarrow> b) \<and> (p = Free \<longrightarrow> \<not> b))"

text \<open>Chunks from \<open>a\<close> up to the word that marks the end, and a part of such a sequence.\<close>

fun gl :: "wmem \<Rightarrow> nat \<Rightarrow> mark \<Rightarrow> chunks \<Rightarrow> bool" where
  "gl m a p [] = hdr m a p 4 True"
| "gl m a p ((s, k) # cs) = (hdr m a p s (k = Used) \<and> (k = Free \<longrightarrow> CHUNK_ALIGN (m (a + s)) = s) \<and> gl m (a + s) k cs)"

fun gpre :: "wmem \<Rightarrow> nat \<Rightarrow> mark \<Rightarrow> chunks \<Rightarrow> bool" where
  "gpre m a p [] = True"
| "gpre m a p ((s, k) # cs) = (hdr m a p s (k = Used) \<and> (k = Free \<longrightarrow> CHUNK_ALIGN (m (a + s)) = s) \<and> gpre m (a + s) k cs)"

definition lmark :: "mark \<Rightarrow> chunks \<Rightarrow> mark" where
  "lmark p cs = (if cs = [] then p else snd (last cs))"

lemma gl_append: "gl m a p (xs @ ys) \<longleftrightarrow> gpre m a p xs \<and> gl m (a + extent xs) (lmark p xs) ys"
  by (induction m a p xs rule: gpre.induct) (auto simp: lmark_def add.assoc)

lemma gl_middle:
  "gl m a p (xs @ (s, k) # ys) \<longleftrightarrow> gpre m a p xs \<and> hdr m (a + extent xs) (lmark p xs) s (k = Used) \<and>
     (k = Free \<longrightarrow> CHUNK_ALIGN (m (a + extent xs + s)) = s) \<and> gl m (a + extent xs + s) k ys"
  by (simp add: gl_append)

lemma gpre_frame:
  "gpre m a p cs \<Longrightarrow> sizes_ok cs \<Longrightarrow> (\<And>w. a < w \<Longrightarrow> w \<le> a + extent cs \<Longrightarrow> m' w = m w) \<Longrightarrow> gpre m' a p cs"
  by (induction m a p cs rule: gpre.induct) (auto simp: hdr_def)

lemma gl_frame:
  "gl m a p cs \<Longrightarrow> (\<And>y. y \<in> set (starts a cs) \<union> {a + extent cs} \<Longrightarrow> m' y = m y \<and> m' (y + 4) = m (y + 4)) \<Longrightarrow> gl m' a p cs"
proof (induction m a p cs rule: gl.induct)
  case (2 m a p s k cs)
  have "gl m' (a + s) k cs" by (rule 2(1)) (use 2(2,3) in \<open>auto simp: add.assoc\<close>)
  moreover have "a + s \<in> set (starts (a + s) cs) \<union> {a + s + extent cs}" by (cases cs) auto
  then have "m' (a + s) = m (a + s)" using 2(3) by (auto simp: add.assoc)
  ultimately show ?case using 2(2) 2(3) [of a] by (simp add: hdr_def)
qed (auto simp: hdr_def)

text \<open>Size and use of the chunk that a sequence starts with, or of the end mark; the rest of the sequence.\<close>

definition fst_size :: "chunks \<Rightarrow> nat" where
  "fst_size ys = (if ys = [] then 4 else fst (hd ys))"

definition fst_used :: "chunks \<Rightarrow> bool" where
  "fst_used ys \<longleftrightarrow> ys = [] \<or> snd (hd ys) = Used"

definition grest :: "wmem \<Rightarrow> nat \<Rightarrow> chunks \<Rightarrow> bool" where
  "grest m a ys = (case ys of [] \<Rightarrow> True | (s, k) # cs \<Rightarrow> (k = Free \<longrightarrow> CHUNK_ALIGN (m (a + s)) = s) \<and> gl m (a + s) k cs)"

lemma gl_head: "gl m a p ys \<longleftrightarrow> hdr m a p (fst_size ys) (fst_used ys) \<and> grest m a ys"
  by (cases ys) (auto simp: fst_size_def fst_used_def grest_def)

lemma gl_hole: "gl m a p ys \<Longrightarrow> gl m a Hole ys"
  by (auto simp: gl_head hdr_def)

lemma fst_size_4: "sizes_ok ys \<Longrightarrow> 4 dvd fst_size ys"
  by (cases ys) (auto simp: fst_size_def)

lemma gl_frame_above:
  assumes "gl m a p ys" and ok: "sizes_ok ys" and eq: "\<And>w. a \<le> w \<Longrightarrow> m' w = m w"
  shows "gl m' a p ys"
proof (rule gl_frame [OF assms(1)])
  fix y assume "y \<in> set (starts a ys) \<union> {a + extent ys}"
  then have "a \<le> y" using starts_range [OF ok] by auto
  then show "m' y = m y \<and> m' (y + 4) = m (y + 4)" using eq by simp
qed

lemma grest_frame:
  assumes "grest m a ys" and ok: "sizes_ok ys" and eq: "\<And>w. a + 8 \<le> w \<Longrightarrow> m' w = m w"
  shows "grest m' a ys"
proof (cases ys)
  case (Cons z zs)
  obtain s k where z: "z = (s, k)" by (cases z)
  have s: "16 \<le> s" "sizes_ok zs" using ok by (auto simp: Cons z)
  have "gl m (a + s) k zs" using assms(1) by (simp add: grest_def Cons z)
  then have "gl m' (a + s) k zs" by (rule gl_frame_above [OF _ s(2)]) (use eq s(1) in simp)
  then show ?thesis using assms(1) eq [of "a + s"] s(1) by (simp add: grest_def Cons z)
qed (simp add: grest_def)

section \<open>What the operations do to sizes\<close>

text \<open>A chunk in the middle of a sequence.\<close>

definition mid :: "wmem \<Rightarrow> nat \<Rightarrow> chunks \<Rightarrow> nat \<Rightarrow> mark \<Rightarrow> chunks \<Rightarrow> bool" where
  "mid m a xs s k ys \<longleftrightarrow> gl m a Used (xs @ (s, k) # ys) \<and> sizes_ok (xs @ (s, k) # ys)"

lemma midE:
  assumes "mid m a xs s k ys" and c: "c = a + extent xs"
  obtains b b' where "gpre m a Used xs" "m (c + 4) = sword s (k = Used) b" "lmark Used xs = Used \<longrightarrow> b" "lmark Used xs = Free \<longrightarrow> \<not> b"
    "k = Free \<longrightarrow> CHUNK_ALIGN (m (c + s)) = s" "m (c + s + 4) = sword (fst_size ys) (fst_used ys) b'" "k = Used \<longrightarrow> b'" "k = Free \<longrightarrow> \<not> b'"
    "grest m (c + s) ys" "4 dvd s" "16 \<le> s" "sizes_ok xs" "sizes_ok ys" "4 dvd fst_size ys"
  using assms fst_size_4 [of ys] unfolding mid_def gl_middle gl_head [of _ _ _ ys] hdr_def by (auto simp del: extent_simps)

text \<open>Changing the kind of a chunk: its own word, the copy in its last word and the flag behind it may change.\<close>

lemma mid_change:
  assumes mi: "mid m a xs s k ys" and c: "c = a + extent xs"
    and b: "m (c + 4) = sword s (k = Used) b" and w: "m' (c + 4) = sword s (k' = Used) b"
    and t: "k' = Free \<Longrightarrow> CHUNK_ALIGN (m' (c + s)) = s"
    and nx: "m' (c + s + 4) = sword (fst_size ys) (fst_used ys) b'" "k' = Used \<longrightarrow> b'" "k' = Free \<longrightarrow> \<not> b'"
    and eq: "\<And>w. w \<notin> {c + 4, c + s, c + s + 4} \<Longrightarrow> m' w = m w"
  shows "mid m' a xs s k' ys"
proof (rule midE [OF mi c])
  fix b1 b2
  assume 1: "gpre m a Used xs" "m (c + 4) = sword s (k = Used) b1" "lmark Used xs = Used \<longrightarrow> b1" "lmark Used xs = Free \<longrightarrow> \<not> b1"
    "grest m (c + s) ys" "4 dvd s" "16 \<le> s" "sizes_ok xs" "sizes_ok ys"
  have bb: "b = b1" using b 1(2) sword_simps(4) [OF 1(6), of "k = Used"] by metis
  have "gpre m' a Used xs" by (rule gpre_frame [OF 1(1,8)], rule eq) (use 1(7) in \<open>auto simp: c\<close>)
  moreover have "grest m' (c + s) ys" by (rule grest_frame [OF 1(5,9)], rule eq) (use 1(7) in auto)
  ultimately show ?thesis
    using 1 bb w t nx unfolding mid_def gl_middle gl_head [of _ _ _ ys] hdr_def by (auto simp: c simp del: extent_simps)
qed

lemma mid_hole: "mid m a xs s k ys \<Longrightarrow> k = Free \<Longrightarrow> mid m a xs s Hole ys"
  unfolding mid_def gl_middle using gl_hole by auto

lemma mid_size:
  assumes "mid m a xs s k ys" and "c = a + extent xs"
  shows "GET_CHUNK_SIZE c m = s" "GET_CHUNK_INUSE c m \<longleftrightarrow> k = Used" "GET_CHUNK_AFTER c m = c + s"
    "GET_CHUNK_INUSE (c + s) m \<longleftrightarrow> fst_used ys" "GET_CHUNK_SIZE (c + s) m = fst_size ys"
  by (rule midE [OF assms], simp add: GET_CHUNK_SIZE_def GET_CHUNK_INUSE_def GET_CHUNK_AFTER_def)+

lemma clear_inuse_mid:
  assumes mi: "mid m a xs s Used ys" and c: "c = a + extent xs"
  shows "mid (CLEAR_CHUNK_INUSE c m) a xs s Hole ys"
    and "w \<noteq> c + 4 \<Longrightarrow> CLEAR_CHUNK_INUSE c m w = m w"
proof -
  show "w \<noteq> c + 4 \<Longrightarrow> CLEAR_CHUNK_INUSE c m w = m w" by (simp add: CLEAR_CHUNK_INUSE_def)
  show "mid (CLEAR_CHUNK_INUSE c m) a xs s Hole ys"
  proof (rule midE [OF mi c])
    fix b b'
    assume 1: "m (c + 4) = sword s (Used = Used) b" "m (c + s + 4) = sword (fst_size ys) (fst_used ys) b'" "4 dvd s" "16 \<le> s"
    show ?thesis
      by (rule mid_change [OF mi c, of b _ _ b']) (use 1 in \<open>auto simp: CLEAR_CHUNK_INUSE_def\<close>)
  qed
qed

lemma set_in_use_mid:
  assumes mi: "mid m a xs s Hole ys" and c: "c = a + extent xs"
  shows "mid (SET_CHUNK_IN_USE c m) a xs s Used ys"
    and "w \<notin> {c + 4, c + s + 4} \<Longrightarrow> SET_CHUNK_IN_USE c m w = m w"
proof -
  have s: "4 dvd s" "16 \<le> s" using mi by (auto simp: mid_def)
  obtain b b' where 1: "m (c + 4) = sword s False b" "m (c + s + 4) = sword (fst_size ys) (fst_used ys) b'" "4 dvd fst_size ys"
    by (rule midE [OF mi c]) auto
  have e: "SET_CHUNK_IN_USE c m = m(c + 4 := sword s True b, c + s + 4 := sword (fst_size ys) (fst_used ys) True)"
    using 1 s by (simp add: SET_CHUNK_IN_USE_def SET_CHUNK_INUSE_def SET_CHUNK_BINUSE_def GET_CHUNK_AFTER_def GET_CHUNK_SIZE_def Let_def)
  show "w \<notin> {c + 4, c + s + 4} \<Longrightarrow> SET_CHUNK_IN_USE c m w = m w" by (simp add: e)
  show "mid (SET_CHUNK_IN_USE c m) a xs s Used ys"
    by (rule mid_change [OF mi c, of b _ _ True]) (use 1 s in \<open>auto simp: e\<close>)
qed

text \<open>The part of \<open>insert_chunk_in_list\<close> that sets the sizes.\<close>

definition mark_free :: "nat \<Rightarrow> wmem \<Rightarrow> wmem" where
  "mark_free chunk m =
     (let m = CLEAR_CHUNK_INUSE chunk m;
          m = CLONE_CHUNK_SIZE chunk m;
          after = GET_CHUNK_AFTER chunk m
      in CLEAR_CHUNK_BINUSE after m)"

lemma insert_in_list_parts: "insert_chunk_in_list list chunk m = mark_free chunk (link_front list chunk m)"
  by (simp only: insert_chunk_in_list_def link_front_def mark_free_def Let_def)

lemma mark_free_mid:
  assumes mi: "mid m a xs s Hole ys" and c: "c = a + extent xs"
  shows "mid (mark_free c m) a xs s Free ys"
    and "w \<notin> {c + s, c + s + 4} \<Longrightarrow> mark_free c m w = m w"
proof -
  have s: "4 dvd s" "16 \<le> s" using mi by (auto simp: mid_def)
  obtain b b' where 1: "m (c + 4) = sword s False b" "m (c + s + 4) = sword (fst_size ys) (fst_used ys) b'" "4 dvd fst_size ys"
    by (rule midE [OF mi c]) auto
  have "CLEAR_CHUNK_INUSE c m = m" using 1 s by (simp add: CLEAR_CHUNK_INUSE_def fun_eq_iff)
  then have e: "mark_free c m = m(c + s := sword s False b, c + s + 4 := sword (fst_size ys) (fst_used ys) False)"
    using 1 s by (simp add: mark_free_def CLONE_CHUNK_SIZE_def CLEAR_CHUNK_BINUSE_def GET_CHUNK_AFTER_def GET_CHUNK_SIZE_def Let_def)
  show "w \<notin> {c + s, c + s + 4} \<Longrightarrow> mark_free c m w = m w" by (simp add: e)
  show "mid (mark_free c m) a xs s Free ys"
    by (rule mid_change [OF mi c, of b _ _ False]) (use 1 s in \<open>auto simp: e\<close>)
qed

lemma split_mid:
  assumes mi: "mid m a xs s Hole ys" and c: "c = a + extent xs" and n: "4 dvd n" "16 \<le> n" "n + 16 \<le> s"
  shows "fst (split_chunk_at c n m) = c + n"
    and "gl (snd (split_chunk_at c n m)) a Used (xs @ (n, Hole) # (s - n, Hole) # ys)"
    and "w \<notin> {c + 4, c + n + 4} \<Longrightarrow> snd (split_chunk_at c n m) w = m w"
proof -
  obtain b b' where 1: "gpre m a Used xs" "m (c + 4) = sword s False b" "lmark Used xs = Used \<longrightarrow> b" "lmark Used xs = Free \<longrightarrow> \<not> b"
    "m (c + s + 4) = sword (fst_size ys) (fst_used ys) b'" "grest m (c + s) ys" "4 dvd s" "16 \<le> s" "sizes_ok xs" "sizes_ok ys"
    by (rule midE [OF mi c]) auto
  have d: "4 dvd s - n" using 1(7) n(1) by simp
  have f: "fst (split_chunk_at c n m) = c + n" by (simp add: split_chunk_at_def Let_def)
  then show "fst (split_chunk_at c n m) = c + n" .
  have o: "(s - n) OR (0 AND 3) = s - n" by simp
  have g: "GET_CHUNK_SIZE c (m(c + n + 4 := 0)) = s" using 1(2,7) n by (simp add: GET_CHUNK_SIZE_def)
  let ?m1 = "m(c + n + 4 := sword (s - n) False False)"
  have 2: "SET_CHUNK_SIZE (c + n) (s - n) (m(c + n + 4 := 0)) = ?m1" unfolding SET_CHUNK_SIZE_def using o by (simp add: sword_def)
  have 3: "SET_CHUNK_SIZE c n ?m1 = ?m1(c + 4 := sword n False b)" using 1(2,7) n by (simp add: SET_CHUNK_SIZE_def)
  have e: "snd (split_chunk_at c n m) = m(c + n + 4 := sword (s - n) False False, c + 4 := sword n False b)"
    by (simp only: split_chunk_at_def Let_def g 2 3 snd_conv)
  show "w \<notin> {c + 4, c + n + 4} \<Longrightarrow> snd (split_chunk_at c n m) w = m w" by (simp add: e)
  let ?m = "snd (split_chunk_at c n m)"
  have "gpre ?m a Used xs" unfolding e by (rule gpre_frame [OF 1(1,9)]) (auto simp: c)
  moreover have "grest ?m (c + s) ys" by (rule grest_frame [OF 1(6,10)]) (use n in \<open>auto simp: e\<close>)
  moreover have "?m (c + 4) = sword n False b" "?m (c + n + 4) = sword (s - n) False False" "?m (c + s + 4) = m (c + s + 4)"
    using n by (auto simp: e)
  moreover have "c + n + (s - n) = c + s" using n by simp
  ultimately show "gl ?m a Used (xs @ (n, Hole) # (s - n, Hole) # ys)"
    using 1 by (auto simp: gl_append gl_head [of _ _ _ ys] hdr_def c [symmetric])
qed

lemma join_mid:
  assumes g: "gl m a Used (xs @ (s, Hole) # (t, Hole) # ys)" and ok: "sizes_ok (xs @ (s, Hole) # (t, Hole) # ys)" and c: "c = a + extent xs"
  shows "mid (JOIN_CHUNKS c (c + s) m) a xs (s + t) Hole ys"
    and "w \<noteq> c + 4 \<Longrightarrow> JOIN_CHUNKS c (c + s) m w = m w"
proof -
  show "w \<noteq> c + 4 \<Longrightarrow> JOIN_CHUNKS c (c + s) m w = m w" by (simp add: JOIN_CHUNKS_def SET_CHUNK_SIZE_def)
  have d: "4 dvd s" "4 dvd t" "16 \<le> s" "16 \<le> t" "sizes_ok xs" "sizes_ok ys" using ok by auto
  obtain b b1 where 1: "gpre m a Used xs" "m (c + 4) = sword s False b" "lmark Used xs = Used \<longrightarrow> b" "lmark Used xs = Free \<longrightarrow> \<not> b"
    "m (c + s + 4) = sword t False b1" "gl m (c + s + t) Hole ys"
    using g by (auto simp: gl_append hdr_def c)
  have e: "JOIN_CHUNKS c (c + s) m = m(c + 4 := sword (s + t) False b)"
    using 1 d by (simp add: JOIN_CHUNKS_def SET_CHUNK_SIZE_def GET_CHUNK_SIZE_def)
  have "gpre (JOIN_CHUNKS c (c + s) m) a Used xs" unfolding e by (rule gpre_frame [OF 1(1) d(5)]) (auto simp: c)
  moreover have "gl (JOIN_CHUNKS c (c + s) m) (c + s + t) Hole ys" by (rule gl_frame_above [OF 1(6) d(6)]) (use d in \<open>simp add: e\<close>)
  ultimately show "mid (JOIN_CHUNKS c (c + s) m) a xs (s + t) Hole ys"
    using 1 d unfolding mid_def gl_middle by (auto simp: hdr_def e c [symmetric] add.assoc)
qed

end
