(* ===== verification/Os_Grid.thy ===== *)
theory Os_Grid
  imports Os_Gma
begin

text \<open>
  Pools of the grid allocator of \<open>Os_Gma\<close>. \<open>gpool\<close> relates a memory to the sequence of its chunks and to the
  contents of its lists: chunks tile the segment, no two free ones are neighbours, every free chunk is in the list of
  its size and in no other, and the bitmaps say which lists have chunks. Taking a chunk out of its list, putting it back, splitting and joining
  keep this relation; so do \<open>gma_alloc\<close>, \<open>gma_free\<close> and \<open>gma_init\<close>. The chunks can be read back from the memory (\<open>gma_chunks\<close>), and the locale
  \<open>allocator\<close> is interpreted with the operations of the source.
\<close>

unbundle bit_operations_syntax

section \<open>Pools\<close>

text \<open>Where the parts of a pool are: the bitmaps of the second level, the heads and the chunks follow each other, the descriptor is before or behind
  them. \<open>a\<close> is the start of the chunks and \<open>n\<close> their total size.\<close>

definition glev :: "wmem \<Rightarrow> nat \<Rightarrow> nat" where
  "glev m mp = m (mp + 4) - m mp + 1"

definition gconf :: "wmem \<Rightarrow> nat \<Rightarrow> nat \<Rightarrow> nat \<Rightarrow> bool" where
  "gconf m mp a n \<longleftrightarrow>
     mp \<noteq> 0 \<and> 5 \<le> m mp \<and> m mp \<le> m (mp + 4) \<and> m (mp + 4) \<le> 31 \<and> m mp = arch_msb_index (m (mp + 8)) \<and> 32 \<le> m (mp + 8) \<and> m (mp + 8) < 2 ^ 26 \<and>
     4 dvd m (mp + 8) \<and> n < 2 ^ Suc (m (mp + 4)) \<and> m (mp + 16) + 4 * glev m mp \<le> m (mp + 20) \<and> 4 dvd m (mp + 20) \<and>
     a = m (mp + 20) + 128 * glev m mp \<and> a + n + 8 \<le> 2 ^ 32 \<and> (mp + 24 \<le> m (mp + 16) \<or> a + n + 8 \<le> mp)"

fun gfrees :: "nat \<Rightarrow> chunks \<Rightarrow> (nat \<times> nat) set" where
  "gfrees a [] = {}"
| "gfrees a ((s, k) # cs) = (if k = Free then insert (a, s) (gfrees (a + s) cs) else gfrees (a + s) cs)"

definition gsizes :: "nat \<Rightarrow> chunks \<Rightarrow> bool" where
  "gsizes n cs \<longleftrightarrow> (\<forall>(s, k)\<in>set cs. 4 dvd s \<and> n \<le> s)"

definition glists :: "wmem \<Rightarrow> nat \<Rightarrow> nat \<Rightarrow> chunks \<Rightarrow> (nat \<Rightarrow> nat list) \<Rightarrow> bool" where
  "glists m mp a cs F \<longleftrightarrow> (\<forall>i<32 * glev m mp. glist m (m (mp + 20) + 4 * i) (F i) \<and>
     set (F i) = {x. \<exists>s. (x, s) \<in> gfrees a cs \<and> cls (m mp) s = i})"

definition gtiled :: "wmem \<Rightarrow> nat \<Rightarrow> nat \<Rightarrow> chunks \<Rightarrow> (nat \<Rightarrow> nat list) \<Rightarrow> bool" where
  "gtiled m mp a cs F \<longleftrightarrow> gconf m mp a (extent cs) \<and> gsizes (m (mp + 8)) cs \<and> gl m a Used cs \<and> glists m mp a cs F \<and> bitmaps m mp (glev m mp) F"

lemma gsizes_simps [simp]:
  "gsizes n []" "gsizes n ((s, k) # cs) \<longleftrightarrow> 4 dvd s \<and> n \<le> s \<and> gsizes n cs" "gsizes n (xs @ ys) \<longleftrightarrow> gsizes n xs \<and> gsizes n ys"
  by (auto simp: gsizes_def)

lemma gsizes_ok: "gsizes n cs \<Longrightarrow> 32 \<le> n \<Longrightarrow> sizes_ok cs"
  unfolding gsizes_def sizes_ok_def by fastforce

lemma gfrees_append [simp]: "gfrees a (xs @ ys) = gfrees a xs \<union> gfrees (a + extent xs) ys"
  by (induction a xs rule: gfrees.induct) (auto simp: add.assoc)

lemma gfrees_start: "(x, s) \<in> gfrees a cs \<Longrightarrow> x \<in> set (starts a cs) \<and> s \<in> fst ` set cs"
  by (induction a cs rule: gfrees.induct) (auto split: if_splits)

lemma gfrees_outside: "sizes_ok cs \<Longrightarrow> x < a \<or> a + extent cs \<le> x \<Longrightarrow> (x, s) \<notin> gfrees a cs"
  using gfrees_start [of x s a cs] starts_range [of cs x a] by auto

lemma gfrees_split: "(x, s) \<in> gfrees a cs \<Longrightarrow> \<exists>xs ys. cs = xs @ (s, Free) # ys \<and> x = a + extent xs"
proof (induction a cs rule: gfrees.induct)
  case (2 a t k cs)
  show ?case
  proof (cases "(x, s) = (a, t) \<and> k = Free")
    case True
    then show ?thesis by (intro exI [of _ "[]"] exI [of _ cs]) simp
  next
    case False
    with 2 obtain xs ys where "cs = xs @ (s, Free) # ys" "x = a + t + extent xs" by (auto split: if_splits)
    then show ?thesis by (intro exI [of _ "(t, k) # xs"] exI [of _ ys]) simp
  qed
qed simp

lemma gfrees_middle:
  assumes "sizes_ok (xs @ (s, Free) # ys)"
  shows "gfrees a (xs @ (s, Free) # ys) = insert (a + extent xs, s) (gfrees a (xs @ (s, Hole) # ys))"
    "(a + extent xs, t) \<notin> gfrees a (xs @ (s, Hole) # ys)"
  using assms gfrees_outside [of xs "a + extent xs" a] gfrees_outside [of ys "a + extent xs" "a + extent xs + s"] by auto

lemma gfrees_unique: "sizes_ok cs \<Longrightarrow> (x, s) \<in> gfrees a cs \<Longrightarrow> (x, t) \<in> gfrees a cs \<Longrightarrow> s = t"
proof (induction a cs rule: gfrees.induct)
  case (2 a u k cs)
  then show ?case using gfrees_outside [of cs a "a + u"] by (auto split: if_splits)
qed simp

lemma starts_4: "sizes_ok cs \<Longrightarrow> 4 dvd a \<Longrightarrow> x \<in> set (starts a cs) \<Longrightarrow> 4 dvd x"
  by (induction a cs rule: starts.induct) auto

lemma extent_4: "sizes_ok cs \<Longrightarrow> 4 dvd extent cs"
  by (induction cs) auto

text \<open>Starts of chunks and the end are at least 16 bytes apart.\<close>

lemma bounds_apart:
  assumes "sizes_ok cs" and "x \<in> set (starts a cs)" and "y \<in> set (starts a cs) \<union> {a + extent cs}" and "x \<noteq> y"
  shows "x + 16 \<le> y \<or> y + 16 \<le> x"
  using assms starts_apart [of cs x a y] starts_range [of cs x a] by auto

lemma bitmaps_cong:
  "bitmaps m mp lev F \<Longrightarrow> m' (mp + 12) = m (mp + 12) \<Longrightarrow> m' (mp + 16) = m (mp + 16) \<Longrightarrow>
   (\<And>f. f < lev \<Longrightarrow> m' (SL_adr mp f m) = m (SL_adr mp f m)) \<Longrightarrow> (\<And>i. i < 32 * lev \<Longrightarrow> F' i = [] \<longleftrightarrow> F i = []) \<Longrightarrow> bitmaps m' mp lev F'"
  unfolding bitmaps_def by auto

lemma bit_set_push: "bit (v OR 2 ^ l) j \<longleftrightarrow> bit (v::nat) j \<or> j = l"
  by (auto simp: bit_or_iff bit_exp_iff)

lemma or_less: "v < 2 ^ 32 \<Longrightarrow> l < 32 \<Longrightarrow> v OR push_bit l 1 < (2::nat) ^ 32"
proof -
  assume a: "v < 2 ^ 32" "l < 32"
  have "push_bit l 1 < (2::nat) ^ 32" using a(2) power_strict_increasing [of l 32 "2::nat"] by (simp add: push_bit_eq_mult)
  then have "take_bit 32 (v OR push_bit l 1) = v OR push_bit l 1"
    by (simp only: take_bit_or take_bit_nat_eq_self [OF a(1)] take_bit_nat_eq_self)
  then show ?thesis by (metis take_bit_nat_less_exp)
qed

lemma unset_less: "v < 2 ^ 32 \<Longrightarrow> unset_bit l v < (2::nat) ^ 32"
proof -
  assume v: "v < 2 ^ 32"
  then have "take_bit 32 (unset_bit l v) = unset_bit l v"
    using bit_small by (intro bit_eqI) (auto simp: bit_take_bit_iff bit_unset_bit_iff)
  then show ?thesis by (metis take_bit_nat_less_exp)
qed

lemma set_bitmaps:
  assumes b: "bitmaps m mp lev F" and l: "l < 32" and f: "f < lev" "lev \<le> 32" and mp: "m (mp + 16) \<ge> mp + 24 \<or> m (mp + 16) + 4 * lev \<le> mp"
    and xs: "xs \<noteq> []" and m': "m' = set_list_have_chunks mp f l m"
  shows "bitmaps m' mp lev (F(32 * f + l := xs))" and "w \<noteq> SL_adr mp f m \<Longrightarrow> w \<noteq> mp + 12 \<Longrightarrow> m' w = m w"
proof -
  let ?a = "SL_adr mp f m"
  have ne: "SL_adr mp g m \<noteq> mp + 12" "SL_adr mp g m \<noteq> mp + 16" if "g < lev" for g using mp that by auto
  have e: "m' = m(?a := m ?a OR push_bit l 1, mp + 12 := m (mp + 12) OR push_bit f 1)"
    using ne [OF f(1)] by (simp add: m' set_list_have_chunks_def Let_def)
  then show "w \<noteq> SL_adr mp f m \<Longrightarrow> w \<noteq> mp + 12 \<Longrightarrow> m' w = m w" by simp
  have 16: "m' (mp + 16) = m (mp + 16)" using ne(2) [OF f(1)] by (simp add: e)
  have sl: "m' (SL_adr mp g m) = (if g = f then m ?a OR push_bit l 1 else m (SL_adr mp g m))" if "g < lev" for g
    using ne [OF that] by (simp add: e)
  have 12: "m' (mp + 12) = m (mp + 12) OR push_bit f 1" by (simp add: e)
  have nz: "m ?a OR push_bit l 1 \<noteq> 0" by (simp add: or_eq_0_iff)
  have "m' (SL_adr mp g m') < 2 ^ 32 \<and> (\<forall>j<32. bit (m' (SL_adr mp g m')) j \<longleftrightarrow> (F(32 * f + l := xs)) (32 * g + j) \<noteq> [])" if g: "g < lev" for g
  proof (cases "g = f")
    case True
    then show ?thesis using or_less [OF bitmapsD(1) [OF b f(1)] l] bitmapsD(2) [OF b f(1)] xs by (simp add: 16 sl f bit_set_push)
  next
    case False
    then have "32 * g + j \<noteq> 32 * f + l" if "j < 32" for j using that l by (cases g f rule: linorder_cases) auto
    then show ?thesis using False bitmapsD(1,2) [OF b g] by (simp add: 16 sl g)
  qed
  moreover have "m' (mp + 12) < 2 ^ 32" unfolding 12 using or_less [OF bitmapsD(3) [OF b]] f by simp
  moreover have "bit (m' (mp + 12)) g \<longleftrightarrow> g < lev \<and> m' (SL_adr mp g m') \<noteq> 0" for g
    using bitmapsD(4) [OF b, of g] nz f by (cases "g < lev") (auto simp: 12 16 sl bit_set_push)
  ultimately show "bitmaps m' mp lev (F(32 * f + l := xs))" unfolding bitmaps_def by blast
qed

lemma clear_bitmaps:
  assumes b: "bitmaps m mp lev F" and l: "l < 32" and f: "f < lev" and mp: "m (mp + 16) \<ge> mp + 24 \<or> m (mp + 16) + 4 * lev \<le> mp"
    and m': "m' = clear_list_have_chunks mp f l m"
  shows "bitmaps m' mp lev (F(32 * f + l := []))" and "w \<noteq> SL_adr mp f m \<Longrightarrow> w \<noteq> mp + 12 \<Longrightarrow> m' w = m w"
proof -
  let ?a = "SL_adr mp f m" let ?v = "unset_bit l (m ?a)"
  have ne: "SL_adr mp g m \<noteq> mp + 12" "SL_adr mp g m \<noteq> mp + 16" if "g < lev" for g using mp that by auto
  have e: "m' = (m(?a := ?v))(mp + 12 := if ?v = 0 then unset_bit f (m (mp + 12)) else m (mp + 12))"
    using ne [OF f] by (auto simp: m' clear_list_have_chunks_def Let_def fun_eq_iff)
  then show "w \<noteq> SL_adr mp f m \<Longrightarrow> w \<noteq> mp + 12 \<Longrightarrow> m' w = m w" by simp
  have 16: "m' (mp + 16) = m (mp + 16)" using ne(2) [OF f] by (simp add: e)
  have sl: "m' (SL_adr mp g m) = (if g = f then ?v else m (SL_adr mp g m))" if "g < lev" for g
    using ne [OF that] by (simp add: e)
  have 12: "m' (mp + 12) = (if ?v = 0 then unset_bit f (m (mp + 12)) else m (mp + 12))" by (simp add: e)
  have "m' (SL_adr mp g m') < 2 ^ 32 \<and> (\<forall>j<32. bit (m' (SL_adr mp g m')) j \<longleftrightarrow> (F(32 * f + l := [])) (32 * g + j) \<noteq> [])" if g: "g < lev" for g
  proof (cases "g = f")
    case True
    then show ?thesis using unset_less [OF bitmapsD(1) [OF b f], of l] bitmapsD(2) [OF b f] by (auto simp add: 16 sl f bit_unset_bit_iff)
  next
    case False
    then have "32 * g + j \<noteq> 32 * f + l" if "j < 32" for j using that l by (cases g f rule: linorder_cases) auto
    then show ?thesis using False bitmapsD(1,2) [OF b g] by (simp add: 16 sl g)
  qed
  moreover have "m' (mp + 12) < 2 ^ 32" unfolding 12 using unset_less [OF bitmapsD(3) [OF b], of f] bitmapsD(3) [OF b] by simp
  moreover have "bit (m' (mp + 12)) g \<longleftrightarrow> g < lev \<and> m' (SL_adr mp g m') \<noteq> 0" for g
  proof -
    have v: "m ?a = 0 \<Longrightarrow> ?v = 0" by (simp add: unset_bit_of_0)
    note b4 = bitmapsD(4) [OF b]
    show ?thesis
    proof (cases "g = f")
      case True
      have s: "m' (SL_adr mp g m') = ?v" unfolding 16 True using sl [OF f] by simp
      show ?thesis
      proof (cases "?v = 0")
        case v0: True
        have "m' (mp + 12) = unset_bit f (m (mp + 12))" using 12 v0 by argo
        then have "\<not> bit (m' (mp + 12)) g" by (simp only: True bit_unset_bit_iff simp_thms)
        then show ?thesis using s v0 by metis
      next
        case v0: False
        have "m' (mp + 12) = m (mp + 12)" using 12 v0 by argo
        then have "bit (m' (mp + 12)) g" using b4 [of f] v v0 f True by metis
        then show ?thesis using s v0 f True by metis
      qed
    next
      case False
      then show ?thesis using b4 [of g] b4 [of f] f by (cases "g < lev") (simp_all add: 12 16 sl bit_unset_bit_iff)
    qed
  qed
  ultimately show "bitmaps m' mp lev (F(32 * f + l := []))" unfolding bitmaps_def by blast
qed

text \<open>The blocks of clients: address and usable size.\<close>

fun gused :: "nat \<Rightarrow> chunks \<Rightarrow> (nat \<times> nat) list" where
  "gused a [] = []"
| "gused a ((s, k) # cs) = (if k = Used then (a + 8, s - 4) # gused (a + s) cs else gused (a + s) cs)"

definition in_used :: "nat \<Rightarrow> chunks \<Rightarrow> nat \<Rightarrow> bool" where
  "in_used a cs w \<longleftrightarrow> (\<exists>(q, l)\<in>set (gused a cs). q \<le> w \<and> w < q + l)"

lemma gused_append [simp]: "gused a (xs @ ys) = gused a xs @ gused (a + extent xs) ys"
  by (induction a xs rule: gused.induct) (auto simp: add.assoc)

lemma gused_range: "sizes_ok cs \<Longrightarrow> (q, l) \<in> set (gused a cs) \<Longrightarrow> a + 8 \<le> q \<and> q + l \<le> a + extent cs + 4 \<and> 12 \<le> l"
  by (induction a cs rule: gused.induct) (fastforce split: if_splits)+

lemma in_used_outside:
  assumes "in_used a (xs @ (s, k) # ys) w" and "k \<noteq> Used" and "sizes_ok (xs @ (s, k) # ys)" and c: "c = a + extent xs"
  shows "w < c + 4 \<or> c + s + 8 \<le> w"
  using assms gused_range [of xs _ _ a] gused_range [of ys _ _ "a + extent xs + s"] unfolding in_used_def by fastforce

lemma in_used_range: "in_used a cs w \<Longrightarrow> sizes_ok cs \<Longrightarrow> a + 8 \<le> w \<and> w < a + extent cs + 4"
  using gused_range unfolding in_used_def by fastforce

lemma in_used_kind: "k \<noteq> Used \<Longrightarrow> k' \<noteq> Used \<Longrightarrow> in_used a (xs @ (s, k) # ys) = in_used a (xs @ (s, k') # ys)"
  by (simp add: in_used_def fun_eq_iff)

lemma in_used_free:
  assumes "in_used a cs w" and "(x, s) \<in> gfrees a cs" and ok: "sizes_ok cs"
  shows "w < x + 4 \<or> x + s + 8 \<le> w"
proof -
  obtain xs ys where "cs = xs @ (s, Free) # ys" "x = a + extent xs" using gfrees_split [OF assms(2)] by blast
  then show ?thesis using in_used_outside [of a xs s Free ys w] assms by simp
qed

lemma gconfD:
  assumes "gconf m mp a n"
  shows "mp \<noteq> 0" "5 \<le> m mp" "m mp \<le> m (mp + 4)" "m (mp + 4) \<le> 31" "m mp = arch_msb_index (m (mp + 8))" "32 \<le> m (mp + 8)"
    "4 dvd m (mp + 8)" "n < 2 ^ Suc (m (mp + 4))" "m (mp + 16) + 4 * glev m mp \<le> m (mp + 20)" "4 dvd m (mp + 20)"
    "a = m (mp + 20) + 128 * glev m mp" "a + n + 8 \<le> 2 ^ 32" "mp + 24 \<le> m (mp + 16) \<or> a + n + 8 \<le> mp"
    "m (mp + 8) < 2 ^ 26"
  using assms unfolding gconf_def by blast+

lemma gconf_frame:
  assumes "gconf m mp a n" and "m' mp = m mp" "m' (mp + 4) = m (mp + 4)" "m' (mp + 8) = m (mp + 8)" "m' (mp + 16) = m (mp + 16)" "m' (mp + 20) = m (mp + 20)"
  shows "gconf m' mp a n"
  using assms(1) unfolding gconf_def glev_def assms(2-6) .

text \<open>The parts of the pool do not overlap.\<close>

lemma gconf_apart:
  assumes g: "gconf m mp a n" and i: "i < 32 * glev m mp" and f: "f < glev m mp"
  shows "m (mp + 20) + 4 * i + 4 \<le> a" "SL_adr mp f m + 4 \<le> m (mp + 20)" "even (m (mp + 20) + 4 * i)" "4 dvd a" "128 \<le> a" "glev m mp \<le> 32"
    "j \<le> 20 \<Longrightarrow> mp + j \<noteq> m (mp + 20) + 4 * i" "j \<le> 20 \<Longrightarrow> mp + j \<noteq> SL_adr mp f m" "j \<le> 20 \<Longrightarrow> mp + j < a \<or> a + n + 8 \<le> mp + j"
    "SL_adr mp f m < a" "m (mp + 16) \<ge> mp + 24 \<or> m (mp + 16) + 4 * glev m mp \<le> mp"
proof -
  note d = gconfD [OF g]
  have l: "1 \<le> glev m mp" by (simp add: glev_def)
  show "m (mp + 20) + 4 * i + 4 \<le> a" using i d(11) by linarith
  show 2: "SL_adr mp f m + 4 \<le> m (mp + 20)" using f d(9) by linarith
  show "even (m (mp + 20) + 4 * i)" "4 dvd a" using d(10,11) by (auto intro: dvd_trans [of 2 4])
  show "128 \<le> a" using d(11) l by linarith
  show "glev m mp \<le> 32" using d(2,3,4) by (simp add: glev_def)
  show "j \<le> 20 \<Longrightarrow> mp + j \<noteq> m (mp + 20) + 4 * i" "j \<le> 20 \<Longrightarrow> mp + j \<noteq> SL_adr mp f m" "j \<le> 20 \<Longrightarrow> mp + j < a \<or> a + n + 8 \<le> mp + j"
    "m (mp + 16) \<ge> mp + 24 \<or> m (mp + 16) + 4 * glev m mp \<le> mp"
    using d(9,11,13) i f by linarith+
  show "SL_adr mp f m < a" using 2 d(11) by linarith
qed

lemma gtiledD:
  assumes "gtiled m mp a cs F"
  shows "gconf m mp a (extent cs)" "gsizes (m (mp + 8)) cs" "gl m a Used cs" "glists m mp a cs F" "bitmaps m mp (glev m mp) F" "sizes_ok cs"
  using assms gsizes_ok [of "m (mp + 8)" cs] gconfD(6) [of m mp a "extent cs"] unfolding gtiled_def by auto

lemma size_class:
  assumes g: "gconf m mp a n" and s: "m (mp + 8) \<le> s" "s \<le> n"
  shows "32 \<le> s" "m mp \<le> arch_msb_index s" "arch_msb_index s \<le> m (mp + 4)" "cls (m mp) s < 32 * glev m mp" "s < 2 ^ 32"
proof -
  note d = gconfD [OF g]
  show s32: "32 \<le> s" using d(6) s by linarith
  show 1: "m mp \<le> arch_msb_index s" using d(5,6) s msb_mono [of "m (mp + 8)" s] by simp
  have "s < 2 ^ Suc (m (mp + 4))" using s(2) d(8) by linarith
  then show 2: "arch_msb_index s \<le> m (mp + 4)" using msb_less [of s "Suc (m (mp + 4))"] s32 by simp
  then show "cls (m mp) s < 32 * glev m mp" using 1 second_index [OF s32] by (simp add: cls_def glev_def)
  show "s < 2 ^ 32" using s(2) d(12) by linarith
qed

lemma glistsD:
  assumes "glists m mp a cs F" and "i < 32 * glev m mp"
  shows "glist m (m (mp + 20) + 4 * i) (F i)" "x \<in> set (F i) \<longleftrightarrow> (\<exists>s. (x, s) \<in> gfrees a cs \<and> cls (m mp) s = i)"
  using assms unfolding glists_def by auto

lemma free_in_list:
  assumes t: "gtiled m mp a cs F" and x: "(x, s) \<in> gfrees a cs"
  shows "cls (m mp) s < 32 * glev m mp" "x \<in> set (F (cls (m mp) s))" "m (mp + 8) \<le> s" "s \<le> extent cs"
proof -
  note d = gtiledD [OF t]
  obtain xs ys where cs: "cs = xs @ (s, Free) # ys" using gfrees_split [OF x] by blast
  then show s: "m (mp + 8) \<le> s" "s \<le> extent cs" using d(2) by auto
  show i: "cls (m mp) s < 32 * glev m mp" using size_class(4) [OF d(1) s] .
  show "x \<in> set (F (cls (m mp) s))" using glistsD(2) [OF d(4) i] x by blast
qed

lemma list_start: "gtiled m mp a cs F \<Longrightarrow> i < 32 * glev m mp \<Longrightarrow> x \<in> set (F i) \<Longrightarrow> x \<in> set (starts a cs)"
  using glistsD(2) [OF gtiledD(4)] gfrees_start by blast

lemma lists_disjoint:
  assumes t: "gtiled m mp a cs F" and "j < 32 * glev m mp" "i < 32 * glev m mp" "j \<noteq> i"
  shows "set (F j) \<inter> set (F i) = {}"
proof -
  note d = gtiledD [OF t]
  have False if x: "x \<in> set (F j)" "x \<in> set (F i)" for x
  proof -
    obtain s1 s2 where "(x, s1) \<in> gfrees a cs" "cls (m mp) s1 = j" "(x, s2) \<in> gfrees a cs" "cls (m mp) s2 = i"
      using glistsD(2) [OF d(4) assms(2)] glistsD(2) [OF d(4) assms(3)] x by blast
    then show False using gfrees_unique [OF d(6)] assms(4) by blast
  qed
  then show ?thesis by blast
qed

lemma starts_gsep:
  assumes g: "gconf m mp a n" and ok: "sizes_ok cs" and i: "i < 32 * glev m mp" and X: "X \<subseteq> set (starts a cs)"
  shows "gsep (m (mp + 20) + 4 * i) X"
proof -
  have f: "0 < glev m mp" by (simp add: glev_def)
  note p = gconf_apart [OF g i f]
  have x: "a \<le> x \<and> even x \<and> x \<noteq> 0" if "x \<in> X" for x
  proof -
    have "x \<in> set (starts a cs)" using X that by blast
    then have "a \<le> x" "4 dvd x" using starts_range [OF ok] starts_4 [OF ok p(4)] by blast+
    moreover have "(2::nat) dvd 4" by simp
    ultimately show ?thesis using p(5) dvd_trans [of 2 4 x] by auto
  qed
  moreover have "x + 8 \<noteq> y + 12" if "x \<in> X" "y \<in> X" for x y
    using bounds_apart [OF ok subsetD [OF X that(1)], of y] subsetD [OF X that(2)] by (cases "x = y") auto
  moreover have "m (mp + 20) + 4 * i \<noteq> x + 8 \<and> m (mp + 20) + 4 * i \<noteq> x + 12" if "x \<in> X" for x using x [OF that] p(1) by linarith
  ultimately show ?thesis unfolding gsep_def using p(3) by blast
qed

section \<open>Taking a chunk out of its list and putting it back\<close>

text \<open>A change of list \<open>i\<close>: only its head, links of the chunks \<open>X\<close> and the bitmaps are written.\<close>

definition touches :: "wmem \<Rightarrow> nat \<Rightarrow> nat \<Rightarrow> nat set \<Rightarrow> wmem \<Rightarrow> bool" where
  "touches m mp i X m' \<longleftrightarrow>
     (\<forall>w. w \<noteq> m (mp + 20) + 4 * i \<longrightarrow> w \<notin> (\<lambda>x. x + 8) ` X \<union> (\<lambda>x. x + 12) ` X \<longrightarrow> w \<noteq> SL_adr mp (i div 32) m \<longrightarrow> w \<noteq> mp + 12 \<longrightarrow> m' w = m w)"

lemma touches_eq:
  "touches m mp i X m' \<Longrightarrow> w \<noteq> m (mp + 20) + 4 * i \<Longrightarrow> (\<And>x. x \<in> X \<Longrightarrow> w \<noteq> x + 8 \<and> w \<noteq> x + 12) \<Longrightarrow> w \<noteq> SL_adr mp (i div 32) m \<Longrightarrow>
   w \<noteq> mp + 12 \<Longrightarrow> m' w = m w"
  unfolding touches_def by blast

lemma touches_keeps:
  assumes g: "gconf m mp a (extent cs)" and ok: "sizes_ok cs" and i: "i < 32 * glev m mp" and X: "X \<subseteq> set (starts a cs)" and t: "touches m mp i X m'"
  shows "j \<le> 20 \<Longrightarrow> j \<noteq> 12 \<Longrightarrow> m' (mp + j) = m (mp + j)"
    and "y \<in> set (starts a cs) \<union> {a + extent cs} \<Longrightarrow> m' y = m y \<and> m' (y + 4) = m (y + 4)"
    and "k < 32 * glev m mp \<Longrightarrow> k \<noteq> i \<Longrightarrow> m' (m (mp + 20) + 4 * k) = m (m (mp + 20) + 4 * k)"
    and "x \<in> set (starts a cs) \<Longrightarrow> x \<notin> X \<Longrightarrow> m' (x + 8) = m (x + 8) \<and> m' (x + 12) = m (x + 12)"
    and "a \<le> w \<Longrightarrow> w < a + extent cs + 8 \<Longrightarrow> (\<And>x. x \<in> X \<Longrightarrow> w \<noteq> x + 8 \<and> w \<noteq> x + 12) \<Longrightarrow> m' w = m w"
proof -
  have iv: "i div 32 < glev m mp" using i by auto
  note ap = gconf_apart [OF g i iv]
  have xr: "a \<le> x \<and> x + 16 \<le> a + extent cs" if "x \<in> X" for x using X that starts_range [OF ok, of x a] by blast
  show 5: "m' w = m w" if "a \<le> w" "w < a + extent cs + 8" "\<And>x. x \<in> X \<Longrightarrow> w \<noteq> x + 8 \<and> w \<noteq> x + 12" for w
    by (rule touches_eq [OF t _ that(3)]) (use ap(1,10) ap(9) [of 12] that(1,2) in linarith)+
  show "m' (mp + j) = m (mp + j)" if "j \<le> 20" "j \<noteq> 12" for j
    by (rule touches_eq [OF t]) (use ap(7,8,9) [OF that(1)] that(2) xr in fastforce)+
  show "m' (m (mp + 20) + 4 * k) = m (m (mp + 20) + 4 * k)" if k: "k < 32 * glev m mp" "k \<noteq> i" for k
  proof (rule touches_eq [OF t])
    note ak = gconf_apart [OF g k(1) iv]
    show "m (mp + 20) + 4 * k \<noteq> m (mp + 20) + 4 * i" "m (mp + 20) + 4 * k \<noteq> SL_adr mp (i div 32) m" "m (mp + 20) + 4 * k \<noteq> mp + 12"
      using k(2) ak(2) ak(7) [of 12] by linarith+
    show "m (mp + 20) + 4 * k \<noteq> x + 8 \<and> m (mp + 20) + 4 * k \<noteq> x + 12" if "x \<in> X" for x using xr [OF that] ak(1) by linarith
  qed
  show "m' y = m y \<and> m' (y + 4) = m (y + 4)" if y: "y \<in> set (starts a cs) \<union> {a + extent cs}" for y
  proof -
    have "a \<le> y" "y \<le> a + extent cs" using y starts_range [OF ok, of y a] by auto
    moreover have "y \<noteq> x + 8 \<and> y \<noteq> x + 12 \<and> y + 4 \<noteq> x + 8 \<and> y + 4 \<noteq> x + 12" if "x \<in> X" for x
      using bounds_apart [OF ok _ y, of x] X that by (cases "x = y") auto
    ultimately show ?thesis using 5 [of y] 5 [of "y + 4"] by simp
  qed
  show "m' (x + 8) = m (x + 8) \<and> m' (x + 12) = m (x + 12)" if x: "x \<in> set (starts a cs)" "x \<notin> X" for x
  proof -
    have "x + 8 \<noteq> z + 8 \<and> x + 8 \<noteq> z + 12 \<and> x + 12 \<noteq> z + 8 \<and> x + 12 \<noteq> z + 12" if "z \<in> X" for z
      using bounds_apart [OF ok x(1), of z] X that x(2) by fastforce
    then show ?thesis using 5 [of "x + 8"] 5 [of "x + 12"] starts_range [OF ok x(1)] by simp
  qed
qed

text \<open>So everything but list \<open>i\<close> and the bitmaps stays as it is.\<close>

lemma touches_tiled:
  assumes g: "gconf m mp a (extent cs)" and sz: "gsizes (m (mp + 8)) cs" and gl: "gl m a Used cs" and L: "glists m mp a es F"
    and ok: "sizes_ok cs" and i: "i < 32 * glev m mp" and X: "X \<subseteq> set (starts a cs)" and t: "touches m mp i X m'"
    and F': "\<And>j. j < 32 * glev m mp \<Longrightarrow> j \<noteq> i \<Longrightarrow> F' j = F j \<and> set (F j) \<subseteq> set (starts a cs) - X"
    and li: "glist m' (m (mp + 20) + 4 * i) (F' i)" and b: "bitmaps m' mp (glev m mp) F'"
    and fr: "\<And>j. j < 32 * glev m mp \<Longrightarrow> set (F' j) = {x. \<exists>s. (x, s) \<in> gfrees a cs \<and> cls (m mp) s = j}"
  shows "gtiled m' mp a cs F'"
proof -
  note k = touches_keeps [OF g ok i X t]
  have mp: "m' mp = m mp" "m' (mp + 4) = m (mp + 4)" "m' (mp + 8) = m (mp + 8)" "m' (mp + 16) = m (mp + 16)" "m' (mp + 20) = m (mp + 20)"
    using k(1) [of 0] k(1) [of 4] k(1) [of 8] k(1) [of 16] k(1) [of 20] by simp_all
  have lev: "glev m' mp = glev m mp" using mp by (simp add: glev_def)
  have "glist m' (m (mp + 20) + 4 * j) (F' j)" if j: "j < 32 * glev m mp" for j
  proof (cases "j = i")
    case False
    have "glist m (m (mp + 20) + 4 * j) (F j)" using glistsD(1) [OF L j] .
    then have "glist m' (m (mp + 20) + 4 * j) (F j)" by (rule glist_frame) (use k(3) [OF j False] k(4) F' [OF j False] in blast)+
    then show ?thesis using F' [OF j False] by simp
  qed (use li in simp)
  then have "glists m' mp a cs F'" using fr unfolding glists_def lev mp by blast
  moreover have "gl m' a Used cs" by (rule gl_frame [OF gl k(2)])
  moreover have "gconf m' mp a (extent cs)" by (rule gconf_frame [OF g mp])
  ultimately show ?thesis unfolding gtiled_def lev mp(3) using sz b by blast
qed

text \<open>What both ways of taking a chunk out of list \<open>i\<close> do.\<close>

definition drop_free :: "nat \<Rightarrow> nat \<Rightarrow> nat \<Rightarrow> wmem \<Rightarrow> wmem" where
  "drop_free mp i c m =
     (let (r, m) = remove_chunk_from_list c m in if r \<noteq> 0 then clear_list_have_chunks mp (i div 32) (i mod 32) m else m)"

lemma drop_free_list:
  assumes t: "gtiled m mp a cs F" and i: "i < 32 * glev m mp" and c: "c \<in> set (F i)"
  shows "touches m mp i (set (F i)) (drop_free mp i c m)" and "glist (drop_free mp i c m) (m (mp + 20) + 4 * i) (remove1 c (F i))"
    and "bitmaps (drop_free mp i c m) mp (glev m mp) (F(i := remove1 c (F i)))"
    and "touches m mp i (set (F i)) (snd (remove_chunk_from_list c m))"
proof -
  let ?h = "m (mp + 20) + 4 * i" and ?lev = "glev m mp"
  note d = gtiledD [OF t]
  have iv: "i div 32 < ?lev" "i mod 32 < 32" using i by auto
  obtain us vs where F: "F i = us @ c # vs" "c \<notin> set us" using c by (meson split_list_first)
  have rm: "remove1 c (F i) = us @ vs" using F by (simp add: remove1_append)
  have X: "set (F i) \<subseteq> set (starts a cs)" using list_start [OF t i] by blast
  have gsep: "gsep ?h (set (F i))" by (rule starts_gsep [OF d(1,6) i X])
  obtain m1 where m1: "remove_chunk_from_list c m = (of_bool (us = [] \<and> vs = []), m1)" "glist m1 ?h (us @ vs)"
    "\<And>w. w \<noteq> ?h \<Longrightarrow> (\<And>x. x \<in> set (us @ vs) \<Longrightarrow> w \<noteq> x + 8 \<and> w \<noteq> x + 12) \<Longrightarrow> m1 w = m w"
    using remove_from_list [of m ?h us c vs] glistsD(1) [OF d(4) i] gsep unfolding F(1) by metis
  have t1: "touches m mp i (set (F i)) m1" unfolding touches_def F(1) using m1(3) by auto
  then show "touches m mp i (set (F i)) (snd (remove_chunk_from_list c m))" by (simp add: m1(1))
  note k = touches_keeps [OF d(1,6) i X t1]
  note ap = gconf_apart [OF d(1) i]
  have w1: "m1 w = m w" if "w \<noteq> ?h" "w < a \<or> a + extent cs \<le> w" for w
  proof (rule m1(3) [OF that(1)])
    fix x assume "x \<in> set (us @ vs)"
    then have "a \<le> x \<and> x + 16 \<le> a + extent cs" using X starts_range [OF d(6), of x a] F(1) by auto
    then show "w \<noteq> x + 8 \<and> w \<noteq> x + 12" using that(2) by auto
  qed
  have sl: "m1 (SL_adr mp f m) = m (SL_adr mp f m)" if "f < ?lev" for f
    by (rule w1) (use ap(2,10) [OF that] in linarith)+
  have 12: "m1 (mp + 12) = m (mp + 12)" by (rule w1) (use ap(7,9) [OF iv(1), of 12] in linarith)+
  have b1: "bitmaps m1 mp ?lev F" by (rule bitmaps_cong [OF d(5)]) (use 12 k(1) [of 16] sl in auto)
  have mp1: "m1 (mp + 16) \<ge> mp + 24 \<or> m1 (mp + 16) + 4 * ?lev \<le> mp" using ap(11) [OF iv(1)] k(1) [of 16] by simp
  note cb = clear_bitmaps [OF b1 iv(2,1) mp1 refl]
  have 16: "SL_adr mp (i div 32) m1 = SL_adr mp (i div 32) m" using k(1) [of 16] by simp
  let ?m = "drop_free mp i c m"
  have e: "?m = (if us = [] \<and> vs = [] then clear_list_have_chunks mp (i div 32) (i mod 32) m1 else m1)"
    by (simp add: drop_free_def m1(1))
  have w2: "?m w = m1 w" if "w \<noteq> SL_adr mp (i div 32) m" "w \<noteq> mp + 12" for w
    unfolding e using cb(2) [of w] that 16 by (cases "us = [] \<and> vs = []") simp_all
  then show "touches m mp i (set (F i)) ?m" using t1 unfolding touches_def by auto
  show "glist ?m ?h (remove1 c (F i))"
    unfolding rm
  proof (rule glist_frame [OF m1(2)])
    show "?m ?h = m1 ?h" by (rule w2) (use ap(2) [OF iv(1)] ap(7) [OF iv(1), of 12] in linarith)+
    fix x assume "x \<in> set (us @ vs)"
    then have "a \<le> x \<and> x + 16 \<le> a + extent cs" using X starts_range [OF d(6), of x a] F(1) by auto
    then show "?m (x + 8) = m1 (x + 8) \<and> ?m (x + 12) = m1 (x + 12)" using w2 [of "x + 8"] w2 [of "x + 12"] ap(10) [OF iv(1)] ap(9) [OF iv(1), of 12] by auto
  qed
  have i32: "32 * (i div 32) + i mod 32 = i" by simp
  show "bitmaps ?m mp ?lev (F(i := remove1 c (F i)))"
  proof (cases "us = [] \<and> vs = []")
    case True
    then show ?thesis unfolding e rm if_P [OF True] using cb(1) by (simp add: i32)
  next
    case False
    then show ?thesis unfolding e rm if_not_P [OF False] by (intro bitmaps_cong [OF b1]) (auto simp: F(1))
  qed
qed

lemma starts_kind: "starts a (xs @ (s, k) # ys) = starts a (xs @ (s, k') # ys)"
  by simp

lemma take_tiled:
  assumes t: "gtiled m mp a (xs @ (s, Free) # ys) F" and c: "c = a + extent xs" and i: "i = cls (m mp) s"
  shows "gtiled (drop_free mp i c m) mp a (xs @ (s, Hole) # ys) (F(i := remove1 c (F i)))"
    and "in_used a (xs @ (s, Free) # ys) w \<Longrightarrow> drop_free mp i c m w = m w"
proof -
  let ?cs = "xs @ (s, Free) # ys" and ?ds = "xs @ (s, Hole) # ys"
  note d = gtiledD [OF t]
  have cf: "(c, s) \<in> gfrees a ?cs" using gfrees_middle(1) [OF d(6), of a] c by blast
  note fi = free_in_list [OF t cf, folded i]
  note df = drop_free_list [OF t fi(1,2)]
  have X: "set (F i) \<subseteq> set (starts a ?cs)" using list_start [OF t fi(1)] by blast
  have cu: "distinct (F i)" using glistsD(1) [OF d(4) fi(1)] by (simp add: glist_def)
  have other: "c \<notin> set (F j)" if "j < 32 * glev m mp" "j \<noteq> i" for j
    using glistsD(2) [OF d(4) that(1), of c] gfrees_unique [OF d(6) _ cf] that(2) i by auto
  define G where "G = gfrees a ?ds"
  have G: "gfrees a ?cs = insert (c, s) G" "\<And>t. (c, t) \<notin> G" using gfrees_middle [OF d(6), of a] by (simp_all only: G_def c not_False_eq_True)
  show "gtiled (drop_free mp i c m) mp a ?ds (F(i := remove1 c (F i)))"
  proof (rule touches_tiled [OF _ _ _ d(4) _ fi(1) _ df(1)])
    show "gconf m mp a (extent ?ds)" "gsizes (m (mp + 8)) ?ds" "sizes_ok ?ds" using d(1,2,6) by simp_all
    show "gl m a Used ?ds" using d(3) gl_hole by (auto simp: gl_middle)
    show "set (F i) \<subseteq> set (starts a ?ds)" using X by simp
    show "glist (drop_free mp i c m) (m (mp + 20) + 4 * i) ((F(i := remove1 c (F i))) i)" using df(2) by simp
    show "bitmaps (drop_free mp i c m) mp (glev m mp) (F(i := remove1 c (F i)))" by (rule df(3))
    fix j assume j: "j < 32 * glev m mp"
    have "set ((F(i := remove1 c (F i))) j) = set (F j) - {c}" using other [OF j] cu by (cases "j = i") auto
    moreover have "x \<in> set (F j) \<longleftrightarrow> (\<exists>t. (x, t) \<in> insert (c, s) G \<and> cls (m mp) t = j)" for x
      using glistsD(2) [OF d(4) j, of x] by (simp only: G(1))
    ultimately show "set ((F(i := remove1 c (F i))) j) = {x. \<exists>s. (x, s) \<in> gfrees a ?ds \<and> cls (m mp) s = j}"
      using G(2) by (auto simp only: G_def [symmetric])
    assume ji: "j \<noteq> i"
    then have "set (F j) \<inter> set (F i) = {}" using lists_disjoint [OF t j fi(1)] by blast
    then show "(F(i := remove1 c (F i))) j = F j \<and> set (F j) \<subseteq> set (starts a ?ds) - set (F i)" using list_start [OF t j] ji by auto
  qed
  show "drop_free mp i c m w = m w" if u: "in_used a ?cs w"
  proof (rule touches_keeps(5) [OF d(1,6) fi(1) X df(1)])
    show "a \<le> w" "w < a + extent ?cs + 8" using in_used_range [OF u d(6)] by auto
    fix x assume "x \<in> set (F i)"
    then obtain s1 where s1: "(x, s1) \<in> gfrees a ?cs" using glistsD(2) [OF d(4) fi(1)] by blast
    have "32 \<le> s1" using size_class(1) [OF d(1) free_in_list(3,4) [OF t s1]] .
    then show "w \<noteq> x + 8 \<and> w \<noteq> x + 12" using in_used_free [OF u s1 d(6)] by auto
  qed
qed

lemma remove_chunk_from_free_list_eq:
  assumes t: "gtiled m mp a (xs @ (s, Free) # ys) F" and c: "c = a + extent xs"
  shows "remove_chunk_from_free_list mp c m = Inr (drop_free mp (cls (m mp) s) c m)"
proof -
  let ?cs = "xs @ (s, Free) # ys" and ?i = "cls (m mp) s" and ?m = "snd (remove_chunk_from_list c m)"
  note d = gtiledD [OF t]
  have cf: "(c, s) \<in> gfrees a ?cs" using gfrees_middle(1) [OF d(6), of a] c by blast
  note fi = free_in_list [OF t cf]
  have X: "set (F ?i) \<subseteq> set (starts a ?cs)" using list_start [OF t fi(1)] by blast
  note k = touches_keeps [OF d(1,6) fi(1) X drop_free_list(4) [OF t fi(1,2)]]
  have "mid m a xs s Free ys" using d(3,6) by (simp add: mid_def)
  then have "GET_CHUNK_SIZE c m = s" using mid_size(1) c by blast
  moreover have "?m (c + 4) = m (c + 4)" using k(2) [of c] gfrees_start [OF cf] by blast
  ultimately have sz: "GET_CHUNK_SIZE c ?m = s" by (simp add: GET_CHUNK_SIZE_def)
  note sc = size_class [OF d(1) fi(3,4)]
  have mp: "?m mp = m mp" "?m (mp + 4) = m (mp + 4)" using k(1) [of 0] k(1) [of 4] by simp_all
  have "get_indexes mp s 0 True ?m = Inr (0, ?i div 32, ?i mod 32)"
    using get_indexes_insert [OF sc(1,5), of ?m mp 0] sc(2,3) gconfD(2) [OF d(1)] by (simp add: mp)
  then show ?thesis using sz by (cases "remove_chunk_from_list c m") (simp add: remove_chunk_from_free_list_def drop_free_def)
qed

lemma remove_first_eq:
  assumes t: "gtiled m mp a cs F" and i: "i < 32 * glev m mp" and F: "F i = c # xs"
  shows "remove_first_chunk_from_free_list mp (i div 32) (i mod 32) m = (c, drop_free mp i c m)"
proof -
  have "m (m (mp + 20) + 4 * i) = c" using glistsD(1) [OF gtiledD(4) [OF t] i] F by (simp add: glist_def)
  moreover have "32 * (i div 32) + i mod 32 = i" by simp
  ultimately show ?thesis
    unfolding remove_first_chunk_from_free_list_def drop_free_def by (simp split: prod.splits)
qed

text \<open>Writing to sizes, and nothing else.\<close>

lemma sizes_only:
  assumes g: "gconf m mp a (extent cs)" and ok: "sizes_ok cs" and Y: "Y \<subseteq> set (starts a cs) \<union> {a + extent cs}"
    and e: "\<forall>w. (\<forall>y\<in>Y. w \<noteq> y \<and> w \<noteq> y + 4) \<longrightarrow> m' w = m w"
  shows "j \<le> 20 \<Longrightarrow> m' (mp + j) = m (mp + j)" "f < glev m mp \<Longrightarrow> m' (SL_adr mp f m) = m (SL_adr mp f m)"
    "i < 32 * glev m mp \<Longrightarrow> m' (m (mp + 20) + 4 * i) = m (m (mp + 20) + 4 * i)"
    "x \<in> set (starts a cs) \<Longrightarrow> m' (x + 8) = m (x + 8) \<and> m' (x + 12) = m (x + 12)"
proof -
  have y: "a \<le> y \<and> y \<le> a + extent cs" if "y \<in> Y" for y using Y that starts_range [OF ok, of y a] by auto
  then have out: "m' w = m w" if "w < a \<or> a + extent cs + 8 \<le> w" for w using that by (intro e [rule_format]) fastforce
  have z: "0 < glev m mp" by (simp add: glev_def)
  show "j \<le> 20 \<Longrightarrow> m' (mp + j) = m (mp + j)" using out gconf_apart(9) [OF g _ z, of 0] z by simp
  show "f < glev m mp \<Longrightarrow> m' (SL_adr mp f m) = m (SL_adr mp f m)" using out gconf_apart(10) [OF g, of 0] z by simp
  show "i < 32 * glev m mp \<Longrightarrow> m' (m (mp + 20) + 4 * i) = m (m (mp + 20) + 4 * i)" using out gconf_apart(1) [OF g _ z] by fastforce
  show "m' (x + 8) = m (x + 8) \<and> m' (x + 12) = m (x + 12)" if x: "x \<in> set (starts a cs)"
  proof -
    have "x + 8 \<noteq> y \<and> x + 12 \<noteq> y \<and> x + 8 \<noteq> y + 4 \<and> x + 12 \<noteq> y + 4" if "y \<in> Y" for y
      using bounds_apart [OF ok x, of y] Y that by (cases "x = y") auto
    then show ?thesis using e by blast
  qed
qed

text \<open>Linking a chunk in front of its list and setting its sizes, before the bitmaps are updated.\<close>

lemma put_linked:
  assumes t: "gtiled m mp a (xs @ (s, Hole) # ys) F" and c: "c = a + extent xs" and i: "i = cls (m mp) s"
    and m2: "m2 = insert_chunk_in_list (m (mp + 20) + 4 * i) c m"
  shows "gconf m2 mp a (extent (xs @ (s, Free) # ys))" "gl m2 a Used (xs @ (s, Free) # ys)" "glists m2 mp a (xs @ (s, Free) # ys) (F(i := c # F i))"
    "bitmaps m2 mp (glev m mp) F" "j \<le> 20 \<Longrightarrow> m2 (mp + j) = m (mp + j)" "in_used a (xs @ (s, Hole) # ys) w \<Longrightarrow> m2 w = m w"
proof -
  let ?cs = "xs @ (s, Hole) # ys" and ?ds = "xs @ (s, Free) # ys" and ?h = "m (mp + 20) + 4 * i" and ?lev = "glev m mp"
  note d = gtiledD [OF t]
  have ok: "sizes_ok ?ds" using d(6) by simp
  have s: "m (mp + 8) \<le> s" "s \<le> extent ?cs" using d(2) by auto
  note sc = size_class [OF d(1) s, folded i]
  have cs: "c \<in> set (starts a ?cs)" using c by simp
  define G where "G = gfrees a ?cs"
  have G: "gfrees a ?ds = insert (c, s) G" "\<And>t. (c, t) \<notin> G" using gfrees_middle [OF ok, of a] by (simp_all only: G_def c not_False_eq_True)
  have FG: "x \<in> set (F j) \<longleftrightarrow> (\<exists>t. (x, t) \<in> G \<and> cls (m mp) t = j)" if "j < 32 * ?lev" for j x
    using glistsD(2) [OF d(4) that] by (simp only: G_def)
  have cn: "c \<notin> set (F j)" if "j < 32 * ?lev" for j using FG [OF that] G(2) by blast
  have X: "insert c (set (F i)) \<subseteq> set (starts a ?cs)" using list_start [OF t sc(4)] cs by blast
  define m1 where "m1 = link_front ?h c m"
  note lf = link_front_list [OF glistsD(1) [OF d(4) sc(4)] starts_gsep [OF d(1,6) sc(4) X] cn [OF sc(4)], folded m1_def]
  have t1: "touches m mp i (insert c (set (F i))) m1" unfolding touches_def using lf(2) by auto
  note k1 = touches_keeps [OF d(1,6) sc(4) X t1]
  have iv: "i div 32 < ?lev" using sc(4) by auto
  have o1: "m1 w = m w" if "w \<noteq> ?h" "w < a \<or> a + extent ?cs \<le> w" for w
  proof (rule lf(2) [OF that(1)])
    have r: "a \<le> x \<and> x + 16 \<le> a + extent ?cs" if "x \<in> insert c (set (F i))" for x using X that starts_range [OF d(6), of x a] by blast
    show "w \<notin> {c + 8, c + 12}" using r [of c] that(2) by auto
    show "w \<noteq> x + 8" if "x \<in> set (F i)" for x using r [of x] that \<open>w < a \<or> a + extent ?cs \<le> w\<close> by auto
  qed
  have mp1: "m1 (mp + j) = m (mp + j)" if "j \<le> 20" for j
    by (rule o1) (use gconf_apart(7,9) [OF d(1) sc(4) iv that] in linarith)+
  have sl1: "m1 (SL_adr mp f m) = m (SL_adr mp f m)" if "f < ?lev" for f
    by (rule o1) (use gconf_apart(2,10) [OF d(1) sc(4) that] in linarith)+
  have mi1: "mid m1 a xs s Hole ys" unfolding mid_def using gl_frame [OF d(3) k1(2)] d(6) by blast
  have m2': "m2 = mark_free c m1" by (simp add: m2 insert_in_list_parts m1_def)
  note mf = mark_free_mid [OF mi1 c, folded m2']
  then show "gl m2 a Used ?ds" by (simp add: mid_def)
  have g1: "gconf m1 mp a (extent ?cs)"
    by (rule gconf_frame [OF d(1)]) (use mp1 [of 0] mp1 [of 4] mp1 [of 8] mp1 [of 16] mp1 [of 20] in simp_all)
  have lev1: "glev m1 mp = ?lev" using mp1 [of 0] mp1 [of 4] by (simp add: glev_def)
  have bd: "{c + s} \<subseteq> set (starts a ?cs) \<union> {a + extent ?cs}" using c by (cases ys) (auto simp: add.assoc)
  have e2: "\<forall>w. (\<forall>y\<in>{c + s}. w \<noteq> y \<and> w \<noteq> y + 4) \<longrightarrow> m2 w = m1 w" using mf(2) by simp
  note k2 = sizes_only [OF g1 d(6) bd e2, unfolded lev1 mp1 [of 16, simplified] mp1 [of 20, simplified]]
  show mp2: "m2 (mp + j) = m (mp + j)" if "j \<le> 20" for j using k2(1) mp1 that by simp
  have lev2: "glev m2 mp = ?lev" "m2 mp = m mp" "m2 (mp + 20) = m (mp + 20)" using mp2 [of 0] mp2 [of 4] mp2 [of 20] by (simp_all add: glev_def)
  show "gconf m2 mp a (extent ?ds)"
    using gconf_frame [OF d(1), of m2] mp2 [of 0] mp2 [of 4] mp2 [of 8] mp2 [of 16] mp2 [of 20] by simp
  show "bitmaps m2 mp ?lev F"
    by (rule bitmaps_cong [OF d(5)]) (use mp2 [of 12] mp2 [of 16] k2(2) sl1 in simp_all)
  show "glists m2 mp a ?ds (F(i := c # F i))"
    unfolding glists_def lev2
  proof (intro allI impI conjI)
    fix j assume j: "j < 32 * ?lev"
    have "glist m1 (m (mp + 20) + 4 * j) ((F(i := c # F i)) j)"
    proof (cases "j = i")
      case False
      have "x \<notin> insert c (set (F i))" if "x \<in> set (F j)" for x
        using lists_disjoint [OF t j sc(4) False] cn [OF j] that by blast
      then show ?thesis using False glist_frame [OF glistsD(1) [OF d(4) j], of m1] k1(3) [OF j False] k1(4) list_start [OF t j] by simp
    qed (use lf(1) in simp)
    then show "glist m2 (m (mp + 20) + 4 * j) ((F(i := c # F i)) j)"
    proof (rule glist_frame)
      show "m2 (m (mp + 20) + 4 * j) = m1 (m (mp + 20) + 4 * j)" by (rule k2(3) [OF j])
      fix x assume "x \<in> set ((F(i := c # F i)) j)"
      then have "x \<in> set (starts a ?cs)" using cs list_start [OF t j] list_start [OF t sc(4)] by (auto split: if_splits)
      then show "m2 (x + 8) = m1 (x + 8) \<and> m2 (x + 12) = m1 (x + 12)" by (rule k2(4))
    qed
    have "x \<in> set ((F(i := c # F i)) j) \<longleftrightarrow> (\<exists>t. (x, t) \<in> insert (c, s) G \<and> cls (m mp) t = j)" for x
    proof -
      have "x \<in> set ((F(i := c # F i)) j) \<longleftrightarrow> x = c \<and> j = i \<or> x \<in> set (F j)" by simp
      then show ?thesis unfolding FG [OF j] i by blast
    qed
    then show "set ((F(i := c # F i)) j) = {x. \<exists>t. (x, t) \<in> gfrees a ?ds \<and> cls (m mp) t = j}" by (simp only: G(1)) blast
  qed
  show "m2 w = m w" if u: "in_used a ?cs w"
  proof -
    have uc: "w < c + 4 \<or> c + s + 8 \<le> w" using in_used_outside [OF u _ d(6) c] by simp
    have "m1 w = m w"
    proof (rule k1(5))
      show "a \<le> w" "w < a + extent ?cs + 8" using in_used_range [OF u d(6)] by auto
      fix x assume "x \<in> insert c (set (F i))"
      then consider "x = c" | t where "(x, t) \<in> gfrees a ?cs" using FG [OF sc(4)] G_def by blast
      then show "w \<noteq> x + 8 \<and> w \<noteq> x + 12"
      proof cases
        case 1
        then show ?thesis using uc sc(1) by auto
      next
        case (2 t)
        have "32 \<le> t" using size_class(1) [OF d(1) free_in_list(3,4) [OF \<open>gtiled m mp a ?cs F\<close> 2]] .
        then show ?thesis using in_used_free [OF u 2 d(6)] by auto
      qed
    qed
    moreover have "w \<notin> {c + s, c + s + 4}" using uc sc(1) by auto
    ultimately show ?thesis using mf(2) [of w] by simp
  qed
qed

lemma put_tiled:
  assumes t: "gtiled m mp a (xs @ (s, Hole) # ys) F" and c: "c = a + extent xs"
  shows "\<exists>m' F'. insert_chunk_in_free_list mp c m = Inr m' \<and> gtiled m' mp a (xs @ (s, Free) # ys) F' \<and>
    (\<forall>w. in_used a (xs @ (s, Hole) # ys) w \<longrightarrow> m' w = m w) \<and> (\<forall>j\<le>20. j \<noteq> 12 \<longrightarrow> m' (mp + j) = m (mp + j))"
proof -
  let ?cs = "xs @ (s, Hole) # ys" and ?ds = "xs @ (s, Free) # ys"
  define i where "i = cls (m mp) s"
  let ?h = "m (mp + 20) + 4 * i" and ?lev = "glev m mp" and ?F = "F(i := c # F i)"
  note d = gtiledD [OF t]
  have ok: "sizes_ok ?ds" using d(6) by simp
  have s: "m (mp + 8) \<le> s" "s \<le> extent ?cs" using d(2) by auto
  note sc = size_class [OF d(1) s, folded i_def]
  have iv: "i div 32 < ?lev" "i mod 32 < 32" and i32: "32 * (i div 32) + i mod 32 = i" using sc(4) by auto
  define m2 where "m2 = insert_chunk_in_list ?h c m"
  note p = put_linked [OF t c i_def m2_def]
  have mp2: "m2 (mp + 16) = m (mp + 16)" "m2 (mp + 20) = m (mp + 20)" "m2 (mp + 8) = m (mp + 8)" "glev m2 mp = ?lev" "m2 mp = m mp"
    using p(5) [of 16] p(5) [of 20] p(5) [of 8] p(5) [of 0] p(5) [of 4] by (simp_all add: glev_def)
  have lev32: "?lev \<le> 32" and mpa: "m2 (mp + 16) \<ge> mp + 24 \<or> m2 (mp + 16) + 4 * ?lev \<le> mp"
    using gconf_apart(6,11) [OF d(1) sc(4) iv(1)] by (simp_all add: mp2)
  define m3 where "m3 = set_list_have_chunks mp (i div 32) (i mod 32) m2"
  note sb = set_bitmaps [OF p(4) iv(2,1) lev32 mpa, of "c # F i" m3, OF _ m3_def, unfolded i32]
  have t3: "touches m2 mp i {} m3" unfolding touches_def using sb(2) by auto
  have i2: "i < 32 * glev m2 mp" using sc(4) mp2 by simp
  have g3: "gtiled m3 mp a ?ds ?F"
  proof (rule touches_tiled [OF p(1) _ p(2,3) ok i2 _ t3])
    show "gsizes (m2 (mp + 8)) ?ds" using d(2) mp2 by simp
    note ap = gconf_apart [OF p(1) i2, unfolded mp2, OF iv(1)]
    show "glist m3 (m2 (mp + 20) + 4 * i) (?F i)"
    proof (rule glist_frame [OF glistsD(1) [OF p(3) i2]])
      show "m3 (m2 (mp + 20) + 4 * i) = m2 (m2 (mp + 20) + 4 * i)"
        by (rule sb(2)) (use ap(2) ap(7) [of 12] mp2 in auto)
      fix x assume "x \<in> set (?F i)"
      then have "x \<in> set (starts a ?ds)" using glistsD(2) [OF p(3) i2] gfrees_start by blast
      then have "a \<le> x" "x + 16 \<le> a + extent ?ds" using starts_range [OF ok] by blast+
      then have "x + 8 \<noteq> SL_adr mp (i div 32) m" "x + 12 \<noteq> SL_adr mp (i div 32) m" "x + 8 \<noteq> mp + 12" "x + 12 \<noteq> mp + 12"
        using ap(10) ap(9) [of 12] by linarith+
      then show "m3 (x + 8) = m2 (x + 8) \<and> m3 (x + 12) = m2 (x + 12)" using sb(2) by (simp add: mp2)
    qed
    show "bitmaps m3 mp (glev m2 mp) ?F" using sb(1) by (simp add: mp2)
    fix j assume j: "j < 32 * glev m2 mp"
    show "set (?F j) = {x. \<exists>s. (x, s) \<in> gfrees a ?ds \<and> cls (m2 mp) s = j}" using glistsD(2) [OF p(3) j] by blast
    show "?F j = ?F j \<and> set (?F j) \<subseteq> set (starts a ?ds) - {}" using glistsD(2) [OF p(3) j] gfrees_start by blast
  qed simp
  have "mid m a xs s Hole ys" using d(3,6) by (simp add: mid_def)
  then have "GET_CHUNK_SIZE c m = s" using mid_size(1) c by blast
  moreover have "get_indexes mp s 0 True m = Inr (0, i div 32, i mod 32)"
    using get_indexes_insert [OF sc(1,5), of m mp 0] sc(2,3) gconfD(2) [OF d(1)] by (simp add: i_def)
  ultimately have "insert_chunk_in_free_list mp c m = Inr m3"
    unfolding insert_chunk_in_free_list_def m3_def m2_def by (simp only: rbind_Inr prod.case Let_def i32)
  moreover have "m3 w = m w" if u: "in_used a ?cs w" for w
    using p(6) [OF u] sb(2) [of w] in_used_range [OF u d(6)] gconf_apart(10) [OF d(1) sc(4) iv(1)] gconf_apart(9) [OF d(1) sc(4) iv(1), of 12]
    by (auto simp: mp2)
  moreover have "m3 (mp + j) = m (mp + j)" if "j \<le> 20" "j \<noteq> 12" for j
    using p(5) [OF that(1)] sb(2) [of "mp + j"] gconf_apart(8) [OF d(1) sc(4) iv(1) that(1)] that(2) by (simp add: mp2)
  ultimately show ?thesis using g3 by blast
qed

section \<open>Allocating and freeing\<close>

text \<open>A change of sizes that leaves the free chunks as they are.\<close>

lemma sizes_tiled:
  assumes t: "gtiled m mp a cs F" and gl: "gl m' a Used cs'" and ex: "extent cs' = extent cs" and sz: "gsizes (m (mp + 8)) cs'"
    and fr: "gfrees a cs' = gfrees a cs" and Y: "Y \<subseteq> set (starts a cs') \<union> {a + extent cs'}" and e: "\<forall>w. (\<forall>y\<in>Y. w \<noteq> y \<and> w \<noteq> y + 4) \<longrightarrow> m' w = m w"
  shows "gtiled m' mp a cs' F"
proof -
  note d = gtiledD [OF t]
  have ok: "sizes_ok cs'" using gsizes_ok [OF sz] gconfD(6) [OF d(1)] by blast
  have g: "gconf m mp a (extent cs')" using d(1) ex by simp
  note k = sizes_only [OF g ok Y e]
  have mp: "m' mp = m mp" "m' (mp + 4) = m (mp + 4)" "m' (mp + 8) = m (mp + 8)" "m' (mp + 16) = m (mp + 16)" "m' (mp + 20) = m (mp + 20)"
    using k(1) [of 0] k(1) [of 4] k(1) [of 8] k(1) [of 16] k(1) [of 20] by simp_all
  have lev: "glev m' mp = glev m mp" using mp by (simp add: glev_def)
  have "glist m' (m (mp + 20) + 4 * i) (F i)" if i: "i < 32 * glev m mp" for i
  proof (rule glist_frame [OF glistsD(1) [OF d(4) i]])
    show "m' (m (mp + 20) + 4 * i) = m (m (mp + 20) + 4 * i)" by (rule k(3) [OF i])
    fix x assume "x \<in> set (F i)"
    then have "x \<in> set (starts a cs')" using glistsD(2) [OF d(4) i, of x] gfrees_start [of x _ a cs'] fr by auto
    then show "m' (x + 8) = m (x + 8) \<and> m' (x + 12) = m (x + 12)" by (rule k(4))
  qed
  then have "glists m' mp a cs' F" using glistsD(2) [OF d(4)] unfolding glists_def lev mp fr by blast
  moreover have "bitmaps m' mp (glev m mp) F" by (rule bitmaps_cong [OF d(5)]) (use k(1) [of 12] mp k(2) in simp_all)
  moreover have "gconf m' mp a (extent cs')" by (rule gconf_frame [OF g mp])
  ultimately show ?thesis unfolding gtiled_def lev mp(3) using gl sz by blast
qed

lemma tiled_mid: "gtiled m mp a (xs @ (s, k) # ys) F \<Longrightarrow> mid m a xs s k ys"
  using gtiledD(3,6) unfolding mid_def by blast

lemma chunk_end: "c = a + extent xs \<Longrightarrow> c + s \<in> set (starts a (xs @ (s, k) # ys)) \<union> {a + extent (xs @ (s, k) # ys)}"
  by (cases ys) (auto simp: add.assoc)

lemma tiled_start:
  assumes "gtiled m mp a (xs @ (s, k) # ys) F" and c: "c = a + extent xs"
  shows "CHUNK_IS_ALIGNED c" "c \<noteq> 0" "a \<le> c" "c + s + 8 \<le> 2 ^ 32" "32 \<le> s" "4 dvd s"
proof -
  note d = gtiledD [OF assms(1)]
  have z: "0 < glev m mp" by (simp add: glev_def)
  have p: "4 dvd a" "128 \<le> a" using gconf_apart(4,5) [OF d(1) _ z, of 0] z by simp_all
  have "c \<in> set (starts a (xs @ (s, k) # ys))" using c by simp
  then have "4 dvd c" using starts_4 [OF d(6) p(1)] by blast
  then show "CHUNK_IS_ALIGNED c" by (simp add: CHUNK_IS_ALIGNED_def dvd_eq_mod_eq_0)
  show "c \<noteq> 0" "a \<le> c" using p c by auto
  show "c + s + 8 \<le> 2 ^ 32" using gconfD(12) [OF d(1)] c by simp
  show "32 \<le> s" "4 dvd s" using d(2) gconfD(6) [OF d(1)] by auto
qed

lemma use_tiled:
  assumes t: "gtiled m mp a (xs @ (s, Hole) # ys) F" and c: "c = a + extent xs"
  shows "gtiled (SET_CHUNK_IN_USE c m) mp a (xs @ (s, Used) # ys) F" "in_used a (xs @ (s, Hole) # ys) w \<Longrightarrow> SET_CHUNK_IN_USE c m w = m w"
proof -
  note u = set_in_use_mid [OF tiled_mid [OF t] c] and d = gtiledD [OF t]
  show "gtiled (SET_CHUNK_IN_USE c m) mp a (xs @ (s, Used) # ys) F"
  proof (rule sizes_tiled [OF t, of _ _ "{c, c + s}"])
    show "gl (SET_CHUNK_IN_USE c m) a Used (xs @ (s, Used) # ys)" using u(1) by (simp add: mid_def)
    show "{c, c + s} \<subseteq> set (starts a (xs @ (s, Used) # ys)) \<union> {a + extent (xs @ (s, Used) # ys)}" using chunk_end [OF c, of s Used ys] c by auto
    show "\<forall>w. (\<forall>y\<in>{c, c + s}. w \<noteq> y \<and> w \<noteq> y + 4) \<longrightarrow> SET_CHUNK_IN_USE c m w = m w" using u(2) by simp
  qed (use d(2) in simp_all)
  show "SET_CHUNK_IN_USE c m w = m w" if "in_used a (xs @ (s, Hole) # ys) w"
    using in_used_outside [OF that _ d(6) c] by (intro u(2)) auto
qed

lemma unuse_tiled:
  assumes t: "gtiled m mp a (xs @ (s, Used) # ys) F" and c: "c = a + extent xs"
  shows "gtiled (CLEAR_CHUNK_INUSE c m) mp a (xs @ (s, Hole) # ys) F" "w \<noteq> c + 4 \<Longrightarrow> CLEAR_CHUNK_INUSE c m w = m w"
proof -
  note u = clear_inuse_mid [OF tiled_mid [OF t] c] and d = gtiledD [OF t]
  show "gtiled (CLEAR_CHUNK_INUSE c m) mp a (xs @ (s, Hole) # ys) F"
  proof (rule sizes_tiled [OF t, of _ _ "{c}"])
    show "gl (CLEAR_CHUNK_INUSE c m) a Used (xs @ (s, Hole) # ys)" using u(1) by (simp add: mid_def)
    show "\<forall>w. (\<forall>y\<in>{c}. w \<noteq> y \<and> w \<noteq> y + 4) \<longrightarrow> CLEAR_CHUNK_INUSE c m w = m w" using u(2) by simp
  qed (use d(2) c in simp_all)
  show "w \<noteq> c + 4 \<Longrightarrow> CLEAR_CHUNK_INUSE c m w = m w" by (rule u(2))
qed

lemma split_tiled:
  assumes t: "gtiled m mp a (xs @ (s, Hole) # ys) F" and c: "c = a + extent xs" and n: "4 dvd n" "m (mp + 8) \<le> n" "n + m (mp + 8) \<le> s"
  shows "\<exists>m'. split_chunk_at c n m = (c + n, m') \<and> gtiled m' mp a (xs @ (n, Hole) # (s - n, Hole) # ys) F \<and> (\<forall>w. in_used a (xs @ (s, Hole) # ys) w \<longrightarrow> m' w = m w)"
proof -
  note d = gtiledD [OF t]
  have 16: "16 \<le> n" "n + 16 \<le> s" using n gconfD(6) [OF d(1)] by auto
  note sp = split_mid [OF tiled_mid [OF t] c n(1) 16]
  let ?cs = "xs @ (n, Hole) # (s - n, Hole) # ys" and ?m = "snd (split_chunk_at c n m)"
  have d4: "4 dvd s - n" using n(1) d(6) by simp
  have t': "gtiled ?m mp a ?cs F"
  proof (rule sizes_tiled [OF t sp(2), of "{c, c + n}"])
    show "extent ?cs = extent (xs @ (s, Hole) # ys)" "gfrees a ?cs = gfrees a (xs @ (s, Hole) # ys)" using 16 by (simp_all add: add.assoc)
    show "gsizes (m (mp + 8)) ?cs" using d(2) d4 n by simp
    show "{c, c + n} \<subseteq> set (starts a ?cs) \<union> {a + extent ?cs}" using c by auto
    show "\<forall>w. (\<forall>y\<in>{c, c + n}. w \<noteq> y \<and> w \<noteq> y + 4) \<longrightarrow> ?m w = m w" using sp(3) by simp
  qed
  have "?m w = m w" if "in_used a (xs @ (s, Hole) # ys) w" for w
    using in_used_outside [OF that _ d(6) c] 16 by (intro sp(3)) auto
  then show ?thesis using t' sp(1) by (intro exI [of _ ?m]) (simp add: prod_eq_iff)
qed

lemma join_tiled:
  assumes t: "gtiled m mp a (xs @ (s, Hole) # (u, Hole) # ys) F" and c: "c = a + extent xs"
  shows "gtiled (JOIN_CHUNKS c (c + s) m) mp a (xs @ (s + u, Hole) # ys) F"
    "in_used a (xs @ (s, Hole) # (u, Hole) # ys) w \<Longrightarrow> JOIN_CHUNKS c (c + s) m w = m w"
proof -
  note d = gtiledD [OF t]
  note j = join_mid [OF d(3,6) c]
  show "gtiled (JOIN_CHUNKS c (c + s) m) mp a (xs @ (s + u, Hole) # ys) F"
  proof (rule sizes_tiled [OF t, of _ _ "{c}"])
    show "gl (JOIN_CHUNKS c (c + s) m) a Used (xs @ (s + u, Hole) # ys)" using j(1) by (simp add: mid_def)
    show "\<forall>w. (\<forall>y\<in>{c}. w \<noteq> y \<and> w \<noteq> y + 4) \<longrightarrow> JOIN_CHUNKS c (c + s) m w = m w" using j(2) by simp
  qed (use d(2) c in \<open>simp_all add: add.assoc\<close>)
  show "JOIN_CHUNKS c (c + s) m w = m w" if "in_used a (xs @ (s, Hole) # (u, Hole) # ys) w"
    using in_used_outside [OF that _ d(6) c] by (intro j(2)) auto
qed

definition gpool :: "wmem \<Rightarrow> nat \<Rightarrow> nat \<Rightarrow> chunks \<Rightarrow> (nat \<Rightarrow> nat list) \<Rightarrow> bool" where
  "gpool m mp a cs F \<longleftrightarrow> gtiled m mp a cs F \<and> coalesced cs \<and> (\<forall>c\<in>set cs. snd c \<noteq> Hole)"

text \<open>The size of the chunk for a request.\<close>

definition gma_size :: "nat \<Rightarrow> nat \<Rightarrow> nat" where
  "gma_size n req = (let sz = CHUNK_ALIGN_FW ((req + 4) mod 2 ^ 32) in if sz < n then n else sz)"

definition gma_fits :: "nat \<Rightarrow> bool" where
  "gma_fits req \<longleftrightarrow> 0 < req \<and> req + 7 \<le> 2 ^ 32 - 2 ^ 26"

lemma gma_size_bounds:
  assumes "gma_fits req" and "4 dvd n" "32 \<le> n" "n < 2 ^ 26"
  shows "4 dvd gma_size n req" "n \<le> gma_size n req" "req + 4 \<le> gma_size n req" "gma_size n req \<le> 2 ^ 32 - 2 ^ 26" "gma_size n req + n < 2 ^ 32"
proof -
  have m: "(req + 4) mod 2 ^ 32 = req + 4" using assms(1) by (simp add: gma_fits_def)
  have "4 dvd CHUNK_ALIGN_FW (req + 4) \<and> req + 4 \<le> CHUNK_ALIGN_FW (req + 4) \<and> CHUNK_ALIGN_FW (req + 4) < req + 4 + 4"
    by (rule align_fw) (use assms(1) in \<open>simp add: gma_fits_def\<close>)
  then show "4 dvd gma_size n req" "n \<le> gma_size n req" "req + 4 \<le> gma_size n req" "gma_size n req \<le> 2 ^ 32 - 2 ^ 26" "gma_size n req + n < 2 ^ 32"
    using assms unfolding gma_size_def m gma_fits_def by (auto simp: Let_def)
qed

lemma in_used_middle: "in_used a (xs @ (s, k) # ys) w \<longleftrightarrow>
    in_used a xs w \<or> (k = Used \<and> a + extent xs + 8 \<le> w \<and> w < a + extent xs + 8 + (s - 4)) \<or> in_used (a + extent xs + s) ys w"
  by (auto simp: in_used_def)

text \<open>The chunk that an allocation takes: the first of the list that the search finds.\<close>

lemma search_chunk:
  assumes t: "gtiled m mp a cs F" and n: "4 dvd n" "m (mp + 8) \<le> n" "n \<le> 2 ^ 32 - 2 ^ 26"
  shows "(\<exists>r fl sl. get_indexes mp n 0 False m = Inr (r, fl, sl) \<and> r \<noteq> 0 \<and> (\<forall>(x, s)\<in>gfrees a cs. s < round_up n)) \<or>
    (\<exists>i xs s ys. get_indexes mp n 0 False m = Inr (0, i div 32, i mod 32) \<and> i = cls (m mp) s \<and>
       cs = xs @ (s, Free) # ys \<and> n \<le> s \<and> remove_first_chunk_from_free_list mp (i div 32) (i mod 32) m = (a + extent xs, drop_free mp i (a + extent xs) m))"
proof -
  note d = gtiledD [OF t] note g = gconfD [OF d(1)]
  have n32: "32 \<le> n" using n(2) g(6) by linarith
  have mn: "m mp \<le> arch_msb_index n" using g(5,6) n(2) msb_mono [of "m (mp + 8)" n] by simp
  let ?i = "cls (m mp) (round_up n)"
  from get_indexes_search [OF d(5) n32 n(3) g(2) mn g(3) glev_def]
  show ?thesis
  proof (elim disjE exE conjE)
    fix r fl sl assume r: "get_indexes mp n 0 False m = Inr (r, fl, sl)" "r \<noteq> 0" and e: "\<forall>k. ?i \<le> k \<and> k < 32 * glev m mp \<longrightarrow> F k = []"
    have "s < round_up n" if x: "(x, s) \<in> gfrees a cs" for x s
    proof (rule ccontr)
      assume "\<not> s < round_up n"
      then have "?i \<le> cls (m mp) s"
        using mn msb_mono [of n "round_up n"] n32 round_up_ge [of n] by (intro cls_mono) linarith+
      then have "F (cls (m mp) s) = []" using e free_in_list(1) [OF t x] by blast
      then show False using free_in_list(2) [OF t x] by simp
    qed
    then show ?thesis using r by blast
  next
    fix i assume i: "i < 32 * glev m mp" "get_indexes mp n 0 False m = Inr (0, i div 32, i mod 32)" "?i \<le> i" "F i \<noteq> []"
    then obtain c rest where F: "F i = c # rest" by (cases "F i") auto
    then obtain s where s: "(c, s) \<in> gfrees a cs" "cls (m mp) s = i" using glistsD(2) [OF d(4) i(1), of c] by auto
    then obtain xs ys where cs: "cs = xs @ (s, Free) # ys" "c = a + extent xs" using gfrees_split by blast
    have sz: "4 dvd s" "m (mp + 8) \<le> s" "s \<le> extent cs" using d(2) cs by auto
    have "n \<le> s" using cls_fits [OF n32 n(1) _ sz(1)] size_class(1,2) [OF d(1) sz(2,3)] i(3) s(2) by blast
    then show ?thesis using i(2) s(2) cs remove_first_eq [OF t i(1) F] by blast
  qed
qed

lemma coalesced_use: "coalesced (xs @ (s, Free) # ys) \<Longrightarrow> coalesced (xs @ (s, Used) # ys)"
  by (auto simp: coalesced_append)

lemma coalesced_split: "coalesced (xs @ (s, Free) # ys) \<Longrightarrow> coalesced (xs @ (n, Used) # (t, Free) # ys)"
  by (auto simp: coalesced_append)

lemma gma_alloc_cases:
  assumes p: "gpool m mp a cs F" and mp: "mp = (if mpool = 0 then pool else mpool)" and req: "gma_fits req" and n: "n = gma_size (m (mp + 8)) req"
  shows "(gma_alloc pool mpool req m = Inr (0, m) \<and> (\<forall>(x, s)\<in>gfrees a cs. s < round_up n)) \<or>
    (\<exists>xs s ys m' cs' F'. cs = xs @ (s, Free) # ys \<and> n \<le> s \<and> gma_alloc pool mpool req m = Inr (a + extent xs + 8, m') \<and> gpool m' mp a cs' F' \<and>
       (cs' = xs @ (s, Used) # ys \<or> cs' = xs @ (n, Used) # (s - n, Free) # ys) \<and> (\<forall>w. in_used a cs w \<longrightarrow> m' w = m w))"
proof -
  have t: "gtiled m mp a cs F" and co: "coalesced cs" and nh: "\<forall>c\<in>set cs. snd c \<noteq> Hole" using p by (auto simp: gpool_def)
  note d = gtiledD [OF t] note g = gconfD [OF d(1)]
  note nb = gma_size_bounds [OF req g(7,6,14), folded n]
  have req': "0 < req" "req < MAX_CHUNK_SIZE" using req by (simp_all add: gma_fits_def)
  note al = gma_alloc_def [of pool mpool req m, folded mp, unfolded Let_def gma_size_def [unfolded Let_def, symmetric], folded n]
  from search_chunk [OF t nb(1,2,4)] show ?thesis
  proof (elim disjE exE conjE)
    fix r fl sl assume "get_indexes mp n 0 False m = Inr (r, fl, sl)" "r \<noteq> 0" "\<forall>(x, s)\<in>gfrees a cs. s < round_up n"
    then show ?thesis using req' by (intro disjI1) (simp add: al)
  next
    fix i xs s ys
    assume gi: "get_indexes mp n 0 False m = Inr (0, i div 32, i mod 32)" and i: "i = cls (m mp) s" and cs: "cs = xs @ (s, Free) # ys" and ns: "n \<le> s"
      and rf: "remove_first_chunk_from_free_list mp (i div 32) (i mod 32) m = (a + extent xs, drop_free mp i (a + extent xs) m)"
    define c where "c = a + extent xs"
    define m1 where "m1 = drop_free mp i c m"
    note tk = take_tiled [OF t [unfolded cs] c_def i, folded m1_def cs]
    obtain F1 where t1: "gtiled m1 mp a (xs @ (s, Hole) # ys) F1" using tk(1) by blast
    have st: "CHUNK_IS_ALIGNED c" "c \<noteq> 0" using tiled_start [OF t1 c_def] by blast+
    have z: "GET_CHUNK_SIZE c m1 = s" using mid_size(1) [OF tiled_mid [OF t1] c_def] .
    have "cls (m mp) s < 32 * glev m mp" "c \<in> set (F i)" using free_in_list [OF t, of c s] gfrees_middle(1) [OF d(6) [unfolded cs], of a] i cs c_def by auto
    then have "m1 (mp + 8) = m (mp + 8)"
      using touches_keeps(1) [OF d(1,6) _ _ drop_free_list(1) [OF t], of i c 8] list_start [OF t] i m1_def by auto
    note m18 = this
    have nm: "(n + m (mp + 8)) mod 4294967296 = n + m (mp + 8)" using nb(5) by simp
    have al1: "gma_alloc pool mpool req m = rbind (if s \<ge> n + m (mp + 8) then
          let (remainder, m) = split_chunk_at c n m1 in rbind (ASSERT (CHUNK_IS_ALIGNED remainder)) (\<lambda>_. insert_chunk_in_free_list mp remainder m)
        else Inr m1) (\<lambda>m. Inr (c + 8, SET_CHUNK_IN_USE c m))"
      using req' gi rf st by (simp add: al z m18 nm Let_def flip: c_def m1_def cong: if_cong)
    have u1: "m1 w = m w" if "in_used a cs w" for w using tk(2) that by simp
    have k: "in_used a (xs @ (s, Hole) # ys) = in_used a cs" unfolding cs by (rule in_used_kind) simp_all
    show ?thesis
    proof (cases "s \<ge> n + m (mp + 8)")
      case False
      note us = use_tiled [OF t1 c_def]
      have "gpool (SET_CHUNK_IN_USE c m1) mp a (xs @ (s, Used) # ys) F1"
        using us(1) coalesced_use [OF co [unfolded cs]] nh cs by (auto simp: gpool_def)
      moreover have "gma_alloc pool mpool req m = Inr (c + 8, SET_CHUNK_IN_USE c m1)" using al1 False by simp
      moreover have "SET_CHUNK_IN_USE c m1 w = m w" if "in_used a cs w" for w using us(2) [of w] u1 that k by simp
      ultimately show ?thesis using cs ns unfolding c_def by blast
    next
      case True
      obtain m2 where m2: "split_chunk_at c n m1 = (c + n, m2)" "gtiled m2 mp a (xs @ (n, Hole) # (s - n, Hole) # ys) F1"
        "\<forall>w. in_used a (xs @ (s, Hole) # ys) w \<longrightarrow> m2 w = m1 w"
        using split_tiled [OF t1 c_def nb(1)] nb(2) True m18 by auto
      have t2: "gtiled m2 mp a ((xs @ [(n, Hole)]) @ (s - n, Hole) # ys) F1" using m2(2) by simp
      have cn: "c + n = a + extent (xs @ [(n, Hole)])" by (simp add: c_def)
      obtain m3 F3 where m3: "insert_chunk_in_free_list mp (c + n) m2 = Inr m3" "gtiled m3 mp a ((xs @ [(n, Hole)]) @ (s - n, Free) # ys) F3"
        "\<forall>w. in_used a ((xs @ [(n, Hole)]) @ (s - n, Hole) # ys) w \<longrightarrow> m3 w = m2 w"
        using put_tiled [OF t2 cn] by blast
      have t3: "gtiled m3 mp a (xs @ (n, Hole) # (s - n, Free) # ys) F3" using m3(2) by simp
      note us = use_tiled [OF t3 c_def]
      have iu: "in_used a (xs @ (n, Hole) # (s - n, Free) # ys) = in_used a cs" "in_used a ((xs @ [(n, Hole)]) @ (s - n, Hole) # ys) = in_used a cs"
        using ns by (auto simp: in_used_def cs fun_eq_iff add.assoc)
      have "gpool (SET_CHUNK_IN_USE c m3) mp a (xs @ (n, Used) # (s - n, Free) # ys) F3"
        using us(1) coalesced_split [OF co [unfolded cs]] nh cs by (auto simp: gpool_def)
      moreover have "gma_alloc pool mpool req m = Inr (c + 8, SET_CHUNK_IN_USE c m3)"
        using al1 True m2(1) m3(1) tiled_start(1) [OF t2 cn] by simp
      moreover have "SET_CHUNK_IN_USE c m3 w = m w" if "in_used a cs w" for w
        using us(2) [of w] m3(3) m2(3) u1 that k iu by simp
      ultimately show ?thesis using cs ns unfolding c_def by blast
    qed
  qed
qed

text \<open>Joining a chunk that was released with a free one before it and with a free one behind it.\<close>

definition join_before :: "nat \<Rightarrow> nat \<Rightarrow> wmem \<Rightarrow> (nat \<times> wmem) res" where
  "join_before mpool chunk m =
     (let before = GET_CHUNK_BEFORE chunk m
      in if before \<noteq> 0 \<and> \<not> GET_CHUNK_INUSE before m
         then rbind (remove_chunk_from_free_list mpool before m) (\<lambda>m. Inr (before, JOIN_CHUNKS before chunk m))
         else Inr (chunk, m))"

definition join_after :: "nat \<Rightarrow> nat \<Rightarrow> wmem \<Rightarrow> wmem res" where
  "join_after mpool chunk m =
     (let after = GET_CHUNK_AFTER chunk m
      in if after \<noteq> 0 \<and> \<not> GET_CHUNK_INUSE after m
         then rbind (remove_chunk_from_free_list mpool after m) (\<lambda>m. Inr (JOIN_CHUNKS chunk after m))
         else Inr m)"

lemma in_used_cong: "gused a cs = gused a ds \<Longrightarrow> in_used a cs w = in_used a ds w"
  by (simp add: in_used_def)

lemma lmark_free:
  assumes "lmark Used xs \<noteq> Used" and "\<forall>z\<in>set xs. snd z \<noteq> Hole"
  obtains zs u where "xs = zs @ [(u, Free)]"
proof (cases xs rule: rev_cases)
  case (snoc zs z)
  obtain u k where z: "z = (u, k)" by (cases z)
  have "k = Free" using assms by (cases k) (auto simp: snoc z lmark_def)
  then show ?thesis using that snoc z by simp
qed (use assms in \<open>simp add: lmark_def\<close>)

lemma join_before_tiled:
  assumes t: "gtiled m mp a (xs @ (s, Hole) # ys) F" and c: "c = a + extent xs" and nh: "\<forall>z\<in>set xs. snd z \<noteq> Hole" and co: "coalesced xs"
  shows "\<exists>m' xs' s' F'. join_before mp c m = Inr (a + extent xs', m') \<and> gtiled m' mp a (xs' @ (s', Hole) # ys) F' \<and>
    lmark Used xs' = Used \<and> coalesced xs' \<and> (\<forall>z\<in>set xs'. snd z \<noteq> Hole) \<and> gused a (xs' @ (s', Hole) # ys) = gused a (xs @ (s, Hole) # ys) \<and>
    extent xs' + s' = extent xs + s \<and>
    (\<forall>w. in_used a (xs @ (s, Hole) # ys) w \<longrightarrow> m' w = m w)"
proof (cases "lmark Used xs = Used")
  case True
  note d = gtiledD [OF t]
  obtain b where "m (c + 4) = sword s False b" "lmark Used xs = Used \<longrightarrow> b" by (rule midE [OF tiled_mid [OF t] c]) auto
  moreover have "4 dvd s" using d(2) by simp
  ultimately have "GET_CHUNK_BEFORE c m = 0" using True by (simp add: GET_CHUNK_BEFORE_def GET_CHUNK_BINUSE_def)
  then have "join_before mp c m = Inr (a + extent xs, m)" by (simp add: join_before_def c)
  then show ?thesis using t True nh co by blast
next
  case False
  then obtain zs u where xs: "xs = zs @ [(u, Free)]" using lmark_free nh by blast
  have t0: "gtiled m mp a (zs @ (u, Free) # (s, Hole) # ys) F" using t xs by simp
  note d = gtiledD [OF t0]
  define e where "e = a + extent zs"
  have ce: "c = e + u" using c xs by (simp add: e_def)
  obtain b where b: "m (c + 4) = sword s False b" "lmark Used xs = Free \<longrightarrow> \<not> b" by (rule midE [OF tiled_mid [OF t] c]) auto
  have "CHUNK_ALIGN (m (e + u)) = u" by (rule midE [OF tiled_mid [OF t0] e_def]) auto
  moreover have "4 dvd s" "\<not> b" using d(2) b(2) by (auto simp: xs lmark_def)
  ultimately have bf: "GET_CHUNK_BEFORE c m = e" using b(1) by (simp add: GET_CHUNK_BEFORE_def GET_CHUNK_BINUSE_def ce)
  have iu: "\<not> GET_CHUNK_INUSE e m" "e \<noteq> 0" using mid_size(2) [OF tiled_mid [OF t0] e_def] tiled_start(2) [OF t0 e_def] by simp_all
  let ?m1 = "drop_free mp (cls (m mp) u) e m"
  note tk = take_tiled [OF t0 e_def refl]
  note jn = join_tiled [OF tk(1) e_def]
  let ?m2 = "JOIN_CHUNKS e (e + u) ?m1"
  have "join_before mp c m = Inr (e, ?m2)"
    using remove_chunk_from_free_list_eq [OF t0 e_def] bf iu ce by (simp add: join_before_def)
  moreover have "gused a (zs @ (u + s, Hole) # ys) = gused a (xs @ (s, Hole) # ys)" by (simp add: xs add.assoc)
  moreover have "extent zs + (u + s) = extent xs + s" by (simp add: xs)
  moreover have "lmark Used zs = Used" using co unfolding xs coalesced_append by (auto simp: lmark_def)
  moreover have "coalesced zs" "\<forall>z\<in>set zs. snd z \<noteq> Hole" using co nh by (simp_all add: xs coalesced_append)
  moreover have "?m2 w = m w" if u: "in_used a (xs @ (s, Hole) # ys) w" for w
    using tk(2) [of w] jn(2) [of w] u by (simp add: xs in_used_def add.assoc)
  ultimately show ?thesis using jn(1) unfolding e_def by blast
qed

lemma join_after_tiled:
  assumes t: "gtiled m mp a (xs @ (s, Hole) # ys) F" and c: "c = a + extent xs" and nh: "\<forall>z\<in>set ys. snd z \<noteq> Hole" and co: "coalesced ys"
  shows "\<exists>m' s' ys' F'. join_after mp c m = Inr m' \<and> gtiled m' mp a (xs @ (s', Hole) # ys') F' \<and>
    fst_used ys' \<and> coalesced ys' \<and> (\<forall>z\<in>set ys'. snd z \<noteq> Hole) \<and> gused a (xs @ (s', Hole) # ys') = gused a (xs @ (s, Hole) # ys) \<and>
    s' + extent ys' = s + extent ys \<and>
    (\<forall>w. in_used a (xs @ (s, Hole) # ys) w \<longrightarrow> m' w = m w)"
proof (cases "fst_used ys")
  case True
  have "join_after mp c m = Inr m" using mid_size(3,4) [OF tiled_mid [OF t] c] True by (simp add: join_after_def)
  then show ?thesis using t True nh co by blast
next
  case False
  then obtain u zs where ys: "ys = (u, Free) # zs"
    using nh by (cases ys; cases "snd (hd ys)") (auto simp: fst_used_def intro: mark.exhaust)
  have t0: "gtiled m mp a ((xs @ [(s, Hole)]) @ (u, Free) # zs) F" using t ys by simp
  define e where "e = a + extent (xs @ [(s, Hole)])"
  have ce: "e = c + s" by (simp add: e_def c)
  have af: "GET_CHUNK_AFTER c m = e" "\<not> GET_CHUNK_INUSE e m" using mid_size(3,4) [OF tiled_mid [OF t] c] False by (simp_all add: ce)
  have e0: "e \<noteq> 0" using tiled_start(2) [OF t0 e_def] .
  let ?m1 = "drop_free mp (cls (m mp) u) e m"
  note tk = take_tiled [OF t0 e_def refl]
  obtain F1 where t1: "gtiled ?m1 mp a (xs @ (s, Hole) # (u, Hole) # zs) F1" using tk(1) by auto
  note jn = join_tiled [OF t1 c]
  let ?m2 = "JOIN_CHUNKS c (c + s) ?m1"
  have "join_after mp c m = Inr ?m2"
    using remove_chunk_from_free_list_eq [OF t0 e_def] af e0 ce by (simp add: join_after_def Let_def)
  moreover have "gused a (xs @ (s + u, Hole) # zs) = gused a (xs @ (s, Hole) # ys)" by (simp add: ys add.assoc)
  moreover have "s + u + extent zs = s + extent ys" by (simp add: ys)
  moreover have "fst_used zs" using co unfolding ys by (auto simp: fst_used_def)
  moreover have "coalesced zs" "\<forall>z\<in>set zs. snd z \<noteq> Hole" using co nh by (simp_all add: ys)
  moreover have "?m2 w = m w" if u: "in_used a (xs @ (s, Hole) # ys) w" for w
    using tk(2) [of w] jn(2) [of w] u by (simp add: ys in_used_def add.assoc)
  ultimately show ?thesis using jn(1) by blast
qed

lemma gma_free_joins_eq:
  assumes mp: "mp = (if mpool = 0 then pool else mpool)" and c: "address = c + 8"
    and "GET_CHUNK_INUSE c m" "\<not> IS_BORDER_CHUNK c m" "CHUNK_IS_ALIGNED c"
  shows "gma_free pool mpool address m =
    rbind (join_before mp c (CLEAR_CHUNK_INUSE c m)) (\<lambda>(c, m). rbind (ASSERT (CHUNK_IS_ALIGNED c)) (\<lambda>_.
    rbind (join_after mp c m) (\<lambda>m. rbind (ASSERT (CHUNK_IS_ALIGNED c)) (\<lambda>_. rbind (insert_chunk_in_free_list mp c m) (\<lambda>m. Inr (0, m))))))"
  using assms(2-5) unfolding gma_free_def Let_def mp [symmetric] join_before_def join_after_def by simp

lemma gma_free_block:
  assumes p: "gpool m mp a (xs @ (s, Used) # ys) F" and mp: "mp = (if mpool = 0 then pool else mpool)" and c: "c = a + extent xs"
  shows "\<exists>m' cs' F'. gma_free pool mpool (c + 8) m = Inr (0, m') \<and> gpool m' mp a cs' F' \<and> set (gused a cs') = set (gused a xs) \<union> set (gused (c + s) ys) \<and>
    extent cs' = extent (xs @ (s, Used) # ys) \<and> (\<forall>w. in_used a cs' w \<longrightarrow> m' w = m w)"
proof -
  let ?cs = "xs @ (s, Used) # ys"
  have t: "gtiled m mp a ?cs F" and co: "coalesced xs" "coalesced ys" and nh: "\<forall>z\<in>set xs. snd z \<noteq> Hole" "\<forall>z\<in>set ys. snd z \<noteq> Hole"
    using p by (auto simp: gpool_def coalesced_append)
  note st = tiled_start [OF t c]
  note ms = mid_size [OF tiled_mid [OF t] c]
  have as: "GET_CHUNK_INUSE c m" "\<not> IS_BORDER_CHUNK c m" using ms st(5) by (simp_all add: IS_BORDER_CHUNK_def)
  define m0 where "m0 = CLEAR_CHUNK_INUSE c m"
  note un = unuse_tiled [OF t c, folded m0_def]
  obtain m1 xs1 s1 F1 where 1: "join_before mp c m0 = Inr (a + extent xs1, m1)" "gtiled m1 mp a (xs1 @ (s1, Hole) # ys) F1"
    "lmark Used xs1 = Used" "coalesced xs1" "\<forall>z\<in>set xs1. snd z \<noteq> Hole" "gused a (xs1 @ (s1, Hole) # ys) = gused a (xs @ (s, Hole) # ys)"
    "extent xs1 + s1 = extent xs + s"
    "\<forall>w. in_used a (xs @ (s, Hole) # ys) w \<longrightarrow> m1 w = m0 w"
    using join_before_tiled [OF un(1) c nh(1) co(1)] by blast
  obtain m2 s2 ys2 F2 where 2: "join_after mp (a + extent xs1) m1 = Inr m2" "gtiled m2 mp a (xs1 @ (s2, Hole) # ys2) F2"
    "fst_used ys2" "coalesced ys2" "\<forall>z\<in>set ys2. snd z \<noteq> Hole" "gused a (xs1 @ (s2, Hole) # ys2) = gused a (xs1 @ (s1, Hole) # ys)"
    "s2 + extent ys2 = s1 + extent ys"
    "\<forall>w. in_used a (xs1 @ (s1, Hole) # ys) w \<longrightarrow> m2 w = m1 w"
    using join_after_tiled [OF 1(2) refl nh(2) co(2)] by blast
  obtain m3 F3 where 3: "insert_chunk_in_free_list mp (a + extent xs1) m2 = Inr m3" "gtiled m3 mp a (xs1 @ (s2, Free) # ys2) F3"
    "\<forall>w. in_used a (xs1 @ (s2, Hole) # ys2) w \<longrightarrow> m3 w = m2 w"
    using put_tiled [OF 2(2) refl] by blast
  let ?ds = "xs1 @ (s2, Free) # ys2"
  have gu: "gused a ?ds = gused a xs @ gused (c + s) ys" using 1(6) 2(6) by (simp add: c)
  have "gma_free pool mpool (c + 8) m = Inr (0, m3)"
    using gma_free_joins_eq [OF mp refl as st(1)] 1(1) 2(1) 3(1) tiled_start(1) [OF 1(2) refl] by (simp add: m0_def)
  moreover have "gpool m3 mp a ?ds F3"
    using 3(2) 1(3,4,5) 2(3,4,5) by (auto simp: gpool_def coalesced_append lmark_def fst_used_def split: if_splits)
  moreover have "m3 w = m w" if u: "in_used a ?ds w" for w
  proof -
    have i: "in_used a (xs1 @ (s2, Hole) # ys2) w" "in_used a (xs1 @ (s1, Hole) # ys) w" "in_used a (xs @ (s, Hole) # ys) w"
      using u in_used_cong [OF 1(6)] in_used_cong [OF 2(6)] in_used_kind [of Free Hole a xs1 s2 ys2] by simp_all
    then have "w < c + 4 \<or> c + s + 8 \<le> w" using in_used_outside [OF i(3) _ _ c] gtiledD(6) [OF un(1)] by simp
    then have "m0 w = m w" using un(2) [of w] by auto
    then show ?thesis using 3(3) 2(8) 1(8) i by simp
  qed
  moreover have "extent ?ds = extent ?cs" using 1(7) 2(7) by simp
  ultimately show ?thesis using gu by (metis set_append)
qed

section \<open>Reading the chunks back, and the interface\<close>

fun gwalk :: "nat \<Rightarrow> wmem \<Rightarrow> nat \<Rightarrow> chunks" where
  "gwalk 0 m a = []"
| "gwalk (Suc k) m a =
     (let s = GET_CHUNK_SIZE a m in if s < 16 then [] else (s, if GET_CHUNK_INUSE a m then Used else Free) # gwalk k m (a + s))"

lemma gwalk_gl:
  "gl m a p cs \<Longrightarrow> sizes_ok cs \<Longrightarrow> \<forall>c\<in>set cs. snd c \<noteq> Hole \<Longrightarrow> length cs < k \<Longrightarrow> gwalk k m a = cs"
proof (induction m a p cs arbitrary: k rule: gl.induct)
  case (1 m a p)
  then show ?case by (cases k) (auto simp: hdr_def GET_CHUNK_SIZE_def)
next
  case (2 m a p s u cs)
  then obtain j where k: "k = Suc j" by (cases k) auto
  have s: "4 dvd s" "16 \<le> s" and u: "u \<noteq> Hole" using 2(3,4) by auto
  have "GET_CHUNK_SIZE a m = s" "GET_CHUNK_INUSE a m \<longleftrightarrow> u = Used"
    using 2(2) s by (auto simp: hdr_def GET_CHUNK_SIZE_def GET_CHUNK_INUSE_def)
  then show ?case using 2 k s u by (cases u) auto
qed

definition gma_start :: "nat \<Rightarrow> wmem \<Rightarrow> nat" where
  "gma_start mp m = m (mp + 20) + 128 * glev m mp"

definition gma_chunks :: "nat \<Rightarrow> wmem \<Rightarrow> chunks" where
  "gma_chunks mp m = gwalk adr_space m (gma_start mp m)"

definition gma_ok :: "nat \<Rightarrow> wmem \<Rightarrow> bool" where
  "gma_ok mp m \<longleftrightarrow> (\<exists>F. gpool m mp (gma_start mp m) (gma_chunks mp m) F)"

definition gma_blocks :: "nat \<Rightarrow> wmem \<Rightarrow> (nat \<times> nat) set" where
  "gma_blocks mp m = set (gused (gma_start mp m) (gma_chunks mp m))"

lemma length_extent: "sizes_ok cs \<Longrightarrow> 16 * length cs \<le> extent cs"
  by (induction cs) auto

lemma gpool_chunks:
  assumes "gpool m mp a cs F"
  shows "gma_start mp m = a" "gma_chunks mp m = cs" "gma_ok mp m" "gma_blocks mp m = set (gused a cs)"
proof -
  have t: "gtiled m mp a cs F" and nh: "\<forall>c\<in>set cs. snd c \<noteq> Hole" using assms by (auto simp: gpool_def)
  note d = gtiledD [OF t]
  show a: "gma_start mp m = a" using gconfD(11) [OF d(1)] by (simp add: gma_start_def)
  have "16 * length cs \<le> extent cs" "extent cs < 2 ^ 32" using length_extent [OF d(6)] gconfD(12) [OF d(1)] by simp_all
  then have "length cs < adr_space" by simp
  then show c: "gma_chunks mp m = cs" unfolding gma_chunks_def a by (rule gwalk_gl [OF d(3,6) nh])
  show "gma_ok mp m" "gma_blocks mp m = set (gused a cs)" using assms by (auto simp: gma_ok_def gma_blocks_def a c)
qed

lemma gused_split: "(p, k) \<in> set (gused a cs) \<Longrightarrow> \<exists>xs s ys. cs = xs @ (s, Used) # ys \<and> p = a + extent xs + 8 \<and> k = s - 4"
proof (induction a cs rule: gused.induct)
  case (2 a s u cs)
  show ?case
  proof (cases "(p, k) = (a + 8, s - 4) \<and> u = Used")
    case True
    then show ?thesis by (intro exI [of _ "[]"] exI [of _ s] exI [of _ cs]) simp
  next
    case False
    with 2 obtain xs t ys where "cs = xs @ (t, Used) # ys" "p = a + s + extent xs + 8" "k = t - 4" by (auto split: if_splits)
    then show ?thesis by (intro exI [of _ "(s, u) # xs"] exI [of _ t] exI [of _ ys]) simp
  qed
qed simp

lemma gused_disjoint:
  "sizes_ok cs \<Longrightarrow> (p, k) \<in> set (gused a cs) \<Longrightarrow> (q, l) \<in> set (gused a cs) \<Longrightarrow> (p, k) \<noteq> (q, l) \<Longrightarrow> p + k \<le> q \<or> q + l \<le> p"
proof (induction a cs rule: gused.induct)
  case (2 a s u cs)
  have ok: "sizes_ok cs" and s: "16 \<le> s" using 2(3) by auto
  note r1 = gused_range [OF ok, of p k "a + s"] and r2 = gused_range [OF ok, of q l "a + s"]
  show ?case
  proof (cases "(p, k) \<in> set (gused (a + s) cs) \<and> (q, l) \<in> set (gused (a + s) cs)")
    case True
    then show ?thesis using 2 ok by (cases "u = Used") auto
  next
    case False
    then show ?thesis using 2(4-6) r1 r2 s by (auto split: if_splits)
  qed
qed simp

lemma gma_okE:
  assumes "gma_ok mp m"
  obtains a cs F where "gpool m mp a cs F" "gma_start mp m = a" "gma_chunks mp m = cs" "gma_blocks mp m = set (gused a cs)" "sizes_ok cs" "mp \<noteq> 0"
proof -
  obtain F where p: "gpool m mp (gma_start mp m) (gma_chunks mp m) F" using assms by (auto simp: gma_ok_def)
  then have t: "gtiled m mp (gma_start mp m) (gma_chunks mp m) F" by (simp add: gpool_def)
  show ?thesis using that [OF p refl refl gpool_chunks(4) [OF p] gtiledD(6) [OF t] gconfD(1) [OF gtiledD(1) [OF t]]] .
qed

lemma gma_alloc_law:
  assumes ok: "gma_ok mp m" and req: "gma_fits req"
  shows "\<exists>p m'. gma_alloc pool mp req m = Inr (p, m') \<and> gma_ok mp m' \<and>
    (p = 0 \<longrightarrow> m' = m \<and> (\<forall>(x, s)\<in>gfrees (gma_start mp m) (gma_chunks mp m). s < round_up (gma_size (m (mp + 8)) req))) \<and>
    (p \<noteq> 0 \<longrightarrow> (\<exists>k\<ge>req. (p, k) \<notin> gma_blocks mp m \<and> gma_blocks mp m' = insert (p, k) (gma_blocks mp m))) \<and>
    (\<forall>(q, l)\<in>gma_blocks mp m. \<forall>w. q \<le> w \<and> w < q + l \<longrightarrow> m' w = m w)"
proof -
  obtain a cs F where p: "gpool m mp a cs F" "gma_start mp m = a" "gma_chunks mp m = cs" "gma_blocks mp m = set (gused a cs)" "sizes_ok cs" "mp \<noteq> 0"
    using ok by (rule gma_okE)
  have mp: "mp = (if mp = 0 then pool else mp)" using p(6) by simp
  have u: "in_used a cs w" if "(q, l) \<in> gma_blocks mp m" "q \<le> w" "w < q + l" for q l w using that p(4) by (auto simp: in_used_def)
  have g: "gconf m mp a (extent cs)" using p(1) gtiledD(1) by (auto simp: gpool_def)
  define n where "n = gma_size (m (mp + 8)) req"
  have rn: "req + 4 \<le> n" using gma_size_bounds(3) [OF req gconfD(7,6,14) [OF g]] by (simp add: n_def)
  from gma_alloc_cases [OF p(1) mp req n_def] show ?thesis
  proof (rule disjE)
    assume "gma_alloc pool mp req m = Inr (0, m) \<and> (\<forall>(x, s)\<in>gfrees a cs. s < round_up n)"
    then show ?thesis using ok by (simp add: p(2,3) n_def)
  next
    assume "\<exists>xs s ys m' cs' F'. cs = xs @ (s, Free) # ys \<and> n \<le> s \<and> gma_alloc pool mp req m = Inr (a + extent xs + 8, m') \<and> gpool m' mp a cs' F' \<and>
       (cs' = xs @ (s, Used) # ys \<or> cs' = xs @ (n, Used) # (s - n, Free) # ys) \<and> (\<forall>w. in_used a cs w \<longrightarrow> m' w = m w)"
    then obtain xs s ys m' cs' F' where 1: "cs = xs @ (s, Free) # ys" "n \<le> s" "gma_alloc pool mp req m = Inr (a + extent xs + 8, m')" "gpool m' mp a cs' F'"
      "\<forall>w. in_used a cs w \<longrightarrow> m' w = m w" and dj: "cs' = xs @ (s, Used) # ys \<or> cs' = xs @ (n, Used) # (s - n, Free) # ys" by blast
    have "\<exists>k\<ge>req. set (gused a cs') = insert (a + extent xs + 8, k) (set (gused a cs))"
      using dj
    proof
      assume "cs' = xs @ (s, Used) # ys"
      then show ?thesis using 1(1,2) rn by (intro exI [of _ "s - 4"]) auto
    next
      assume "cs' = xs @ (n, Used) # (s - n, Free) # ys"
      then show ?thesis using 1(1,2) rn by (intro exI [of _ "n - 4"]) (auto simp: add.assoc)
    qed
    then obtain k where k: "req \<le> k" "set (gused a cs') = insert (a + extent xs + 8, k) (set (gused a cs))" by blast
    have "(a + extent xs + 8, k) \<notin> set (gused a cs)"
      using p(5) gused_range [of xs "a + extent xs + 8" k a] gused_range [of ys "a + extent xs + 8" k "a + extent xs + s"] by (auto simp: 1(1))
    then show ?thesis using 1(3,5) k u gpool_chunks(3,4) [OF 1(4)] p(4) by (intro exI [of _ "a + extent xs + 8"] exI [of _ m']) auto
  qed
qed

lemma gma_free_law:
  assumes ok: "gma_ok mp m" and b: "(p, k) \<in> gma_blocks mp m"
  shows "\<exists>m'. gma_free pool mp p m = Inr (0, m') \<and> gma_ok mp m' \<and> gma_blocks mp m' = gma_blocks mp m - {(p, k)} \<and>
    (\<forall>(q, l)\<in>gma_blocks mp m'. \<forall>w. q \<le> w \<and> w < q + l \<longrightarrow> m' w = m w)"
proof -
  obtain a cs F where g: "gpool m mp a cs F" "gma_start mp m = a" "gma_chunks mp m = cs" "gma_blocks mp m = set (gused a cs)" "sizes_ok cs" "mp \<noteq> 0"
    using ok by (rule gma_okE)
  have mp: "mp = (if mp = 0 then pool else mp)" using g(6) by simp
  obtain xs s ys where cs: "cs = xs @ (s, Used) # ys" "p = a + extent xs + 8" "k = s - 4" using gused_split b g(4) by blast
  obtain m' cs' F' where 1: "gma_free pool mp p m = Inr (0, m')" "gpool m' mp a cs' F'"
    "set (gused a cs') = set (gused a xs) \<union> set (gused (a + extent xs + s) ys)" "\<forall>w. in_used a cs' w \<longrightarrow> m' w = m w"
    using gma_free_block [OF g(1) [unfolded cs(1)] mp refl] cs(2) by metis
  have "(p, k) \<notin> set (gused a cs')"
    unfolding 1(3) using g(5) gused_range [of xs p k a] gused_range [of ys p k "a + extent xs + s"] by (auto simp: cs)
  moreover have "set (gused a cs) = insert (p, k) (set (gused a cs'))" unfolding 1(3) by (auto simp: cs)
  ultimately have "gma_blocks mp m' = gma_blocks mp m - {(p, k)}" using gpool_chunks(4) [OF 1(2)] g(4) by auto
  moreover have "m' w = m w" if "(q, l) \<in> gma_blocks mp m'" "q \<le> w" "w < q + l" for q l w
    using 1(4) that gpool_chunks(4) [OF 1(2)] by (auto simp: in_used_def)
  ultimately show ?thesis using 1(1) gpool_chunks(3) [OF 1(2)] by blast
qed

text \<open>What a client writes into its block does not disturb the pool.\<close>

lemma gl_frame4:
  assumes "gl m a p ys" and ok: "sizes_ok ys" and eq: "\<And>w. a + 4 \<le> w \<Longrightarrow> m' w = m w"
  shows "gl m' a p ys"
proof (cases ys)
  case Nil
  then show ?thesis using assms by (simp add: hdr_def)
next
  case (Cons z zs)
  obtain s k where z: "z = (s, k)" by (cases z)
  have s: "16 \<le> s" "sizes_ok zs" using ok by (auto simp: Cons z)
  have "gl m' (a + s) k zs" by (rule gl_frame_above [OF _ s(2)]) (use assms(1) eq s(1) in \<open>auto simp: Cons z\<close>)
  then show ?thesis using assms(1) eq [of "a + 4"] eq [of "a + s"] s(1) by (simp add: Cons z hdr_def)
qed

lemma gl_write:
  "gl m a p (xs @ (s, Used) # ys) \<Longrightarrow> sizes_ok (xs @ (s, Used) # ys) \<Longrightarrow> a + extent xs + 8 \<le> w \<Longrightarrow> w < a + extent xs + s + 4 \<Longrightarrow>
    gl (m(w := v)) a p (xs @ (s, Used) # ys)"
proof (induction xs arbitrary: a p)
  case Nil
  have "gl (m(w := v)) (a + s) Used ys" by (rule gl_frame4 [of m]) (use Nil in auto)
  moreover have "hdr (m(w := v)) a p s True" using Nil by (simp add: hdr_def)
  ultimately show ?case by (simp only: append_Nil gl.simps simp_thms mark.distinct)
next
  case (Cons z xs)
  obtain t k where z: "z = (t, k)" by (cases z)
  have "gl (m(w := v)) (a + t) k (xs @ (s, Used) # ys)" by (rule Cons.IH) (use Cons.prems in \<open>auto simp: z add.assoc\<close>)
  moreover have "hdr (m(w := v)) a p t (k = Used)" "k = Free \<longrightarrow> CHUNK_ALIGN ((m(w := v)) (a + t)) = t"
    using Cons.prems by (auto simp: z hdr_def)
  ultimately show ?case by (simp only: z append_Cons gl.simps simp_thms)
qed

lemma gpool_write:
  assumes p: "gpool m mp a (xs @ (s, Used) # ys) F" and c: "c = a + extent xs" and w: "c + 8 \<le> w" "w < c + s + 4"
  shows "gpool (m(w := v)) mp a (xs @ (s, Used) # ys) F"
proof -
  let ?cs = "xs @ (s, Used) # ys" let ?m = "m(w := v)"
  have t: "gtiled m mp a ?cs F" using p by (simp add: gpool_def)
  note d = gtiledD [OF t] note g = gconfD [OF d(1)]
  have ok: "sizes_ok ?cs" using gsizes_ok [OF d(2) g(6)] .
  have lev: "0 < glev m mp" by (simp add: glev_def)
  have w1: "a < w" "w < a + extent ?cs + 8" using w c by auto
  have mp: "?m (mp + j) = m (mp + j)" if "j \<le> 20" for j
    using gconf_apart(9) [OF d(1) _ lev that, of 0] lev w1 by auto
  have mp0: "?m mp = m mp" using mp [of 0] by simp
  have lev': "glev ?m mp = glev m mp" unfolding glev_def using mp0 mp [of 4] by simp
  have tab: "?m (SL_adr mp f m) = m (SL_adr mp f m)" if "f < glev m mp" for f
    using gconf_apart(10) [OF d(1) _ that, of 0] that w1 by auto
  have heads: "?m (m (mp + 20) + 4 * i) = m (m (mp + 20) + 4 * i)" if "i < 32 * glev m mp" for i
    using gconf_apart(1) [OF d(1) that lev] w1 by auto
  have links: "?m (x + 8) = m (x + 8) \<and> ?m (x + 12) = m (x + 12)" if "(x, t) \<in> gfrees a ?cs" for x t
  proof -
    have "(x, t) \<in> gfrees a xs \<or> (x, t) \<in> gfrees (c + s) ys" using that by (auto simp: c add.assoc)
    then have "x + 16 \<le> c \<or> c + s \<le> x"
      using gfrees_start [of x t a xs] gfrees_start [of x t "c + s" ys] starts_range [of xs x a] starts_range [of ys x "c + s"] ok c by auto
    then show ?thesis using w by auto
  qed
  have conf: "gconf ?m mp a (extent ?cs)"
    by (rule gconf_frame [OF d(1)]) (rule mp0, (rule mp, simp)+)
  have "gl ?m a Used ?cs" using d(3) ok w c by (intro gl_write) auto
  moreover have "glists ?m mp a ?cs F"
    unfolding glists_def lev' mp0 mp [OF order_refl]
  proof (intro allI impI conjI)
    fix i assume i: "i < 32 * glev m mp"
    note gi = glistsD [OF d(4) i]
    have "?m (x + 8) = m (x + 8) \<and> ?m (x + 12) = m (x + 12)" if "x \<in> set (F i)" for x
      using that d(4) i links unfolding glists_def by blast
    moreover have "glist m (m (mp + 20) + 4 * i) (F i)" using d(4) i unfolding glists_def by blast
    ultimately show "glist ?m (m (mp + 20) + 4 * i) (F i)" using heads [OF i] glist_frame [of m _ "F i" ?m] by blast
    show "set (F i) = {x. \<exists>s. (x, s) \<in> gfrees a ?cs \<and> cls (m mp) s = i}" using d(4) i by (simp add: glists_def)
  qed
  moreover have "bitmaps ?m mp (glev ?m mp) F"
    unfolding lev' by (rule bitmaps_cong [OF d(5)]) (use mp [of 12] mp [of 16] tab in simp_all)
  ultimately have "gtiled ?m mp a ?cs F" using conf d(2) mp [of 8] by (simp add: gtiled_def)
  then show ?thesis using p by (simp add: gpool_def)
qed

lemma gma_store_law:
  assumes ok: "gma_ok mp m" and b: "(p, k) \<in> gma_blocks mp m" and w: "p \<le> w" "w < p + k"
  shows "gma_ok mp (m(w := v)) \<and> gma_blocks mp (m(w := v)) = gma_blocks mp m"
proof -
  obtain a cs F where g: "gpool m mp a cs F" "gma_blocks mp m = set (gused a cs)" "sizes_ok cs" using ok by (rule gma_okE)
  obtain xs s ys where cs: "cs = xs @ (s, Used) # ys" "p = a + extent xs + 8" "k = s - 4" using gused_split b g(2) by blast
  have "gpool (m(w := v)) mp a cs F"
    using g(1) unfolding cs(1) by (intro gpool_write [OF _ refl]) (use w cs(2,3) g(3) in \<open>auto simp: cs(1)\<close>)
  then show ?thesis using gpool_chunks(3,4) [of "m(w := v)"] g(2) by simp
qed

interpretation gma: allocator "gma_ok mp" "gma_blocks mp" "\<lambda>m. m" gma_fits "gma_alloc pool mp" "\<lambda>p m. rbind (gma_free pool mp p m) (\<lambda>(r, m). Inr m)"
  "\<lambda>w v m. m(w := v)"
  for pool mp
proof unfold_locales
  fix m p k q l
  assume ok: "gma_ok mp m" and b: "(p, k) \<in> gma_blocks mp m"
  obtain a cs F where g: "gma_blocks mp m = set (gused a cs)" "sizes_ok cs" using ok by (rule gma_okE)
  show "0 < p \<and> 0 < k" using gused_range [OF g(2)] b g(1) by fastforce
  show "p + k \<le> q \<or> q + l \<le> p" if "(q, l) \<in> gma_blocks mp m" "(p, k) \<noteq> (q, l)"
    using gused_disjoint [OF g(2)] b that g(1) by blast
  show "\<exists>m'. rbind (gma_free pool mp p m) (\<lambda>(r, m). Inr m) = Inr m' \<and> gma_ok mp m' \<and> gma_blocks mp m' = gma_blocks mp m - {(p, k)} \<and>
      (\<forall>(q, l)\<in>gma_blocks mp m'. \<forall>w. q \<le> w \<and> w < q + l \<longrightarrow> m' w = m w)"
    using gma_free_law [OF ok b, of pool] by auto
  show "gma_ok mp (m(w := v)) \<and> gma_blocks mp (m(w := v)) = gma_blocks mp m \<and> m(w := v) = m(w := v)" if "p \<le> w" "w < p + k" for w v
    using gma_store_law [OF ok b that] by blast
next
  fix m req assume "gma_ok mp m" "gma_fits req"
  from gma_alloc_law [OF this, of pool] show "\<exists>p m'. gma_alloc pool mp req m = Inr (p, m') \<and> gma_ok mp m' \<and> (p = 0 \<longrightarrow> m' = m) \<and>
      (p \<noteq> 0 \<longrightarrow> (\<exists>k\<ge>req. (p, k) \<notin> gma_blocks mp m \<and> gma_blocks mp m' = insert (p, k) (gma_blocks mp m))) \<and>
      (\<forall>(q, l)\<in>gma_blocks mp m. \<forall>w. q \<le> w \<and> w < q + l \<longrightarrow> m' w = m w)" by blast
qed

section \<open>Creating a pool\<close>

lemma clear_words_eq: "clear_words n a m w = (if \<exists>i<n. w = a + 4 * i then 0 else m w)"
  by (induction n) (auto simp: less_Suc_eq)

lemma sword_of: "v = sword (CHUNK_ALIGN v) (odd (v div 2)) (odd v)"
proof -
  have "v mod 4 = 2 * (v div 2 mod 2) + v mod 2" using mod_mult2_eq [of v 2 2] by simp
  then show ?thesis unfolding sword_def CHUNK_ALIGN_def by (simp add: mod_2_eq_odd [symmetric])
qed

lemma first_chunk:
  assumes a: "4 dvd a" "a \<noteq> 0" and n: "4 dvd n" "16 < n" "a + n + 8 \<le> 2 ^ 32"
  shows "\<exists>m'. make_first_chunk a (n + 8) m = Inr (a + 8, m') \<and> m' (a + 4) = sword n True True \<and> m' (a + n + 4) = sword 4 True True \<and>
    (\<forall>w. w \<notin> {a, a + 4, a + n + 4} \<longrightarrow> m' w = m w)"
proof -
  have al: "CHUNK_IS_ALIGNED a" "4 \<le> a" using a by (auto simp: CHUNK_IS_ALIGNED_def dvd_eq_mod_eq_0 intro: dvd_imp_le)
  have 6: "(4::nat) OR 2 = sword 4 True False" using or_flags [of 4 2] by (simp add: sword_def)
  have b: "SET_BORDER_CHUNK c m = m(c + 4 := sword 4 True False)" for c m
    unfolding SET_BORDER_CHUNK_def Let_def 6 by (simp add: CLONE_CHUNK_SIZE_def GET_CHUNK_AFTER_def GET_CHUNK_SIZE_def)
  let ?v = "m (a + 4)"
  have 4: "4 dvd CHUNK_ALIGN ?v" by (simp add: CHUNK_ALIGN_def dvd_minus_mod)
  have v: "n OR (?v AND 3) = sword n (odd (?v div 2)) (odd ?v)"
    using sword_simps(9) [OF 4 n(1), of "odd (?v div 2)" "odd ?v"] sword_of [of ?v] by simp
  let ?m = "m(a := sword 4 True False, a + 4 := sword n True True, a + n + 4 := sword 4 True True)"
  have "a - 4 + 4 = a" "a + BORDER_CHUNK_SIZE - 4 = a" "(a + (n + 8) - BORDER_CHUNK_SIZE - 4) mod 2 ^ 32 = a + n" using al n by simp_all
  then have "make_first_chunk a (n + 8) m = Inr (a + 8, ?m)"
    using al a n v by (simp add: make_first_chunk_def Let_def b SET_CHUNK_SIZE_def SET_CHUNK_INUSE_def SET_CHUNK_BINUSE_def)
  then show ?thesis using n by (intro exI [of _ ?m]) auto
qed

lemma one_free: "coalesced cs \<Longrightarrow> \<forall>c\<in>set cs. snd c \<noteq> Hole \<Longrightarrow> gused a cs = [] \<Longrightarrow> extent cs \<noteq> 0 \<Longrightarrow> cs = [(extent cs, Free)]"
proof (cases cs)
  case (Cons z zs)
  assume co: "coalesced cs" "\<forall>c\<in>set cs. snd c \<noteq> Hole" "gused a cs = []"
  obtain s k where z: "z = (s, k)" by (cases z)
  have k: "k = Free" using co(2,3) by (cases k) (auto simp: Cons z)
  have "zs = []"
  proof (rule ccontr)
    assume "zs \<noteq> []"
    then obtain t ys where "zs = (t, Used) # ys" using co(1) k by (cases zs) (auto simp: Cons z)
    then show False using co(3) by (simp add: Cons z k)
  qed
  then show ?thesis by (simp add: Cons z k)
qed simp

text \<open>The memory before the first chunk is made: descriptor and empty tables.\<close>

definition gma_tables :: "nat \<Rightarrow> nat \<Rightarrow> nat \<Rightarrow> nat \<Rightarrow> wmem \<Rightarrow> wmem" where
  "gma_tables mp adr n sz m =
     (let lev = arch_msb_index sz - arch_msb_index n + 1;
          m = m(mp + 8 := n, mp := arch_msb_index n, mp + 4 := arch_msb_index sz, mp + 16 := adr);
          m = clear_words lev adr m
      in clear_words (lev * 32) (adr + 4 * lev) (m(mp + 20 := adr + 4 * lev)))"

lemma gma_tables_words:
  assumes d: "mp + 24 \<le> adr \<or> adr + 132 * lev \<le> mp" and lev: "lev = arch_msb_index sz - arch_msb_index n + 1" and m': "m' = gma_tables mp adr n sz m"
  shows "m' mp = arch_msb_index n" "m' (mp + 4) = arch_msb_index sz" "m' (mp + 8) = n" "m' (mp + 12) = m (mp + 12)" "m' (mp + 16) = adr"
    "m' (mp + 20) = adr + 4 * lev" "f < lev \<Longrightarrow> m' (adr + 4 * f) = 0" "i < 32 * lev \<Longrightarrow> m' (adr + 4 * lev + 4 * i) = 0"
proof -
  have e: "m' = clear_words (lev * 32) (adr + 4 * lev) ((clear_words lev adr
      (m(mp + 8 := n, mp := arch_msb_index n, mp + 4 := arch_msb_index sz, mp + 16 := adr)))(mp + 20 := adr + 4 * lev))"
    unfolding m' gma_tables_def Let_def lev ..
  have out: "\<not> (\<exists>i<lev * 32. mp + j = adr + 4 * lev + 4 * i)" "\<not> (\<exists>i<lev. mp + j = adr + 4 * i)" if "j \<le> 20" for j
    using d that by auto
  have w: "clear_words (lev * 32) (adr + 4 * lev) x (mp + j) = x (mp + j)" "clear_words lev adr x (mp + j) = x (mp + j)" if "j \<le> 20" for x j
    unfolding clear_words_eq using out [OF that] by (simp_all only: if_False)
  show "m' mp = arch_msb_index n" "m' (mp + 4) = arch_msb_index sz" "m' (mp + 8) = n" "m' (mp + 12) = m (mp + 12)" "m' (mp + 16) = adr" "m' (mp + 20) = adr + 4 * lev"
    by (simp_all add: e w w [of 0, simplified])
  show "m' (adr + 4 * f) = 0" if "f < lev"
  proof -
    have "adr + 4 * f \<noteq> mp + 20" using d that by auto
    then show ?thesis unfolding e clear_words_eq using that by auto
  qed
  show "m' (adr + 4 * lev + 4 * i) = 0" if "i < 32 * lev"
  proof -
    have "\<exists>j<lev * 32. adr + 4 * lev + 4 * i = adr + 4 * lev + 4 * j" using that by (intro exI [of _ i]) simp
    then show ?thesis unfolding e clear_words_eq by (rule if_P)
  qed
qed

lemma gma_init_eq:
  assumes s: "segm \<noteq> 0" "segm + sz < 2 ^ 32" and n: "n = (if min_size = 0 then 32 else min_size)" "32 \<le> n" "n \<le> sz"
    and lev: "lev = arch_msb_index sz - arch_msb_index n + 1" and fits: "132 * lev + n + 16 \<le> sz" and pool: "pool + 24 \<le> segm \<or> segm + sz \<le> pool"
  shows "\<exists>adr N. segm \<le> adr \<and> 4 dvd adr \<and> 4 dvd N \<and> n \<le> N \<and> sz \<le> N + 132 * lev + 16 \<and> N \<le> sz \<and> adr + 132 * lev + N + 8 \<le> segm + sz \<and>
    gma_init pool segm sz min_size 0 m = rbind (make_first_chunk (adr + 132 * lev) (N + 8) (gma_tables pool adr n sz m)) (\<lambda>(chunk, m).
      rbind (gma_free pool pool chunk m) (\<lambda>(r, m). Inr (pool, m)))"
proof -
  define adr where "adr = CHUNK_ALIGN_FW segm"
  define e where "e = CHUNK_ALIGN (segm + sz)"
  have z: "0 < sz" using fits by simp
  have adr: "4 dvd adr" "segm \<le> adr" "adr < segm + 4" using align_fw [of segm] s fits by (simp_all add: adr_def)
  have e4: "4 dvd e" "e \<le> segm + sz" "segm + sz < e + 4"
    unfolding e_def CHUNK_ALIGN_def using mod_less_divisor [of 4 "segm + sz"] by (simp_all add: dvd_minus_mod)
  define N where "N = e - (adr + 132 * lev) - 8"
  have l: "1 \<le> lev" using lev by simp
  have N: "e = adr + 132 * lev + (N + 8)" using adr e4 fits by (simp add: N_def)
  have Nb: "4 dvd N" "n \<le> N" "sz \<le> N + 132 * lev + 16" "N \<le> sz" "adr + 132 * lev + N + 8 \<le> segm + sz"
  proof -
    have x: "4 dvd adr + 132 * lev + 8" using adr(1) by simp
    have "e = (adr + 132 * lev + 8) + N" using N by simp
    then show "4 dvd N" using e4(1) dvd_add_right_iff [OF x, of N] by simp
    show "n \<le> N" "sz \<le> N + 132 * lev + 16" "N \<le> sz" "adr + 132 * lev + N + 8 \<le> segm + sz" using N adr e4 fits by linarith+
  qed
  have mm: "arch_msb_index n \<le> arch_msb_index sz" using msb_mono [of n sz] n by simp
  have sm: "arch_msb_index sz < 32" using msb_less [of sz 32] s(2) z by simp
  have levels: "(arch_msb_index sz + 2 ^ 32 - arch_msb_index n + 1) mod 2 ^ 32 = lev"
  proof -
    have "arch_msb_index sz + 2 ^ 32 - arch_msb_index n + 1 = 2 ^ 32 + lev" "lev < 2 ^ 32" using mm sm by (simp_all add: lev)
    then show ?thesis by simp
  qed
  have ends: "(segm + sz) mod 2 ^ 32 = segm + sz" "(e + 2 ^ 32 - adr) mod 2 ^ 32 = e - adr" "172 \<le> e - adr"
  proof -
    have d: "e + 2 ^ 32 - adr = 2 ^ 32 + (e - adr)" "e - adr < 2 ^ 32" "172 \<le> e - adr" using s adr e4 N l Nb n(2) by linarith+
    show "(e + 2 ^ 32 - adr) mod 2 ^ 32 = e - adr" unfolding d(1) mod_add_self1 by (rule mod_less [OF d(2)])
    show "172 \<le> e - adr" by (rule d(3))
    show "(segm + sz) mod 2 ^ 32 = segm + sz" using s(2) by simp
  qed
  have a1: "(adr + 4 * lev) mod 2 ^ 32 = adr + 4 * lev" "CHUNK_ALIGN_FW (adr + 4 * lev) = adr + 4 * lev"
    "(adr + 4 * lev + 4 * 32 * lev) mod 2 ^ 32 = adr + 132 * lev" "CHUNK_ALIGN_FW (adr + 132 * lev) = adr + 132 * lev"
    using adr(1) N Nb(5) s(2) by (simp_all add: align_fw_id)
  have a2: "(e + 2 ^ 32 - (adr + 132 * lev)) mod 2 ^ 32 = N + 8"
  proof -
    have d: "e + 2 ^ 32 - (adr + 132 * lev) = 2 ^ 32 + (N + 8)" "N + 8 < 2 ^ 32" using N Nb(5) s(2) by linarith+
    show ?thesis unfolding d(1) mod_add_self1 by (rule mod_less [OF d(2)])
  qed
  let ?m1 = "m(pool + 8 := n, pool := arch_msb_index n, pool + 4 := arch_msb_index sz, pool + 16 := adr)"
  have "gma_init pool segm sz min_size 0 m = rbind (make_first_chunk (adr + 132 * lev) (N + 8)
      (clear_words (lev * 32) (adr + 4 * lev) ((clear_words lev adr ?m1)(pool + 20 := adr + 4 * lev)))) (\<lambda>(chunk, m).
      rbind (gma_free pool pool chunk m) (\<lambda>(r, m). Inr (pool, m)))"
  proof -
    have n': "(if (if min_size = 0 then 32 else min_size) \<ge> 16 then if min_size = 0 then 32 else min_size else 16) = n" using n by simp
    show ?thesis
      unfolding gma_init_def Let_def ends(1) adr_def [symmetric] e_def [symmetric] ends(2) n'
      using s(1) ends(3) levels a1 a2 by simp
  qed
  then show ?thesis unfolding gma_tables_def Let_def lev [symmetric] using adr Nb by blast
qed

lemma gma_init_pool:
  assumes s: "segm \<noteq> 0" "segm + sz < 2 ^ 32" and n: "n = (if min_size = 0 then 32 else min_size)" "32 \<le> n" "4 dvd n" "n < 2 ^ 26"
    and lev: "lev = arch_msb_index sz - arch_msb_index n + 1" and fits: "132 * lev + n + 16 \<le> sz"
    and pool: "pool \<noteq> 0" "pool + 24 \<le> segm \<or> segm + sz \<le> pool" "m (pool + 12) = 0"
  shows "\<exists>m' N F a. gma_init pool segm sz min_size 0 m = Inr (pool, m') \<and> gpool m' pool a [(N, Free)] F \<and> sz \<le> N + 132 * lev + 16"
proof -
  have nz: "n \<le> sz" using fits by simp
  obtain adr N where a: "segm \<le> adr" "4 dvd adr" "4 dvd N" "n \<le> N" "sz \<le> N + 132 * lev + 16" "N \<le> sz" "adr + 132 * lev + N + 8 \<le> segm + sz"
    "gma_init pool segm sz min_size 0 m = rbind (make_first_chunk (adr + 132 * lev) (N + 8) (gma_tables pool adr n sz m)) (\<lambda>(chunk, m).
      rbind (gma_free pool pool chunk m) (\<lambda>(r, m). Inr (pool, m)))"
    using gma_init_eq [OF s n(1,2) nz lev fits pool(2), of m] by blast
  define m1 where "m1 = gma_tables pool adr n sz m"
  define b where "b = adr + 132 * lev"
  have out: "pool + 24 \<le> adr \<or> b + N + 8 \<le> pool" using pool(2) a(1,7) by (auto simp: b_def)
  then have out1: "pool + 24 \<le> adr \<or> adr + 132 * lev \<le> pool" by (auto simp: b_def)
  note w = gma_tables_words [OF out1 lev m1_def]
  have N: "16 < N" "4 dvd b" "b \<noteq> 0" "b + N + 8 \<le> 2 ^ 32" using a n(2) s lev by (auto simp: b_def)
  obtain m2 where m2: "make_first_chunk b (N + 8) m1 = Inr (b + 8, m2)" "m2 (b + 4) = sword N True True" "m2 (b + N + 4) = sword 4 True True"
    "\<And>w. w \<notin> {b, b + 4, b + N + 4} \<Longrightarrow> m2 w = m1 w"
    using first_chunk [OF N(2,3) a(3) N(1,4), of m1] by blast
  have mp2: "m2 (pool + j) = m1 (pool + j)" if "j \<le> 20" for j using m2(4) [of "pool + j"] out that by (auto simp: b_def)
  have tab2: "m2 w = m1 w" if "w < b" for w using m2(4) [of w] that by auto
  have mm: "5 \<le> arch_msb_index n" "arch_msb_index n \<le> arch_msb_index sz" "arch_msb_index sz \<le> 31" "N < 2 ^ Suc (arch_msb_index sz)"
    using msb_ge [of 5 n] msb_mono [of n sz] msb_less [of sz 32] arch_msb_index_bounds [of sz] n(2) nz s(2) a(6) by auto
  have lv: "glev m2 pool = lev" using mp2 [of 0] mp2 [of 4] w by (simp add: glev_def lev)
  have v: "m2 pool = arch_msb_index n" "m2 (pool + 4) = arch_msb_index sz" "m2 (pool + 8) = n" "m2 (pool + 12) = 0" "m2 (pool + 16) = adr" "m2 (pool + 20) = adr + 4 * lev"
    using mp2 [of 0] mp2 [of 4] mp2 [of 8] mp2 [of 12] mp2 [of 16] mp2 [of 20] w pool(3) by simp_all
  have heads: "m2 (adr + 4 * lev + 4 * i) = 0" if "i < 32 * lev" for i using tab2 w(8) that by (simp add: b_def)
  have rows: "m2 (adr + 4 * f) = 0" if "f < lev" for f using tab2 w(7) that by (simp add: b_def)
  have "gconf m2 pool b N" unfolding gconf_def lv v using pool(1) n mm a(2) N(4) out by (auto simp: b_def)
  moreover have "glists m2 pool b [(N, Used)] (\<lambda>_. [])" unfolding glists_def lv v using heads by (simp add: glist_def)
  moreover have "bitmaps m2 pool lev (\<lambda>_. [])" unfolding bitmaps_def v using rows by simp
  moreover have "gl m2 b Used [(N, Used)]" using m2(2,3) by (auto simp: hdr_def)
  ultimately have "gpool m2 pool b ([] @ (N, Used) # []) (\<lambda>_. [])" using a(3,4) by (simp add: gpool_def gtiled_def lv v)
  from gma_free_block [OF this, of pool pool] obtain m3 cs F where
    m3: "gma_free pool pool (b + 8) m2 = Inr (0, m3)" "gpool m3 pool b cs F" "gused b cs = []" "extent cs = N" by auto
  have "cs = [(N, Free)]" using m3(2,3,4) one_free [of cs b] N(1) by (simp add: gpool_def)
  moreover have "gma_init pool segm sz min_size 0 m = Inr (pool, m3)" using a(8) m2(1) m3(1) by (simp add: b_def m1_def)
  ultimately show ?thesis using m3(2) a(5) by blast
qed

section \<open>Properties\<close>

text \<open>C20. \<open>gma_init\<close>, as programs call it, makes the segment a pool with one free chunk: all of the segment but the tables (132 bytes for each power of two between the
  smallest chunk and the segment) and at most 16 bytes. The descriptor is the static variable, whose bitmap is zero when the program starts.\<close>

theorem gma_init_ok:
  assumes "segm \<noteq> 0" "segm + sz < 2 ^ 32" and "n = (if min_size = 0 then 32 else min_size)" "32 \<le> n" "4 dvd n" "n < 2 ^ 26"
    and "lev = arch_msb_index sz - arch_msb_index n + 1" and "132 * lev + n + 16 \<le> sz"
    and "pool \<noteq> 0" "pool + 24 \<le> segm \<or> segm + sz \<le> pool" "m (pool + 12) = 0"
  shows "\<exists>m' N. gma_init pool segm sz min_size 0 m = Inr (pool, m') \<and> gma_ok pool m' \<and> gma_blocks pool m' = {} \<and>
    gma_chunks pool m' = [(N, Free)] \<and> sz \<le> N + 132 * lev + 16"
proof -
  obtain m' N F a where "gma_init pool segm sz min_size 0 m = Inr (pool, m')" "gpool m' pool a [(N, Free)] F" "sz \<le> N + 132 * lev + 16"
    using gma_init_pool [where m = m, OF assms] by blast
  then show ?thesis using gpool_chunks [of m' pool a "[(N, Free)]" F] by auto
qed

lemma demo_msb: "arch_msb_index 65536 = 16" "arch_msb_index 32 = 5"
  by (rule arch_msb_index_unique; simp)+

lemma gma_demo: "\<exists>m. gma_init 4096 8192 65536 32 0 (\<lambda>a. 0) = Inr (4096, m) \<and> gma_ok 4096 m"
proof -
  obtain m N F a where "gma_init 4096 8192 65536 32 0 (\<lambda>a. 0) = Inr (4096, m)" "gpool m 4096 a [(N, Free)] F"
    using gma_init_pool [of 8192 65536 32 32 12 4096 "\<lambda>a. 0"] by (auto simp: demo_msb)
  then show ?thesis using gpool_chunks(3) by blast
qed

theorem gma_init_ok_witness: "\<exists>m N. gma_init 4096 8192 65536 32 0 (\<lambda>a. 0) = Inr (4096, m) \<and> gma_chunks 4096 m = [(N, Free)] \<and> 63936 \<le> N"
  using gma_init_ok [of 8192 65536 32 32 12 4096 "\<lambda>a. 0"] by (auto simp: demo_msb)

text \<open>C18. Every history of requests of sizes from 1 to \<open>2 ^ 32 - 2 ^ 26 - 7\<close> and releases of live blocks, with arbitrary stores of the program into its blocks in
  between, is served by the grid allocator without a failed check and keeps the pool sound; a block that is not released contains what was stored there last.\<close>

theorem gma_serves:
  assumes "gma_ok mp m" and "gma.all_legal mp pool rs m"
  shows "\<exists>m'. gma.run pool mp rs m = Inr m' \<and> gma_ok mp m' \<and>
    (\<forall>(q, l)\<in>gma_blocks mp m. Release q \<notin> set rs \<longrightarrow> (q, l) \<in> gma_blocks mp m' \<and> (\<forall>w. q \<le> w \<and> w < q + l \<longrightarrow> m' w = stored w rs (m w)))"
  using gma.run_ok [OF assms] gma.run_keeps [OF assms] by blast

theorem gma_serves_witness: "\<exists>m m'. gma_ok 4096 m \<and> gma.run 4096 4096 [Alloc 100, Alloc 5000] m = Inr m' \<and> gma_ok 4096 m'"
proof -
  obtain m where m: "gma_ok 4096 m" using gma_demo by blast
  have f: "gma_fits 100" "gma_fits 5000" by (simp_all add: gma_fits_def)
  have l: "gma.legal 4096 (Alloc 100) m'" "gma.legal 4096 (Alloc 5000) m'" for m' unfolding gma.legal_def using f by simp_all
  obtain m1 where 1: "gma.serve 4096 4096 (Alloc 100) m = Inr m1" "gma_ok 4096 m1" using gma.serve_ok [OF m l(1)] by blast
  obtain m2 where 2: "gma.serve 4096 4096 (Alloc 5000) m1 = Inr m2" using gma.serve_ok [OF 1(2) l(2)] by blast
  have "gma.all_legal 4096 4096 [Alloc 100, Alloc 5000] m" unfolding gma.all_legal.simps 1(1) 2 sum.case using l by simp
  with gma_serves [OF m this] m show ?thesis by blast
qed

text \<open>C19. An allocation returns either a block of at least the requested size that overlaps no live block, or 0 with nothing changed; the latter only when every free chunk is smaller than the
  requested size rounded up to the next class of sizes, so that looking at two bitmaps never misses a chunk that is surely large enough. Below 256 bytes there is no rounding.\<close>

theorem gma_alloc_good_fit:
  assumes "gma_ok mp m" and "gma_fits req"
  shows "\<exists>p m'. gma_alloc pool mp req m = Inr (p, m') \<and> gma_ok mp m' \<and>
    (if p = 0 then m' = m \<and> (\<forall>(x, s)\<in>gfrees (gma_start mp m) (gma_chunks mp m). s < round_up (gma_size (m (mp + 8)) req))
     else \<exists>k\<ge>req. gma_blocks mp m' = insert (p, k) (gma_blocks mp m) \<and> (\<forall>(q, l)\<in>gma_blocks mp m. p + k \<le> q \<or> q + l \<le> p))"
proof -
  obtain p m' where r: "gma_alloc pool mp req m = Inr (p, m')" "gma_ok mp m'"
    "p = 0 \<longrightarrow> m' = m \<and> (\<forall>(x, s)\<in>gfrees (gma_start mp m) (gma_chunks mp m). s < round_up (gma_size (m (mp + 8)) req))"
    "p \<noteq> 0 \<longrightarrow> (\<exists>k\<ge>req. (p, k) \<notin> gma_blocks mp m \<and> gma_blocks mp m' = insert (p, k) (gma_blocks mp m))"
    using gma_alloc_law [OF assms, of pool] by (elim exE conjE) (rule that)
  have "p + k \<le> q \<or> q + l \<le> p"
    if "(p, k) \<notin> gma_blocks mp m" "gma_blocks mp m' = insert (p, k) (gma_blocks mp m)" "(q, l) \<in> gma_blocks mp m" for k q l
    using gma.disjoint [OF r(2), of p k q l] that by auto
  with r show ?thesis by (intro exI [of _ p] exI [of _ m']) auto
qed

theorem gma_alloc_good_fit_witness:
  "\<exists>m p m'. gma_ok 4096 m \<and> gma_alloc 4096 4096 1000 m = Inr (p, m') \<and> gma_ok 4096 m' \<and> (p = 0 \<or> (\<exists>k\<ge>1000. (p, k) \<in> gma_blocks 4096 m'))"
proof -
  obtain m where m: "gma_ok 4096 m" using gma_demo by blast
  have f: "gma_fits 1000" by (simp add: gma_fits_def)
  obtain p m' where r: "gma_alloc 4096 4096 1000 m = Inr (p, m')" "gma_ok 4096 m'"
    and d: "p \<noteq> 0 \<longrightarrow> (\<exists>k\<ge>1000. gma_blocks 4096 m' = insert (p, k) (gma_blocks 4096 m))"
    using gma_alloc_good_fit [OF m f, of 4096] by meson
  then have "p = 0 \<or> (\<exists>k\<ge>1000. (p, k) \<in> gma_blocks 4096 m')" by blast
  then show ?thesis using m r by blast
qed

text \<open>Requests that are too large wrap around: the next three bytes of size are served by the smallest chunk.\<close>

lemma gma_wraps:
  assumes "2 ^ 32 - 7 \<le> req" "req < 2 ^ 32 - 4" and "32 \<le> m (mp + 8)" "mp \<noteq> 0"
  shows "gma_alloc pool mp req m = gma_alloc pool mp 1 m"
proof -
  have "req \<in> {4294967289, 4294967290, 4294967291}" using assms(1,2) by auto
  then have "CHUNK_ALIGN_FW ((req + 4) mod 2 ^ 32) < 4" by (elim insertE emptyE) (simp_all add: CHUNK_ALIGN_FW_def CHUNK_ALIGN_def)
  moreover have "CHUNK_ALIGN_FW ((1 + 4) mod 2 ^ 32) = 8" by (simp add: CHUNK_ALIGN_FW_def CHUNK_ALIGN_def)
  ultimately show ?thesis using assms by (simp add: gma_alloc_def Let_def)
qed

end
