(* ===== verification/Os_Uthread.thy ===== *)
theory Os_Uthread
  imports Os_Grid Os_List
begin

text \<open>
  Threads that a program manages itself, without the kernel: \<^verbatim>\<open>programs/user_threads/uthread.c\<close> and the context operations for them in
  \<^verbatim>\<open>arch/i386/arch/context.h\<close>. The memory of the process is a map from word addresses to values, and the descriptors and stacks are blocks of the grid
  allocator; the fields of descriptors are maps from their addresses, and a list element is identified with its
  thread. A switch is what the inline assembler does: the registers go to the stack of one thread and come
  from the stack of another.
\<close>

section \<open>Contexts\<close>

text \<open>The general registers in the order in which \<^verbatim>\<open>pushal\<close> stores them, without the stack pointer: eax, ecx, edx, ebx, ebp, esi, edi.\<close>

record cpu =
  r_eip :: nat
  r_esp :: nat
  r_eflags :: nat
  r_eax :: nat
  r_ecx :: nat
  r_edx :: nat
  r_ebx :: nat
  r_ebp :: nat
  r_esi :: nat
  r_edi :: nat

abbreviation (input) INIT_EFLAGS :: nat where "INIT_EFLAGS \<equiv> 12802"

text \<open>\<^verbatim>\<open>*( --esp ) = v\<close>, and the same for several values.\<close>

fun push :: "nat list \<Rightarrow> nat \<Rightarrow> wmem \<Rightarrow> nat \<times> wmem" where
  "push [] sp m = (sp, m)"
| "push (v # vs) sp m = push vs (sp - 4) (m(sp - 4 := v))"

definition arch_create_uthread_context :: "nat \<Rightarrow> nat \<Rightarrow> nat \<Rightarrow> nat \<Rightarrow> nat \<Rightarrow> wmem \<Rightarrow> nat \<times> wmem" where
  "arch_create_uthread_context func prm thread_exit stack stack_size m =
     push [prm, thread_exit, func, INIT_EFLAGS, 0, 0, 0, 0, 0, 0, 0, 0] (stack + stack_size) m"

text \<open>\<open>ctx\<close> are the stack pointers saved in contexts, by the address of the context; that of \<open>to\<close> is read after that of \<open>from\<close> is written.
  \<open>label\<close> is the address behind the inline assembler.\<close>

definition arch_switch_to_uthread :: "nat \<Rightarrow> nat \<Rightarrow> nat \<Rightarrow> (nat \<Rightarrow> nat) \<Rightarrow> cpu \<Rightarrow> wmem \<Rightarrow> (nat \<Rightarrow> nat) \<times> cpu \<times> wmem" where
  "arch_switch_to_uthread label from to ctx c m =
     (let (sp, m) = push [label, r_eflags c] (r_esp c) m;
          (sp, m) = push [r_eax c, r_ecx c, r_edx c, r_ebx c, sp, r_ebp c, r_esi c, r_edi c] sp m;
          ctx = ctx(from := sp);
          sp = ctx to
      in (ctx,
          \<lparr>r_eip = m (sp + 36), r_esp = sp + 40, r_eflags = m (sp + 32),
           r_eax = m (sp + 28), r_ecx = m (sp + 24), r_edx = m (sp + 20), r_ebx = m (sp + 16),
           r_ebp = m (sp + 8), r_esi = m (sp + 4), r_edi = m sp\<rparr>, m))"

section \<open>Threads\<close>

datatype uq = UActive | UReady

record ust =
  u_next_id :: int
  u_lists :: "uq \<Rightarrow> list_t"
  u_links :: lheap
  u_id :: "nat \<Rightarrow> int"
  u_ctx :: "nat \<Rightarrow> nat"
  u_stack :: "nat \<Rightarrow> nat"
  u_mem :: wmem
  u_cpu :: cpu

text \<open>What the linker and the build determine: the static pool descriptor and the one in \<^verbatim>\<open>pi.mpool\<close>, the descriptor of the main thread, the size of stacks,
  the addresses of \<^verbatim>\<open>uthread_exit\<close>, of the code behind a switch and of the local variable \<^verbatim>\<open>tmp\<close>.\<close>

record uenv =
  n_pool :: nat
  n_mpool :: nat
  n_main :: nat
  n_stack_size :: nat
  n_exit :: nat
  n_label :: nat
  n_tmp :: nat

abbreviation (input) SIZEOF_UTHREAD :: nat where "SIZEOF_UTHREAD \<equiv> 24"

definition uq_append :: "uq \<Rightarrow> nat \<Rightarrow> ust \<Rightarrow> ust res" where
  "uq_append q t s = rbind (list_append (u_lists s q) t t (u_links s)) (\<lambda>(l, h). Inr (s\<lparr>u_lists := (u_lists s)(q := l), u_links := h\<rparr>))"

definition uq_remove :: "uq \<Rightarrow> ust \<Rightarrow> nat \<times> ust" where
  "uq_remove q s = (let (t, l, h) = list_remove (u_lists s q) LIST_FIRST 0 (u_links s) in (t, s\<lparr>u_lists := (u_lists s)(q := l), u_links := h\<rparr>))"

definition uthreads_init :: "uenv \<Rightarrow> ust \<Rightarrow> ust res" where
  "uthreads_init e s =
     (let s = s\<lparr>u_next_id := 1, u_lists := (u_lists s)(UActive := list_init)\<rparr>
      in rbind (uq_append UActive (n_main e) s) (\<lambda>s.
         Inr (s\<lparr>u_lists := (u_lists s)(UReady := list_init)\<rparr>)))"

text \<open>Results of \<^verbatim>\<open>malloc\<close> are not checked; a null pointer is written through.\<close>

definition create_uthread :: "uenv \<Rightarrow> nat \<Rightarrow> nat \<Rightarrow> ust \<Rightarrow> (nat \<times> ust) res" where
  "create_uthread e func prm s =
     rbind (gma_alloc (n_pool e) (n_mpool e) SIZEOF_UTHREAD (u_mem s)) (\<lambda>(thread, m).
     rbind (gma_alloc (n_pool e) (n_mpool e) (n_stack_size e) m) (\<lambda>(stack, m).
     if thread = 0 \<or> stack = 0 then Inl Out_of_bounds
     else
       let s = s\<lparr>u_stack := (u_stack s)(thread := stack), u_id := (u_id s)(thread := u_next_id s)\<rparr>;
           (sp, m) = arch_create_uthread_context func prm (n_exit e) stack (n_stack_size e) m;
           s = s\<lparr>u_ctx := (u_ctx s)(thread := sp), u_mem := m, u_next_id := u_next_id s + 1\<rparr>
       in rbind (uq_append UReady thread s) (\<lambda>s. Inr (thread, s))))"

text \<open>\<^verbatim>\<open>tmp\<close> is a copy of the descriptor of the thread that ends; only its context is used.\<close>

definition uthread_exit :: "uenv \<Rightarrow> ust \<Rightarrow> ust res" where
  "uthread_exit e s =
     (let (cur, s) = uq_remove UActive s
      in rbind (gma_free (n_pool e) (n_mpool e) (u_stack s cur) (u_mem s)) (\<lambda>(r, m).
         let s = s\<lparr>u_ctx := (u_ctx s)(n_tmp e := u_ctx s cur)\<rparr>
         in rbind (gma_free (n_pool e) (n_mpool e) cur m) (\<lambda>(r, m).
            let (new, s) = uq_remove UReady (s\<lparr>u_mem := m\<rparr>)
            in rbind (uq_append UActive new s) (\<lambda>s.
               let (ctx, c, m) = arch_switch_to_uthread (n_label e) (n_tmp e) new (u_ctx s) (u_cpu s) (u_mem s)
               in Inr (s\<lparr>u_ctx := ctx, u_cpu := c, u_mem := m\<rparr>)))))"

definition uthread_yield :: "uenv \<Rightarrow> ust \<Rightarrow> ust res" where
  "uthread_yield e s =
     (let (cur, s) = uq_remove UActive s
      in rbind (uq_append UReady cur s) (\<lambda>s.
         let (new, s) = uq_remove UReady s
         in rbind (uq_append UActive new s) (\<lambda>s.
            let (ctx, c, m) = arch_switch_to_uthread (n_label e) cur new (u_ctx s) (u_cpu s) (u_mem s)
            in Inr (s\<lparr>u_ctx := ctx, u_cpu := c, u_mem := m\<rparr>))))"

section \<open>Switching\<close>

text \<open>A saved context: the registers of \<open>c\<close>, to be continued at \<open>c\<close>'s instruction, are on the stack from \<open>sp\<close> on.\<close>

definition saved :: "nat \<Rightarrow> cpu \<Rightarrow> wmem \<Rightarrow> bool" where
  "saved sp c m \<longleftrightarrow> r_esp c = sp + 40 \<and> m (sp + 36) = r_eip c \<and> m (sp + 32) = r_eflags c \<and> m (sp + 28) = r_eax c \<and> m (sp + 24) = r_ecx c \<and>
     m (sp + 20) = r_edx c \<and> m (sp + 16) = r_ebx c \<and> m (sp + 8) = r_ebp c \<and> m (sp + 4) = r_esi c \<and> m sp = r_edi c"

lemma saved_frame: "saved sp c m \<Longrightarrow> (\<And>w. sp \<le> w \<Longrightarrow> w < sp + 40 \<Longrightarrow> m' w = m w) \<Longrightarrow> saved sp c m'"
  by (simp add: saved_def)

lemma push_two: "push [v9, v8] (b + 40) m = (b + 32, m(b + 36 := v9, b + 32 := v8))"
  by (simp add: add.commute)

lemma push_eight: "push [v7, v6, v5, v4, v3, v2, v1, v0] (b + 32) m =
    (b, m(b + 28 := v7, b + 24 := v6, b + 20 := v5, b + 16 := v4, b + 12 := v3, b + 8 := v2, b + 4 := v1, b := v0))"
  by (simp add: add.commute)

lemma switch_saves:
  assumes c: "40 \<le> r_esp c" and s: "arch_switch_to_uthread label from to ctx c m = (ctx', c', m')"
  shows "ctx' = ctx(from := r_esp c - 40)" and "saved (r_esp c - 40) (c\<lparr>r_eip := label\<rparr>) m'"
    and "w < r_esp c - 40 \<or> r_esp c \<le> w \<Longrightarrow> m' w = m w" and "saved (ctx' to) d m' \<Longrightarrow> c' = d"
proof -
  define b where "b = r_esp c - 40"
  have b: "r_esp c = b + 40" "r_esp c - 40 = b" using c by (simp_all add: b_def)
  note eq = s [unfolded arch_switch_to_uthread_def Let_def b push_two push_eight prod.case]
  have m': "m' = m(b + 36 := label, b + 32 := r_eflags c, b + 28 := r_eax c, b + 24 := r_ecx c, b + 20 := r_edx c, b + 16 := r_ebx c,
      b + 12 := b + 32, b + 8 := r_ebp c, b + 4 := r_esi c, b := r_edi c)"
    using eq by (elim Pair_inject) (erule sym)
  have ctx': "ctx' = ctx(from := b)" using eq by (elim Pair_inject) (erule sym)
  show "ctx' = ctx(from := r_esp c - 40)" unfolding b(2) by (rule ctx')
  show "saved (r_esp c - 40) (c\<lparr>r_eip := label\<rparr>) m'" unfolding b(2) m' by (simp add: saved_def b(1))
  show "m' w = m w" if "w < r_esp c - 40 \<or> r_esp c \<le> w" using that unfolding b(2) m' by (auto simp: b(1))
  show "c' = d" if "saved (ctx' to) d m'"
  proof -
    have "c' = \<lparr>r_eip = m' (ctx' to + 36), r_esp = ctx' to + 40, r_eflags = m' (ctx' to + 32), r_eax = m' (ctx' to + 28), r_ecx = m' (ctx' to + 24),
        r_edx = m' (ctx' to + 20), r_ebx = m' (ctx' to + 16), r_ebp = m' (ctx' to + 8), r_esi = m' (ctx' to + 4), r_edi = m' (ctx' to)\<rparr>"
      using eq unfolding m' ctx' by (elim Pair_inject) (erule sym)
    then show ?thesis using that by (simp add: saved_def)
  qed
qed

text \<open>Switching from a thread to another one and, later, back restores all registers, flags and the stack pointer of the first and continues behind
  the switch, provided its stack is left alone in between.\<close>

lemma switch_back:
  assumes "40 \<le> r_esp c" and "arch_switch_to_uthread label a b ctx c m = (ctx1, c1, m1)"
    and "40 \<le> r_esp d" and "arch_switch_to_uthread label' b' a ctx2 d m2 = (ctx3, c3, m3)" and "a \<noteq> b'"
    and "ctx2 a = ctx1 a" and "\<forall>w. r_esp c - 40 \<le> w \<and> w < r_esp c \<longrightarrow> m2 w = m1 w" and "r_esp d \<le> r_esp c - 40 \<or> r_esp c \<le> r_esp d - 40"
  shows "c3 = c\<lparr>r_eip := label\<rparr>"
proof -
  note 1 = switch_saves [OF assms(1,2)] and 3 = switch_saves [OF assms(3,4)]
  have "saved (r_esp c - 40) (c\<lparr>r_eip := label\<rparr>) m3"
    by (rule saved_frame [OF 1(2)]) (use 3(3) assms(1,7,8) in auto)
  moreover have "ctx3 a = r_esp c - 40" using 1(1) 3(1) assms(5,6) by simp
  ultimately show ?thesis using 3(4) by simp
qed

text \<open>The context of a new thread: it starts with the function, its parameter and the return to \<^verbatim>\<open>uthread_exit\<close> are on the stack.\<close>

definition fresh_cpu :: "nat \<Rightarrow> nat \<Rightarrow> cpu" where
  "fresh_cpu func sp = \<lparr>r_eip = func, r_esp = sp, r_eflags = INIT_EFLAGS, r_eax = 0, r_ecx = 0, r_edx = 0, r_ebx = 0, r_ebp = 0, r_esi = 0, r_edi = 0\<rparr>"

lemma create_context:
  assumes "48 \<le> n" and "arch_create_uthread_context func prm ex stack n m = (sp, m')"
  shows "sp = stack + n - 48" and "saved sp (fresh_cpu func (stack + n - 8)) m'" and "m' (stack + n - 8) = ex" and "m' (stack + n - 4) = prm"
    and "w < stack + n - 48 \<or> stack + n \<le> w \<Longrightarrow> m' w = m w"
proof -
  define b where "b = stack + n - 48"
  have b: "stack + n = b + 48" using assms(1) by (simp add: b_def)
  show "sp = stack + n - 48" "saved sp (fresh_cpu func (stack + n - 8)) m'" "m' (stack + n - 8) = ex" "m' (stack + n - 4) = prm"
    "w < stack + n - 48 \<or> stack + n \<le> w \<Longrightarrow> m' w = m w"
    using assms(2) by (auto simp: arch_create_uthread_context_def b saved_def fresh_cpu_def)
qed

section \<open>Cooperating threads\<close>

text \<open>\<open>cur\<close> is active and \<open>rs\<close> are ready. Every thread has a region \<open>R\<close> for its stack, apart from those of the others; that of a ready thread contains a saved context,
  with which it will continue as \<open>C\<close> says.\<close>

definition uqueues :: "nat \<Rightarrow> nat list \<Rightarrow> uq \<Rightarrow> nat list" where
  "uqueues cur rs q = (case q of UActive \<Rightarrow> [cur] | UReady \<Rightarrow> rs)"

definition regions_apart :: "(nat \<Rightarrow> nat \<times> nat) \<Rightarrow> nat set \<Rightarrow> bool" where
  "regions_apart R T \<longleftrightarrow> (\<forall>t\<in>T. \<forall>t'\<in>T. t \<noteq> t' \<longrightarrow> snd (R t) \<le> fst (R t') \<or> snd (R t') \<le> fst (R t))"

definition suspended :: "ust \<Rightarrow> (nat \<Rightarrow> nat \<times> nat) \<Rightarrow> (nat \<Rightarrow> cpu) \<Rightarrow> nat \<Rightarrow> bool" where
  "suspended s R C t \<longleftrightarrow> saved (u_ctx s t) (C t) (u_mem s) \<and> fst (R t) \<le> u_ctx s t \<and> u_ctx s t + 40 \<le> snd (R t)"

definition uthreads_ok :: "ust \<Rightarrow> nat \<Rightarrow> nat list \<Rightarrow> (nat \<Rightarrow> nat \<times> nat) \<Rightarrow> (nat \<Rightarrow> cpu) \<Rightarrow> bool" where
  "uthreads_ok s cur rs R C \<longleftrightarrow>
     lists_ok (u_links s) (u_lists s) (uqueues cur rs) \<and> regions_apart R (set (cur # rs)) \<and> (\<forall>t\<in>set rs. suspended s R C t) \<and>
     fst (R cur) + 40 \<le> r_esp (u_cpu s) \<and> r_esp (u_cpu s) \<le> snd (R cur)"

text \<open>The queue operations.\<close>

lemma uq_remove_first:
  assumes "lists_ok (u_links s) (u_lists s) A" and "A q = t # ts"
  shows "\<exists>l h. uq_remove q s = (t, s\<lparr>u_lists := (u_lists s)(q := l), u_links := h\<rparr>) \<and> lists_ok h ((u_lists s)(q := l)) (A(q := ts))"
proof -
  obtain l h where "list_remove (u_lists s q) LIST_FIRST 0 (u_links s) = (t, l, h)" "lists_ok h ((u_lists s)(q := l)) (A(q := ts))"
    using lists_ok_remove_first [of "u_links s" "u_lists s" A q t ts] assms by blast
  then show ?thesis by (auto simp: uq_remove_def)
qed

lemma uq_append_last:
  assumes "lists_ok (u_links s) (u_lists s) A" and "t \<noteq> 0" and "\<And>r. t \<notin> set (A r)"
  shows "\<exists>l h. uq_append q t s = Inr (s\<lparr>u_lists := (u_lists s)(q := l), u_links := h\<rparr>) \<and> lists_ok h ((u_lists s)(q := l)) (A(q := A q @ [t]))"
proof -
  obtain l h where "list_append (u_lists s q) t t (u_links s) = Inr (l, h)" "lists_ok h ((u_lists s)(q := l)) (A(q := A q @ [t]))"
    using lists_ok_append [of "u_links s" "u_lists s" A t q] assms by blast
  then show ?thesis by (auto simp: uq_append_def)
qed

text \<open>The first ready thread becomes the active one.\<close>

lemma next_active:
  assumes ok: "lists_ok (u_links s) (u_lists s) A" and A: "A UActive = []" "A UReady = new # rs"
  shows "\<exists>L h. (let (t, s1) = uq_remove UReady s in rbind (uq_append UActive t s1) (f t)) = f new (s\<lparr>u_lists := L, u_links := h\<rparr>) \<and>
    lists_ok h L (uqueues new rs)"
proof -
  obtain l1 h1 where 1: "uq_remove UReady s = (new, s\<lparr>u_lists := (u_lists s)(UReady := l1), u_links := h1\<rparr>)" (is "_ = (_, ?s)")
    "lists_ok h1 ((u_lists s)(UReady := l1)) (A(UReady := rs))" using uq_remove_first [OF ok A(2)] by blast
  have new: "new \<noteq> 0" "new \<notin> set rs" using lists_okD(4,5) [OF ok, of UReady] A(2) by auto
  have "new \<notin> set ((A(UReady := rs)) r)" for r using new(2) A(1) by (cases r) simp_all
  then obtain l2 h2 where "uq_append UActive new ?s = Inr (?s\<lparr>u_lists := (u_lists ?s)(UActive := l2), u_links := h2\<rparr>)"
    "lists_ok h2 ((u_lists ?s)(UActive := l2)) (A(UReady := rs, UActive := [new]))"
    using uq_append_last [of ?s "A(UReady := rs)" new UActive] 1(2) new(1) A(1) by auto
  moreover have "A(UReady := rs, UActive := [new]) = uqueues new rs" by (auto simp: uqueues_def fun_eq_iff split: uq.splits)
  ultimately show ?thesis using 1(1) by auto
qed

text \<open>The part of a yield that works on the queues.\<close>

lemma yield_queues:
  assumes ok: "lists_ok (u_links s) (u_lists s) (uqueues cur rs)" and new: "rs @ [cur] = new # rs'"
  shows "\<exists>L h. uthread_yield e s =
      (let (ctx, c, m) = arch_switch_to_uthread (n_label e) cur new (u_ctx s) (u_cpu s) (u_mem s)
       in Inr (s\<lparr>u_lists := L, u_links := h, u_ctx := ctx, u_cpu := c, u_mem := m\<rparr>)) \<and> lists_ok h L (uqueues new rs')"
proof -
  let ?A = "uqueues cur rs"
  have cur: "cur \<noteq> 0" "cur \<notin> set rs" using lists_okD(5) [OF ok, of UActive] lists_okD(2) [OF ok, of UActive UReady] by (auto simp: uqueues_def)
  obtain l1 h1 where 1: "uq_remove UActive s = (cur, s\<lparr>u_lists := (u_lists s)(UActive := l1), u_links := h1\<rparr>)" (is "_ = (_, ?s1)")
    "lists_ok h1 ((u_lists s)(UActive := l1)) (?A(UActive := []))" using uq_remove_first [OF ok, of UActive cur "[]"] by (auto simp: uqueues_def)
  have "cur \<notin> set ((?A(UActive := [])) r)" for r using cur by (cases r) (simp_all add: uqueues_def)
  moreover have "(?A(UActive := [])) UReady = rs" by (simp add: uqueues_def)
  ultimately obtain l2 h2 where 2: "uq_append UReady cur ?s1 = Inr (?s1\<lparr>u_lists := (u_lists ?s1)(UReady := l2), u_links := h2\<rparr>)" (is "_ = Inr ?s2")
    "lists_ok h2 ((u_lists ?s1)(UReady := l2)) (?A(UActive := [], UReady := new # rs'))"
    using uq_append_last [of ?s1 "?A(UActive := [])" cur UReady] 1(2) cur(1) new by auto
  let ?f = "\<lambda>t s. let (ctx, c, m) = arch_switch_to_uthread (n_label e) cur t (u_ctx s) (u_cpu s) (u_mem s) in Inr (s\<lparr>u_ctx := ctx, u_cpu := c, u_mem := m\<rparr>)"
  obtain L h where 3: "(let (t, s1) = uq_remove UReady ?s2 in rbind (uq_append UActive t s1) (?f t)) = ?f new (?s2\<lparr>u_lists := L, u_links := h\<rparr>)"
    "lists_ok h L (uqueues new rs')"
    using next_active [of ?s2 "?A(UActive := [], UReady := new # rs')" new rs' ?f] 2(2) by auto
  show ?thesis using 1(1) 2(1) 3 by (intro exI [of _ L] exI [of _ h]) (simp add: uthread_yield_def split_beta Let_def)
qed

lemma uthread_yield_ok:
  assumes ok: "uthreads_ok s cur rs R C" and new: "rs @ [cur] = new # rs'" and C': "C' = C(cur := (u_cpu s)\<lparr>r_eip := n_label e\<rparr>)"
  shows "\<exists>s'. uthread_yield e s = Inr s' \<and> uthreads_ok s' new rs' R C' \<and> u_cpu s' = C' new \<and>
    (\<forall>w. w < fst (R cur) \<or> snd (R cur) \<le> w \<longrightarrow> u_mem s' w = u_mem s w)"
proof -
  have ls: "lists_ok (u_links s) (u_lists s) (uqueues cur rs)" and ap: "regions_apart R (set (cur # rs))"
    and su: "\<forall>t\<in>set rs. suspended s R C t" and sp: "fst (R cur) + 40 \<le> r_esp (u_cpu s)" "r_esp (u_cpu s) \<le> snd (R cur)"
    using ok by (simp_all add: uthreads_ok_def)
  obtain L h where y: "uthread_yield e s =
      (let (ctx, c, m) = arch_switch_to_uthread (n_label e) cur new (u_ctx s) (u_cpu s) (u_mem s)
       in Inr (s\<lparr>u_lists := L, u_links := h, u_ctx := ctx, u_cpu := c, u_mem := m\<rparr>))" and ls': "lists_ok h L (uqueues new rs')"
    using yield_queues [OF ls new] by blast
  obtain ctx c m where sw: "arch_switch_to_uthread (n_label e) cur new (u_ctx s) (u_cpu s) (u_mem s) = (ctx, c, m)" by (metis prod_cases3)
  have e40: "40 \<le> r_esp (u_cpu s)" using sp(1) by simp
  note k = switch_saves [OF e40 sw]
  let ?s = "s\<lparr>u_lists := L, u_links := h, u_ctx := ctx, u_cpu := c, u_mem := m\<rparr>"
  have cur: "cur \<notin> set rs" using lists_okD(2) [OF ls, of UActive UReady] by (simp add: uqueues_def)
  have frame: "m w = u_mem s w" if "w < fst (R cur) \<or> snd (R cur) \<le> w" for w by (rule k(3)) (use that sp in auto)
  have sus: "suspended ?s R C' t" if t: "t \<in> set (cur # rs)" for t
  proof (cases "t = cur")
    case True
    then show ?thesis using k(1,2) sp by (auto simp: suspended_def C')
  next
    case False
    then have tr: "t \<in> set rs" using t by simp
    then have st: "saved (u_ctx s t) (C t) (u_mem s)" "fst (R t) \<le> u_ctx s t" "u_ctx s t + 40 \<le> snd (R t)" using su by (auto simp: suspended_def)
    have "snd (R t) \<le> fst (R cur) \<or> snd (R cur) \<le> fst (R t)" using ap tr False by (auto simp: regions_apart_def)
    then have "saved (u_ctx s t) (C t) m" using st by (intro saved_frame [OF st(1)] frame) auto
    then show ?thesis using st False k(1) by (simp add: suspended_def C')
  qed
  have set_new: "set (new # rs') = set (cur # rs)" unfolding new [symmetric] by simp
  then have sn: "suspended ?s R C' new" by (metis sus list.set_intros(1))
  have c: "c = C' new" by (rule k(4)) (use sn in \<open>simp add: suspended_def\<close>)
  have esp: "fst (R new) + 40 \<le> r_esp c" "r_esp c \<le> snd (R new)" unfolding c using sn by (simp_all add: suspended_def saved_def)
  have "\<forall>t\<in>set rs'. suspended ?s R C' t" using sus set_new by (metis list.set_intros(2))
  then have "uthreads_ok ?s new rs' R C'" unfolding uthreads_ok_def set_new using ls' ap esp by simp
  then show ?thesis using y sw c frame by (intro exI [of _ ?s]) (simp add: Let_def)
qed

text \<open>Histories: the active thread computes on its registers and in its own stack, or it yields. The yields are counted, and \<open>C\<close> records for every thread the
  registers with which it has to continue: a yield enters there those the yielding thread has at that moment, with the address behind the switch to continue at.\<close>

definition u_cur :: "ust \<Rightarrow> nat" where
  "u_cur s = list_get (u_lists s UActive) LIST_FIRST (u_links s)"

definition computes :: "(nat \<Rightarrow> nat \<times> nat) \<Rightarrow> ust \<Rightarrow> ust \<Rightarrow> bool" where
  "computes R s s' \<longleftrightarrow>
     (\<exists>c m. s' = s\<lparr>u_cpu := c, u_mem := m\<rparr> \<and> fst (R (u_cur s)) + 40 \<le> r_esp c \<and> r_esp c \<le> snd (R (u_cur s)) \<and>
        (\<forall>w. w < fst (R (u_cur s)) \<or> snd (R (u_cur s)) \<le> w \<longrightarrow> m w = u_mem s w))"

definition at_yield :: "uenv \<Rightarrow> ust \<Rightarrow> (nat \<Rightarrow> cpu) \<Rightarrow> nat \<Rightarrow> cpu" where
  "at_yield e s C = C(u_cur s := (u_cpu s)\<lparr>r_eip := n_label e\<rparr>)"

inductive uhistory :: "uenv \<Rightarrow> (nat \<Rightarrow> nat \<times> nat) \<Rightarrow> ust \<Rightarrow> (nat \<Rightarrow> cpu) \<Rightarrow> nat \<Rightarrow> ust \<Rightarrow> (nat \<Rightarrow> cpu) \<Rightarrow> bool" for e R s C where
  start: "uhistory e R s C 0 s C"
| compute: "uhistory e R s C k s1 C1 \<Longrightarrow> computes R s1 s2 \<Longrightarrow> uhistory e R s C k s2 C1"
| yields: "uhistory e R s C k s1 C1 \<Longrightarrow> uthread_yield e s1 = Inr s2 \<Longrightarrow> uhistory e R s C (Suc k) s2 (at_yield e s1 C1)"

lemma u_cur_eq: "uthreads_ok s cur rs R C \<Longrightarrow> u_cur s = cur"
  using lists_ok_get [of "u_links s" "u_lists s" "uqueues cur rs" UActive] by (simp add: u_cur_def uthreads_ok_def uqueues_def)

lemma computes_ok:
  assumes ok: "uthreads_ok s cur rs R C" and c: "computes R s s'"
  shows "uthreads_ok s' cur rs R C"
proof -
  obtain c m where s': "s' = s\<lparr>u_cpu := c, u_mem := m\<rparr>" "fst (R cur) + 40 \<le> r_esp c" "r_esp c \<le> snd (R cur)"
    "\<forall>w. w < fst (R cur) \<or> snd (R cur) \<le> w \<longrightarrow> m w = u_mem s w" using c unfolding computes_def u_cur_eq [OF ok] by blast
  have cur: "cur \<notin> set rs" using lists_okD(2) [of "u_links s" "u_lists s" "uqueues cur rs" UActive UReady] ok by (simp add: uthreads_ok_def uqueues_def)
  have "suspended s' R C t" if t: "t \<in> set rs" for t
  proof -
    have st: "saved (u_ctx s t) (C t) (u_mem s)" "fst (R t) \<le> u_ctx s t" "u_ctx s t + 40 \<le> snd (R t)"
      using ok t by (auto simp: uthreads_ok_def suspended_def)
    have "snd (R t) \<le> fst (R cur) \<or> snd (R cur) \<le> fst (R t)" using ok t cur by (auto simp: uthreads_ok_def regions_apart_def)
    then have "saved (u_ctx s t) (C t) m" using st s'(4) by (intro saved_frame [OF st(1)]) auto
    then show ?thesis using st s'(1) by (simp add: suspended_def)
  qed
  then show ?thesis using ok s'(1-3) by (simp add: uthreads_ok_def)
qed

text \<open>In a round the next thread is the first of the others.\<close>

lemma next_in_round: "tl (rotate k (x # xs)) @ [hd (rotate k (x # xs))] = hd (rotate (Suc k) (x # xs)) # tl (rotate (Suc k) (x # xs))"
proof -
  have "tl q @ [hd q] = hd (rotate1 q) # tl (rotate1 q)" if "q \<noteq> []" for q :: "'a list" using that by (cases q) (auto simp: neq_Nil_conv)
  moreover have "rotate k (x # xs) \<noteq> []" by simp
  moreover have "rotate (Suc k) (x # xs) = rotate1 (rotate k (x # xs))" by (simp add: rotate_def)
  ultimately show ?thesis by presburger
qed

lemma uhistory_ok:
  assumes ok: "uthreads_ok s cur rs R C" and h: "uhistory e R s C k s' C'"
  shows "uthreads_ok s' (hd (rotate k (cur # rs))) (tl (rotate k (cur # rs))) R C'"
  using h
proof induction
  case start
  then show ?case using ok by simp
next
  case (compute k s1 C1 s2)
  then show ?case using computes_ok by blast
next
  case (yields k s1 C1 s2)
  obtain s3 where "uthread_yield e s1 = Inr s3" "uthreads_ok s3 (hd (rotate (Suc k) (cur # rs))) (tl (rotate (Suc k) (cur # rs))) R (at_yield e s1 C1)"
    using uthread_yield_ok [OF yields.IH next_in_round refl, of e] unfolding at_yield_def u_cur_eq [OF yields.IH] by blast
  then show ?case using yields.hyps by simp
qed

text \<open>C25. User threads take turns and keep their registers: in every history of computing and yielding, after \<open>k\<close> yields the active thread is the one \<open>k\<close>
  places further in the round and the others are ready in their order, suspended with the registers \<open>C'\<close> that the history recorded. A yield then returns, and the
  next thread continues with exactly the registers recorded for it: those it had at its own last yield, or those it started with when it has not yielded yet.\<close>

theorem uthreads_round_robin:
  assumes "uthreads_ok s cur rs R C" and "uhistory e R s C k s' C'"
  shows "uthreads_ok s' ((cur # rs) ! (k mod Suc (length rs))) (tl (rotate k (cur # rs))) R C' \<and>
    u_cur s' = (cur # rs) ! (k mod Suc (length rs)) \<and>
    (\<exists>s''. uthread_yield e s' = Inr s'' \<and> u_cur s'' = (cur # rs) ! (Suc k mod Suc (length rs)) \<and> u_cpu s'' = at_yield e s' C' (u_cur s''))"
proof -
  have at: "hd (rotate j (cur # rs)) = (cur # rs) ! (j mod Suc (length rs))" for j using hd_rotate_conv_nth [of "cur # rs" j] by simp
  note ok = uhistory_ok [OF assms]
  obtain s'' where y: "uthread_yield e s' = Inr s''" "u_cpu s'' = at_yield e s' C' (hd (rotate (Suc k) (cur # rs)))"
    "uthreads_ok s'' (hd (rotate (Suc k) (cur # rs))) (tl (rotate (Suc k) (cur # rs))) R (at_yield e s' C')"
    using uthread_yield_ok [OF ok next_in_round refl, of e] unfolding at_yield_def u_cur_eq [OF ok] by blast
  show ?thesis using ok y(1,2) u_cur_eq [OF ok] u_cur_eq [OF y(3)] unfolding at by (intro conjI exI [of _ s'']) simp_all
qed

text \<open>Thread 500 is active, 600 ready; their stacks are at 1000 and at 3000.\<close>

definition u_demo :: ust where
  "u_demo =
     \<lparr>u_next_id = 2, u_lists = (\<lambda>q. case q of UActive \<Rightarrow> \<lparr>first = 500, last = 500\<rparr> | UReady \<Rightarrow> \<lparr>first = 600, last = 600\<rparr>),
      u_links = (\<lambda>x. \<lparr>prev = 0, next = 0, object = x\<rparr>), u_id = (\<lambda>t. 0), u_ctx = (\<lambda>t. 3952), u_stack = (\<lambda>t. 3000),
      u_mem = (\<lambda>w. if w = 3988 then 77 else 0), u_cpu = fresh_cpu 88 1900\<rparr>"

lemma u_demo_ok:
  "uthreads_ok u_demo 500 [600] (\<lambda>t. if t = 500 then (1000, 2000) else (3000, 4000)) (\<lambda>t. fresh_cpu 77 3992\<lparr>r_eflags := 0\<rparr>)"
proof -
  have d: "dl_list (u_links u_demo) (u_lists u_demo q) (uqueues 500 [600] q)" for q by (cases q) (simp_all add: u_demo_def uqueues_def dl_list_def)
  have "set (uqueues 500 [600] q) \<inter> set (uqueues 500 [600] r) = {}" if "q \<noteq> r" for q r using that by (cases q; cases r) (auto simp: uqueues_def)
  moreover have "object (u_links u_demo x) = x" for x by (simp add: u_demo_def)
  ultimately have "lists_ok (u_links u_demo) (u_lists u_demo) (uqueues 500 [600])" using d by (simp add: lists_ok_def)
  then show ?thesis by (simp add: uthreads_ok_def regions_apart_def suspended_def saved_def u_demo_def fresh_cpu_def)
qed

definition u_demo_env :: uenv where
  "u_demo_env = \<lparr>n_pool = 4096, n_mpool = 4096, n_main = 500, n_stack_size = 1000, n_exit = 99, n_label = 98, n_tmp = 501\<rparr>"

text \<open>Thread 500 yields to 600, which sets \<^verbatim>\<open>eax\<close> to 5 and yields; 500 continues with its own registers.\<close>

theorem uthreads_round_robin_witness:
  "\<exists>s1 s2. uthread_yield u_demo_env u_demo = Inr s1 \<and> u_cur s1 = 600 \<and> u_cpu s1 = fresh_cpu 77 3992\<lparr>r_eflags := 0\<rparr> \<and>
     uthread_yield u_demo_env (s1\<lparr>u_cpu := (u_cpu s1)\<lparr>r_eax := 5\<rparr>\<rparr>) = Inr s2 \<and> u_cur s2 = 500 \<and> u_cpu s2 = (fresh_cpu 88 1900)\<lparr>r_eip := 98\<rparr>"
proof -
  let ?e = u_demo_env and ?R = "\<lambda>t :: nat. if t = 500 then (1000, 2000) else (3000, 4000 :: nat)" and ?C = "\<lambda>t :: nat. fresh_cpu 77 3992\<lparr>r_eflags := 0\<rparr>"
  have turn: "[500, 600 :: nat] ! (0 mod Suc (length [600 :: nat])) = 500" "[500, 600 :: nat] ! (Suc 0 mod Suc (length [600 :: nat])) = 600"
    "[500, 600 :: nat] ! (Suc (Suc 0) mod Suc (length [600 :: nat])) = 500" by simp_all
  note h0 = uhistory.start [of ?e ?R u_demo ?C]
  obtain s1 where 1: "uthread_yield ?e u_demo = Inr s1" "u_cur s1 = 600" "u_cpu s1 = at_yield ?e u_demo ?C 600"
    using uthreads_round_robin [OF u_demo_ok h0] unfolding turn by fastforce
  have cpu1: "u_cpu s1 = ?C 600" using 1(3) u_cur_eq [OF u_demo_ok] by (simp add: at_yield_def)
  let ?s1 = "s1\<lparr>u_cpu := (u_cpu s1)\<lparr>r_eax := 5\<rparr>\<rparr>"
  have "?s1 = s1\<lparr>u_cpu := (u_cpu s1)\<lparr>r_eax := 5\<rparr>, u_mem := u_mem s1\<rparr>" by simp
  moreover have "r_esp ((u_cpu s1)\<lparr>r_eax := 5\<rparr>) = 3992" unfolding cpu1 by (simp add: fresh_cpu_def)
  ultimately have c: "computes ?R s1 ?s1" unfolding computes_def 1(2) by (intro exI [of _ "(u_cpu s1)\<lparr>r_eax := 5\<rparr>"] exI [of _ "u_mem s1"]) simp
  have cur: "u_cur ?s1 = 600" using 1(2) by (simp add: u_cur_def)
  obtain s2 where 2: "uthread_yield ?e ?s1 = Inr s2" "u_cur s2 = 500" "u_cpu s2 = at_yield ?e ?s1 (at_yield ?e u_demo ?C) 500"
    using uthreads_round_robin [OF u_demo_ok uhistory.compute [OF uhistory.yields [OF h0 1(1)] c]] unfolding turn by fastforce
  have "u_cpu s2 = (fresh_cpu 88 1900)\<lparr>r_eip := 98\<rparr>"
    using 2(3) u_cur_eq [OF u_demo_ok] cur by (simp add: at_yield_def u_demo_def u_demo_env_def)
  then show ?thesis using 1(1,2) 2(1,2) cpu1 by blast
qed

section \<open>Creating and ending threads\<close>

lemma push_in_block:
  "gma_ok mp m \<Longrightarrow> (p, k) \<in> gma_blocks mp m \<Longrightarrow> p + 4 * length vs \<le> sp \<Longrightarrow> sp \<le> p + k \<Longrightarrow>
    gma_ok mp (snd (push vs sp m)) \<and> gma_blocks mp (snd (push vs sp m)) = gma_blocks mp m"
proof (induction vs arbitrary: sp m)
  case (Cons v vs)
  have l: "p + 4 * length vs \<le> sp - 4" "p \<le> sp - 4" "sp - 4 < p + k" "sp - 4 \<le> p + k" using Cons.prems(3,4) by auto
  have 1: "gma_ok mp (m(sp - 4 := v))" "gma_blocks mp (m(sp - 4 := v)) = gma_blocks mp m"
    using gma_store_law [OF Cons.prems(1,2) l(2,3)] by blast+
  from Cons.IH [OF 1(1), of "sp - 4"] show ?case unfolding 1(2) push.simps using Cons.prems(2) l by blast
qed simp

lemma gma_alloc_start:
  assumes "gma_ok mp m" "gma_fits req" "gma_alloc pool mp req m = Inr (p, m')"
  shows "gma_start mp m' = gma_start mp m" "p \<noteq> 0 \<Longrightarrow> gma_start mp m < p"
proof -
  obtain a cs F where g: "gpool m mp a cs F" "gma_start mp m = a" "mp \<noteq> 0" using assms(1) by (rule gma_okE)
  have mp: "mp = (if mp = 0 then pool else mp)" using g(3) by simp
  from gma_alloc_cases [OF g(1) mp assms(2) refl]
  show "gma_start mp m' = gma_start mp m" "p \<noteq> 0 \<Longrightarrow> gma_start mp m < p"
    using assms(3) g(2) gpool_chunks(1) by (elim disjE exE conjE; auto)+
qed

text \<open>The two allocations of \<^verbatim>\<open>create_uthread\<close>: two new blocks, apart from each other and from the live ones, whose contents stay.\<close>

lemma two_blocks:
  assumes "gma_ok mp m" "gma_fits j" "gma_fits n"
  obtains p m1 q m2 where "gma_alloc pool mp j m = Inr (p, m1)" "gma_alloc pool mp n m1 = Inr (q, m2)" "gma_ok mp m2"
    "p \<noteq> 0 \<and> q \<noteq> 0 \<longrightarrow> (\<exists>k\<ge>j. \<exists>l\<ge>n. gma_blocks mp m2 = {(p, k), (q, l)} \<union> gma_blocks mp m \<and> (q, l) \<notin> gma_blocks mp m \<and> (\<forall>i. (p, i) \<notin> gma_blocks mp m))"
    "\<forall>(b, i)\<in>gma_blocks mp m. \<forall>w. b \<le> w \<and> w < b + i \<longrightarrow> m2 w = m w"
proof -
  obtain p m1 where 1: "gma_alloc pool mp j m = Inr (p, m1)" "gma_ok mp m1" "p = 0 \<longrightarrow> m1 = m"
      "p \<noteq> 0 \<longrightarrow> (\<exists>k\<ge>j. (p, k) \<notin> gma_blocks mp m \<and> gma_blocks mp m1 = insert (p, k) (gma_blocks mp m))"
      "\<forall>(b, i)\<in>gma_blocks mp m. \<forall>w. b \<le> w \<and> w < b + i \<longrightarrow> m1 w = m w"
    using gma.alloc_law [OF assms(1,2), of pool] by blast
  obtain q m2 where 2: "gma_alloc pool mp n m1 = Inr (q, m2)" "gma_ok mp m2"
      "q \<noteq> 0 \<longrightarrow> (\<exists>l\<ge>n. (q, l) \<notin> gma_blocks mp m1 \<and> gma_blocks mp m2 = insert (q, l) (gma_blocks mp m1))"
      "\<forall>(b, i)\<in>gma_blocks mp m1. \<forall>w. b \<le> w \<and> w < b + i \<longrightarrow> m2 w = m1 w"
    using gma.alloc_law [OF 1(2) assms(3), of pool] by blast
  have "(p, i) \<notin> gma_blocks mp m" if "(p, k) \<notin> gma_blocks mp m" "gma_blocks mp m1 = insert (p, k) (gma_blocks mp m)" for i k
    using gma.block_unique [OF 1(2), of p i k] that by auto
  moreover have "\<forall>(b, i)\<in>gma_blocks mp m. \<forall>w. b \<le> w \<and> w < b + i \<longrightarrow> m2 w = m w"
    using 1(3-5) 2(4) by (cases "p = 0") fastforce+
  moreover have "\<exists>k\<ge>j. \<exists>l\<ge>n. gma_blocks mp m2 = {(p, k), (q, l)} \<union> gma_blocks mp m \<and> (q, l) \<notin> gma_blocks mp m \<and> (\<forall>i. (p, i) \<notin> gma_blocks mp m)"
    if nz: "p \<noteq> 0" "q \<noteq> 0"
  proof -
    obtain k where k: "j \<le> k" "(p, k) \<notin> gma_blocks mp m" "gma_blocks mp m1 = insert (p, k) (gma_blocks mp m)" using 1(4) nz by blast
    obtain l where l: "n \<le> l" "(q, l) \<notin> gma_blocks mp m1" "gma_blocks mp m2 = insert (q, l) (gma_blocks mp m1)" using 2(3) nz by blast
    show ?thesis using k l calculation(1) [OF k(2,3)] by (intro exI [of _ k] exI [of _ l] conjI allI) auto
  qed
  ultimately show thesis using 1(1) 2(1,2) by (intro that [of p m1 q m2]) blast+
qed

text \<open>C26. \<^verbatim>\<open>create_uthread\<close> takes two new blocks for descriptor and stack, makes the thread the last ready one, and prepares its stack so that the first switch to it calls the
  function with its parameter and returns to \<^verbatim>\<open>uthread_exit\<close>; the heap stays sound and the contents of all blocks that were live stay as they are. Only when the allocator
  has no memory for one of the two it fails, by writing through a null pointer.\<close>

theorem create_uthread_fresh:
  assumes ls: "lists_ok (u_links s) (u_lists s) (uqueues cur rs)" and ok: "gma_ok (n_mpool e) (u_mem s)" and n: "gma_fits (n_stack_size e)" "48 \<le> n_stack_size e"
    and live: "\<forall>t\<in>set (cur # rs). (\<exists>k. (t, k) \<in> gma_blocks (n_mpool e) (u_mem s)) \<or> t < gma_start (n_mpool e) (u_mem s)"
  shows "\<exists>thread stack m1 m2. gma_alloc (n_pool e) (n_mpool e) SIZEOF_UTHREAD (u_mem s) = Inr (thread, m1) \<and>
    gma_alloc (n_pool e) (n_mpool e) (n_stack_size e) m1 = Inr (stack, m2) \<and>
    (if thread = 0 \<or> stack = 0 then create_uthread e func prm s = Inl Out_of_bounds
     else \<exists>k l s'. create_uthread e func prm s = Inr (thread, s') \<and> lists_ok (u_links s') (u_lists s') (uqueues cur (rs @ [thread])) \<and>
       gma_ok (n_mpool e) (u_mem s') \<and> SIZEOF_UTHREAD \<le> k \<and> n_stack_size e \<le> l \<and>
       gma_blocks (n_mpool e) (u_mem s') = {(thread, k), (stack, l)} \<union> gma_blocks (n_mpool e) (u_mem s) \<and>
       saved (u_ctx s' thread) (fresh_cpu func (stack + n_stack_size e - 8)) (u_mem s') \<and> u_mem s' (stack + n_stack_size e - 8) = n_exit e \<and>
       u_mem s' (stack + n_stack_size e - 4) = prm \<and> stack \<le> u_ctx s' thread \<and> u_stack s' thread = stack \<and>
       (\<forall>(q, j)\<in>gma_blocks (n_mpool e) (u_mem s). \<forall>w. q \<le> w \<and> w < q + j \<longrightarrow> u_mem s' w = u_mem s w))"
proof -
  let ?mp = "n_mpool e" and ?n = "n_stack_size e" let ?B = "gma_blocks ?mp (u_mem s)"
  have f: "gma_fits SIZEOF_UTHREAD" by (simp add: gma_fits_def)
  obtain thread m1 stack m2 where g: "gma_alloc (n_pool e) ?mp SIZEOF_UTHREAD (u_mem s) = Inr (thread, m1)" "gma_alloc (n_pool e) ?mp ?n m1 = Inr (stack, m2)"
      "gma_ok ?mp m2"
      "thread \<noteq> 0 \<and> stack \<noteq> 0 \<longrightarrow> (\<exists>k\<ge>SIZEOF_UTHREAD. \<exists>l\<ge>?n. gma_blocks ?mp m2 = {(thread, k), (stack, l)} \<union> ?B \<and> (stack, l) \<notin> ?B \<and> (\<forall>i. (thread, i) \<notin> ?B))"
      "\<forall>(b, i)\<in>?B. \<forall>w. b \<le> w \<and> w < b + i \<longrightarrow> m2 w = u_mem s w"
    by (rule two_blocks [OF ok f n(1), where pool = "n_pool e"]) (rule that; assumption)
  show ?thesis
  proof (cases "thread = 0 \<or> stack = 0")
    case True
    then show ?thesis using g(1,2) by (simp add: create_uthread_def)
  next
    case False
    then obtain k l where k: "SIZEOF_UTHREAD \<le> k" "?n \<le> l" "gma_blocks ?mp m2 = {(thread, k), (stack, l)} \<union> ?B" "(stack, l) \<notin> ?B" "\<And>i. (thread, i) \<notin> ?B"
      using g(4) by auto
    obtain sp m3 where c: "arch_create_uthread_context func prm (n_exit e) stack ?n m2 = (sp, m3)" by fastforce
    note cc = create_context [OF n(2) c]
    have m3: "gma_ok ?mp m3" "gma_blocks ?mp m3 = gma_blocks ?mp m2"
      using push_in_block [OF g(3), of stack l "[prm, n_exit e, func, INIT_EFLAGS, 0, 0, 0, 0, 0, 0, 0, 0]" "stack + ?n"] k(2,3) n(2) c
      by (auto simp: arch_create_uthread_context_def)
    let ?s = "s\<lparr>u_stack := (u_stack s)(thread := stack), u_id := (u_id s)(thread := u_next_id s), u_ctx := (u_ctx s)(thread := sp), u_mem := m3,
        u_next_id := u_next_id s + 1\<rparr>"
    have "thread \<notin> set (cur # rs)" using live k(5) gma_alloc_start(2) [OF ok f g(1)] False by fastforce
    then have "thread \<notin> set (uqueues cur rs r)" for r by (cases r) (auto simp: uqueues_def)
    then obtain L h where ap: "uq_append UReady thread ?s = Inr (?s\<lparr>u_lists := (u_lists s)(UReady := L), u_links := h\<rparr>)"
        "lists_ok h ((u_lists s)(UReady := L)) ((uqueues cur rs)(UReady := uqueues cur rs UReady @ [thread]))"
      using uq_append_last [of ?s "uqueues cur rs" thread UReady] ls False by auto
    have q: "(uqueues cur rs)(UReady := uqueues cur rs UReady @ [thread]) = uqueues cur (rs @ [thread])"
      by (auto simp: uqueues_def fun_eq_iff split: uq.splits)
    have keep: "m3 w = u_mem s w" if b: "(q, j) \<in> ?B" "q \<le> w" "w < q + j" for q j w
    proof -
      have "q + j \<le> stack \<or> stack + l \<le> q" using gma.disjoint [OF g(3), of q j stack l] b(1) k(3,4) by auto
      then have "m3 w = m2 w" using b k(2) n(2) by (intro cc(5)) auto
      then show ?thesis using g(5) b by fastforce
    qed
    have run: "create_uthread e func prm s = Inr (thread, ?s\<lparr>u_lists := (u_lists s)(UReady := L), u_links := h\<rparr>)"
      using g(1,2) False c ap(1) by (simp add: create_uthread_def Let_def)
    show ?thesis
      by (rule exI [of _ thread], rule exI [of _ stack], rule exI [of _ m1], rule exI [of _ m2], intro conjI, rule g(1), rule g(2),
          subst if_not_P [OF False], rule exI [of _ k], rule exI [of _ l], rule exI, intro conjI, rule run)
        (use ap(2) q m3 k(1,2,3) cc n(2) keep in \<open>auto simp: insert_commute\<close>)
  qed
qed

text \<open>A program whose main thread, with its descriptor at 4, creates its first thread.\<close>

definition u_main :: "wmem \<Rightarrow> ust" where
  "u_main m = u_demo\<lparr>u_lists := (\<lambda>q. case q of UActive \<Rightarrow> \<lparr>first = 4, last = 4\<rparr> | UReady \<Rightarrow> list_init), u_mem := m\<rparr>"

lemma u_main_lists: "lists_ok (u_links (u_main m)) (u_lists (u_main m)) (uqueues 4 [])"
proof -
  have "dl_list (u_links (u_main m)) (u_lists (u_main m) q) (uqueues 4 [] q)" for q
    by (cases q) (simp_all add: u_main_def u_demo_def uqueues_def dl_list_def list_init_def)
  moreover have "set (uqueues 4 [] q) \<inter> set (uqueues 4 [] r) = {}" if "q \<noteq> r" for q r using that by (cases q; cases r) (auto simp: uqueues_def)
  moreover have "object (u_links (u_main m) x) = x" for x by (simp add: u_main_def u_demo_def)
  ultimately show ?thesis by (simp add: lists_ok_def)
qed

theorem create_uthread_fresh_witness:
  "\<exists>m thread stack m1 m2. gma_ok 4096 m \<and> gma_alloc 4096 4096 24 m = Inr (thread, m1) \<and> gma_alloc 4096 4096 1000 m1 = Inr (stack, m2) \<and>
    (if thread = 0 \<or> stack = 0 then create_uthread u_demo_env 77 5 (u_main m) = Inl Out_of_bounds
     else \<exists>s'. create_uthread u_demo_env 77 5 (u_main m) = Inr (thread, s') \<and> lists_ok (u_links s') (u_lists s') (uqueues 4 [thread]) \<and>
       u_mem s' (996 + stack) = 5)"
proof -
  obtain m where ok: "gma_ok 4096 m" using gma_demo by blast
  obtain a cs F where g: "gpool m 4096 a cs F" "gma_start 4096 m = a" using ok by (rule gma_okE)
  then have "gconf m 4096 a (extent cs)" using gtiledD(1) unfolding gpool_def by blast
  then have a: "128 \<le> a" using gconf_apart(5) [of m 4096 a "extent cs" 0 0] by (simp add: glev_def)
  have sel: "n_pool u_demo_env = 4096" "n_mpool u_demo_env = 4096" "n_stack_size u_demo_env = 1000" "u_mem (u_main m) = m"
    by (simp_all add: u_demo_env_def u_main_def)
  have live: "\<forall>t\<in>set [4]. (\<exists>k. (t, k) \<in> gma_blocks (n_mpool u_demo_env) (u_mem (u_main m))) \<or> t < gma_start (n_mpool u_demo_env) (u_mem (u_main m))"
    using a g(2) by (simp add: sel)
  have "gma_ok (n_mpool u_demo_env) (u_mem (u_main m))" "gma_fits (n_stack_size u_demo_env)" "48 \<le> n_stack_size u_demo_env"
    using ok by (simp_all add: sel gma_fits_def)
  note r = create_uthread_fresh [OF u_main_lists this live, of 77 5, unfolded sel append_Nil]
  show ?thesis using r ok by (elim exE conjE) (rule exI [of _ m], intro exI conjI, assumption, assumption, assumption, auto split: if_splits)
qed

section \<open>Ending a thread\<close>

text \<open>A user thread that ends releases its descriptor and its stack; the first ready thread becomes active and continues with its registers as they were
  saved, provided they are in a live block other than the two and apart from what the switch still pushes on the released stack.\<close>

lemma uthread_exit_resumes:
  assumes ls: "lists_ok (u_links s) (u_lists s) (uqueues cur (new # rs))" and ok: "gma_ok (n_mpool e) (u_mem s)"
    and b: "(cur, k) \<in> gma_blocks (n_mpool e) (u_mem s)" "(u_stack s cur, l) \<in> gma_blocks (n_mpool e) (u_mem s)" "u_stack s cur \<noteq> cur"
    and c: "saved (u_ctx s new) c (u_mem s)" "(q, j) \<in> gma_blocks (n_mpool e) (u_mem s)" "q \<le> u_ctx s new" "u_ctx s new + 40 \<le> q + j" "q \<notin> {cur, u_stack s cur}"
    and sp: "40 \<le> r_esp (u_cpu s)" "r_esp (u_cpu s) \<le> u_ctx s new \<or> u_ctx s new + 80 \<le> r_esp (u_cpu s)" and tmp: "n_tmp e \<noteq> new"
  shows "\<exists>s'. uthread_exit e s = Inr s' \<and> u_cpu s' = c \<and> lists_ok (u_links s') (u_lists s') (uqueues new rs)"
proof -
  let ?mp = "n_mpool e" let ?B = "gma_blocks ?mp (u_mem s)"
  obtain l1 h1 where 1: "uq_remove UActive s = (cur, s\<lparr>u_lists := (u_lists s)(UActive := l1), u_links := h1\<rparr>)" (is "_ = (_, ?s1)")
    "lists_ok h1 ((u_lists s)(UActive := l1)) ((uqueues cur (new # rs))(UActive := []))"
    using uq_remove_first [OF ls, of UActive cur "[]"] by (auto simp: uqueues_def)
  obtain m1 where m1: "gma_free (n_pool e) ?mp (u_stack s cur) (u_mem s) = Inr (0, m1)" "gma_ok ?mp m1" "gma_blocks ?mp m1 = ?B - {(u_stack s cur, l)}"
    "\<forall>(q, l)\<in>gma_blocks ?mp m1. \<forall>w. q \<le> w \<and> w < q + l \<longrightarrow> m1 w = u_mem s w" using gma_free_law [OF ok b(2)] by blast
  have "(cur, k) \<in> gma_blocks ?mp m1" using b m1(3) by auto
  from gma_free_law [OF m1(2) this] obtain m2 where m2: "gma_free (n_pool e) ?mp cur m1 = Inr (0, m2)" "gma_blocks ?mp m2 = gma_blocks ?mp m1 - {(cur, k)}"
    "\<forall>(q, l)\<in>gma_blocks ?mp m2. \<forall>w. q \<le> w \<and> w < q + l \<longrightarrow> m2 w = m1 w" by blast
  have live: "(q, j) \<in> gma_blocks ?mp m2" "(q, j) \<in> gma_blocks ?mp m1" using c(2,5) m1(3) m2(2) by auto
  have same: "m2 w = u_mem s w" if "u_ctx s new \<le> w" "w < u_ctx s new + 40" for w
    using m1(4) m2(3) live c(3,4) that by fastforce
  let ?s2 = "?s1\<lparr>u_ctx := (u_ctx s)(n_tmp e := u_ctx s cur), u_mem := m2\<rparr>"
  let ?f = "\<lambda>t s. let (ctx, c, m) = arch_switch_to_uthread (n_label e) (n_tmp e) t (u_ctx s) (u_cpu s) (u_mem s) in Inr (s\<lparr>u_ctx := ctx, u_cpu := c, u_mem := m\<rparr>)"
  obtain L h where 3: "(let (t, s1) = uq_remove UReady ?s2 in rbind (uq_append UActive t s1) (?f t)) = ?f new (?s2\<lparr>u_lists := L, u_links := h\<rparr>)"
    "lists_ok h L (uqueues new rs)"
    using next_active [of ?s2 "(uqueues cur (new # rs))(UActive := [])" new rs ?f] 1(2) by (auto simp: uqueues_def)
  obtain ctx c' m3 where sw: "arch_switch_to_uthread (n_label e) (n_tmp e) new (u_ctx ?s2) (u_cpu s) m2 = (ctx, c', m3)" by (metis prod_cases3)
  note k = switch_saves [OF sp(1) sw]
  have "ctx new = u_ctx s new" using k(1) tmp by simp
  moreover have "saved (u_ctx s new) c m3" by (rule saved_frame [OF c(1)]) (use k(3) same sp in auto)
  ultimately have "c' = c" using k(4) by simp
  moreover have "uthread_exit e s = Inr (?s2\<lparr>u_lists := L, u_links := h, u_ctx := ctx, u_cpu := c', u_mem := m3\<rparr>)"
    using 1(1) m1(1) m2(1) 3(1) sw by (simp add: uthread_exit_def split_beta Let_def)
  ultimately show ?thesis using 3(2) by simp
qed

end
