(* ===== verification/Spec2Isabelle.thy ===== *)
theory Spec2Isabelle
  imports Os_Syscall Os_Descriptors Os_Link Os_Shell Os_Uthread
begin

text \<open>
  \<^bold>\<open>A verification of SimpleOperatingSystem, its kernel and its user library\<close> (\<^verbatim>\<open>src/Extensions/On_08_06_Schedulers\<close>, the last stage of the system,
  which contains all earlier ones). Paths below are relative to that directory.

  \<^bold>\<open>The program.\<close> A small kernel for i386. A program enters it by the software interrupt with the number of a system call and the
  address of its parameters above its stack pointer (\<^verbatim>\<open>kernel/syscall.c\<close>); devices enter it by their interrupts
  (\<^verbatim>\<open>arch/i386/arch/interrupts.c\<close>, \<^verbatim>\<open>i8259.c\<close>). The kernel runs with interrupts disabled, so an entry is one
  function on the state. Threads (\<^verbatim>\<open>kernel/thread.c\<close>) are in exactly one queue or active; a call that blocks puts the active thread
  into the queue of an object, a call that releases moves threads from such a queue to the ready queue of their priority, and both end with
  \<^verbatim>\<open>kthreads_schedule\<close>, which makes the first thread of the highest priority active, with the help of a secondary scheduler
  (\<^verbatim>\<open>kernel/sched.c\<close>, \<^verbatim>\<open>sched_rr.c\<close>). Semaphores, monitors, messages, alarms, joining and device locks use these two
  operations. Objects live in a kernel heap served by \<^verbatim>\<open>lib/mm/ff_simple.c\<close>; processes allocate with \<^verbatim>\<open>lib/mm/gma.c\<close>. Alarms rest on
  \<^verbatim>\<open>arch/i386/arch/time.c\<close>, which extends the 16-bit counter of \<^verbatim>\<open>i8253.c\<close> to arbitrary delays. Processes are confined by
  segment descriptors (\<^verbatim>\<open>descriptors.c\<close>). Programs call the kernel through the library \<^verbatim>\<open>programs/api\<close>; two of them have logic of
  their own, the shell (\<^verbatim>\<open>programs/shell\<close>) and threads switched inside of a process (\<^verbatim>\<open>programs/user_threads\<close>). The model is of the kernel as the build makes it: \<^verbatim>\<open>DEBUG\<close>, so that \<^verbatim>\<open>ASSERT\<close> is
  checked, first fit for the kernel heap, the devices VGA_TEXT, I8042, I8259, I8253 and UART.

  \<^bold>\<open>How it is modelled.\<close> A routine that may halt the machine is a function into \<open>'a res\<close>, a sum whose left part says why (\<open>Os_Base\<close>: a failed
  \<^verbatim>\<open>ASSERT\<close>, \<^verbatim>\<open>halt\<close>, an access outside an array, exhausted fuel); error codes that the kernel returns are ordinary results. The
  state of the kernel is the record \<open>kst\<close> of \<open>Os_State\<close>: descriptors of threads, processes, semaphores, monitors, messages, alarms and devices as
  typed heaps indexed by address, the list cells of thread queues, the words of the kernel heap, and the bytes of process memory. \<open>'p mach\<close>
  (\<open>Os_Devices\<close>) adds the states of the drivers and the hardware behind the ports, which is a parameter: a port interface \<open>'p\<close> with a
  function to read and one to write.

  \<^bold>\<open>Theories.\<close>
  \<^item> \<open>Os_Base\<close>: results, errors, widths of integers, memory of words and bytes, shared lemmas.
  \<^item> \<open>Os_List\<close> (\<^verbatim>\<open>lib/list.c\<close>): doubly linked lists in a heap implement sequences. \<open>Os_Time\<close> (\<^verbatim>\<open>lib/types.h\<close>): time arithmetic in C \<^verbatim>\<open>int\<close>s, exact in
    nanoseconds unless the seconds overflow; \<open>time_t\<close> is an instance of \<open>linorder\<close>. \<open>Os_Bits\<close> (\<^verbatim>\<open>lib/bits_generic.h\<close>, \<^verbatim>\<open>arch/bits.h\<close>): all searches for the highest set
    bit agree. \<open>Os_String\<close> (\<^verbatim>\<open>lib/string.c\<close>).
  \<^item> \<open>Os_Alloc\<close>: the locale \<open>allocator\<close>, what a client may rely on (it may store into its blocks), and what follows for every history of requests. \<open>Os_Chunks\<close>: sequences of chunks that
    tile a segment. \<open>Os_FirstFit\<close> (\<^verbatim>\<open>lib/mm/ff_simple.c\<close>, the kernel heap): boundary tags and free list on 32-bit words; interprets the locale as \<open>ffs\<close>.
    \<open>Os_Gma\<close> (\<^verbatim>\<open>lib/mm/gma.c\<close>, \<^verbatim>\<open>gma.h\<close>, \<^verbatim>\<open>malloc\<close> of the processes): the operations, classes of sizes, bitmaps and lists; \<open>Os_Grid\<close>: whole pools, the
    interpretation \<open>gma\<close>, the guarantee of good fit.
  \<^item> \<open>Os_Timer\<close> (\<^verbatim>\<open>arch/time.c\<close>, \<^verbatim>\<open>i8253.c\<close>): the locale \<open>timer_device\<close> and its interpretation \<open>pit\<close>; a delay is reported after finitely many
    interrupts, or the machine stops when a remainder is left that the device refuses.
  \<^item> \<open>Os_Segments\<close>, \<open>Os_Descriptors\<close> (\<^verbatim>\<open>arch/descriptors.c\<close>, \<^verbatim>\<open>context.c\<close>): descriptors bit by bit; what a process can reach.
  \<^item> \<open>Os_Ids\<close> (\<^verbatim>\<open>kernel/memory.c\<close>): unique identifiers.
  \<^item> \<open>Os_State\<close>: the state and the thread queues. \<open>Os_Sched\<close> (\<^verbatim>\<open>kernel/thread.c\<close>, \<^verbatim>\<open>sched.c\<close>, \<^verbatim>\<open>sched_rr.c\<close>, the list of alarms of
    \<^verbatim>\<open>kernel/time.c\<close>): creation of threads and \<open>kthreads_schedule\<close>, which calls the round robin scheduler, which sets alarms, which may
    reschedule.
  \<^item> \<open>Os_Inv\<close>, \<open>Os_Calls\<close>: the invariant \<open>kinv s A i\<close> (the queues hold the threads \<open>A\<close>, a thread is in one queue and its state and the bit mask agree
    with that, \<open>i\<close> is the idle thread, the active thread has the highest priority) and its weaker form \<open>sched_pre\<close> that holds before scheduling; what blocking and
    releasing do. \<open>Os_Fair\<close>: the locale \<open>wait_service\<close>, which states this contract for the components above, its
    interpretation \<open>kwait\<close>, and the order of service in histories, in which every call returns and every release serves the first that waits. \<open>Os_Demo\<close>: a concrete kernel state for the witnesses.
  \<^item> \<open>Os_Sem\<close>, \<open>Os_Monitor\<close>, \<open>Os_Messages\<close>, \<open>Os_Alarm\<close>, \<open>Os_Thread\<close>: the system calls of \<^verbatim>\<open>kernel/semaphore.c\<close>, \<^verbatim>\<open>monitor.c\<close>, \<^verbatim>\<open>messages.c\<close>,
    \<^verbatim>\<open>time.c\<close>, \<^verbatim>\<open>thread.c\<close> and \<^verbatim>\<open>sched.c\<close>, with an abstract specification and a refinement theorem for semaphores, monitors, messages.
    \<open>Os_Steps\<close>: histories of semaphore and monitor calls as a step relation, with the invariant of all reachable states.
  \<^item> \<open>Os_Ring\<close>, \<open>Os_Keyboard\<close>, \<open>Os_Uart\<close>, \<open>Os_Vga\<close>: the drivers; the locale \<open>ring_buffer\<close> is interpreted by the buffers of the keyboard and the serial port.
  \<^item> \<open>Os_Devices\<close> (\<^verbatim>\<open>kernel/devices.c\<close>, \<^verbatim>\<open>arch/interrupts.c\<close>, \<^verbatim>\<open>i8259.c\<close>), \<open>Os_Memory\<close> (\<^verbatim>\<open>kernel/kprint.c\<close>, \<^verbatim>\<open>memory.c\<close>), \<open>Os_Syscall\<close>
    (\<^verbatim>\<open>kernel/syscall.c\<close>, \<^verbatim>\<open>startup.c\<close>): the machine, the table of system calls, the start. This theory: system calls from the interrupt to
    the return to user mode.
  \<^item> \<open>Os_Format\<close>: \<open>itoa\<close> of \<open>Os_String\<close> against a definition of numerals; what it writes can be read back. \<open>Os_Api\<close> (\<^verbatim>\<open>programs/api\<close>): the library
    over a record \<open>process\<close>, which says what the system calls do to a world \<open>'w\<close> and where the memory of the process is in it; the locale \<open>console\<close> says what printing expects of
    the system and shows that \<open>print\<close> then locks the terminal, sends the text of its format and unlocks it; waiting calls are repeated, \<open>delay\<close> sets the alarm. \<open>Os_Link\<close>: that record made
    of the kernel's own table of system calls, so that each function of the library reaches its routine of the kernel; with a terminal of the display driver, and a log
    of calls (\<open>traced\<close>), the kernel is the interpretation \<open>kcon\<close> of \<open>console\<close>. \<open>Os_Shell\<close> (\<^verbatim>\<open>programs/shell/shell.c\<close>): the shell; it splits a line into its words in place.
    \<open>Os_Uthread\<close> (\<^verbatim>\<open>programs/user_threads/uthread.c\<close>, \<^verbatim>\<open>arch/context.h\<close>): threads of a process with registers and stacks on its heap; they take turns
    and resume with the registers they had.

  \<^bold>\<open>Bounds.\<close> \<open>kthreads_schedule\<close> is recursive through the alarms of the round robin scheduler; its argument \<open>n\<close> bounds the depth and exhausting it is the
  error \<open>Out_of_fuel\<close>. For threads of the FIFO policy every depth \<open>Suc n\<close> suffices, and the theorems say that the calls return. Loops over
  lists have the fuel \<open>adr_space\<close> (\<open>2 ^ 32\<close>), more than there are objects at distinct addresses; the theorems show that it is
  enough where the loop ends, and \<open>zero_period_never_ends\<close> shows the one loop that does not. Integers that a
  program or a device can drive to their bounds (words of memory, sizes, semaphore values, message types, times) have the width of the C type: \<open>int32\<close> and \<open>uint32\<close> wrap.
  Overflow of signed integers is undefined in C; the model takes the wrap-around of the machine everywhere. Counters of objects (references to a descriptor, threads of a process, released threads), the coordinates of
  the cursor and priorities are mathematical integers.

  \<^bold>\<open>Hypotheses.\<close> The theorems about calls start from \<open>kinv\<close>, which is about threads of the FIFO policy: the round robin scheduler is modelled,
  but the invariant excludes its threads, because changing the priority of an active round robin thread enqueues it twice. Serving alarms is
  proved for alarms that only wake threads, once. Histories of requests to the allocators are only asked to be legal (sizes that do not wrap, releases of live blocks); that each request returns is proved.
  Theorems about time ask for a clock below the last second of its range. Handles that a program passes
  are assumed valid, since the kernel follows them unchecked.

  \<^bold>\<open>Not modelled.\<close> assembler files (a context switch of the kernel is the change of \<open>active_thread\<close>) and the instructions that load descriptor tables;
  \<^verbatim>\<open>prog_init\<close> of \<^verbatim>\<open>programs/api/prog_info.c\<close>, which calls \<open>gma_init\<close> and then code that the linker chooses; the demonstration programs under
  \<^verbatim>\<open>programs/\<close>, which only call the library (for the kernel, a process may change its memory arbitrarily between two entries); \<^verbatim>\<open>devices/null.c\<close> (not
  linked); texts of kernel messages to the console; \<^verbatim>\<open>lib/mm/test\<close>, a test on the host.
\<close>

section \<open>System calls through the interrupt\<close>

text \<open>The number of a call in the table of system calls and the address of its parameters.\<close>

fun call_no :: "call \<Rightarrow> nat" where
  "call_no (Sem_post p) = 21"
| "call_no (Sem_wait p) = 22"
| "call_no (Monitor_lock p) = 27"
| "call_no (Monitor_unlock p) = 28"
| "call_no (Monitor_wait p) = 29"
| "call_no (Monitor_signal p) = 30"
| "call_no (Monitor_broadcast p) = 31"

fun call_param :: "call \<Rightarrow> nat" where
  "call_param (Sem_post p) = p"
| "call_param (Sem_wait p) = p"
| "call_param (Monitor_lock p) = p"
| "call_param (Monitor_unlock p) = p"
| "call_param (Monitor_wait p) = p"
| "call_param (Monitor_signal p) = p"
| "call_param (Monitor_broadcast p) = p"

lemma k_sysfunc_call: "(k_sysfunc e ! call_no c) (call_param c) w = lift_k (do_call (e_n e) c) w"
  by (cases c) (simp_all add: k_sysfunc_def lift_k_def)

text \<open>The active thread has put the number and the parameters of the call on its stack.\<close>

definition stack_frame :: "call \<Rightarrow> kst \<Rightarrow> bool" where
  "stack_frame c s \<longleftrightarrow> (let x = t_context (kt s (active_thread s))
     in arch_syscall_get_id x s = Inr (int (call_no c)) \<and> arch_syscall_get_params x s = Inr (call_param c))"

definition in_kernel :: "kst \<Rightarrow> kst" where
  "in_kernel s = s\<lparr>prev_mode := new_mode s, new_mode := KERNEL_MODE\<rparr>"

lemma sync_inv_cong:
  assumes "sync_inv i S M s A" and "ql s' = ql s" "tq s' = tq s" "rdy_mask s' = rdy_mask s" "active_thread s' = active_thread s"
    "ksem s' = ksem s" "kmon s' = kmon s"
    and "\<And>t. t_state (kt s' t) = t_state (kt s t) \<and> t_prio (kt s' t) = t_prio (kt s t) \<and>
      t_policy (kt s' t) = t_policy (kt s t) \<and> t_queue (kt s' t) = t_queue (kt s t)"
  shows "sync_inv i S M s' A"
proof -
  have "kinv s' A i" by (rule kinv_cong [of s]) (use assms in \<open>simp_all add: sync_inv_def\<close>)
  then show ?thesis using assms(1,6,7) by (simp add: sync_inv_def abs_sem_def mon_ok_def)
qed

lemma in_kernel_handle: "handle_at p h k (in_kernel s) = handle_at p h k s"
  by (simp add: handle_at_def in_kernel_def user_ptr_def k_u2k_adr_def kthread_get_process_def or_active_def ptr_at_def)

lemma in_kernel_legal: "legal_call i S M c (in_kernel s) = legal_call i S M c s"
  by (cases c) (simp_all add: in_kernel_handle, simp_all add: in_kernel_def)

lemma in_kernel_frame: "stack_frame c s \<Longrightarrow> stack_frame c (in_kernel s)"
  by (simp add: stack_frame_def in_kernel_def arch_syscall_get_id_def arch_syscall_get_params_def k_u2k_adr_def int_at_def Let_def)

text \<open>\<^bold>\<open>C6\<close> A system call on semaphores or monitors that the active thread makes by the software interrupt goes through the interrupt handler and
  the dispatcher to the routine of the table, and returns to user mode; the result of the call is in the saved context of the
  thread that made it, whichever thread is active then; the interrupt controller is not touched, and the invariant holds.\<close>

theorem sync_call_by_interrupt:
  assumes I: "sync_inv i S M (ks w) A" and l: "legal_call i S M c (ks w)" and fr: "stack_frame c (ks w)" and n: "e_n e = Suc n"
    and reg: "ihandlers (ks w) SOFTWARE_INTERRUPT = [ih]" "ihandler (kih (ks w) ih) = K_syscall"
  shows "\<exists>w' A' r s1. arch_interrupt_handler e SOFTWARE_INTERRUPT w = Inr w' \<and> do_call (Suc n) c (in_kernel (ks w)) = Inr (r, s1) \<and>
    c_eax (t_context (kt (ks w') (active_thread (ks w)))) = r \<and> active_thread (ks w') = active_thread s1 \<and>
    new_mode (ks w') = USER_MODE \<and> prt w' = prt w \<and> sync_inv i S M (ks w') A'"
proof -
  let ?s = "in_kernel (ks w)" let ?t = "active_thread (ks w)" let ?x = "t_context (kt (ks w) ?t)"
  have I1: "sync_inv i S M ?s A" by (rule sync_inv_cong [OF I]) (simp_all add: in_kernel_def)
  have "legal_call i S M c ?s" using l by (simp add: in_kernel_legal)
  then obtain r s1 A1 where 1: "do_call (Suc n) c ?s = Inr (r, s1)" "sync_inv i S M s1 A1" using legal_call_returns [OF I1] by blast
  let ?s2 = "arch_syscall_set_retval ?t r s1"
  let ?w = "w\<lparr>ks := ?s2\<lparr>prev_mode := new_mode ?s2, new_mode := USER_MODE\<rparr>\<rparr>"
  have fr1: "arch_syscall_get_id ?x ?s = Inr (int (call_no c))" "arch_syscall_get_params ?x ?s = Inr (call_param c)"
    using in_kernel_frame [OF fr] by (simp_all add: stack_frame_def in_kernel_def Let_def)
  have no: "call_no c < 43" "call_no c \<noteq> 2" by (cases c; simp)+
  have act: "active_thread ?s = ?t" "kt ?s = kt (ks w)" by (simp_all add: in_kernel_def)
  have call: "(k_sysfunc e ! call_no c) (call_param c) (w\<lparr>ks := ?s\<rparr>) = Inr (r, w\<lparr>ks := s1\<rparr>)"
    unfolding k_sysfunc_call n lift_k_def using 1(1) by simp
  have sys: "k_syscall e SOFTWARE_INTERRUPT (w\<lparr>ks := ?s\<rparr>) = Inr (w\<lparr>ks := ?s2\<rparr>)"
    using fr1 no call by (simp add: k_syscall_def act Let_def)
  have h: "ihandler (kih ?s ih) = K_syscall" using reg(2) by (simp add: in_kernel_def)
  have "arch_interrupt_handler e SOFTWARE_INTERRUPT w = Inr ?w"
    using reg(1) sys h by (simp add: arch_interrupt_handler_def i8259_at_exit_def call_handler_def Let_def flip: in_kernel_def)
  moreover have "sync_inv i S M (ks ?w) A1"
    by (rule sync_inv_cong [OF 1(2)]) (simp_all add: arch_syscall_set_retval_def)
  ultimately show ?thesis using 1(1) by (intro exI [of _ ?w] exI [of _ A1] exI [of _ r] exI [of _ s1]) (simp add: arch_syscall_set_retval_def)
qed

text \<open>A concrete machine: the active thread waits for semaphore 5000; number and parameter of the call are above its stack pointer.\<close>

definition int_demo :: "unit mach" where
  "int_demo = \<lparr>ks = (demo (words_at [(65796, 22), (65800, 300), (65836, 5000)]) (QSem 5000))
       \<lparr>ihandlers := \<lambda>i. if i = SOFTWARE_INTERRUPT then [40] else [], kih := \<lambda>_. \<lparr>ih_device = 0, ihandler = K_syscall\<rparr>\<rparr>,
     kbd_st = kbd_start, uart_st = com1_params, vga_st = undefined, prt = ()\<rparr>"

theorem sync_call_by_interrupt_witness:
  "\<exists>w' A'. arch_interrupt_handler (undefined\<lparr>e_n := 1\<rparr>) SOFTWARE_INTERRUPT int_demo = Inr w' \<and> c_eax (t_context (kt (ks w') 2000)) = 0 \<and>
     sync_inv 1000 {5000} {6000} (ks w') A'"
proof -
  let ?s = "ks int_demo" and ?D = "demo_queues (QSem 5000)" and ?e = "undefined\<lparr>e_n := Suc 0\<rparr> :: unit env"
  have k: "kinv ?s ?D 1000" unfolding int_demo_def by (simp, rule kinv_cong [OF demo_kinv]) simp_all
  have I: "sync_inv 1000 {5000} {6000} ?s ?D" using k by (simp add: sync_inv_def sem_inv_def abs_sem_def mon_ok_def int_demo_def)
  have h: "handle_at 65800 65836 5000 ?s"
    by (simp add: handle_at_def int_demo_def user_ptr_def k_u2k_adr_def kthread_get_process_def or_active_def ptr_at_def words_at_def
        ld32_st32_same ld32_st32_other)
  have l: "legal_call 1000 {5000} {6000} (Sem_wait 65800) ?s" using h by (auto simp: int_demo_def)
  have fr: "stack_frame (Sem_wait 65800) ?s"
    by (simp add: stack_frame_def int_demo_def arch_syscall_get_id_def arch_syscall_get_params_def k_u2k_adr_def int_at_def words_at_def
        ld32_st32_same ld32_st32_other demo_def demo_thread_def)
  have n: "e_n ?e = Suc 0" by simp
  have reg: "ihandlers ?s SOFTWARE_INTERRUPT = [40]" "ihandler (kih ?s 40) = K_syscall" by (simp_all add: int_demo_def)
  obtain w' A' r s1 where 1: "arch_interrupt_handler ?e SOFTWARE_INTERRUPT int_demo = Inr w'" "do_call (Suc 0) (Sem_wait 65800) (in_kernel ?s) = Inr (r, s1)"
    "c_eax (t_context (kt (ks w') (active_thread ?s))) = r" "sync_inv 1000 {5000} {6000} (ks w') A'"
    using sync_call_by_interrupt [OF I l fr n reg] by blast
  have "kinv (in_kernel ?s) ?D 1000" by (rule kinv_cong [OF k]) (simp_all add: in_kernel_def)
  moreover have "handle_at 65800 65836 5000 (in_kernel ?s)" using h by (simp add: in_kernel_handle)
  moreover have "active_thread (in_kernel ?s) \<noteq> 1000" "ksem (in_kernel ?s) 5000 < 2 ^ 31" by (simp_all add: in_kernel_def int_demo_def)
  ultimately have "\<exists>s'. sys__sem_wait (Suc 0) 65800 (in_kernel ?s) = Inr (0, s')" using sem_wait_ok by blast
  then have "r = 0" using 1(2) by auto
  moreover have "active_thread ?s = 2000" by (simp add: int_demo_def)
  ultimately show ?thesis using 1 by auto
qed

end
